(* ===== verification/Prelude.thy ===== *)
theory Prelude
  imports Main "HOL-Library.Word"
begin

unbundle bit_operations_syntax

text \<open>
  What every component of the model shares: the machine integers of the C++ code, the
  outcome of a binding (a result, a JavaScript exception, a failed assertion, an access
  outside an object), the bytes of a block of memory, and the collections of rewrite rules
  the component proofs are run with.
\<close>

named_theorems outcome_simps \<open>how an outcome propagates\<close>
named_theorems mem_simps \<open>reads and writes of a block of memory\<close>
named_theorems size_simps \<open>size_t values as natural numbers\<close>

section \<open>Machine integers\<close>

type_synonym u8 = "8 word"
type_synonym u16 = "16 word"
type_synonym u32 = "32 word"
type_synonym size_t = "64 word"

text \<open>
  A conversion from a signed \<open>int\<close> to \<open>size_t\<close> sign-extends: a negative value becomes a
  huge one. A conversion from \<open>size_t\<close> back to \<open>int\<close> keeps the low 32 bits.
\<close>

definition size_of_int :: "int \<Rightarrow> size_t" where
  "size_of_int i = word_of_int i"

definition int_of_size :: "size_t \<Rightarrow> int" where
  "int_of_size w = signed_take_bit 31 (uint w)"

definition int32_range :: "int \<Rightarrow> bool" where
  "int32_range i \<longleftrightarrow> - (2 ^ 31) \<le> i \<and> i < 2 ^ 31"

lemma unat_size_of_nat [size_simps]: "n < 2 ^ 64 \<Longrightarrow> unat (of_nat n :: size_t) = n"
  by (simp add: unat_of_nat take_bit_nat_eq_self)

lemma size_of_int_nat [size_simps]: "0 \<le> i \<Longrightarrow> size_of_int i = of_nat (nat i)"
  by (simp add: size_of_int_def)

lemma unat_size_of_int:
  assumes "0 \<le> i" "i < 2 ^ 64"
  shows "unat (size_of_int i) = nat i"
proof -
  have "nat i < 2 ^ 64" using assms by (simp add: nat_less_iff)
  then show ?thesis using assms by (simp only: size_simps)
qed

lemma uint_size_of_int_neg:
  assumes "- (2 ^ 63) \<le> i" "i < 0"
  shows "uint (size_of_int i) = 2 ^ 64 + i"
proof -
  have "uint (size_of_int i) = i mod 2 ^ 64"
    by (simp add: size_of_int_def uint_word_of_int)
  also have "i mod 2 ^ 64 = (i + 2 ^ 64) mod 2 ^ 64" by simp
  also have "\<dots> = i + 2 ^ 64" using assms by (intro mod_pos_pos_trivial) auto
  finally show ?thesis by simp
qed

lemma unat_size_of_int_neg:
  assumes "- (2 ^ 63) \<le> i" "i < 0"
  shows "2 ^ 63 \<le> unat (size_of_int i)"
proof -
  have "2 ^ 63 \<le> uint (size_of_int i)"
    using uint_size_of_int_neg [OF assms] assms by simp
  then have "int (2 ^ 63) \<le> int (unat (size_of_int i))"
    by (metis of_nat_numeral of_nat_power uint_nat)
  then show ?thesis by (simp only: of_nat_le_iff)
qed

lemma int_of_size_small [size_simps]:
  assumes "unat w < 2 ^ 31"
  shows "int_of_size w = int (unat w)"
proof -
  have "int (unat w) < int (2 ^ 31)" using assms by (simp only: of_nat_less_iff)
  then have "uint w < 2 ^ 31" by (simp only: uint_nat of_nat_power of_nat_numeral)
  moreover have "- (2 ^ 31) \<le> uint w"
    by (rule order_trans [OF _ uint_ge_0]) simp
  ultimately have "signed_take_bit 31 (uint w) = uint w"
    by (intro signed_take_bit_int_eq_self)
  then show ?thesis by (simp only: int_of_size_def uint_nat)
qed

lemma unat_size_of_int32:
  assumes "0 \<le> i" "int32_range i" shows "unat (size_of_int i) = nat i"
  using assms by (intro unat_size_of_int) (auto simp: int32_range_def)

lemma sint_size_of_int:
  assumes "int32_range i" shows "sint (size_of_int i) = i"
proof -
  have "sint (size_of_int i) = signed_take_bit 63 i"
    by (simp add: size_of_int_def signed_of_int)
  also have "signed_take_bit 63 i = i"
    using assms by (intro signed_take_bit_int_eq_self) (auto simp: int32_range_def)
  finally show ?thesis .
qed

lemma size_of_int32_less:
  assumes "0 \<le> i" "int32_range i"
  shows "w \<le> size_of_int i \<longleftrightarrow> int (unat w) \<le> i" "w < size_of_int i \<longleftrightarrow> int (unat w) < i"
  using unat_size_of_int32 [OF assms] assms(1)
  by (simp_all add: word_le_nat_alt word_less_nat_alt del: of_nat_unat) linarith+

lemma size_of_int_add: "size_of_int a + size_of_int b = size_of_int (a + b)"
  by (simp add: size_of_int_def)

lemma size_of_int_above:
  assumes "- (2 ^ 63) \<le> i" "i < 2 ^ 63" "0 \<le> n" "n < 2 ^ 31"
  shows "size_of_int n < size_of_int i \<longleftrightarrow> i < 0 \<or> n < i" "size_of_int n \<le> size_of_int i \<longleftrightarrow> i < 0 \<or> n \<le> i"
proof -
  have n: "unat (size_of_int n) = nat n" using assms by (intro unat_size_of_int) simp_all
  have i: "if i < 0 then 2 ^ 63 \<le> unat (size_of_int i) else unat (size_of_int i) = nat i"
    using assms unat_size_of_int_neg [of i] unat_size_of_int [of i] by simp
  show "size_of_int n < size_of_int i \<longleftrightarrow> i < 0 \<or> n < i" "size_of_int n \<le> size_of_int i \<longleftrightarrow> i < 0 \<or> n \<le> i"
    using i n assms by (auto simp: word_less_nat_alt word_le_nat_alt split: if_splits)
qed

lemma sint_small: "unat (w :: size_t) < 2 ^ 31 \<Longrightarrow> sint w = int (unat w)"
proof -
  assume a: "unat w < 2 ^ 31"
  then have "int (unat w) < int (2 ^ 31)" by (simp only: of_nat_less_iff)
  then have "int32_range (int (unat w))" by (simp add: int32_range_def del: of_nat_unat)
  then show ?thesis using sint_size_of_int [of "int (unat w)"]
    by (simp add: size_of_int_def)
qed

section \<open>Bits of words\<close>

text \<open>
  A 32-bit word is decided bit by bit: \<open>u32_eqI\<close> with \<open>all_less_32\<close> leaves 32 propositional
  goals that \<open>simp add: bit_simps\<close> closes.
\<close>

lemma all_less_32: "(\<forall>k<32. P k) \<longleftrightarrow> P 0 \<and> P 1 \<and> P 2 \<and> P 3 \<and> P 4 \<and> P 5 \<and> P 6 \<and> P 7 \<and> P 8 \<and> P 9 \<and> P 10 \<and> P 11 \<and> P 12 \<and> P 13 \<and> P 14 \<and> P 15 \<and> P 16 \<and> P 17 \<and> P 18 \<and> P 19 \<and> P 20 \<and> P 21 \<and> P 22 \<and> P 23 \<and> P 24 \<and> P 25 \<and> P 26 \<and> P 27 \<and> P 28 \<and> P 29 \<and> P 30 \<and> P (31::nat)"
  by (simp add: numeral_eq_Suc All_less_Suc2)

lemma u32_eqI: "(\<forall>k<32. bit (a::u32) k = bit b k) \<Longrightarrow> a = b"
  by (rule bit_word_eqI) simp

lemma bit_beyond: 
  fixes c :: "'a::len word" assumes "unat c < 2 ^ n" "n \<le> k" shows "\<not> bit c k"
proof -
  have "unat c < 2 ^ k" using assms by (meson less_le_trans one_le_numeral power_increasing)
  then have "take_bit k c = c" by (simp add: unsigned_take_bit_eq take_bit_nat_eq_self word_unat_eq_iff)
  then show ?thesis by (metis bit_take_bit_iff less_irrefl)
qed

lemma bits_below: 
  fixes c :: "'a::len word" assumes "unat c < 2 ^ n" shows "\<forall>k\<ge>n. \<not> bit c k"
  using bit_beyond [OF assms] by blast

lemma lead_byte: "unat (h OR x) < 2 ^ 8 \<Longrightarrow> ucast (ucast (h OR x :: u32) :: u8) = (h OR x :: u32)"
  by (rule u32_eqI, drule bits_below) (simp add: all_less_32 bit_simps)

lemma or_lead:
  fixes h x :: u32
  assumes "unat x < 2 ^ n" "\<forall>k<n. \<not> bit h k"
  shows "unat (h OR x) = unat h + unat x"
proof -
  have "unat h + unat x = unat h OR unat x"
  proof (rule disjunctive_add)
    fix k show "\<not> bit (unat h) k \<or> \<not> bit (unat x) k"
      using bit_beyond [OF assms(1), of k] assms(2)
      by (cases "n \<le> k") (auto simp: bit_simps)
  qed
  then show ?thesis by (simp add: unsigned_or_eq)
qed

lemma unat_drop: "unat (drop_bit n (c::u32)) = unat c div 2 ^ n"
proof -
  have "unat c < 2 ^ 32" using unsigned_less [of c] by simp
  then have "take_bit 32 (unat c) = unat c" by (rule take_bit_nat_eq_self)
  then show ?thesis unfolding unsigned_drop_bit_eq by (simp add: drop_bit_eq_div)
qed

lemma lead_small: "unat (ucast (h OR x :: u32) :: u8) = unat (h OR x)" if "unat (h OR x) < 2 ^ 8"
  using that by (simp add: unsigned_ucast_eq take_bit_nat_eq_self)

lemma all_less_8: "(\<forall>k<8. P k) \<longleftrightarrow> P 0 \<and> P 1 \<and> P 2 \<and> P 3 \<and> P 4 \<and> P 5 \<and> P 6 \<and> P (7::nat)"
  by (simp add: numeral_eq_Suc All_less_Suc2)

lemma u8_eqI: "(\<forall>k<8. bit (a::u8) k = bit b k) \<Longrightarrow> a = b"
  by (rule bit_word_eqI) simp

lemma u8_below_64: 
  assumes "\<not> bit (c::u8) 6" "\<not> bit c 7" shows "unat c < 64"
proof -
  have "take_bit 6 c = c" by (rule u8_eqI) (use assms in \<open>simp add: all_less_8 bit_simps\<close>)
  then have "take_bit 6 (unat c) = unat c" by (metis unsigned_take_bit_eq)
  then have "unat c < 2 ^ 6" by (metis take_bit_nat_less_exp)
  then show ?thesis by simp
qed

lemma bit_u8_beyond: "8 \<le> n \<Longrightarrow> \<not> bit (b::u8) n"
  by (auto dest: bit_imp_le_length)

section \<open>Lists\<close>

lemma by_threes [case_names Nil One Two Three]:
  assumes "P []" "\<And>x. P [x]" "\<And>x y. P [x, y]" "\<And>x y z r. P r \<Longrightarrow> P (x # y # z # r)"
  shows "P xs"
  using assms by induction_schema (pat_completeness, lexicographic_order)

lemma two_from_end:
  assumes "2 \<le> length s"
  obtains body p q where "s = body @ [p, q]"
proof -
  obtain s' q where 1: "s = s' @ [q]" using assms by (cases s rule: rev_cases) auto
  obtain body p where 2: "s' = body @ [p]" using assms 1 by (cases s' rule: rev_cases) auto
  show thesis using that 1 2 by simp
qed

section \<open>Outcomes\<close>

text \<open>
  \<open>Throw\<close> is a JavaScript exception handed back with \<open>ThrowException\<close>; \<open>Abort\<close> is an
  \<open>assert\<close> that fails (the build without \<open>NDEBUG\<close>); \<open>Overrun\<close> is an access to memory
  outside the object it is meant for, which C++ leaves undefined.
\<close>

datatype js_exn =
    JsError string
  | JsTypeError string
  | JsString string
  | JsErrno int string "string option"

datatype 'a outcome = Return 'a | Throw js_exn | Abort | Overrun

fun obind :: "'a outcome \<Rightarrow> ('a \<Rightarrow> 'b outcome) \<Rightarrow> 'b outcome" where
  "obind (Return x) f = f x"
| "obind (Throw e) f = Throw e"
| "obind Abort f = Abort"
| "obind Overrun f = Overrun"

definition oassert :: "bool \<Rightarrow> 'a outcome \<Rightarrow> 'a outcome" where
  "oassert b k = (if b then k else Abort)"

lemma oassert_simps [outcome_simps]:
  "oassert True k = k" "oassert False k = Abort"
  by (simp_all add: oassert_def)

lemma obind_eq_Return [outcome_simps]:
  "obind m f = Return y \<longleftrightarrow> (\<exists>x. m = Return x \<and> f x = Return y)"
  by (cases m) auto

lemma obind_eq_Overrun [outcome_simps]:
  "obind m f = Overrun \<longleftrightarrow> m = Overrun \<or> (\<exists>x. m = Return x \<and> f x = Overrun)"
  by (cases m) auto

lemma obind_assoc: "obind (obind m f) g = obind m (\<lambda>x. obind (f x) g)"
  by (cases m) auto

section \<open>Blocks of memory\<close>

text \<open>
  \<open>peek\<close> reads \<open>n\<close> bytes of a block from an offset, \<open>poke\<close> stores bytes from an offset;
  both are \<open>None\<close> when the range is not inside the block. An empty write reaches no memory,
  wherever its pointer is.
\<close>

definition peek :: "'a list \<Rightarrow> nat \<Rightarrow> nat \<Rightarrow> 'a list option" where
  "peek m off n = (if n = 0 then Some []
     else if off + n \<le> length m then Some (take n (drop off m)) else None)"

definition poke :: "'a list \<Rightarrow> nat \<Rightarrow> 'a list \<Rightarrow> 'a list option" where
  "poke m off bs = (if bs = [] then Some m
     else if off + length bs \<le> length m
     then Some (take off m @ bs @ drop (off + length bs) m) else None)"

definition of_mem :: "'a option \<Rightarrow> 'a outcome" where
  "of_mem r = (case r of None \<Rightarrow> Overrun | Some x \<Rightarrow> Return x)"

lemma of_mem_simps [outcome_simps]:
  "of_mem None = Overrun" "of_mem (Some x) = Return x"
  by (simp_all add: of_mem_def)

lemma of_mem_eq_iff [outcome_simps]:
  "of_mem r = Return x \<longleftrightarrow> r = Some x" "of_mem r = Overrun \<longleftrightarrow> r = None"
  "of_mem r \<noteq> Throw e" "of_mem r \<noteq> Abort"
  by (cases r; simp add: of_mem_def)+

lemma poke_length [mem_simps]: "poke m off bs = Some m' \<Longrightarrow> length m' = length m"
  by (auto simp: poke_def split: if_splits)

lemma poke_None_iff [mem_simps]:
  "poke m off bs = None \<longleftrightarrow> bs \<noteq> [] \<and> length m < off + length bs"
  by (auto simp: poke_def)

lemma peek_None_iff [mem_simps]:
  "peek m off n = None \<longleftrightarrow> n \<noteq> 0 \<and> length m < off + n"
  by (auto simp: peek_def)

lemma peek_length [mem_simps]: "peek m off n = Some bs \<Longrightarrow> length bs = n"
  by (auto simp: peek_def split: if_splits)

lemma peek_poke [mem_simps]:
  assumes "poke m off bs = Some m'"
  shows "peek m' off (length bs) = Some bs"
  using assms by (auto simp: poke_def peek_def split: if_splits)

lemma poke_frame:
  assumes "poke m off bs = Some m'" "i < off \<or> off + length bs \<le> i"
  shows "m' ! i = m ! i"
proof (cases "bs = []")
  case False
  with assms(1) have len: "off + length bs \<le> length m"
    and m': "m' = take off m @ bs @ drop (off + length bs) m"
    by (auto simp: poke_def split: if_splits)
  then show ?thesis using assms(2) by (auto simp: nth_append)
qed (use assms in \<open>simp add: poke_def\<close>)

text \<open>\<open>splice\<close> is what a write inside the block makes of it.\<close>

definition splice :: "'a list \<Rightarrow> nat \<Rightarrow> 'a list \<Rightarrow> 'a list" where
  "splice xs at ys = take at xs @ ys @ drop (at + length ys) xs"

lemma splice_Nil [simp]: "splice xs at [] = xs"
  by (simp add: splice_def)

lemma poke_splice: "at + length ys \<le> length xs \<Longrightarrow> poke xs at ys = Some (splice xs at ys)"
  by (auto simp: poke_def splice_def)

lemma nth_splice:
  assumes "at + length ys \<le> length xs" "i < length xs"
  shows "splice xs at ys ! i = (if at \<le> i \<and> i < at + length ys then ys ! (i - at) else xs ! i)"
  using assms by (auto simp: splice_def nth_append)

lemma length_splice: "at + length ys \<le> length xs \<Longrightarrow> length (splice xs at ys) = length xs"
  by (simp add: splice_def)

text \<open>A window of a block sees a write inside it as a write at the same place of the window.\<close>

lemma window_splice:
  assumes "at + length ys \<le> n" "off + n \<le> length xs"
  shows "take n (drop off (splice xs (off + at) ys)) = splice (take n (drop off xs)) at ys"
proof (rule nth_equalityI)
  show "length (take n (drop off (splice xs (off + at) ys))) = length (splice (take n (drop off xs)) at ys)"
    using assms by (simp add: length_splice)
next
  fix i assume "i < length (take n (drop off (splice xs (off + at) ys)))"
  then show "take n (drop off (splice xs (off + at) ys)) ! i = splice (take n (drop off xs)) at ys ! i"
    using assms by (auto simp: length_splice nth_splice)
qed

lemma splice_window: "at + length ys \<le> length xs \<Longrightarrow> take (length ys) (drop at (splice xs at ys)) = ys"
  by (simp add: splice_def)

section \<open>Strings\<close>

text \<open>C's \<open>tolower\<close> on ASCII and \<open>strcasecmp(a, b) == 0\<close>.\<close>

definition ascii_lower :: "nat \<Rightarrow> nat" where
  "ascii_lower c = (if 65 \<le> c \<and> c \<le> 90 then c + 32 else c)"

definition cstr :: "string \<Rightarrow> u8 list" where
  "cstr s = map (\<lambda>c. of_nat (of_char c)) s"

text \<open>A C string ends at its first NUL.\<close>

definition until_nul :: "u8 list \<Rightarrow> u8 list" where
  "until_nul bs = takeWhile (\<lambda>b. b \<noteq> 0) bs"

definition strcaseeq :: "u8 list \<Rightarrow> string \<Rightarrow> bool" where
  "strcaseeq bs s \<longleftrightarrow>
     map (\<lambda>b. ascii_lower (unat b)) (until_nul bs) = map (\<lambda>c. ascii_lower (of_char c)) s"

end
