(* ===== verification/JsValue.thy ===== *)
theory JsValue
  imports Prelude
begin

text \<open>
  The JavaScript values that reach the bindings and the conversions of the V8 API the
  bindings apply to their arguments (\<open>deps/v8/src/api.cc\<close>, \<open>conversions-inl.h\<close>).

  A finite double is kept exactly, as a mantissa and a power of two. What \<open>ToNumber\<close> and
  \<open>ToString\<close> give for the values they have to parse or to call JavaScript for (strings as
  numbers, objects) is a parameter, the record \<open>conv\<close>.
\<close>

datatype jsnum = NaN | Infinity bool \<comment> \<open>\<open>True\<close>: negative\<close> | Finite int int

type_synonym js_string = "u16 list"
type_synonym block_id = nat

text \<open>
  The external array data of an object: the block of memory and offset its pointer has, and
  its length. The object is a Buffer or a piece of one.
\<close>

record ext_array =
  ea_block :: block_id
  ea_off :: nat
  ea_len :: int

datatype js_value =
    JUndefined
  | JNull
  | JBool bool
  | JNumber jsnum
  | JString js_string
  | JFunction nat
  | JArray "js_value list"
  | JBuffer ext_array
  | JObject nat

record conv =
  other_to_number :: "js_value \<Rightarrow> jsnum"
  other_to_string :: "js_value \<Rightarrow> js_string"

definition jint :: "int \<Rightarrow> js_value" where
  "jint i = JNumber (Finite i 0)"

section \<open>Doubles as integers\<close>

text \<open>Truncation towards zero, as \<open>static_cast<int>\<close>, \<open>floor\<close> and \<open>ceil\<close> do by sign.\<close>

fun trunc_num :: "jsnum \<Rightarrow> int" where
  "trunc_num (Finite m e) =
     (if 0 \<le> e then m * 2 ^ nat e else sgn m * (\<bar>m\<bar> div 2 ^ nat (- e)))"
| "trunc_num _ = 0"

fun is_integral :: "jsnum \<Rightarrow> bool" where
  "is_integral (Finite m e) = (0 \<le> e \<or> m mod 2 ^ nat (- e) = 0)"
| "is_integral _ = False"

text \<open>\<open>FastI2D(FastD2I(x)) == x\<close>: the value is an integer of the 32-bit range.\<close>

definition num_is_int32 :: "jsnum \<Rightarrow> bool" where
  "num_is_int32 x \<longleftrightarrow> is_integral x \<and> int32_range (trunc_num x)"

definition num_is_uint32 :: "jsnum \<Rightarrow> bool" where
  "num_is_uint32 x \<longleftrightarrow> is_integral x \<and> 0 \<le> trunc_num x \<and> trunc_num x < 2 ^ 32"

text \<open>\<open>DoubleToInt32\<close>: the integer part modulo \<open>2^32\<close>, read as signed.\<close>

definition double_to_int32 :: "jsnum \<Rightarrow> int" where
  "double_to_int32 x =
     (let r = trunc_num x mod 2 ^ 32 in if 2 ^ 31 \<le> r then r - 2 ^ 32 else r)"

section \<open>Predicates and conversions of v8::Value\<close>

fun is_int32 :: "js_value \<Rightarrow> bool" where
  "is_int32 (JNumber x) = num_is_int32 x"
| "is_int32 _ = False"

fun is_uint32 :: "js_value \<Rightarrow> bool" where
  "is_uint32 (JNumber x) = num_is_uint32 x"
| "is_uint32 _ = False"

fun is_number :: "js_value \<Rightarrow> bool" where
  "is_number (JNumber _) = True" | "is_number _ = False"

fun is_string :: "js_value \<Rightarrow> bool" where
  "is_string (JString _) = True" | "is_string _ = False"

fun is_boolean :: "js_value \<Rightarrow> bool" where
  "is_boolean (JBool _) = True" | "is_boolean _ = False"

fun is_function :: "js_value \<Rightarrow> bool" where
  "is_function (JFunction _) = True" | "is_function _ = False"

fun is_array :: "js_value \<Rightarrow> bool" where
  "is_array (JArray _) = True" | "is_array _ = False"

text \<open>\<open>ToNumber\<close> (ES5 9.3).\<close>

fun to_number :: "conv \<Rightarrow> js_value \<Rightarrow> jsnum" where
  "to_number h JUndefined = NaN"
| "to_number h JNull = Finite 0 0"
| "to_number h (JBool b) = Finite (if b then 1 else 0) 0"
| "to_number h (JNumber x) = x"
| "to_number h v = other_to_number h v"

definition int32_value :: "conv \<Rightarrow> js_value \<Rightarrow> int" where
  "int32_value h v = double_to_int32 (to_number h v)"

definition uint32_value :: "conv \<Rightarrow> js_value \<Rightarrow> nat" where
  "uint32_value h v = nat (trunc_num (to_number h v) mod 2 ^ 32)"

text \<open>
  \<open>IntegerValue\<close>: a \<open>double\<close> cast to \<open>int64_t\<close>; out of range (and for NaN, which
  \<open>ToInteger\<close> makes 0 unless the value already is a number) x86-64 gives \<open>-2^63\<close>.
\<close>

fun integer_value :: "conv \<Rightarrow> js_value \<Rightarrow> int" where
  "integer_value h v =
     (case to_number h v of
        Finite m e \<Rightarrow>
          (let i = trunc_num (Finite m e)
           in if - (2 ^ 63) \<le> i \<and> i < 2 ^ 63 then i else - (2 ^ 63))
      | Infinity n \<Rightarrow> - (2 ^ 63)
      | NaN \<Rightarrow> (if is_number v then - (2 ^ 63) else 0))"

fun to_string :: "conv \<Rightarrow> js_value \<Rightarrow> js_string" where
  "to_string h (JString s) = s"
| "to_string h v = other_to_string h v"

text \<open>\<open>Arguments::operator[]\<close>: undefined past the end.\<close>

definition arg :: "js_value list \<Rightarrow> nat \<Rightarrow> js_value" where
  "arg args i = (if i < length args then args ! i else JUndefined)"

section \<open>Facts about the conversions\<close>

lemma double_to_int32_range: "int32_range (double_to_int32 x)"
proof -
  have "0 \<le> trunc_num x mod 2 ^ 32" "trunc_num x mod 2 ^ 32 < 2 ^ 32" by simp_all
  then show ?thesis unfolding double_to_int32_def int32_range_def Let_def by auto
qed

lemma int32_value_range [simp]: "int32_range (int32_value h v)"
  by (simp add: int32_value_def double_to_int32_range)

lemma uint32_value_range: "uint32_value h v < 2 ^ 32"
proof -
  have "nat (trunc_num (to_number h v) mod 2 ^ 32) < nat (2 ^ 32)"
    by (rule nat_mono_iff [THEN iffD2]) simp_all
  then show ?thesis by (simp add: uint32_value_def)
qed

lemma trunc_jint [simp]: "trunc_num (Finite i 0) = i"
  by simp

lemma double_to_int32_small: "int32_range (trunc_num x) \<Longrightarrow> double_to_int32 x = trunc_num x"
proof -
  assume r: "int32_range (trunc_num x)"
  show ?thesis
  proof (cases "0 \<le> trunc_num x")
    case True
    then have "trunc_num x mod 2 ^ 32 = trunc_num x"
      using r by (intro mod_pos_pos_trivial) (auto simp: int32_range_def)
    then show ?thesis using r by (simp add: double_to_int32_def int32_range_def)
  next
    case False
    have "trunc_num x mod 2 ^ 32 = (trunc_num x + 2 ^ 32) mod 2 ^ 32" by simp
    also have "\<dots> = trunc_num x + 2 ^ 32"
      using False r by (intro mod_pos_pos_trivial) (auto simp: int32_range_def)
    finally show ?thesis
      using r False by (simp add: double_to_int32_def int32_range_def Let_def)
  qed
qed

lemma int32_value_int32:
  "is_int32 v \<Longrightarrow> v = JNumber x \<Longrightarrow> int32_value h v = trunc_num x"
  by (simp add: int32_value_def num_is_int32_def double_to_int32_small)

lemma int32_value_jint [simp]: "int32_range i \<Longrightarrow> int32_value h (jint i) = i"
  by (simp add: int32_value_def jint_def double_to_int32_small)

lemma is_int32_jint [simp]: "is_int32 (jint i) \<longleftrightarrow> int32_range i"
  by (simp add: jint_def num_is_int32_def)

lemma is_int32_cases:
  assumes "is_int32 v"
  obtains x where "v = JNumber x" "is_integral x" "int32_range (trunc_num x)"
  using assms by (cases v) (auto simp: num_is_int32_def)

lemma arg_Cons [simp]: "arg (v # vs) 0 = v" "arg (v # vs) (Suc n) = arg vs n"
  by (simp_all add: arg_def)

lemma arg_one [simp]: "arg (v # vs) 1 = arg vs 0"
  by (simp add: arg_def)

lemma arg_Nil [simp]: "arg [] n = JUndefined"
  by (simp add: arg_def)

lemma arg_numeral [simp]: "arg (v # vs) (numeral k) = arg vs (pred_numeral k)"
  by (simp add: arg_def numeral_eq_Suc)

lemma uint32_value_jint [simp]: "0 \<le> i \<Longrightarrow> i < 2 ^ 32 \<Longrightarrow> uint32_value h (jint i) = nat i"
  by (simp add: uint32_value_def jint_def)

lemma jint_not_undefined [simp]: "jint i \<noteq> JUndefined" by (simp add: jint_def)

lemma int32_range_numeral [simp]:
  "int32_range 0" "int32_range 1" "int32_range (numeral k) \<longleftrightarrow> numeral k < (2 ^ 31 :: int)"
  "int32_range (- numeral k) \<longleftrightarrow> numeral k \<le> (2 ^ 31 :: int)" "int32_range (-1)"
  by (auto simp: int32_range_def)

end
