(* ===== verification/Utf8.thy ===== *)
theory Utf8
  imports JsValue
begin

text \<open>
  V8's UTF-8 codec (\<open>deps/v8/src/unicode-inl.h\<close>, \<open>unicode.cc\<close>) and the string transfer
  functions of its API (\<open>deps/v8/src/api.cc\<close>) that Buffer and the encoders are built on:
  \<open>Utf8Length\<close>, \<open>WriteUtf8\<close>, \<open>WriteAscii\<close>, \<open>Write\<close> and \<open>String::New\<close>.

  A JavaScript string is the list of its 16-bit code units; this V8 encodes every unit on
  its own, surrogates included. The bytes a \<open>Write\<close> function stores always start at its
  \<open>buffer\<close> argument and have no gaps, so it is modelled by the list of what it stores.
\<close>

section \<open>Utf8::Encode and Utf8::Length\<close>

definition utf8_mask :: u32 where \<comment> \<open>\<open>kMask\<close>\<close>
  "utf8_mask = NOT (push_bit 6 1)"

definition utf8_encode :: "u32 \<Rightarrow> u8 list" where
  "utf8_encode c =
     (if c \<le> 0x7f then [ucast c]
      else if c \<le> 0x7ff then
        [ucast (0xC0 OR drop_bit 6 c), ucast (0x80 OR (c AND utf8_mask))]
      else if c \<le> 0xffff then
        [ucast (0xE0 OR drop_bit 12 c),
         ucast (0x80 OR (drop_bit 6 c AND utf8_mask)),
         ucast (0x80 OR (c AND utf8_mask))]
      else
        [ucast (0xF0 OR drop_bit 18 c),
         ucast (0x80 OR (drop_bit 12 c AND utf8_mask)),
         ucast (0x80 OR (drop_bit 6 c AND utf8_mask)),
         ucast (0x80 OR (c AND utf8_mask))])"

definition utf8_char_length :: "u32 \<Rightarrow> nat" where
  "utf8_char_length c =
     (if c \<le> 0x7f then 1 else if c \<le> 0x7ff then 2 else if c \<le> 0xffff then 3 else 4)"

section \<open>Utf8::ValueOf and Utf8::CalculateValue\<close>

definition bad_char :: u32 where "bad_char = 0xFFFD"

text \<open>
  \<open>str\<close> holds what is left of the input, so \<open>length\<close> of the code is its length. The result
  is the code point and how far the cursor moves.
\<close>

definition calculate_value :: "u8 list \<Rightarrow> u32 \<times> nat" where
  "calculate_value str =
     (let len = length str;
          first = ucast (str ! 0) :: u32;
          second = ucast (str ! 1 XOR 0x80) :: u32;
          third = ucast (str ! 2 XOR 0x80) :: u32;
          fourth = ucast (str ! 3 XOR 0x80) :: u32
      in if len = 1 then (bad_char, 1)
         else if second AND 0xC0 \<noteq> 0 then (bad_char, 1)
         else if first < 0xE0 then
           (if first < 0xC0 then (bad_char, 1)
            else let cp = (push_bit 6 first OR second) AND 0x7ff
                 in if cp \<le> 0x7f then (bad_char, 1) else (cp, 2))
         else if len = 2 then (bad_char, 1)
         else if third AND 0xC0 \<noteq> 0 then (bad_char, 1)
         else if first < 0xF0 then
           (let cp = (push_bit 6 (push_bit 6 first OR second) OR third) AND 0xffff
            in if cp \<le> 0x7ff then (bad_char, 1) else (cp, 3))
         else if len = 3 then (bad_char, 1)
         else if fourth AND 0xC0 \<noteq> 0 then (bad_char, 1)
         else if first < 0xF8 then
           (let cp = (push_bit 6 (push_bit 6 (push_bit 6 first OR second) OR third) OR fourth)
                       AND 0x1fffff
            in if cp \<le> 0xffff then (bad_char, 1) else (cp, 4))
         else (bad_char, 1))"

definition value_of :: "u8 list \<Rightarrow> u32 \<times> nat" where
  "value_of str =
     (if str = [] then (bad_char, 0)
      else if str ! 0 \<le> 0x7f then (ucast (str ! 0), 1)
      else calculate_value str)"

lemma calculate_value_consumes: "1 \<le> snd (calculate_value str)"
  by (simp add: calculate_value_def Let_def)

lemma calculate_value_bound: "str \<noteq> [] \<Longrightarrow> snd (calculate_value str) \<le> length str"
  by (cases str rule: remdups_adj.cases)
    (auto simp: calculate_value_def Let_def neq_Nil_conv Suc_le_eq numeral_eq_Suc)

lemma value_of_consumes: "str \<noteq> [] \<Longrightarrow> 1 \<le> snd (value_of str)"
  using calculate_value_consumes [of str] by (simp add: value_of_def)

text \<open>
  \<open>String::New(data, length)\<close>: \<open>AllocateStringFromUtf8Slow\<close> reads characters until none
  is left; what is outside the Basic Multilingual Plane becomes U+FFFD.
\<close>

definition clip_bmp :: "u32 \<Rightarrow> u16" where
  "clip_bmp r = ucast (if 0xFFFF < r then bad_char else r)"

function utf8_decode :: "u8 list \<Rightarrow> js_string" where
  "utf8_decode bs =
     (if bs = [] then []
      else clip_bmp (fst (value_of bs)) # utf8_decode (drop (snd (value_of bs)) bs))"
  by pat_completeness auto
termination
proof (relation "measure length")
  fix bs :: "u8 list"
  assume "bs \<noteq> []"
  then show "(drop (snd (value_of bs)) bs, bs) \<in> measure length"
    using value_of_consumes [of bs] by simp
qed simp

declare utf8_decode.simps [simp del]

section \<open>String::Utf8Length and String::WriteUtf8\<close>

definition utf8_bytes :: "js_string \<Rightarrow> u8 list" where
  "utf8_bytes s = concat (map (\<lambda>c. utf8_encode (ucast c)) s)"

definition utf8_length :: "js_string \<Rightarrow> nat" where
  "utf8_length s = sum_list (map (\<lambda>c. utf8_char_length (ucast c)) s)"

text \<open>
  The first loop of \<open>WriteUtf8\<close> stores into the buffer without a check while at least
  four bytes are left; the second encodes each character aside and stores it when it fits.
  Both return the characters they have not written. A capacity of \<open>-1\<close> means no bound.
\<close>

fun write_utf8_fast :: "int \<Rightarrow> js_string \<Rightarrow> u8 list \<Rightarrow> nat \<Rightarrow> js_string \<times> u8 list \<times> nat" where
  "write_utf8_fast cap [] out n = ([], out, n)"
| "write_utf8_fast cap (c # cs) out n =
     (if cap = -1 \<or> int (length out) < cap - 3
      then write_utf8_fast cap cs (out @ utf8_encode (ucast c)) (n + 1)
      else (c # cs, out, n))"

fun write_utf8_slow :: "int \<Rightarrow> js_string \<Rightarrow> u8 list \<Rightarrow> nat \<Rightarrow> js_string \<times> u8 list \<times> nat" where
  "write_utf8_slow cap [] out n = ([], out, n)"
| "write_utf8_slow cap (c # cs) out n =
     (if int (length out) < cap \<and> int (length out + length (utf8_encode (ucast c))) \<le> cap
      then write_utf8_slow cap cs (out @ utf8_encode (ucast c)) (n + 1)
      else (c # cs, out, n))"

definition write_utf8 :: "js_string \<Rightarrow> int \<Rightarrow> u8 list \<times> nat" where
  "write_utf8 s cap =
     (let (rest1, out1, n1) = write_utf8_fast cap s [] 0;
          (rest2, out2, n2) = write_utf8_slow cap rest1 out1 n1
      in (if rest2 = [] \<and> (cap = -1 \<or> int (length out2) < cap) then out2 @ [0] else out2, n2))"

section \<open>String::WriteAscii and String::Write\<close>

text \<open>What is stored and the value returned, which does not count the terminator.\<close>

definition ascii_char :: "u16 \<Rightarrow> u8" where
  "ascii_char c = (let b = ucast c :: u8 in if b = 0 then 32 else b)"

definition write_ascii :: "js_string \<Rightarrow> nat \<Rightarrow> int \<Rightarrow> u8 list \<times> int" where
  "write_ascii s start len =
     (let avail = int (length s) - int start;
          e = (if len = -1 \<or> avail < len then avail else len)
      in if e < 0 then ([], 0)
         else let bs = map ascii_char (take (nat e) (drop start s))
              in (if len = -1 \<or> e < len then bs @ [0] else bs, e))"

definition write_two_byte :: "js_string \<Rightarrow> nat \<Rightarrow> int \<Rightarrow> u16 list \<times> int" where
  "write_two_byte s start len =
     (let e = (if len = -1 \<or> int (length s) - int start < len then int (length s)
               else int start + len)
      in if e < 0 then ([], 0)
         else let us = drop start (take (nat e) s)
              in (if len = -1 \<or> e - int start < len then us @ [0] else us, e - int start))"

text \<open>A \<open>uint16_t\<close> array in memory, little endian.\<close>

definition u16_bytes :: "u16 list \<Rightarrow> u8 list" where
  "u16_bytes us = concat (map (\<lambda>u. [ucast u, ucast (drop_bit 8 u)]) us)"

fun bytes_u16 :: "u8 list \<Rightarrow> u16 list" where
  "bytes_u16 (a # b # bs) = (ucast a OR push_bit 8 (ucast b)) # bytes_u16 bs"
| "bytes_u16 _ = []"

text \<open>\<open>String::Utf8Value\<close> and \<open>String::AsciiValue\<close>: the C string without its NUL.\<close>

definition utf8_value :: "js_string \<Rightarrow> u8 list" where
  "utf8_value s = utf8_bytes s"

definition ascii_value :: "js_string \<Rightarrow> u8 list" where
  "ascii_value s = map ascii_char s"

section \<open>The codec is a round trip\<close>

lemma cont_byte: "ucast ((ucast (0x80 OR (x AND utf8_mask)) :: u8) XOR 0x80) = (x AND 0x3F :: u32)"
  by (rule u32_eqI) (simp add: all_less_32 bit_simps utf8_mask_def)

lemma cont_tag: "(x AND 0x3F) AND (0xC0 :: u32) = 0"
  by (rule u32_eqI) (simp add: all_less_32 bit_simps)

lemma join2: "unat (c::u32) < 2 ^ 11 \<Longrightarrow> (push_bit 6 (0xC0 OR drop_bit 6 c) OR (c AND 0x3F)) AND 0x7ff = c"
  by (rule u32_eqI, drule bits_below) (simp add: all_less_32 bit_simps)
lemma join3: "unat (c::u32) < 2 ^ 16 \<Longrightarrow> (push_bit 6 (push_bit 6 (0xE0 OR drop_bit 12 c) OR (drop_bit 6 c AND 0x3F)) OR (c AND 0x3F)) AND 0xffff = c"
  by (rule u32_eqI, drule bits_below) (simp add: all_less_32 bit_simps)
lemma join4: "unat (c::u32) < 2 ^ 21 \<Longrightarrow> (push_bit 6 (push_bit 6 (push_bit 6 (0xF0 OR drop_bit 18 c) OR (drop_bit 12 c AND 0x3F)) OR (drop_bit 6 c AND 0x3F)) OR (c AND 0x3F)) AND 0x1fffff = c"
  by (rule u32_eqI, drule bits_below) (simp add: all_less_32 bit_simps)

lemma lead2: assumes "unat (c::u32) < 2 ^ 11"
  shows "unat (0xC0 OR drop_bit 6 c) = 192 + unat c div 64"
proof -
  have "unat (drop_bit 6 c) < 2 ^ 5" using assms by (simp add: unat_drop less_mult_imp_div_less)
  then have "unat (0xC0 OR drop_bit 6 c) = unat (0xC0::u32) + unat (drop_bit 6 c)"
    by (rule or_lead) (simp add: numeral_eq_Suc All_less_Suc2 bit_simps)
  then show ?thesis by (simp add: unat_drop)
qed
lemma lead3: assumes "unat (c::u32) < 2 ^ 16"
  shows "unat (0xE0 OR drop_bit 12 c) = 224 + unat c div 4096"
proof -
  have "unat (drop_bit 12 c) < 2 ^ 4" using assms by (simp add: unat_drop less_mult_imp_div_less)
  then have "unat (0xE0 OR drop_bit 12 c) = unat (0xE0::u32) + unat (drop_bit 12 c)"
    by (rule or_lead) (simp add: numeral_eq_Suc All_less_Suc2 bit_simps)
  then show ?thesis by (simp add: unat_drop)
qed
lemma lead4: assumes "unat (c::u32) < 2 ^ 21"
  shows "unat (0xF0 OR drop_bit 18 c) = 240 + unat c div 262144"
proof -
  have "unat (drop_bit 18 c) < 2 ^ 3" using assms by (simp add: unat_drop less_mult_imp_div_less)
  then have "unat (0xF0 OR drop_bit 18 c) = unat (0xF0::u32) + unat (drop_bit 18 c)"
    by (rule or_lead) (simp add: numeral_eq_Suc All_less_Suc2 bit_simps)
  then show ?thesis by (simp add: unat_drop)
qed

lemma value_of_encode1:
  assumes "c \<le> 0x7f" shows "value_of (ucast c # rest) = (c, 1)"
proof -
  have n: "unat c \<le> 127" using assms by (simp add: word_le_nat_alt)
  then have "(ucast c :: u8) \<le> 0x7f"
    by (simp add: word_le_nat_alt unsigned_ucast_eq take_bit_nat_eq_self)
  moreover have "(ucast (ucast c :: u8) :: u32) = c"
    using n lead_byte [of 0 c] by simp
  ultimately show ?thesis by (simp add: value_of_def)
qed

lemma value_of_encode2:
  assumes "\<not> c \<le> 0x7f" "c \<le> 0x7ff"
  shows "value_of (utf8_encode c @ rest) = (c, 2)"
proof -
  have n: "128 \<le> unat c" "unat c < 2 ^ 11" using assms by (simp_all add: word_le_nat_alt)
  note lead = lead2 [OF n(2)]
  have l8: "unat (0xC0 OR drop_bit 6 c) < 2 ^ 8" using n lead by simp
  have first: "ucast (ucast (0xC0 OR drop_bit 6 c) :: u8) = (0xC0 OR drop_bit 6 c)"
    by (rule lead_byte [OF l8])
  have enc: "utf8_encode c = [ucast (0xC0 OR drop_bit 6 c), ucast (0x80 OR (c AND utf8_mask))]"
    using assms by (simp add: utf8_encode_def)
  have gt: "\<not> (ucast (0xC0 OR drop_bit 6 c) :: u8) \<le> 0x7f"
    using n by (simp add: word_le_nat_alt lead_small [OF l8] lead)
  have lo: "0xC0 OR drop_bit 6 c < 0xE0" "\<not> 0xC0 OR drop_bit 6 c < 0xC0"
    using n by (simp_all add: word_less_nat_alt lead)
  show ?thesis
    unfolding value_of_def enc using gt lo assms
    by (simp add: calculate_value_def first cont_byte cont_tag join2 [OF n(2), simplified] Let_def)
qed

lemma value_of_encode3:
  assumes "\<not> c \<le> 0x7ff" "c \<le> 0xffff"
  shows "value_of (utf8_encode c @ rest) = (c, 3)"
proof -
  have n: "2048 \<le> unat c" "unat c < 2 ^ 16" using assms by (simp_all add: word_le_nat_alt)
  note lead = lead3 [OF n(2)]
  have l8: "unat (0xE0 OR drop_bit 12 c) < 2 ^ 8" using n lead by simp
  have first: "ucast (ucast (0xE0 OR drop_bit 12 c) :: u8) = (0xE0 OR drop_bit 12 c)"
    by (rule lead_byte [OF l8])
  have c7: "\<not> c \<le> 0x7f" using n by (simp add: word_le_nat_alt)
  have enc: "utf8_encode c = [ucast (0xE0 OR drop_bit 12 c),
      ucast (0x80 OR (drop_bit 6 c AND utf8_mask)), ucast (0x80 OR (c AND utf8_mask))]"
    using assms c7 by (simp add: utf8_encode_def)
  have gt: "\<not> (ucast (0xE0 OR drop_bit 12 c) :: u8) \<le> 0x7f"
    using n by (simp add: word_le_nat_alt lead_small [OF l8] lead)
  have lo: "0xE0 OR drop_bit 12 c < 0xF0" "\<not> 0xE0 OR drop_bit 12 c < 0xE0"
    using n by (simp_all add: word_less_nat_alt lead)
  show ?thesis
    unfolding value_of_def enc using gt lo assms
    by (simp add: calculate_value_def first cont_byte cont_tag join3 [OF n(2), simplified] Let_def)
qed

lemma value_of_encode4:
  assumes "\<not> c \<le> 0xffff" "c \<le> 0x1fffff"
  shows "value_of (utf8_encode c @ rest) = (c, 4)"
proof -
  have n: "65536 \<le> unat c" "unat c < 2 ^ 21" using assms by (simp_all add: word_le_nat_alt)
  note lead = lead4 [OF n(2)]
  have l8: "unat (0xF0 OR drop_bit 18 c) < 2 ^ 8" using n lead by simp
  have first: "ucast (ucast (0xF0 OR drop_bit 18 c) :: u8) = (0xF0 OR drop_bit 18 c)"
    by (rule lead_byte [OF l8])
  have c7: "\<not> c \<le> 0x7f" "\<not> c \<le> 0x7ff" using n by (simp_all add: word_le_nat_alt)
  have enc: "utf8_encode c = [ucast (0xF0 OR drop_bit 18 c),
      ucast (0x80 OR (drop_bit 12 c AND utf8_mask)),
      ucast (0x80 OR (drop_bit 6 c AND utf8_mask)), ucast (0x80 OR (c AND utf8_mask))]"
    using assms c7 by (simp add: utf8_encode_def)
  have gt: "\<not> (ucast (0xF0 OR drop_bit 18 c) :: u8) \<le> 0x7f"
    using n by (simp add: word_le_nat_alt lead_small [OF l8] lead)
  have lo: "0xF0 OR drop_bit 18 c < 0xF8" "\<not> 0xF0 OR drop_bit 18 c < 0xF0" "\<not> 0xF0 OR drop_bit 18 c < 0xE0"
    using n by (simp_all add: word_less_nat_alt lead)
  show ?thesis
    unfolding value_of_def enc using gt lo assms
    by (simp add: calculate_value_def first cont_byte cont_tag join4 [OF n(2), simplified] Let_def)
qed

lemma length_utf8_encode: "length (utf8_encode c) = utf8_char_length c"
  by (simp add: utf8_encode_def utf8_char_length_def)

lemma value_of_encode:
  assumes "c \<le> 0x1fffff"
  shows "value_of (utf8_encode c @ rest) = (c, length (utf8_encode c))"
proof -
  consider "c \<le> 0x7f" | "\<not> c \<le> 0x7f" "c \<le> 0x7ff" | "\<not> c \<le> 0x7ff" "c \<le> 0xffff" | "\<not> c \<le> 0xffff"
    by blast
  then show ?thesis
  proof cases
    case 1 then show ?thesis by (simp add: utf8_encode_def value_of_encode1)
  next
    case 2 then show ?thesis by (simp add: value_of_encode2 length_utf8_encode utf8_char_length_def)
  next
    case 3
    moreover have "\<not> c \<le> 0x7f" using 3 by (simp add: word_le_nat_alt)
    ultimately show ?thesis by (simp add: value_of_encode3 length_utf8_encode utf8_char_length_def)
  next
    case 4
    moreover have "\<not> c \<le> 0x7f" "\<not> c \<le> 0x7ff" using 4 by (simp_all add: word_le_nat_alt)
    ultimately show ?thesis using assms by (simp add: value_of_encode4 length_utf8_encode utf8_char_length_def)
  qed
qed

lemma utf8_encode_not_Nil [simp]: "utf8_encode c \<noteq> []"
  by (simp add: utf8_encode_def)

lemma unit_le: "(ucast (u :: u16) :: u32) \<le> 0xffff"
proof -
  have "unat u < 2 ^ 16" using unsigned_less [of u] by simp
  then show ?thesis by (simp add: word_le_nat_alt unsigned_ucast_eq take_bit_nat_eq_self)
qed

lemma clip_bmp_unit: "clip_bmp (ucast (u :: u16)) = u"
proof -
  have "ucast (ucast u :: u32) = u" by (rule bit_word_eqI) (auto simp: bit_simps)
  moreover have "\<not> 0xffff < (ucast u :: u32)" using unit_le [of u] by (simp add: not_less)
  ultimately show ?thesis by (simp add: clip_bmp_def)
qed

lemma utf8_decode_Nil [simp]: "utf8_decode [] = []"
  by (simp add: utf8_decode.simps)

lemma utf8_decode_encode_append:
  "utf8_decode (utf8_encode (ucast (u :: u16)) @ rest) = u # utf8_decode rest"
proof -
  have "ucast u \<le> (0x1fffff :: u32)" using unit_le [of u] by (simp add: word_le_nat_alt)
  then have "value_of (utf8_encode (ucast u) @ rest) = (ucast u, length (utf8_encode (ucast u :: u32)))"
    by (rule value_of_encode)
  then show ?thesis
    by (subst utf8_decode.simps) (simp add: clip_bmp_unit)
qed

lemma utf8_decode_bytes: "utf8_decode (utf8_bytes s) = s"
  by (induction s) (simp_all add: utf8_bytes_def utf8_decode_encode_append)

lemma length_utf8_bytes: "length (utf8_bytes s) = utf8_length s"
  by (induction s) (simp_all add: utf8_bytes_def utf8_length_def length_utf8_encode)

lemma utf8_bytes_Cons: "utf8_bytes (c # cs) = utf8_encode (ucast c) @ utf8_bytes cs"
  by (simp add: utf8_bytes_def)
lemma utf8_bytes_Nil: "utf8_bytes [] = []"
  by (simp add: utf8_bytes_def)
lemma utf8_bytes_append: "utf8_bytes (s @ t) = utf8_bytes s @ utf8_bytes t"
  by (simp add: utf8_bytes_def)

section \<open>The two-phase writer against its specification\<close>

text \<open>
  What \<open>WriteUtf8\<close> promises: the longest prefix of the string whose encoding fits.
\<close>

fun utf8_prefix :: "nat \<Rightarrow> js_string \<Rightarrow> js_string" where
  "utf8_prefix n [] = []"
| "utf8_prefix n (c # cs) =
     (if utf8_char_length (ucast c) \<le> n
      then c # utf8_prefix (n - utf8_char_length (ucast c)) cs else [])"

lemma unit_char_length: "utf8_char_length (ucast (u :: u16)) \<le> 3"
  using unit_le [of u] by (simp add: utf8_char_length_def)
lemma char_length_pos: "0 < utf8_char_length c"
  by (simp add: utf8_char_length_def)

lemma write_utf8_slow_prefix:
  assumes "length out \<le> n"
  shows "write_utf8_slow (int n) s out k =
     (let p = utf8_prefix (n - length out) s
      in (drop (length p) s, out @ utf8_bytes p, k + length p))"
  using assms
proof (induction s arbitrary: out k)
  case Nil then show ?case by (simp add: utf8_bytes_Nil)
next
  case (Cons c cs)
  let ?l = "utf8_char_length (ucast c)"
  have pos: "0 < ?l" by (rule char_length_pos)
  show ?case
  proof (cases "?l \<le> n - length out")
    case True
    then have "length (out @ utf8_encode (ucast c)) \<le> n"
      using pos Cons.prems by (simp add: length_utf8_encode)
    moreover have "int (length out) < int n" "int (length out + ?l) \<le> int n"
      using True pos Cons.prems by linarith+
    ultimately show ?thesis using Cons.IH [of "out @ utf8_encode (ucast c)" "k + 1"] True
      by (simp add: Let_def length_utf8_encode utf8_bytes_Cons)
  next
    case False
    then have "\<not> int (length out + ?l) \<le> int n" using Cons.prems by linarith
    then show ?thesis using False
      by (simp add: length_utf8_encode utf8_bytes_Nil Let_def)
  qed
qed

lemma utf8_prefix_step:
  "3 < n \<Longrightarrow> utf8_prefix n (c # cs) = c # utf8_prefix (n - utf8_char_length (ucast c)) cs"
  using unit_char_length [of c] by simp

lemma write_utf8_phases:
  assumes "length out \<le> n"
  shows "(case write_utf8_fast (int n) s out k of
       (r, o1, k1) \<Rightarrow> write_utf8_slow (int n) r o1 k1) =
     (let p = utf8_prefix (n - length out) s
      in (drop (length p) s, out @ utf8_bytes p, k + length p))"
  using assms
proof (induction s arbitrary: out k)
  case Nil then show ?case by (simp add: utf8_bytes_Nil)
next
  case (Cons c cs)
  let ?l = "utf8_char_length (ucast c)"
  show ?case
  proof (cases "int (length out) < int n - 3")
    case True
    then have more: "3 < n - length out" by linarith
    then have "length (out @ utf8_encode (ucast c)) \<le> n"
      using unit_char_length [of c] by (simp add: length_utf8_encode)
    from Cons.IH [OF this, of "k + 1"] True more show ?thesis
      by (simp add: Let_def length_utf8_encode utf8_bytes_Cons utf8_prefix_step
          del: utf8_prefix.simps)
  next
    case False
    then show ?thesis using write_utf8_slow_prefix [OF Cons.prems, of "c # cs" k]
      by (simp del: write_utf8_slow.simps utf8_prefix.simps)
  qed
qed

lemma utf8_prefix_fits: "length (utf8_bytes (utf8_prefix n s)) \<le> n"
  by (induction n s rule: utf8_prefix.induct)
    (auto simp: utf8_bytes_Nil utf8_bytes_Cons length_utf8_encode)

lemma utf8_prefix_take: "utf8_prefix n s = take (length (utf8_prefix n s)) s"
  by (induction n s rule: utf8_prefix.induct) auto

lemma utf8_prefix_maximal:
  assumes "length (utf8_bytes (take k s)) \<le> n" "k \<le> length s"
  shows "k \<le> length (utf8_prefix n s)"
  using assms
proof (induction n s arbitrary: k rule: utf8_prefix.induct)
  case (1 n) then show ?case by simp
next
  case (2 n c cs)
  show ?case
  proof (cases k)
    case (Suc j)
    with 2 show ?thesis by (simp add: utf8_bytes_Cons length_utf8_encode)
  qed simp
qed

lemma utf8_prefix_all: "utf8_prefix (utf8_length s) s = s"
proof -
  have "length s \<le> length (utf8_prefix (utf8_length s) s)"
    by (rule utf8_prefix_maximal) (simp_all add: length_utf8_bytes)
  then show ?thesis using utf8_prefix_take [of "utf8_length s" s] by simp
qed

lemma write_utf8_bounded:
  "write_utf8 s (int n) =
     (let p = utf8_prefix n s; b = utf8_bytes p
      in (if p = s \<and> length b < n then b @ [0] else b, length p))"
proof -
  obtain r o1 k1 where f: "write_utf8_fast (int n) s [] 0 = (r, o1, k1)"
    by (metis prod_cases3)
  have "write_utf8_slow (int n) r o1 k1 =
     (drop (length (utf8_prefix n s)) s, utf8_bytes (utf8_prefix n s), length (utf8_prefix n s))"
    using write_utf8_phases [of "[]" n s 0] f by (simp add: Let_def)
  moreover have "drop (length (utf8_prefix n s)) s = [] \<longleftrightarrow> utf8_prefix n s = s"
    using utf8_prefix_take [of n s] by (metis drop_eq_Nil take_all take_all_iff)
  ultimately show ?thesis by (simp add: write_utf8_def f Let_def)
qed

lemma write_utf8_fast_unbounded:
  "write_utf8_fast (-1) s out k = ([], out @ utf8_bytes s, k + length s)"
  by (induction s arbitrary: out k) (simp_all add: utf8_bytes_Nil utf8_bytes_Cons)

lemma write_utf8_unbounded: "write_utf8 s (-1) = (utf8_bytes s @ [0], length s)"
  by (simp add: write_utf8_def write_utf8_fast_unbounded)

lemma write_utf8_fits: "length (fst (write_utf8 s (int n))) \<le> n"
  using utf8_prefix_fits [of n s]
  by (cases "utf8_prefix n s = s") (simp_all add: write_utf8_bounded Let_def)

lemma write_ascii_length:
  assumes "n \<le> length s"
  shows "write_ascii s 0 (int n) = (map ascii_char (take n s), int n)"
  using assms by (simp add: write_ascii_def)

lemma write_two_byte_length:
  assumes "n \<le> length s"
  shows "write_two_byte s 0 (int n) = (take n s, int n)"
  using assms by (simp add: write_two_byte_def)

lemma length_u16_bytes: "length (u16_bytes us) = 2 * length us"
  by (induction us) (simp_all add: u16_bytes_def)

lemma bytes_u16_bytes: "bytes_u16 (u16_bytes us) = us"
proof (induction us)
  case (Cons u us)
  have "(ucast (ucast u :: u8) OR push_bit 8 (ucast (ucast (drop_bit 8 u) :: u8))) = u"
    by (rule bit_word_eqI) (auto simp: bit_simps)
  then show ?case using Cons by (simp add: u16_bytes_def)
qed (simp add: u16_bytes_def)

end
