(* ===== verification/Base64.thy ===== *)
theory Base64
  imports Utf8
begin

text \<open>
  The base64 codec of \<open>src/node_buffer.cc\<close>: the two tables, the size estimate
  \<open>base64_decoded_size\<close>, the encoding loop of \<open>Buffer::Base64Slice\<close> and the decoding loop
  of \<open>Buffer::Base64Write\<close>, with a reference decoder on six-bit values and the conditions
  under which the estimate bounds what the loop stores.
\<close>

section \<open>The tables\<close>

definition base64_table :: string where
  "base64_table = ''ABCDEFGHIJKLMNOPQRSTUVWXYZ'' @ ''abcdefghijklmnopqrstuvwxyz'' @ ''0123456789+/''"

definition unbase64_table :: "int list" where
  "unbase64_table =
  [-1, -1, -1, -1, -1, -1, -1, -1, -1, -1, -2, -1, -1, -2, -1, -1,
   -1, -1, -1, -1, -1, -1, -1, -1, -1, -1, -1, -1, -1, -1, -1, -1,
   -2, -1, -1, -1, -1, -1, -1, -1, -1, -1, -1, 62, -1, -1, -1, 63,
   52, 53, 54, 55, 56, 57, 58, 59, 60, 61, -1, -1, -1, -1, -1, -1,
   -1, 0, 1, 2, 3, 4, 5, 6, 7, 8, 9, 10, 11, 12, 13, 14,
   15, 16, 17, 18, 19, 20, 21, 22, 23, 24, 25, -1, -1, -1, -1, -1,
   -1, 26, 27, 28, 29, 30, 31, 32, 33, 34, 35, 36, 37, 38, 39, 40,
   41, 42, 43, 44, 45, 46, 47, 48, 49, 50, 51, -1, -1, -1, -1, -1,
   -1, -1, -1, -1, -1, -1, -1, -1, -1, -1, -1, -1, -1, -1, -1, -1,
   -1, -1, -1, -1, -1, -1, -1, -1, -1, -1, -1, -1, -1, -1, -1, -1,
   -1, -1, -1, -1, -1, -1, -1, -1, -1, -1, -1, -1, -1, -1, -1, -1,
   -1, -1, -1, -1, -1, -1, -1, -1, -1, -1, -1, -1, -1, -1, -1, -1,
   -1, -1, -1, -1, -1, -1, -1, -1, -1, -1, -1, -1, -1, -1, -1, -1,
   -1, -1, -1, -1, -1, -1, -1, -1, -1, -1, -1, -1, -1, -1, -1, -1,
   -1, -1, -1, -1, -1, -1, -1, -1, -1, -1, -1, -1, -1, -1, -1, -1,
   -1, -1, -1, -1, -1, -1, -1, -1, -1, -1, -1, -1, -1, -1, -1, -1]"

definition unbase64 :: "u8 \<Rightarrow> int" where
  "unbase64 x = unbase64_table ! unat x"

definition base64_char :: "u8 \<Rightarrow> u8" where \<comment> \<open>\<open>base64_table[(int)c]\<close>\<close>
  "base64_char c = of_nat (of_char (base64_table ! unat c))"

definition eq_sign :: u8 where "eq_sign = 61" \<comment> \<open>the padding character\<close>

section \<open>base64_decoded_size\<close>

text \<open>
  \<open>size\<close> is a \<open>size_t\<close>: the two decrements wrap around at zero. \<open>end[-1]\<close> and \<open>end[-2]\<close>
  are only read when the estimate is positive, that is for two bytes or more.
\<close>

definition base64_decoded_size :: "u8 list \<Rightarrow> size_t" where
  "base64_decoded_size src =
     (let n = length src; remainder = n mod 4;
          size0 = of_nat (n div 4 * 3) :: size_t;
          size1 = (if remainder \<noteq> 0
                   then (if size0 = 0 \<and> remainder = 1 then 0
                         else size0 + 1 + (if remainder = 3 then 1 else 0))
                   else size0)
      in if size1 > 0
         then let size2 = (if src ! (n - 1) = eq_sign then size1 - 1 else size1)
              in (if src ! (n - 2) = eq_sign then size2 - 1 else size2)
         else size1)"

section \<open>The encoding loop of Buffer::Base64Slice\<close>

text \<open>
  One turn takes up to three bytes; a byte past the end reads as 0 and its characters
  become padding.
\<close>

definition quad1 :: "u8 \<Rightarrow> u8" where
  "quad1 b0 = drop_bit 2 b0"
definition quad2 :: "u8 \<Rightarrow> u8 \<Rightarrow> u8" where
  "quad2 b0 b1 = push_bit 4 (b0 AND 0x03) OR drop_bit 4 b1"
definition quad3 :: "u8 \<Rightarrow> u8 \<Rightarrow> u8" where
  "quad3 b1 b2 = push_bit 2 (b1 AND 0x0F) OR drop_bit 6 b2"
definition quad4 :: "u8 \<Rightarrow> u8" where
  "quad4 b2 = b2 AND 0x3F"

fun base64_encode :: "u8 list \<Rightarrow> u8 list" where
  "base64_encode [] = []"
| "base64_encode (x # xs) =
     (let b0 = x;
          b1_oob = (xs = []); b1 = (if b1_oob then 0 else xs ! 0);
          b2_oob = (length xs < 2); b2 = (if b2_oob then 0 else xs ! 1)
      in base64_char (quad1 b0)
         # base64_char (quad2 b0 b1)
         # (if b1_oob then eq_sign else base64_char (quad3 b1 b2))
         # (if b2_oob then eq_sign else base64_char (quad4 b2))
         # base64_encode (drop 2 xs))"

definition base64_out_len :: "int \<Rightarrow> int" where
  "base64_out_len n = (n + 2 - (n + 2) mod 3) div 3 * 4"

section \<open>The decoding loop of Buffer::Base64Write\<close>

text \<open>
  \<open>src\<close> is what is left of the string, whose memory ends with a NUL: \<open>cur\<close> is \<open>*src\<close>.
  \<open>base64_skip\<close> is the inner \<open>while\<close>, which also counts \<open>remaining\<close> down.
\<close>

definition cur :: "u8 list \<Rightarrow> u8" where
  "cur s = (if s = [] then 0 else hd s)"

fun base64_skip :: "u8 list \<Rightarrow> int \<Rightarrow> u8 list \<times> int" where
  "base64_skip [] remaining = ([], remaining)"
| "base64_skip (x # xs) remaining =
     (if unbase64 x < 0 then base64_skip xs (remaining - 1) else (x # xs, remaining))"

definition unbase64_char :: "u8 list \<Rightarrow> u8" where \<comment> \<open>\<open>unbase64(*src++)\<close>\<close>
  "unbase64_char s = word_of_int (unbase64 (cur s))"

definition octet1 :: "u8 \<Rightarrow> u8 \<Rightarrow> u8" where
  "octet1 a b = push_bit 2 a OR drop_bit 4 (b AND 0x30)"
definition octet2 :: "u8 \<Rightarrow> u8 \<Rightarrow> u8" where
  "octet2 b c = push_bit 4 (b AND 0x0F) OR drop_bit 2 (c AND 0x3C)"
definition octet3 :: "u8 \<Rightarrow> u8 \<Rightarrow> u8" where
  "octet3 c d = push_bit 6 (c AND 0x03) OR (d AND 0x3F)"

lemma base64_skip_length: "length (fst (base64_skip s r)) \<le> length s"
  by (induction s r rule: base64_skip.induct) auto

function base64_decode :: "u8 list \<Rightarrow> u8 list" where
  "base64_decode src =
     (if src = [] then []
      else let (s1, r1) = base64_skip src (int (length src))
           in if r1 = 0 \<or> cur s1 = eq_sign then []
              else let a = unbase64_char s1; (s2, r2) = base64_skip (tl s1) r1
           in if r2 \<le> 1 \<or> cur s2 = eq_sign then []
              else let b = unbase64_char s2;
                       x1 = octet1 a b;
                       (s3, r3) = base64_skip (tl s2) r2
           in if r3 \<le> 2 \<or> cur s3 = eq_sign then [x1]
              else let c = unbase64_char s3;
                       x2 = octet2 b c;
                       (s4, r4) = base64_skip (tl s3) r3
           in if r4 \<le> 3 \<or> cur s4 = eq_sign then [x1, x2]
              else let d = unbase64_char s4; x3 = octet3 c d
           in x1 # x2 # x3 # base64_decode (tl s4))"
  by pat_completeness auto
termination
proof (relation "measure length", goal_cases)
  case (2 src p1 s1 r1 a p2 s2 r2 b x1 p3 s3 r3 c x2 p4 s4 r4 d x3)
  have "length s1 \<le> length src" "length s2 \<le> length (tl s1)"
    "length s3 \<le> length (tl s2)" "length s4 \<le> length (tl s3)"
    using base64_skip_length [of src "int (length src)"] base64_skip_length [of "tl s1" r1]
      base64_skip_length [of "tl s2" r2] base64_skip_length [of "tl s3" r3] 2
    by (metis fst_conv)+
  moreover have "0 < length src" using 2 by simp
  ultimately show ?case unfolding length_tl in_measure by linarith
qed simp

declare base64_decode.simps [simp del]

section \<open>The decoder reads the valid characters\<close>

text \<open>
  The reference: drop every character outside the alphabet, then join six-bit values four
  at a time. The padding character is outside the alphabet.
\<close>

definition base64_valid :: "u8 \<Rightarrow> bool" where
  "base64_valid x \<longleftrightarrow> 0 \<le> unbase64 x"

definition sextet :: "u8 \<Rightarrow> u8" where
  "sextet x = word_of_int (unbase64 x)"

fun join_sextets :: "u8 list \<Rightarrow> u8 list" where
  "join_sextets (a # b # c # d # r) =
     octet1 a b # octet2 b c # octet3 c d # join_sextets r"
| "join_sextets [a, b, c] = [octet1 a b, octet2 b c]"
| "join_sextets [a, b] = [octet1 a b]"
| "join_sextets _ = []"

definition sextets_of :: "u8 list \<Rightarrow> u8 list" where
  "sextets_of s = map sextet (filter base64_valid s)"

lemma length_join_sextets: "length (join_sextets s) = 3 * length s div 4"
  by (induction s rule: join_sextets.induct) auto

lemma eq_sign_invalid [simp]: "\<not> base64_valid eq_sign"
  by (simp add: base64_valid_def eq_sign_def unbase64_def unbase64_table_def)

lemma base64_skip_spec:
  "base64_skip s r = (dropWhile (\<lambda>x. \<not> base64_valid x) s,
     r - int (length (takeWhile (\<lambda>x. \<not> base64_valid x) s)))"
  by (induction s r rule: base64_skip.induct) (auto simp: base64_valid_def)

lemma base64_skip_cases:
  assumes "base64_skip s r = (s', r')" "r = int (length s) + k"
  obtains "s' = []" "r' = k" "sextets_of s = []"
  | x t where "s' = x # t" "base64_valid x" "x \<noteq> eq_sign" "r' = int (length t) + 1 + k"
      "sextets_of s = sextet x # sextets_of t"
proof -
  have spec: "s' = dropWhile (\<lambda>x. \<not> base64_valid x) s"
    "r' = r - int (length (takeWhile (\<lambda>x. \<not> base64_valid x) s))"
    using assms(1) by (simp_all add: base64_skip_spec)
  have len: "int (length s) = int (length (takeWhile (\<lambda>x. \<not> base64_valid x) s)) + int (length s')"
    unfolding spec(1) by (metis length_append of_nat_add takeWhile_dropWhile_id)
  have sx: "sextets_of s = sextets_of s'"
    unfolding spec(1) sextets_of_def by (induction s) auto
  show thesis
  proof (cases s')
    case Nil
    then show ?thesis using that(1) sx spec(2) len assms(2) by (simp add: sextets_of_def)
  next
    case (Cons x t)
    then have "base64_valid x"
      using spec(1) hd_dropWhile [of "\<lambda>x. \<not> base64_valid x" s]
      by (metis list.distinct(1) list.sel(1))
    moreover from this have "x \<noteq> eq_sign" by auto
    ultimately show ?thesis
      using that(2) [of x t] Cons sx spec(2) len assms(2) by (simp add: sextets_of_def)
  qed
qed

lemma base64_decode_Nil [simp]: "base64_decode [] = []"
  by (simp add: base64_decode.simps)

lemma base64_decode_sextets: "base64_decode src = join_sextets (sextets_of src)"
proof (induction "length src" arbitrary: src rule: less_induct)
  case less
  show ?case
  proof (cases "src = []")
    case True then show ?thesis by (simp add: sextets_of_def)
  next
    case False
    have cur: "unbase64_char (x # t) = sextet x" "cur (x # t) = x" for x t
      by (simp_all add: unbase64_char_def sextet_def cur_def)
    note unfold = base64_decode.simps [of src] 
    obtain s1 r1 where e1: "base64_skip src (int (length src)) = (s1, r1)" by fastforce
    from e1 have "int (length src) = int (length src) + 0" by simp
    from e1 this show ?thesis
    proof (cases rule: base64_skip_cases)
      case 1 then show ?thesis using False e1 by (simp add: unfold)
    next
      case (2 x1 t1)
      note c1 = 2
      obtain s2 r2 where e2: "base64_skip t1 r1 = (s2, r2)" by fastforce
      from e2 have "r1 = int (length t1) + 1" using c1 by simp
      from e2 this show ?thesis
      proof (cases rule: base64_skip_cases)
        case 1 then show ?thesis using False e1 e2 c1 by (simp add: unfold cur Let_def)
      next
        case (2 x2 t2)
        note c2 = 2
        obtain s3 r3 where e3: "base64_skip t2 r2 = (s3, r3)" by fastforce
        from e3 have "r2 = int (length t2) + 2" using c2 by simp
        from e3 this show ?thesis
        proof (cases rule: base64_skip_cases)
          case 1 then show ?thesis using False e1 e2 e3 c1 c2 by (simp add: unfold cur Let_def)
        next
          case (2 x3 t3)
          note c3 = 2
          obtain s4 r4 where e4: "base64_skip t3 r3 = (s4, r4)" by fastforce
          from e4 have "r3 = int (length t3) + 3" using c3 by simp
          from e4 this show ?thesis
          proof (cases rule: base64_skip_cases)
            case 1 then show ?thesis using False e1 e2 e3 e4 c1 c2 c3 by (simp add: unfold cur Let_def)
          next
            case (2 x4 t4)
            have "length s1 \<le> length src" "length s2 \<le> length t1" "length s3 \<le> length t2"
              "length s4 \<le> length t3"
              using base64_skip_length e1 e2 e3 e4 by (metis fst_conv)+
            then have "length t4 < length src" using 2 c1 c2 c3 by simp
            note IH = less [OF this]
            then show ?thesis using False e1 e2 e3 e4 c1 c2 c3 2 by (simp add: unfold cur Let_def)
          qed
        qed
      qed
    qed
  qed
qed


section \<open>Decoding inverts encoding\<close>

lemma base64_tables_inverse:
  "map (\<lambda>c. unbase64_table ! of_char c) base64_table = map int [0..<64]"
  by (simp add: base64_table_def unbase64_table_def upt_rec)

lemma unbase64_char_of:
  assumes "unat c < 64"
  shows "unbase64 (base64_char c) = int (unat c)"
proof -
  have len: "length base64_table = 64" by (simp add: base64_table_def)
  have "(of_char (base64_table ! unat c) :: nat) < 256" by simp
  then have "unat (base64_char c) = of_char (base64_table ! unat c)"
    by (simp add: base64_char_def unat_of_nat take_bit_nat_eq_self)
  then show ?thesis
    using arg_cong [OF base64_tables_inverse, of "\<lambda>l. l ! unat c"] assms len
    by (simp add: unbase64_def)
qed

lemma base64_alphabet [simp]:
  assumes "unat c < 64"
  shows "base64_valid (base64_char c)" "sextet (base64_char c) = c"
  using unbase64_char_of [OF assms] by (simp_all add: base64_valid_def sextet_def)

lemmas quad_defs = quad1_def quad2_def quad3_def quad4_def
lemmas octet_defs = octet1_def octet2_def octet3_def

lemma quads_below [simp]:
  "unat (quad1 b0) < 64" "unat (quad2 b0 b1) < 64"
  "unat (quad3 b1 b2) < 64" "unat (quad4 b2) < 64"
  by (rule u8_below_64; simp add: quad_defs bit_simps bit_u8_beyond)+

lemma quads_join:
  "octet1 (quad1 b0) (quad2 b0 b1) = b0"
  "octet2 (quad2 b0 b1) (quad3 b1 b2) = b1"
  "octet3 (quad3 b1 b2) (quad4 b2) = b2"
  by (rule u8_eqI, simp add: quad_defs octet_defs all_less_8 bit_simps numeral_2_eq_2 [symmetric])+

lemma sextets_of_simps:
  "sextets_of [] = []"
  "sextets_of (x # s) = (if base64_valid x then sextet x # sextets_of s else sextets_of s)"
  by (simp_all add: sextets_of_def)

lemma join_encode: "join_sextets (sextets_of (base64_encode bs)) = bs"
  by (induction bs rule: by_threes) (simp_all add: sextets_of_simps Let_def quads_join)

lemma base64_decode_encode: "base64_decode (base64_encode bs) = bs"
  by (simp add: base64_decode_sextets join_encode)

lemma base64_encode_length: "length (base64_encode bs) = (length bs + 2) div 3 * 4"
proof (induction bs rule: by_threes)
  case (Three x y z r)
  have "(length (x # y # z # r) + 2) div 3 = Suc ((length r + 2) div 3)" by simp
  then show ?case using Three by (simp add: Let_def)
qed (simp_all add: Let_def)

lemma base64_out_len: "int (length (base64_encode bs)) = base64_out_len (int (length bs))"
proof -
  have "(int (length bs) + 2 - (int (length bs) + 2) mod 3) div 3 = (int (length bs) + 2) div 3"
    by (simp add: minus_mod_eq_mult_div)
  moreover have "int ((length bs + 2) div 3) = (int (length bs) + 2) div 3" by simp
  ultimately show ?thesis by (simp add: base64_encode_length base64_out_len_def)
qed

lemma base64_decode_length:
  "length (base64_decode src) = 3 * length (filter base64_valid src) div 4"
  by (simp add: base64_decode_sextets length_join_sextets sextets_of_def)



section \<open>What base64_decoded_size bounds\<close>

text \<open>The estimate before the padding is looked at.\<close>

definition base64_estimate :: "nat \<Rightarrow> nat" where
  "base64_estimate n = n div 4 * 3 + (if n mod 4 = 0 then 0 else if n mod 4 = 3 then 2 else 1)"

lemma base64_decoded_size_two:
  assumes "length body < 2 ^ 60"
  shows "base64_decoded_size (body @ [p, q]) =
     of_nat (base64_estimate (length body + 2)) - (if q = eq_sign then 1 else 0)
       - (if p = eq_sign then 1 else 0)"
proof -
  define n where "n = length body + 2"
  have len: "length (body @ [p, q]) = n" by (simp add: n_def)
  have n: "2 \<le> n" "n < 2 ^ 61" using assms by (auto simp: n_def)
  have small: "base64_estimate n < 2 ^ 64" "n div 4 * 3 < 2 ^ 64"
    using n by (auto simp: base64_estimate_def)
  have pos: "(of_nat (base64_estimate n) :: size_t) > 0"
  proof -
    have "0 < base64_estimate n" using n by (auto simp: base64_estimate_def)
    then have "0 < unat (of_nat (base64_estimate n) :: size_t)"
      by (simp only: unat_size_of_nat [OF small(1)])
    then show ?thesis by (simp add: word_less_nat_alt)
  qed
  have zero: "(of_nat (n div 4 * 3) :: size_t) = 0 \<longleftrightarrow> n div 4 = 0"
    by (metis unat_size_of_nat [OF small(2)] mult_is_0 of_nat_0 unat_0 zero_neq_numeral)
  have sum: "(if n mod 4 \<noteq> 0 then (if n div 4 = 0 \<and> n mod 4 = 1 then 0
            else of_nat (n div 4 * 3) + 1 + (if n mod 4 = 3 then 1 else 0))
          else of_nat (n div 4 * 3)) = (of_nat (base64_estimate n) :: size_t)"
    using n(1) by (auto simp: base64_estimate_def)
  have gen: "base64_decoded_size src =
     of_nat (base64_estimate n) - (if q = eq_sign then 1 else 0) - (if p = eq_sign then 1 else 0)"
    if "src ! (n - 1) = q" "src ! (n - 2) = p" "length src = n" for src
    unfolding base64_decoded_size_def Let_def that zero sum using pos by simp
  show ?thesis unfolding n_def [symmetric]
    by (rule gen) (simp_all add: n_def nth_append)
qed

lemma three_quarters:
  "3 * v div 4 = 3 * (v div 4) + (if v mod 4 < 2 then 0 else v mod 4 - 1)" for v :: nat
proof -
  have "3 * v = 4 * (3 * (v div 4)) + 3 * (v mod 4)"
    using div_mult_mod_eq [of v 4] by linarith
  then have "3 * v div 4 = 3 * (v div 4) + 3 * (v mod 4) div 4"
    by (metis add.commute div_mult_self2 zero_neq_numeral)
  moreover have "3 * m div 4 = (if m < 2 then 0 else m - 1)" if "m < 4" for m :: nat
  proof -
    have "m = 0 \<or> m = 1 \<or> m = 2 \<or> m = 3" using that by linarith
    then show ?thesis by auto
  qed
  ultimately show ?thesis using mod_less_divisor [of 4 v] by simp
qed

lemma quarters_arith:
  fixes a b c d e :: nat
  assumes "b = 0 \<or> b = 1 \<or> b = 2 \<or> b = 3" "d = 0 \<or> d = 1 \<or> d = 2 \<or> d = 3"
    "e = 0 \<or> e = 1 \<or> e = 2" "4 * a + b + e \<le> 4 * c + d"
  shows "3 * a + (if b < 2 then 0 else b - 1) + e \<le> 3 * c + (if d = 0 then 0 else if d = 3 then 2 else 1)
    \<longleftrightarrow> \<not> (e = 2 \<and> d = 2 \<and> 4 * a + b + 2 = 4 * c + d)"
  using assms by (elim disjE; hypsubst; simp; presburger?)

lemma base64_estimate_bound:
  assumes "v + e \<le> n" "e \<le> 2"
  shows "3 * v div 4 + e \<le> base64_estimate n \<longleftrightarrow> \<not> (e = 2 \<and> n mod 4 = 2 \<and> v + 2 = n)"
proof -
  define a b c d where def: "a = v div 4" "b = v mod 4" "c = n div 4" "d = n mod 4"
  have eqs: "4 * a + b = v" "4 * c + d = n" by (simp_all add: def)
  have "b < 4" "d < 4" by (simp_all add: def)
  then have ranges: "b = 0 \<or> b = 1 \<or> b = 2 \<or> b = 3" "d = 0 \<or> d = 1 \<or> d = 2 \<or> d = 3"
    "e = 0 \<or> e = 1 \<or> e = 2"
    using assms(2) by linarith+
  have "base64_estimate n = 3 * c + (if d = 0 then 0 else if d = 3 then 2 else 1)"
    by (simp only: base64_estimate_def def mult.commute)
  then show ?thesis
    using quarters_arith [OF ranges, of a c] assms(1)
    unfolding eqs three_quarters def(4) [symmetric] def(1) [symmetric] def(2) [symmetric]
    by simp
qed

lemma base64_write_fits:
  assumes "length src < 2 ^ 60"
  shows "length (base64_decode src) \<le> unat (base64_decoded_size src) \<longleftrightarrow>
    \<not> (\<exists>body. src = body @ [eq_sign, eq_sign] \<and> list_all base64_valid body
         \<and> body \<noteq> [] \<and> length body mod 4 = 0)"
proof (cases "length src \<le> 1")
  case True
  then have "length (base64_decode src) = 0"
    by (cases src) (simp_all add: base64_decode_length)
  then show ?thesis using True by auto
next
  case False
  then obtain body p q where src: "src = body @ [p, q]"
    using two_from_end [of src] by force
  define v where "v = length (filter base64_valid body)"
  define n where "n = length body + 2"
  define e where "e = of_bool (q = eq_sign) + (of_bool (p = eq_sign) :: nat)"
  have all: "v = length body \<longleftrightarrow> list_all base64_valid body" "v \<le> length body"
    unfolding v_def list_all_iff by (auto simp: filter_id_conv dest: sym) (metis length_filter_less order_less_irrefl)
  have size: "base64_decoded_size src = of_nat (base64_estimate n) - of_nat e"
    using assms base64_decoded_size_two [of body p q] by (simp add: src n_def e_def)
  define w where "w = length (filter base64_valid src)"
  have w: "w + e \<le> n" "w + 2 = n \<and> e = 2 \<longleftrightarrow> p = eq_sign \<and> q = eq_sign \<and> v = length body"
    using all(2) unfolding w_def e_def n_def src v_def
    by (auto intro: le_SucI simp: le_SucI [OF le_SucI])
  have mod: "n mod 4 = 2 \<longleftrightarrow> length body mod 4 = 0"
    unfolding n_def by presburger
  have bad: "(\<exists>body. src = body @ [eq_sign, eq_sign] \<and> list_all base64_valid body
         \<and> body \<noteq> [] \<and> length body mod 4 = 0)
     \<longleftrightarrow> e = 2 \<and> n mod 4 = 2 \<and> w + 2 = n \<and> body \<noteq> []"
    using w(2) all(1) mod by (auto simp: src)
  have e2: "e \<le> 2" by (simp add: e_def)
  have est_small: "base64_estimate n < 2 ^ 64"
    using assms by (auto simp: base64_estimate_def n_def src)
  have len: "length (base64_decode src) = 3 * w div 4"
    by (simp add: base64_decode_length w_def)
  show ?thesis
  proof (cases "e \<le> base64_estimate n")
    case True
    have "unat (base64_decoded_size src) = base64_estimate n - e"
      unfolding size of_nat_diff [OF True, symmetric]
      by (rule unat_size_of_nat) (use est_small in simp)
    moreover have "3 * w div 4 \<le> base64_estimate n - e \<longleftrightarrow> 3 * w div 4 + e \<le> base64_estimate n"
      using True by (rule Nat.le_diff_conv2)
    moreover have "e \<noteq> 2" if "body = []"
      using that True by (simp add: base64_estimate_def n_def)
    ultimately show ?thesis
      using base64_estimate_bound [OF w(1) e2] unfolding bad len by metis
  next
    case False
    have "2 \<le> base64_estimate n" if "body \<noteq> []"
    proof (cases "n = 3")
      case False
      then have "4 \<le> n" using that by (cases body) (auto simp: n_def neq_Nil_conv)
      then have "1 \<le> n div 4" by linarith
      then show ?thesis unfolding base64_estimate_def by linarith
    qed (simp add: base64_estimate_def)
    then have nil: "body = []" using e2 False by force
    then have "e = 2" using e2 False by (simp add: base64_estimate_def n_def)
    then have "w = 0" using w nil by (auto simp: n_def)
    then show ?thesis using nil unfolding bad len by simp
  qed
qed

text \<open>
  Property C7: decoding depends on the characters of the alphabet only: white space, the
  padding character and every other byte are skipped wherever they stand (the tests for
  \<open>'='\<close> never stop the loop), and \<open>v\<close> characters of the alphabet give \<open>3 * v div 4\<close> bytes.
\<close>

theorem base64_decode_alphabet_only:
  "base64_decode src = base64_decode (filter base64_valid src) \<and>
   length (base64_decode src) = 3 * length (filter base64_valid src) div 4"
  by (rule conjI, simp add: base64_decode_sextets sextets_of_def, rule base64_decode_length)

end
