(* ===== verification/Encoding.thy ===== *)
theory Encoding
  imports Base64
begin

text \<open>
  The encodings of \<open>src/node.cc\<close>: \<open>ParseEncoding\<close>, \<open>Encode\<close> from bytes to a string, and
  \<open>DecodeBytes\<close> with \<open>DecodeWrite\<close> from a value to bytes, which every binding that takes
  binary data as a string is built on (Buffer, the sockets, the crypto classes).
\<close>

datatype encoding = ASCII | UTF8 | BASE64 | UCS2 | BINARY

section \<open>ParseEncoding\<close>

definition parse_encoding :: "js_value \<Rightarrow> encoding \<Rightarrow> encoding" where
  "parse_encoding v otherwise =
     (case v of
        JString s \<Rightarrow>
          (let e = utf8_value s
           in if strcaseeq e ''utf8'' then UTF8
              else if strcaseeq e ''utf-8'' then UTF8
              else if strcaseeq e ''ascii'' then ASCII
              else if strcaseeq e ''base64'' then BASE64
              else if strcaseeq e ''ucs2'' then UCS2
              else if strcaseeq e ''ucs-2'' then UCS2
              else if strcaseeq e ''binary'' then BINARY
              else if strcaseeq e ''raw'' then BINARY
              else if strcaseeq e ''raws'' then BINARY
              else otherwise)
      | _ \<Rightarrow> otherwise)"

section \<open>Encode\<close>

text \<open>Only \<open>BINARY\<close> is told apart: every other encoding reads the bytes as UTF-8.\<close>

definition encode :: "u8 list \<Rightarrow> encoding \<Rightarrow> js_string" where
  "encode buf e =
     (if buf = [] then []
      else if e = BINARY then map ucast buf
      else utf8_decode buf)"

section \<open>DecodeBytes and DecodeWrite\<close>

definition decode_bytes :: "conv \<Rightarrow> js_value \<Rightarrow> encoding \<Rightarrow> int outcome" where
  "decode_bytes h v e =
     oassert (\<not> is_array v)
       (let str = to_string h v
        in Return (if e = UTF8 then int (utf8_length str)
                   else if e = UCS2 then int (length str) * 2
                   else int (length str)))"

text \<open>
  The result is what is stored at \<open>buf\<close> and the value returned. \<open>fresh\<close> is what the
  memory of \<open>new uint16_t[buflen]\<close> holds before \<open>Write\<close> fills a prefix of it; the loop
  reads every cell.
\<close>

definition two_byte_cells :: "(nat \<Rightarrow> u16) \<Rightarrow> nat \<Rightarrow> u16 list \<Rightarrow> u16 list" where
  "two_byte_cells fresh n stored =
     map (\<lambda>i. if i < length stored then stored ! i else fresh i) [0..<n]"

definition decode_write ::
  "conv \<Rightarrow> (nat \<Rightarrow> u16) \<Rightarrow> size_t \<Rightarrow> js_value \<Rightarrow> encoding \<Rightarrow> (u8 list \<times> size_t) outcome" where
  "decode_write h fresh buflen v e =
     oassert (\<not> is_array v)
       (let str = to_string h v
        in if e = UTF8 then Return (fst (write_utf8 str (int_of_size buflen)), buflen)
           else if e = ASCII then Return (fst (write_ascii str 0 (int_of_size buflen)), buflen)
           else oassert (e = BINARY)
             (let stored = fst (write_two_byte str 0 (int_of_size buflen));
                  cells = two_byte_cells fresh (unat buflen) stored
              in if unat buflen < length stored then Overrun
                 else oassert (\<forall>c\<in>set cells. drop_bit 8 c = 0)
                        (Return (map ucast cells, buflen))))"

section \<open>Facts about the encodings\<close>

lemma parse_encoding_not_string: "\<not> is_string v \<Longrightarrow> parse_encoding v d = d"
  by (cases v) (simp_all add: parse_encoding_def)

lemma length_encode_binary: "length (encode bs BINARY) = length bs"
  by (simp add: encode_def)

lemma ucast_u8_u16: "(ucast (ucast (b :: u8) :: u16) :: u8) = b"
  by (rule bit_word_eqI) (auto simp: bit_simps)

lemma high_byte_u8: "drop_bit 8 (ucast (b :: u8) :: u16) = 0"
  by (rule bit_word_eqI) (auto simp: bit_simps bit_u8_beyond)

lemma two_byte_cells_full: "length stored = n \<Longrightarrow> two_byte_cells fresh n stored = stored"
  by (rule nth_equalityI) (simp_all add: two_byte_cells_def)

lemma unat_of_small_nat:
  assumes "n < 2 ^ 31" shows "unat (of_nat n :: size_t) = n"
proof (rule unat_size_of_nat)
  show "n < 2 ^ 64" using assms by simp
qed

lemma int_of_size_nat: "n < 2 ^ 31 \<Longrightarrow> int_of_size (of_nat n) = int n"
  using int_of_size_small [of "of_nat n"] by (simp add: unat_of_small_nat)

text \<open>
  \<open>DecodeWrite\<close> with \<open>BINARY\<close> on as many bytes as the string has characters, the way every
  caller uses it: each character must be below 256.
\<close>

lemma decode_write_binary:
  assumes "n \<le> length s" "n < 2 ^ 31"
  shows "decode_write h fresh (of_nat n) (JString s) BINARY =
     (if \<forall>c\<in>set (take n s). drop_bit 8 c = 0
      then Return (map ucast (take n s), of_nat n) else Abort)"
  using assms by (simp add: decode_write_def int_of_size_nat unat_of_small_nat
      write_two_byte_length two_byte_cells_full oassert_def Let_def)

text \<open>
  Binary strings carry bytes faithfully. \<open>Encode\<close> with \<open>BINARY\<close> followed by
  \<open>DecodeBytes\<close> and \<open>DecodeWrite\<close> gives the bytes back, and their number both times.
\<close>

theorem binary_roundtrip:
  assumes "length bs < 2 ^ 31"
  shows "decode_bytes h (JString (encode bs BINARY)) BINARY = Return (int (length bs)) \<and>
    decode_write h fresh (of_nat (length bs)) (JString (encode bs BINARY)) BINARY
      = Return (bs, of_nat (length bs))"
proof -
  let ?s = "encode bs BINARY"
  have s: "?s = map ucast bs" by (simp add: encode_def)
  have "\<forall>c\<in>set (take (length bs) ?s). drop_bit 8 c = 0"
    by (auto simp: s high_byte_u8)
  moreover have "map ucast (take (length bs) ?s) = bs"
    by (simp add: s ucast_u8_u16 comp_def)
  ultimately show ?thesis
    using decode_write_binary [of "length bs" ?s h fresh] assms
    by (simp add: length_encode_binary decode_bytes_def oassert_def)
qed

theorem binary_roundtrip_witness:
  "decode_write \<lparr>other_to_number = \<lambda>_. NaN, other_to_string = \<lambda>_. []\<rparr> (\<lambda>_. 0xFFFF) 2
     (JString (encode [0x80, 0xFF] BINARY)) BINARY = Return ([0x80, 0xFF], 2)"
  using binary_roundtrip [of "[0x80, 0xFF]"] by simp

text \<open>
  Property C6: \<open>Encode\<close> with any encoding but \<open>BINARY\<close> inverts UTF-8 on every string, and
  \<open>DecodeBytes\<close> with \<open>UTF8\<close> counts exactly the bytes \<open>DecodeWrite\<close> then stores.
\<close>

theorem utf8_encode_decode:
  assumes "e \<noteq> BINARY" "utf8_length s < 2 ^ 31"
  shows "encode (utf8_bytes s) e = s \<and>
    decode_bytes h (JString s) UTF8 = Return (int (utf8_length s)) \<and>
    decode_write h fresh (of_nat (utf8_length s)) (JString s) UTF8
      = Return (utf8_bytes s, of_nat (utf8_length s))"
proof -
  have "encode (utf8_bytes s) e = s"
    using assms(1) utf8_decode_bytes [of s] by (auto simp: encode_def)
  then show ?thesis
    using assms(2) by (simp add: decode_bytes_def decode_write_def oassert_def
        int_of_size_nat write_utf8_bounded length_utf8_bytes utf8_prefix_all Let_def)
qed

theorem utf8_encode_decode_witness:
  "encode [0xC3, 0xA9] ASCII = [0xE9]"
  using utf8_encode_decode [of ASCII "[0xE9]"]
  by (simp add: utf8_bytes_def utf8_length_def utf8_encode_def utf8_char_length_def utf8_mask_def)

text \<open>
  What \<open>DecodeWrite\<close> rejects it rejects by a failed assertion, not by an error
  value: arrays, the encodings \<open>BASE64\<close> and \<open>UCS2\<close> that \<open>ParseEncoding\<close> accepts, and a
  binary string with a character above 255.
\<close>

theorem decode_write_aborts:
  "decode_write h fresh n (JArray vs) e = Abort \<and>
   decode_write h fresh n (JString s) BASE64 = Abort \<and>
   decode_write h fresh n (JString s) UCS2 = Abort \<and>
   (length s < 2 ^ 31 \<longrightarrow>
     (decode_write h fresh (of_nat (length s)) (JString s) BINARY = Abort \<longleftrightarrow>
      (\<exists>c\<in>set s. drop_bit 8 c \<noteq> 0)))"
  using decode_write_binary [of "length s" s h fresh]
  by (auto simp: decode_write_def oassert_def)

theorem decode_write_aborts_witness:
  "decode_write \<lparr>other_to_number = \<lambda>_. NaN, other_to_string = \<lambda>_. []\<rparr> (\<lambda>_. 0) 1
     (JString [0x20AC]) BINARY = Abort"
proof -
  have "drop_bit 8 (0x20AC :: u16) \<noteq> 0" by simp
  then show ?thesis
    using decode_write_aborts [of _ _ 0 "[]" ASCII "[0x20AC]"] by force
qed

end
