(* ===== verification/Buffer.thy ===== *)
theory Buffer
  imports Encoding
begin

declare of_nat_unat [simp del] One_nat_def [simp del]

lemma list_one [simp]: "take 1 (x # xs) = [x]" "drop 1 (x # xs) = xs" "(x # xs) ! 1 = xs ! 0"
  by (simp_all add: One_nat_def)

text \<open>
  \<open>src/node_buffer.cc\<close>: the class behind \<open>SlowBuffer\<close>. A \<open>buffer\<close> holds the four members of
  the C++ object and what its wrapper shows to JavaScript, the external array and the
  \<open>length\<close> property; the \<open>heap\<close> holds the blocks of memory and V8's count of external memory.
  Every method reads or writes through \<open>data_\<close>, so an access outside the block is \<open>Overrun\<close>.
\<close>

section \<open>State\<close>

type_synonym pointer = "block_id \<times> nat"

text \<open>Block 0 holds no memory: it is where \<open>NULL\<close> points.\<close>

definition null_pointer :: pointer where "null_pointer = (0, 0)"

text \<open>
  \<open>garbage\<close> is what a fresh block holds before anything is written to it; \<open>freed\<close> records
  the calls of the callbacks that give external memory back.
\<close>

record heap =
  blocks :: "block_id \<Rightarrow> u8 list"
  next_block :: block_id
  garbage :: "block_id \<Rightarrow> nat \<Rightarrow> u8"
  external_bytes :: int
  freed :: "(nat \<times> pointer \<times> nat) list"
  chars_written :: "int option" \<comment> \<open>\<open>SlowBuffer._charsWritten\<close>\<close>

record buffer =
  buf_length :: size_t
  buf_data :: pointer
  buf_callback :: "nat option"
  buf_hint :: nat
  indexed :: ext_array \<comment> \<open>the wrapper's external array data\<close>
  length_prop :: nat

definition read_mem :: "heap \<Rightarrow> pointer \<Rightarrow> nat \<Rightarrow> u8 list outcome" where
  "read_mem hp p n = of_mem (peek (blocks hp (fst p)) (snd p) n)"

definition write_mem :: "heap \<Rightarrow> pointer \<Rightarrow> u8 list \<Rightarrow> heap outcome" where
  "write_mem hp p bs =
     obind (of_mem (poke (blocks hp (fst p)) (snd p) bs))
       (\<lambda>m. Return (hp\<lparr>blocks := (blocks hp)(fst p := m)\<rparr>))"

definition advance :: "pointer \<Rightarrow> nat \<Rightarrow> pointer" where \<comment> \<open>\<open>p + n\<close>\<close>
  "advance p n = (fst p, snd p + n)"

definition new_array :: "nat \<Rightarrow> heap \<Rightarrow> pointer \<times> heap" where
  "new_array n hp =
     (let b = next_block hp
      in ((b, 0), hp\<lparr>blocks := (blocks hp)(b := map (garbage hp b) [0..<n]), next_block := Suc b\<rparr>))"

definition delete_array :: "pointer \<Rightarrow> heap \<Rightarrow> heap" where
  "delete_array p hp = hp\<lparr>blocks := (blocks hp)(fst p := [])\<rparr>"

text \<open>
  \<open>V8::AdjustAmountOfExternalAllocatedMemory\<close>: the count never wraps and never gets
  negative. The argument is an \<open>int\<close>.
\<close>

definition adjust_external :: "size_t \<Rightarrow> heap \<Rightarrow> heap" where
  "adjust_external change hp =
     (let c = int_of_size change;
          amount = signed_take_bit 31 (external_bytes hp + c)
      in if 0 \<le> c then (if external_bytes hp < amount then hp\<lparr>external_bytes := amount\<rparr> else hp)
         else (if 0 \<le> amount then hp\<lparr>external_bytes := amount\<rparr> else hp))"

text \<open>\<open>sizeof(Buffer)\<close> on x86-64: the virtual table, handle and count of \<open>ObjectWrap\<close>, then four words.\<close>

definition sizeof_buffer :: size_t where "sizeof_buffer = 56"

section \<open>Construction: Replace, New, the destructor\<close>

text \<open>
  \<open>SetIndexedPropertiesToExternalArrayData\<close> takes the length as an \<open>int\<close>; above
  \<open>0x3fffffff\<close> the API check fails and the process ends.
\<close>

definition set_indexed :: "pointer \<Rightarrow> size_t \<Rightarrow> ext_array outcome" where
  "set_indexed p len =
     oassert (int_of_size len \<le> 0x3fffffff)
       (Return \<lparr>ea_block = fst p, ea_off = snd p, ea_len = int_of_size len\<rparr>)"

definition buffer_release :: "buffer \<Rightarrow> heap \<Rightarrow> heap" where
  "buffer_release b hp =
     (case buf_callback b of
        Some cb \<Rightarrow> hp\<lparr>freed := freed hp @ [(cb, buf_data b, buf_hint b)]\<rparr>
      | None \<Rightarrow>
          if buf_length b \<noteq> 0
          then adjust_external (- (sizeof_buffer + buf_length b)) (delete_array (buf_data b) hp)
          else hp)"

definition buffer_replace ::
  "pointer \<Rightarrow> size_t \<Rightarrow> nat option \<Rightarrow> nat \<Rightarrow> buffer \<Rightarrow> heap \<Rightarrow> (buffer \<times> heap) outcome" where
  "buffer_replace data len callback hint b hp =
     (let hp1 = buffer_release b hp;
          b1 = b\<lparr>buf_length := len, buf_callback := callback, buf_hint := hint\<rparr>;
          finish = (\<lambda>(p, hp2). obind (set_indexed p len) (\<lambda>ea.
             Return (b1\<lparr>buf_data := p, indexed := ea, length_prop := unat (ucast len :: u32)\<rparr>, hp2)))
      in if callback \<noteq> None then finish (data, hp1)
         else if len \<noteq> 0 then
           (let (p, hp2) = new_array (unat len) hp1
            in obind (if data \<noteq> null_pointer
                      then obind (read_mem hp2 data (unat len)) (write_mem hp2 p)
                      else Return hp2)
                 (\<lambda>hp3. finish (p, adjust_external (sizeof_buffer + len) hp3)))
         else finish (null_pointer, hp1))"

text \<open>The constructor and the destructor: \<open>Replace\<close> from and to the empty state.\<close>

definition buffer_blank :: buffer where
  "buffer_blank = \<lparr>buf_length = 0, buf_data = null_pointer, buf_callback = None, buf_hint = 0,
     indexed = \<lparr>ea_block = 0, ea_off = 0, ea_len = 0\<rparr>, length_prop = 0\<rparr>"

definition buffer_construct :: "size_t \<Rightarrow> heap \<Rightarrow> (buffer \<times> heap) outcome" where
  "buffer_construct len = buffer_replace null_pointer len None 0 buffer_blank"

definition buffer_destroy :: "buffer \<Rightarrow> heap \<Rightarrow> (buffer \<times> heap) outcome" where
  "buffer_destroy = buffer_replace null_pointer 0 None 0"

text \<open>\<open>new SlowBuffer(n)\<close>, and the C++ constructors that take memory over.\<close>

definition buffer_new :: "conv \<Rightarrow> js_value list \<Rightarrow> heap \<Rightarrow> (buffer \<times> heap) outcome" where
  "buffer_new h args hp =
     (if is_int32 (arg args 0)
      then buffer_construct (of_nat (uint32_value h (arg args 0))) hp
      else Throw (JsTypeError ''Bad argument''))"

definition buffer_new_size :: "conv \<Rightarrow> size_t \<Rightarrow> heap \<Rightarrow> (buffer \<times> heap) outcome" where
  "buffer_new_size h len = buffer_new h [jint (uint (ucast len :: u32))]"

definition buffer_new_data ::
  "conv \<Rightarrow> pointer \<Rightarrow> size_t \<Rightarrow> nat option \<Rightarrow> nat \<Rightarrow> heap \<Rightarrow> (buffer \<times> heap) outcome" where
  "buffer_new_data h data len callback hint hp =
     obind (buffer_new h [jint 0] hp)
       (\<lambda>(b, hp1). buffer_replace data len callback hint b hp1)"

section \<open>Slices\<close>

text \<open>The macro \<open>SLICE_ARGS\<close>, which every slice starts with.\<close>

definition slice_args :: "conv \<Rightarrow> js_value list \<Rightarrow> buffer \<Rightarrow> (int \<times> int) outcome" where
  "slice_args h args parent =
     (if \<not> is_int32 (arg args 0) \<or> \<not> is_int32 (arg args 1)
      then Throw (JsTypeError ''Bad argument.'')
      else let start = int32_value h (arg args 0); fin = int32_value h (arg args 1)
      in if start < 0 \<or> fin < 0 then Throw (JsTypeError ''Bad argument.'')
         else if \<not> start \<le> fin then Throw (JsError ''Must have start <= end'')
         else if size_of_int fin > buf_length parent
         then Throw (JsError ''end cannot be longer than parent.length'')
         else Return (start, fin))"

definition slice_bytes :: "conv \<Rightarrow> heap \<Rightarrow> buffer \<Rightarrow> js_value list \<Rightarrow> u8 list outcome" where
  "slice_bytes h hp parent args =
     obind (slice_args h args parent)
       (\<lambda>(start, fin). read_mem hp (advance (buf_data parent) (nat start)) (nat (fin - start)))"

definition binary_slice :: "conv \<Rightarrow> heap \<Rightarrow> buffer \<Rightarrow> js_value list \<Rightarrow> js_value outcome" where
  "binary_slice h hp parent args =
     obind (slice_bytes h hp parent args) (\<lambda>bs. Return (JString (encode bs BINARY)))"

definition ascii_slice :: "conv \<Rightarrow> heap \<Rightarrow> buffer \<Rightarrow> js_value list \<Rightarrow> js_value outcome" where
  "ascii_slice h hp parent args =
     obind (slice_bytes h hp parent args) (\<lambda>bs. Return (JString (utf8_decode bs)))"

definition utf8_slice :: "conv \<Rightarrow> heap \<Rightarrow> buffer \<Rightarrow> js_value list \<Rightarrow> js_value outcome" where
  "utf8_slice h hp parent args =
     obind (slice_bytes h hp parent args) (\<lambda>bs. Return (JString (utf8_decode bs)))"

definition ucs2_slice :: "conv \<Rightarrow> heap \<Rightarrow> buffer \<Rightarrow> js_value list \<Rightarrow> js_value outcome" where
  "ucs2_slice h hp parent args =
     obind (slice_args h args parent)
       (\<lambda>(start, fin).
          obind (read_mem hp (advance (buf_data parent) (nat start)) (nat ((fin - start) div 2 * 2)))
            (\<lambda>bs. Return (JString (bytes_u16 bs))))"

text \<open>
  The loop of \<open>Base64Slice\<close> with its assertions. A character is stored at \<open>out[j]\<close> when
  \<open>j\<close> is inside the array of \<open>out_len\<close> bytes; the remaining output is returned.
\<close>

definition put_char :: "int \<Rightarrow> int \<Rightarrow> u8 \<Rightarrow> u8 list outcome \<Rightarrow> u8 list outcome" where
  "put_char j out_len c rest =
     (if 0 \<le> j \<and> j < out_len then obind rest (\<lambda>cs. Return (c # cs)) else Overrun)"

definition put_sextet :: "int \<Rightarrow> int \<Rightarrow> u8 \<Rightarrow> u8 list outcome \<Rightarrow> u8 list outcome" where
  "put_sextet j out_len c rest = oassert (sint c < 64) (put_char j out_len (base64_char c) rest)"

fun base64_loop :: "u8 list \<Rightarrow> int \<Rightarrow> int \<Rightarrow> u8 list outcome" where
  "base64_loop [] j out_len = Return []"
| "base64_loop (x # xs) j out_len =
     (let b0 = x;
          b1_oob = (xs = []); b1 = (if b1_oob then 0 else xs ! 0);
          b2_oob = (length xs < 2); b2 = (if b2_oob then 0 else xs ! 1)
      in put_sextet j out_len (quad1 b0) (oassert (j + 1 < out_len)
        (put_sextet (j + 1) out_len (quad2 b0 b1) (oassert (j + 2 < out_len)
        ((if b1_oob then put_char (j + 2) out_len eq_sign
          else put_sextet (j + 2) out_len (quad3 b1 b2)) (oassert (j + 3 < out_len)
        ((if b2_oob then put_char (j + 3) out_len eq_sign
          else put_sextet (j + 3) out_len (quad4 b2)) (oassert (j + 4 \<le> out_len)
        (base64_loop (drop 2 xs) (j + 4) out_len)))))))))"

definition base64_slice :: "conv \<Rightarrow> heap \<Rightarrow> buffer \<Rightarrow> js_value list \<Rightarrow> js_value outcome" where
  "base64_slice h hp parent args =
     obind (slice_args h args parent)
       (\<lambda>(start, fin).
          obind (read_mem hp (advance (buf_data parent) (nat start)) (nat (fin - start)))
            (\<lambda>bs. obind (base64_loop bs 0 (base64_out_len (fin - start)))
               (\<lambda>out. Return (JString (utf8_decode out)))))"

section \<open>Copy\<close>

text \<open>
  The length of the source is a \<open>size_t\<close>, the indices are signed: a comparison of the two is
  unsigned, and so is the outer \<open>MIN\<close>.
\<close>

fun has_instance :: "js_value \<Rightarrow> bool" where
  "has_instance (JBuffer _) = True"
| "has_instance _ = False"

fun array_of :: "js_value \<Rightarrow> ext_array" where
  "array_of (JBuffer ea) = ea"
| "array_of _ = \<lparr>ea_block = 0, ea_off = 0, ea_len = 0\<rparr>"

definition copy_length :: "buffer \<Rightarrow> int \<Rightarrow> int \<Rightarrow> int \<Rightarrow> int \<Rightarrow> int" where
  "copy_length source target_length target_start source_start source_end =
     (let a = source_end - source_start; b = target_length - target_start;
          inner = (if a < b then a else b);
          c = buf_length source - size_of_int source_start
      in if size_of_int inner < c then inner else sint c)"

definition buffer_copy ::
  "conv \<Rightarrow> heap \<Rightarrow> buffer \<Rightarrow> js_value list \<Rightarrow> (js_value \<times> heap) outcome" where
  "buffer_copy h hp source args =
     (if \<not> has_instance (arg args 0)
      then Throw (JsTypeError ''First arg should be a Buffer'')
      else let target = array_of (arg args 0);
               target_start = int32_value h (arg args 1);
               source_start = int32_value h (arg args 2);
               source_end = (if is_int32 (arg args 3) then int32_value h (arg args 3)
                             else sint (buf_length source))
      in if source_end < source_start then Throw (JsError ''sourceEnd < sourceStart'')
      else if source_end = source_start then Return (jint 0, hp)
      else if target_start < 0 \<or> ea_len target \<le> target_start
      then Throw (JsError ''targetStart out of bounds'')
      else if source_start < 0 \<or> buf_length source \<le> size_of_int source_start
      then Throw (JsError ''sourceStart out of bounds'')
      else if source_end < 0 \<or> buf_length source < size_of_int source_end
      then Throw (JsError ''sourceEnd out of bounds'')
      else let to_copy = copy_length source (ea_len target) target_start source_start source_end
      in obind (read_mem hp (advance (buf_data source) (nat source_start)) (nat to_copy))
           (\<lambda>bs. obind (write_mem hp (ea_block target, ea_off target + nat target_start) bs)
              (\<lambda>hp'. Return (jint to_copy, hp'))))"

section \<open>Writes\<close>

text \<open>
  The offset check all of them but \<open>base64Write\<close> have, and the bound that \<open>utf8Write\<close>,
  \<open>ucs2Write\<close> and \<open>asciiWrite\<close> compute. The check is skipped for the empty string, and then
  \<open>length_ - offset\<close> can wrap around.
\<close>

definition offset_ok :: "js_string \<Rightarrow> size_t \<Rightarrow> buffer \<Rightarrow> bool" where
  "offset_ok s offset b \<longleftrightarrow> \<not> (length s > 0 \<and> offset \<ge> buf_length b)"

definition write_bound :: "conv \<Rightarrow> js_value \<Rightarrow> size_t \<Rightarrow> buffer \<Rightarrow> size_t" where
  "write_bound h v offset b =
     (let m = (if v = JUndefined then buf_length b - offset else of_nat (uint32_value h v))
      in if buf_length b - offset < m then buf_length b - offset else m)"

definition utf8_write ::
  "conv \<Rightarrow> heap \<Rightarrow> buffer \<Rightarrow> js_value list \<Rightarrow> (js_value \<times> heap) outcome" where
  "utf8_write h hp b args =
     (if \<not> is_string (arg args 0) then Throw (JsTypeError ''Argument must be a string'')
      else let s = to_string h (arg args 0);
               offset = of_nat (uint32_value h (arg args 1))
      in if \<not> offset_ok s offset b then Throw (JsTypeError ''Offset is out of bounds'')
      else let max_length = write_bound h (arg args 2) offset b;
               (bs, chars) = write_utf8 s (int_of_size max_length)
      in obind (write_mem hp (advance (buf_data b) (unat offset)) bs)
           (\<lambda>hp'. let written = int (length bs);
                      hp'' = hp'\<lparr>chars_written := Some (int chars)\<rparr>
                  in Return (jint (if 0 < written \<and> last bs = 0 then written - 1 else written),
                             hp'')))"

definition ucs2_write ::
  "conv \<Rightarrow> heap \<Rightarrow> buffer \<Rightarrow> js_value list \<Rightarrow> (js_value \<times> heap) outcome" where
  "ucs2_write h hp b args =
     (if \<not> is_string (arg args 0) then Throw (JsTypeError ''Argument must be a string'')
      else let s = to_string h (arg args 0);
               offset = of_nat (uint32_value h (arg args 1))
      in if \<not> offset_ok s offset b then Throw (JsTypeError ''Offset is out of bounds'')
      else let max_length = write_bound h (arg args 2) offset b;
               (us, written) = write_two_byte s 0 (int_of_size max_length)
      in obind (write_mem hp (advance (buf_data b) (unat offset)) (u16_bytes us))
           (\<lambda>hp'. Return (jint (written * 2), hp')))"

definition ascii_write ::
  "conv \<Rightarrow> heap \<Rightarrow> buffer \<Rightarrow> js_value list \<Rightarrow> (js_value \<times> heap) outcome" where
  "ascii_write h hp b args =
     (if \<not> is_string (arg args 0) then Throw (JsTypeError ''Argument must be a string'')
      else let s = to_string h (arg args 0);
               offset = size_of_int (int32_value h (arg args 1))
      in if \<not> offset_ok s offset b then Throw (JsTypeError ''Offset is out of bounds'')
      else let m = write_bound h (arg args 2) offset b;
               len = size_of_int (int (length s));
               max_length = (if len < m then len else m);
               (bs, written) = write_ascii s 0 (int_of_size max_length)
      in obind (write_mem hp (advance (buf_data b) (unat offset)) bs)
           (\<lambda>hp'. Return (jint written, hp')))"

text \<open>The assertions of \<open>base64Write\<close> on the table.\<close>

definition unbase64_asserts :: bool where
  "unbase64_asserts \<longleftrightarrow>
     unbase64 (of_char CHR ''/'') = 63 \<and> unbase64 (of_char CHR ''+'') = 62 \<and>
     unbase64 (of_char CHR ''T'') = 19 \<and> unbase64 (of_char CHR ''Z'') = 25 \<and>
     unbase64 (of_char CHR ''t'') = 45 \<and> unbase64 (of_char CHR ''z'') = 51 \<and>
     unbase64 32 = -2 \<and> unbase64 10 = -2 \<and> unbase64 13 = -2"

definition base64_write ::
  "conv \<Rightarrow> heap \<Rightarrow> buffer \<Rightarrow> js_value list \<Rightarrow> (js_value \<times> heap) outcome" where
  "base64_write h hp b args =
     oassert unbase64_asserts
     (if \<not> is_string (arg args 0) then Throw (JsTypeError ''Argument must be a string'')
      else let s = ascii_value (to_string h (arg args 0));
               offset = size_of_int (int32_value h (arg args 1))
      in if offset = 0 \<and> buf_length b = 0 then Return (jint 0, hp)
      else if offset \<ge> buf_length b then Throw (JsTypeError ''Offset is out of bounds'')
      else if base64_decoded_size s > buf_length b - offset
      then Throw (JsTypeError ''Buffer too small'')
      else let dst = base64_decode s
      in obind (write_mem hp (advance (buf_data b) (unat offset)) dst)
           (\<lambda>hp'. Return (jint (int (length dst)), hp')))"

definition binary_write ::
  "conv \<Rightarrow> (nat \<Rightarrow> u16) \<Rightarrow> heap \<Rightarrow> buffer \<Rightarrow> js_value list \<Rightarrow> (js_value \<times> heap) outcome" where
  "binary_write h fresh hp b args =
     (if \<not> is_string (arg args 0) then Throw (JsTypeError ''Argument must be a string'')
      else let s = to_string h (arg args 0);
               offset = size_of_int (int32_value h (arg args 1))
      in if \<not> offset_ok s offset b then Throw (JsTypeError ''Offset is out of bounds'')
      else let len = of_nat (length s); room = buf_length b - offset;
               towrite = (if len < room then len else room)
      in obind (decode_write h fresh towrite (JString s) BINARY)
           (\<lambda>(bs, n). obind (write_mem hp (advance (buf_data b) (unat offset)) bs)
              (\<lambda>hp'. Return (jint (int_of_size n), hp'))))"

section \<open>byteLength and makeFastBuffer\<close>

definition byte_length_of :: "js_string \<Rightarrow> encoding \<Rightarrow> size_t" where
  "byte_length_of s e =
     (if e = UTF8 then of_nat (utf8_length s)
      else if e = BASE64 then base64_decoded_size (utf8_value s)
      else if e = UCS2 then size_of_int (int (length s) * 2)
      else of_nat (length s))"

definition byte_length :: "conv \<Rightarrow> js_value list \<Rightarrow> js_value outcome" where
  "byte_length h args =
     (if \<not> is_string (arg args 0) then Throw (JsTypeError ''Argument must be a string'')
      else let s = to_string h (arg args 0); e = parse_encoding (arg args 1) UTF8
      in Return (jint (int_of_size (byte_length_of s e))))"

text \<open>
  The new external array of the second argument: the offset and length are taken as they
  are.
\<close>

definition make_fast_buffer :: "conv \<Rightarrow> buffer \<Rightarrow> js_value list \<Rightarrow> ext_array outcome" where
  "make_fast_buffer h b args =
     set_indexed (advance (buf_data b) (uint32_value h (arg args 2)))
       (of_nat (uint32_value h (arg args 3)))"

section \<open>Well-formed buffers\<close>

text \<open>What construction establishes: \<open>data_\<close> points to \<open>length_\<close> bytes inside a block.\<close>

definition buffer_wf :: "heap \<Rightarrow> buffer \<Rightarrow> bool" where
  "buffer_wf hp b \<longleftrightarrow>
     unat (buf_length b) < 2 ^ 31 \<and>
     snd (buf_data b) + unat (buf_length b) \<le> length (blocks hp (fst (buf_data b))) \<and>
     indexed b = \<lparr>ea_block = fst (buf_data b), ea_off = snd (buf_data b),
                  ea_len = int (unat (buf_length b))\<rparr>"

definition view_wf :: "heap \<Rightarrow> ext_array \<Rightarrow> bool" where
  "view_wf hp ea \<longleftrightarrow> 0 \<le> ea_len ea \<and> ea_off ea + nat (ea_len ea) \<le> length (blocks hp (ea_block ea))"

definition buffer_bytes :: "heap \<Rightarrow> buffer \<Rightarrow> u8 list" where
  "buffer_bytes hp b =
     take (unat (buf_length b)) (drop (snd (buf_data b)) (blocks hp (fst (buf_data b))))"

lemma buffer_wf_view: "buffer_wf hp b \<Longrightarrow> view_wf hp (indexed b)"
  by (simp add: buffer_wf_def view_wf_def)

lemma length_buffer_bytes: "buffer_wf hp b \<Longrightarrow> length (buffer_bytes hp b) = unat (buf_length b)"
  by (auto simp: buffer_wf_def buffer_bytes_def min_def)

definition view_bytes :: "heap \<Rightarrow> ext_array \<Rightarrow> u8 list" where
  "view_bytes hp ea = take (nat (ea_len ea)) (drop (ea_off ea) (blocks hp (ea_block ea)))"

section \<open>Reads and writes inside a buffer\<close>

lemma read_in_bounds:
  assumes "buffer_wf hp b" "a + n \<le> unat (buf_length b)"
  shows "read_mem hp (advance (buf_data b) a) n = Return (take n (drop a (buffer_bytes hp b)))"
proof -
  let ?m = "blocks hp (fst (buf_data b))" and ?o = "snd (buf_data b)"
  have fit: "?o + a + n \<le> length ?m" using assms by (simp add: buffer_wf_def)
  have "take n (drop a (buffer_bytes hp b)) = take n (drop (?o + a) ?m)"
    using assms(2) by (simp add: buffer_bytes_def drop_take add.commute)
  then show ?thesis using fit
    by (simp add: read_mem_def advance_def peek_def outcome_simps add.assoc)
qed

text \<open>\<open>store\<close> is the heap after a write that fits.\<close>

definition store :: "heap \<Rightarrow> pointer \<Rightarrow> u8 list \<Rightarrow> heap" where
  "store hp p bs = hp\<lparr>blocks := (blocks hp)(fst p := splice (blocks hp (fst p)) (snd p) bs)\<rparr>"

lemma store_Nil [simp]: "store hp p [] = hp"
  by (simp add: store_def)

lemma write_mem_store:
  "bs = [] \<or> snd p + length bs \<le> length (blocks hp (fst p)) \<Longrightarrow> write_mem hp p bs = Return (store hp p bs)"
  by (auto simp: write_mem_def poke_splice of_mem_simps store_def) (simp add: poke_def of_mem_simps)

lemma write_mem_overrun:
  "write_mem hp p bs = Overrun \<longleftrightarrow> bs \<noteq> [] \<and> length (blocks hp (fst p)) < snd p + length bs"
  by (simp add: write_mem_def obind_eq_Overrun of_mem_eq_iff poke_None_iff)

lemma write_mem_cases:
  obtains "write_mem hp p bs = Overrun" | "write_mem hp p bs = Return (store hp p bs)"
  using write_mem_store [of bs p hp] write_mem_overrun [of hp p bs] by fastforce

text \<open>A write inside a well-formed buffer.\<close>

lemma write_in_bounds:
  assumes "buffer_wf hp b" "off + length bs \<le> unat (buf_length b)"
  shows "write_mem hp (advance (buf_data b) off) bs = Return (store hp (advance (buf_data b) off) bs)"
  using assms by (intro write_mem_store) (simp add: buffer_wf_def advance_def)

lemma buffer_bytes_store:
  assumes "buffer_wf hp b" "off + length bs \<le> unat (buf_length b)"
  shows "buffer_bytes (store hp (advance (buf_data b) off) bs) b = splice (buffer_bytes hp b) off bs"
  using assms window_splice [of off bs "unat (buf_length b)" "snd (buf_data b)" "blocks hp (fst (buf_data b))"]
  by (simp add: buffer_bytes_def store_def advance_def buffer_wf_def)

lemma buffer_wf_store:
  assumes "buffer_wf hp b" "off + length bs \<le> unat (buf_length b)"
  shows "buffer_wf (store hp (advance (buf_data b) off) bs) b"
  using assms length_splice [of "snd (buf_data b) + off" bs "blocks hp (fst (buf_data b))"]
  by (simp add: buffer_wf_def store_def advance_def)

lemma buffer_bytes_chars [simp]: "buffer_bytes (hp\<lparr>chars_written := c\<rparr>) b = buffer_bytes hp b"
  by (simp add: buffer_bytes_def)

lemma buffer_wf_chars [simp]: "buffer_wf (hp\<lparr>chars_written := c\<rparr>) b = buffer_wf hp b"
  by (simp add: buffer_wf_def)

lemma of_nat_unat_self [simp]: "(of_nat (unat w) :: size_t) = w"
  by (simp add: of_nat_unat)

lemma unat_uint32 [simp]: "unat (of_nat (uint32_value h v) :: size_t) = uint32_value h v"
proof -
  have "uint32_value h v < 2 ^ 64" using uint32_value_range [of h v] by simp
  then show ?thesis by (rule unat_size_of_nat)
qed

text \<open>A buffer that owns its block: what \<open>new SlowBuffer(n)\<close> gives.\<close>

definition buffer_owns :: "heap \<Rightarrow> buffer \<Rightarrow> bool" where
  "buffer_owns hp b \<longleftrightarrow> buffer_wf hp b \<and> snd (buf_data b) = 0 \<and>
     length (blocks hp (fst (buf_data b))) = unat (buf_length b)"

lemma owned_overrun:
  assumes "buffer_owns hp b"
  shows "write_mem hp (advance (buf_data b) off) bs = Overrun \<longleftrightarrow>
    bs \<noteq> [] \<and> unat (buf_length b) < off + length bs"
  using assms by (simp add: buffer_owns_def write_mem_overrun advance_def)

text \<open>A small heap and buffer, and conversions that never parse, for the concrete examples.\<close>

definition ex_heap :: "u8 list \<Rightarrow> heap" where
  "ex_heap bs = \<lparr>blocks = (\<lambda>b. if b = 1 then bs else []), next_block = 2, garbage = (\<lambda>_ _. 0),
     external_bytes = 0, freed = [], chars_written = None\<rparr>"

definition ex_buffer :: "nat \<Rightarrow> buffer" where
  "ex_buffer n = \<lparr>buf_length = of_nat n, buf_data = (1, 0), buf_callback = None, buf_hint = 0,
     indexed = \<lparr>ea_block = 1, ea_off = 0, ea_len = int n\<rparr>, length_prop = n\<rparr>"

definition ex_conv :: conv where
  "ex_conv = \<lparr>other_to_number = \<lambda>_. NaN, other_to_string = \<lambda>_. []\<rparr>"

lemma ex_owns: "length bs = n \<Longrightarrow> n < 2 ^ 31 \<Longrightarrow> buffer_owns (ex_heap bs) (ex_buffer n)"
  by (simp add: buffer_owns_def buffer_wf_def ex_heap_def ex_buffer_def unat_of_small_nat)

lemma ex_wf: "length bs = n \<Longrightarrow> n < 2 ^ 31 \<Longrightarrow> buffer_wf (ex_heap bs) (ex_buffer n)"
  using ex_owns [of bs n] by (simp add: buffer_owns_def)

lemma ex_simps [simp]:
  "store (ex_heap bs) (advance (buf_data (ex_buffer n)) off) cs = ex_heap (splice bs off cs)"
  "store (ex_heap bs) (1, off) cs = ex_heap (splice bs off cs)"
  "buf_length (ex_buffer n) = of_nat n"
  "n < 2 ^ 31 \<Longrightarrow> buffer_bytes (ex_heap bs) (ex_buffer n) = take n bs"
  "view_wf (ex_heap bs) \<lparr>ea_block = 1, ea_off = k, ea_len = l\<rparr> \<longleftrightarrow> 0 \<le> l \<and> k + nat l \<le> length bs"
  by (simp_all add: store_def ex_heap_def ex_buffer_def advance_def fun_eq_iff buffer_bytes_def
      unat_of_small_nat view_wf_def)

end
