(* ===== verification/BufferOps.thy ===== *)
theory BufferOps
  imports Buffer
begin

text \<open>
  What the methods of Buffer do on well-formed buffers: safety and results of the slices and
  of \<open>copy\<close>, what each write stores and returns, and exactly when a write leaves the buffer.
\<close>

section \<open>Construction and destruction\<close>

definition heap_ok :: "heap \<Rightarrow> bool" where
  "heap_ok hp \<longleftrightarrow> blocks hp 0 = [] \<and> 0 < next_block hp \<and> 0 \<le> external_bytes hp"

lemma int_of_size_of_int:
  assumes "int32_range i" shows "int_of_size (size_of_int i) = i"
proof -
  have "int_of_size (size_of_int i) = signed_take_bit 31 (take_bit 64 i)"
    by (simp add: int_of_size_def size_of_int_def unsigned_of_int take_bit_eq_mod)
  also have "\<dots> = signed_take_bit 31 i"
    by (rule bit_eqI) (auto simp: bit_signed_take_bit_iff bit_take_bit_iff min_def)
  also have "\<dots> = i"
    using assms by (intro signed_take_bit_int_eq_self) (auto simp: int32_range_def)
  finally show ?thesis .
qed

lemma adjust_external_up:
  assumes "0 < d" "external_bytes hp + d < 2 ^ 31" "0 \<le> external_bytes hp"
  shows "adjust_external (size_of_int d) hp = hp\<lparr>external_bytes := external_bytes hp + d\<rparr>"
proof -
  have "int_of_size (size_of_int d) = d"
    using assms by (intro int_of_size_of_int) (simp add: int32_range_def)
  moreover have "signed_take_bit 31 (external_bytes hp + d) = external_bytes hp + d"
    using assms by (intro signed_take_bit_int_eq_self) auto
  ultimately show ?thesis using assms by (simp add: adjust_external_def)
qed

lemma adjust_external_down:
  assumes "0 < d" "d \<le> external_bytes hp" "external_bytes hp < 2 ^ 31"
  shows "adjust_external (- size_of_int d) hp = hp\<lparr>external_bytes := external_bytes hp - d\<rparr>"
proof -
  have "- size_of_int d = size_of_int (- d)" by (simp add: size_of_int_def)
  moreover have "int_of_size (size_of_int (- d)) = - d"
    using assms by (intro int_of_size_of_int) (simp add: int32_range_def)
  moreover have "signed_take_bit 31 (external_bytes hp - d) = external_bytes hp - d"
    using assms by (intro signed_take_bit_int_eq_self) auto
  ultimately show ?thesis using assms by (simp add: adjust_external_def)
qed

lemma construct_run:
  assumes "0 < n" "n \<le> 0x3fffffff"
  shows "buffer_construct (of_nat n) hp =
    (let p = (next_block hp, 0)
     in Return (\<lparr>buf_length = of_nat n, buf_data = p, buf_callback = None, buf_hint = 0,
            indexed = \<lparr>ea_block = next_block hp, ea_off = 0, ea_len = int n\<rparr>, length_prop = n\<rparr>,
          adjust_external (size_of_int (56 + int n)) (snd (new_array n hp))))"
proof -
  have small: "n < 2 ^ 31" using assms by simp
  have ne: "(of_nat n :: size_t) \<noteq> 0"
    using assms(1) unat_of_small_nat [OF small] by (metis less_irrefl unat_0)
  have "(ucast (of_nat n :: size_t) :: u32) = of_nat n"
    by (rule bit_word_eqI) (simp add: bit_simps)
  moreover have "unat (of_nat n :: u32) = n"
    using small by (simp add: unat_of_nat take_bit_nat_eq_self)
  moreover have "sizeof_buffer + of_nat n = size_of_int (56 + int n)"
    by (simp add: sizeof_buffer_def size_of_int_def)
  ultimately show ?thesis
    using ne assms small
    by (simp add: buffer_construct_def buffer_replace_def buffer_blank_def buffer_release_def
        Let_def new_array_def null_pointer_def set_indexed_def oassert_def int_of_size_nat
        unat_of_small_nat)
qed

lemma uint32_of_int32:
  assumes "is_int32 v" "0 \<le> int32_value h v"
  shows "uint32_value h v = nat (int32_value h v)"
proof -
  obtain x where x: "v = JNumber x" "int32_range (trunc_num x)"
    using assms(1) by (rule is_int32_cases)
  have i: "int32_value h v = trunc_num x" using x by (simp add: int32_value_def double_to_int32_small)
  then have "trunc_num x mod 2 ^ 32 = trunc_num x"
    using assms(2) x by (intro mod_pos_pos_trivial) (auto simp: int32_range_def)
  then show ?thesis using i x by (simp add: uint32_value_def)
qed

text \<open>
  \<open>new SlowBuffer(n)\<close> for \<open>0 < n <= 0x3fffffff\<close> gives a well-formed buffer that
  owns a new block of exactly \<open>n\<close> bytes, shows the same \<open>n\<close> as its length, leaves every
  other block alone, and reports \<open>n\<close> and the size of the object to the collector; destroying
  it frees the block and takes the report back, so the count is balanced.
\<close>

theorem new_destroy_balanced:
  assumes "heap_ok hp" "is_int32 (arg args 0)" "i = int32_value h (arg args 0)"
    and "0 < i" "i \<le> 0x3fffffff" "external_bytes hp + 56 + i < 2 ^ 31"
  shows "\<exists>b hp1 b2 hp2. buffer_new h args hp = Return (b, hp1) \<and>
    buffer_owns hp1 b \<and> int (unat (buf_length b)) = i \<and> int (length_prop b) = i \<and>
    (\<forall>k. k \<noteq> next_block hp \<longrightarrow> blocks hp1 k = blocks hp k) \<and>
    external_bytes hp1 = external_bytes hp + 56 + i \<and>
    buffer_destroy b hp1 = Return (b2, hp2) \<and>
    buf_length b2 = 0 \<and> blocks hp2 = (blocks hp)(next_block hp := []) \<and>
    external_bytes hp2 = external_bytes hp"
proof -
  define n where "n = nat i"
  define b where "b = \<lparr>buf_length = of_nat n, buf_data = (next_block hp, 0), buf_callback = None,
     buf_hint = 0, indexed = \<lparr>ea_block = next_block hp, ea_off = 0, ea_len = int n\<rparr>, length_prop = n\<rparr>"
  define hp0 where "hp0 = snd (new_array n hp)"
  define hp1 where "hp1 = hp0\<lparr>external_bytes := external_bytes hp + (56 + i)\<rparr>"
  have n: "0 < n" "n \<le> 0x3fffffff" "int n = i" using assms(4,5) by (simp_all add: n_def)
  have ln: "unat (of_nat n :: size_t) = n" using n(2) by (intro unat_of_small_nat) simp
  have "adjust_external (size_of_int (56 + int n)) hp0 = hp1"
    using assms(1,4,6) n by (subst adjust_external_up) (auto simp: hp0_def hp1_def new_array_def Let_def heap_ok_def)
  moreover have "uint32_value h (arg args 0) = n"
    using uint32_of_int32 [of "arg args 0" h] assms(2,3,4) by (simp add: n_def)
  ultimately have new: "buffer_new h args hp = Return (b, hp1)"
    using construct_run [OF n(1,2), of hp] assms(2)
    by (simp add: buffer_new_def b_def hp0_def Let_def)
  have bl: "blocks hp1 = (blocks hp)(next_block hp := map (garbage hp (next_block hp)) [0..<n])"
    by (simp add: hp1_def hp0_def new_array_def Let_def)
  have own: "buffer_owns hp1 b"
    using n(2) by (simp add: buffer_owns_def buffer_wf_def b_def bl ln)
  have ne: "buf_length b \<noteq> 0" using n(1) ln by (metis b_def buffer.select_convs(1) less_irrefl unat_0)
  have "sizeof_buffer + buf_length b = size_of_int (56 + i)"
    by (simp add: sizeof_buffer_def size_of_int_def b_def flip: n(3))
  then have rel: "buffer_release b hp1 = (delete_array (buf_data b) hp1)\<lparr>external_bytes := external_bytes hp\<rparr>"
    using ne assms(1,4,6) n adjust_external_down [of "56 + i" "delete_array (buf_data b) hp1"]
    by (simp add: buffer_release_def b_def delete_array_def hp1_def heap_ok_def)
  have "\<exists>b2. buffer_destroy b hp1 = Return (b2, buffer_release b hp1) \<and> buf_length b2 = 0"
    by (simp add: buffer_destroy_def buffer_replace_def Let_def set_indexed_def oassert_def int_of_size_def)
  then obtain b2 where "buffer_destroy b hp1 = Return (b2, buffer_release b hp1)" "buf_length b2 = 0"
    by blast
  moreover have "blocks (buffer_release b hp1) = (blocks hp)(next_block hp := [])"
    "external_bytes (buffer_release b hp1) = external_bytes hp"
    unfolding rel by (simp_all add: delete_array_def bl b_def)
  moreover have "int (unat (buf_length b)) = i" "int (length_prop b) = i" "external_bytes hp1 = external_bytes hp + 56 + i"
    using n(3) ln by (simp_all add: b_def hp1_def)
  moreover have "\<forall>k. k \<noteq> next_block hp \<longrightarrow> blocks hp1 k = blocks hp k" by (simp add: bl)
  ultimately show ?thesis using new own by blast
qed

theorem new_destroy_balanced_witness:
  "\<exists>b hp1. buffer_new ex_conv [jint 8] (ex_heap []) = Return (b, hp1) \<and> external_bytes hp1 = 64"
  using new_destroy_balanced [of "ex_heap []" "[jint 8]" 8 ex_conv]
  by (auto simp: heap_ok_def ex_heap_def)

lemma int_mod_shift: "- (2 ^ 32) \<le> i \<Longrightarrow> i < 0 \<Longrightarrow> i mod 2 ^ 32 = (i + 2 ^ 32 :: int)"
proof -
  assume a: "- (2 ^ 32) \<le> i" "i < 0"
  have "i mod 2 ^ 32 = (i + 2 ^ 32) mod 2 ^ 32" by simp
  also have "\<dots> = i + 2 ^ 32" using a by (intro mod_pos_pos_trivial) auto
  finally show ?thesis .
qed

lemma int_of_size_uint32: "int_of_size (of_nat (uint32_value h v)) = int32_value h v"
proof -
  define r where "r = trunc_num (to_number h v) mod 2 ^ 32"
  have r: "0 \<le> r" "r < 2 ^ 32" by (simp_all add: r_def)
  have "uint (of_nat (uint32_value h v) :: size_t) = r"
    using unat_uint32 [of h v] r unfolding uint32_value_def r_def [symmetric] uint_nat
    by (simp del: of_nat_nat)
  moreover have "signed_take_bit 31 r = (if 2 ^ 31 \<le> r then r - 2 ^ 32 else r)"
  proof (cases "2 ^ 31 \<le> r")
    case True
    then have "r div 2 ^ 31 = 1" using r by auto
    then have "bit r 31" by (simp add: bit_iff_odd)
    moreover have "take_bit (Suc 31) r = r" using r by (simp add: take_bit_int_eq_self)
    ultimately show ?thesis using True
      by (simp only: signed_take_bit_eq_take_bit_minus) simp
  next
    case False
    then show ?thesis using r by (simp add: signed_take_bit_int_eq_self)
  qed
  ultimately show ?thesis
    unfolding int_of_size_def int32_value_def double_to_int32_def r_def [symmetric] Let_def by simp
qed

lemma buffer_new_cases:
  assumes "is_int32 (arg args 0)" "i = int32_value h (arg args 0)" "i \<noteq> 0"
  shows "0x3fffffff < i \<Longrightarrow> buffer_new h args hp = Abort"
    and "i \<le> 0x3fffffff \<Longrightarrow> \<exists>b hp'. buffer_new h args hp = Return (b, hp') \<and>
      buf_length b = of_nat (uint32_value h (arg args 0)) \<and> ea_len (indexed b) = i"
proof -
  define k where "k = uint32_value h (arg args 0)"
  have ik: "int_of_size (of_nat k) = i" by (simp add: k_def int_of_size_uint32 assms(2))
  then have ne: "(of_nat k :: size_t) \<noteq> 0" using assms(3) by (auto simp: int_of_size_def)
  note run = buffer_new_def buffer_construct_def buffer_replace_def buffer_blank_def
    buffer_release_def Let_def new_array_def null_pointer_def set_indexed_def oassert_def
  show "0x3fffffff < i \<Longrightarrow> buffer_new h args hp = Abort"
    using ik ne assms(1) by (simp add: run k_def [symmetric])
  show "i \<le> 0x3fffffff \<Longrightarrow> \<exists>b hp'. buffer_new h args hp = Return (b, hp') \<and>
      buf_length b = of_nat (uint32_value h (arg args 0)) \<and> ea_len (indexed b) = i"
    using ik ne assms(1) by (simp add: run k_def [symmetric])
qed

text \<open>
  The other arguments of \<open>new SlowBuffer\<close>. Anything but a 32-bit integer is
  refused; a length above \<open>0x3fffffff\<close> ends the process; but a negative length is accepted:
  the buffer then believes in \<open>2^32 + n\<close> bytes, while its external array has length \<open>n < 0\<close>.
\<close>

theorem buffer_new_arguments:
  assumes "i = int32_value h (arg args 0)"
  shows "(\<not> is_int32 (arg args 0) \<longrightarrow> buffer_new h args hp = Throw (JsTypeError ''Bad argument'')) \<and>
    (is_int32 (arg args 0) \<longrightarrow> 0x3fffffff < i \<longrightarrow> buffer_new h args hp = Abort) \<and>
    (is_int32 (arg args 0) \<longrightarrow> i < 0 \<longrightarrow>
      (\<exists>b hp'. buffer_new h args hp = Return (b, hp') \<and>
         int (unat (buf_length b)) = 2 ^ 32 + i \<and> ea_len (indexed b) = i))"
proof (intro conjI impI)
  assume n: "is_int32 (arg args 0)" "i < 0"
  then obtain b hp' where b: "buffer_new h args hp = Return (b, hp')"
    "buf_length b = of_nat (uint32_value h (arg args 0))" "ea_len (indexed b) = i"
    using buffer_new_cases(2) [OF n(1) assms, of hp] by auto
  obtain x where x: "arg args 0 = JNumber x" "int32_range (trunc_num x)"
    using n(1) by (rule is_int32_cases)
  have i: "i = trunc_num x" using x assms by (simp add: int32_value_def double_to_int32_small)
  then have "i mod 2 ^ 32 = i + 2 ^ 32"
    using n(2) x by (intro int_mod_shift) (auto simp: int32_range_def)
  then have "int (uint32_value h (arg args 0)) = 2 ^ 32 + i"
    using i x n by (simp add: uint32_value_def int32_range_def)
  then show "\<exists>b hp'. buffer_new h args hp = Return (b, hp') \<and>
         int (unat (buf_length b)) = 2 ^ 32 + i \<and> ea_len (indexed b) = i"
    using b by auto
next
  assume "is_int32 (arg args 0)" "0x3fffffff < i"
  then show "buffer_new h args hp = Abort"
    using buffer_new_cases(1) [of args i h hp] assms by simp
qed (simp add: buffer_new_def)

theorem buffer_new_arguments_witness:
  "\<exists>b hp'. buffer_new ex_conv [jint (-1)] (ex_heap []) = Return (b, hp') \<and>
     int (unat (buf_length b)) = 4294967295"
  using buffer_new_arguments [of "-1" ex_conv "[jint (-1)]" "ex_heap []"] by auto

section \<open>Slices\<close>

lemma slice_args_cases:
  assumes "slice_args h args b = Return (st, fin)"
  shows "0 \<le> st" "st \<le> fin" "nat fin \<le> unat (buf_length b)"
proof -
  from assms have *: "0 \<le> st" "st \<le> fin" "\<not> size_of_int fin > buf_length b" "int32_range fin"
    by (auto simp: slice_args_def Let_def split: if_splits)
  then show "0 \<le> st" "st \<le> fin" by auto
  show "nat fin \<le> unat (buf_length b)"
    using * by (simp add: not_less word_le_nat_alt unat_size_of_int32)
qed

lemma slice_args_no_fault: "slice_args h args b \<noteq> Overrun" "slice_args h args b \<noteq> Abort"
  by (auto simp: slice_args_def Let_def)

lemma slice_bytes_spec:
  assumes "buffer_wf hp b" "slice_args h args b = Return (st, fin)"
  shows "slice_bytes h hp b args = Return (take (nat (fin - st)) (drop (nat st) (buffer_bytes hp b)))"
proof -
  have "nat st + nat (fin - st) \<le> unat (buf_length b)"
    using slice_args_cases [OF assms(2)] by linarith
  then show ?thesis using assms by (simp add: slice_bytes_def read_in_bounds)
qed

lemma slice_bytes_safe:
  assumes "buffer_wf hp b"
  shows "slice_bytes h hp b args \<noteq> Overrun" "slice_bytes h hp b args \<noteq> Abort"
proof -
  show "slice_bytes h hp b args \<noteq> Overrun"
    using slice_bytes_spec [OF assms] slice_args_no_fault(1) [of h args b]
    by (cases "slice_args h args b") (auto simp: slice_bytes_def)
  show "slice_bytes h hp b args \<noteq> Abort"
    using slice_bytes_spec [OF assms] slice_args_no_fault(2) [of h args b]
    by (cases "slice_args h args b") (auto simp: slice_bytes_def)
qed

lemma sint_below_64: "unat (c :: u8) < 64 \<Longrightarrow> sint c < 64"
proof -
  assume a: "unat c < 64"
  then have "int (unat c) < int 64" by (simp only: of_nat_less_iff)
  then have "uint c < 64" by (simp add: of_nat_unat)
  moreover have "sint c = signed_take_bit 7 (uint c)"
    by (simp add: sint_uint)
  moreover have "- (2 ^ 7) \<le> uint c" by (rule order_trans [OF _ uint_ge_0]) simp
  ultimately show ?thesis using signed_take_bit_int_eq_self [of 7 "uint c"] by simp
qed

lemma base64_loop_spec:
  assumes "0 \<le> j" "j + int (length (base64_encode bs)) = out_len"
  shows "base64_loop bs j out_len = Return (base64_encode bs)"
  using assms
proof (induction bs arbitrary: j rule: by_threes)
  case Nil then show ?case by simp
next
  case (One x) then show ?case
    by (simp add: Let_def put_sextet_def put_char_def oassert_def sint_below_64)
next
  case (Two x y) then show ?case
    by (simp add: Let_def put_sextet_def put_char_def oassert_def sint_below_64)
next
  case (Three x y z r) then show ?case
    by (simp add: Let_def put_sextet_def put_char_def oassert_def sint_below_64)
qed

lemma base64_slice_spec:
  assumes "buffer_wf hp b" "slice_args h args b = Return (st, fin)"
  shows "base64_slice h hp b args = Return (JString (utf8_decode
    (base64_encode (take (nat (fin - st)) (drop (nat st) (buffer_bytes hp b))))))"
proof -
  note c = slice_args_cases [OF assms(2)]
  let ?bs = "take (nat (fin - st)) (drop (nat st) (buffer_bytes hp b))"
  have "nat st + nat (fin - st) \<le> unat (buf_length b)" using c by linarith
  note rd = read_in_bounds [OF assms(1) this]
  have "length ?bs = nat (fin - st)"
    using c by (auto simp: length_buffer_bytes [OF assms(1)] min_def)
  then have "int (length (base64_encode ?bs)) = base64_out_len (fin - st)"
    using base64_out_len [of ?bs] c by simp
  then have "base64_loop ?bs 0 (base64_out_len (fin - st)) = Return (base64_encode ?bs)"
    by (intro base64_loop_spec) auto
  then show ?thesis using rd assms(2) by (simp add: base64_slice_def)
qed

lemma ucs2_slice_spec:
  assumes "buffer_wf hp b" "slice_args h args b = Return (st, fin)"
  shows "ucs2_slice h hp b args = Return (JString (bytes_u16
    (take (nat ((fin - st) div 2 * 2)) (drop (nat st) (buffer_bytes hp b)))))"
proof -
  have "nat st + nat ((fin - st) div 2 * 2) \<le> unat (buf_length b)"
    using slice_args_cases [OF assms(2)] by linarith
  note rd = read_in_bounds [OF assms(1) this]
  show ?thesis using rd assms(2) by (simp add: ucs2_slice_def)
qed

text \<open>
  Property C1: the slices are safe. On a well-formed buffer, whatever the arguments, no slice
  reads outside the memory of the buffer and no assertion of the base64 loop fails: the
  result is a string or one of the errors of \<open>SLICE_ARGS\<close>.
\<close>

theorem slices_safe:
  assumes "buffer_wf hp b"
    and "f \<in> {binary_slice, ascii_slice, utf8_slice, ucs2_slice, base64_slice}"
  shows "(\<exists>s. f h hp b args = Return (JString s)) \<or>
    (\<exists>e. f h hp b args = Throw e \<and> slice_args h args b = Throw e)"
proof (cases "slice_args h args b")
  case (Return p)
  obtain st fin where "p = (st, fin)" by fastforce
  with Return have r: "slice_args h args b = Return (st, fin)" by simp
  show ?thesis
    using assms(2) slice_bytes_spec [OF assms(1) r] base64_slice_spec [OF assms(1) r]
      ucs2_slice_spec [OF assms(1) r]
    by (auto simp: binary_slice_def ascii_slice_def utf8_slice_def)
next
  case (Throw e)
  then show ?thesis using assms(2)
    by (auto simp: binary_slice_def ascii_slice_def utf8_slice_def ucs2_slice_def
        base64_slice_def slice_bytes_def)
qed (use slice_args_no_fault [of h args b] in auto)

theorem slices_safe_witness:
  "\<exists>s. base64_slice ex_conv (ex_heap [1, 2]) (ex_buffer 2) [jint 0, jint 2] = Return (JString s)"
  using slices_safe [OF ex_wf [of "[1, 2]" 2, simplified], of base64_slice ex_conv "[jint 0, jint 2]"]
  by (simp add: slice_args_def size_of_int_def)

section \<open>Copy\<close>

lemma copy_length_min:
  assumes "0 \<le> ss" "ss < se" "int32_range se" "size_of_int se \<le> buf_length src"
    "unat (buf_length src) < 2 ^ 31" "0 \<le> ts" "ts < tn" "tn < 2 ^ 31"
  shows "copy_length src tn ts ss se = min (se - ss) (tn - ts)"
proof -
  define inner where "inner = min (se - ss) (tn - ts)"
  have r: "int32_range ss" "int32_range inner" "0 \<le> inner"
    using assms by (auto simp: int32_range_def inner_def)
  have le: "nat se \<le> unat (buf_length src)"
    using assms(4) unat_size_of_int32 [of se] assms by (simp add: word_le_nat_alt)
  have ss: "unat (size_of_int ss) = nat ss" using assms(1) r(1) by (rule unat_size_of_int32)
  then have "size_of_int ss \<le> buf_length src" using le assms by (simp add: word_le_nat_alt)
  then have c: "unat (buf_length src - size_of_int ss) = unat (buf_length src) - nat ss"
    by (simp add: unat_sub ss)
  have i: "unat (size_of_int inner) = nat inner" using r by (intro unat_size_of_int32)
  have inner_le: "nat inner \<le> unat (buf_length src) - nat ss"
    using le assms by (auto simp: inner_def)
  have eq: "sint (buf_length src - size_of_int ss) = inner" 
    if "\<not> size_of_int inner < buf_length src - size_of_int ss"
  proof -
    have "size_of_int inner = buf_length src - size_of_int ss"
      using that inner_le by (simp add: word_less_nat_alt c i word_unat_eq_iff)
    then show ?thesis using sint_size_of_int [OF r(2)] by simp
  qed
  have "(if se - ss < tn - ts then se - ss else tn - ts) = inner" by (auto simp: inner_def)
  then show ?thesis unfolding copy_length_def Let_def using eq by (simp add: inner_def)
qed

text \<open>
  Property C2: \<open>copy\<close> from a well-formed buffer into a well-formed view. Every branch is the
  documented one over the true lengths, nothing is read or written out of bounds, and a
  successful call stores the \<open>min\<close> of the bytes asked for and the room left, as they were
  before the call (the two may share a block).
\<close>

theorem copy_correct:
  assumes "buffer_wf hp src" "view_wf hp tgt" "ea_len tgt < 2 ^ 31"
  shows "buffer_copy h hp src (JBuffer tgt # args) =
     (let ts = int32_value h (arg args 0); ss = int32_value h (arg args 1);
          len = int (unat (buf_length src));
          se = (if is_int32 (arg args 2) then int32_value h (arg args 2) else len);
          n = min (se - ss) (ea_len tgt - ts)
      in if se < ss then Throw (JsError ''sourceEnd < sourceStart'')
         else if se = ss then Return (jint 0, hp)
         else if ts < 0 \<or> ea_len tgt \<le> ts then Throw (JsError ''targetStart out of bounds'')
         else if ss < 0 \<or> len \<le> ss then Throw (JsError ''sourceStart out of bounds'')
         else if len < se then Throw (JsError ''sourceEnd out of bounds'')
         else Return (jint n, store hp (ea_block tgt, ea_off tgt + nat ts)
                (take (nat n) (drop (nat ss) (buffer_bytes hp src)))))"
proof -
  define ts ss len where "ts = int32_value h (arg args 0)" "ss = int32_value h (arg args 1)"
    "len = int (unat (buf_length src))"
  define se where "se = (if is_int32 (arg args 2) then int32_value h (arg args 2) else len)"
  note defs = ts_ss_len_def se_def
  have small: "unat (buf_length src) < 2 ^ 31" using assms(1) by (simp add: buffer_wf_def)
  then have len: "sint (buf_length src) = len" "len < 2 ^ 31"
    using sint_small [OF small] by (simp_all add: defs)
  have "int32_range len" using len(2) by (simp add: defs int32_range_def)
  then have r: "int32_range ts" "int32_range ss" "int32_range se" by (simp_all add: ts_ss_len_def(1,2) se_def)
  have se: "(if is_int32 (arg args 2) then int32_value h (arg args 2) else sint (buf_length src)) = se"
    by (simp add: len se_def)
  let ?n = "min (se - ss) (ea_len tgt - ts)"
  have ok: "obind (read_mem hp (advance (buf_data src) (nat ss)) (nat (copy_length src (ea_len tgt) ts ss se)))
       (\<lambda>bs. obind (write_mem hp (ea_block tgt, ea_off tgt + nat ts) bs)
          (\<lambda>hp'. Return (jint (copy_length src (ea_len tgt) ts ss se), hp')))
     = Return (jint ?n, store hp (ea_block tgt, ea_off tgt + nat ts)
                (take (nat ?n) (drop (nat ss) (buffer_bytes hp src))))"
    if c: "\<not> se < ss" "se \<noteq> ss" "\<not> (ts < 0 \<or> ea_len tgt \<le> ts)" "\<not> (ss < 0 \<or> len \<le> ss)" "\<not> len < se"
  proof -
    have "size_of_int se \<le> buf_length src"
      using c size_of_int32_less(2) [of se "buf_length src"] r(3) by (auto simp: defs not_less)
    then have n: "copy_length src (ea_len tgt) ts ss se = ?n"
      using c r assms small by (intro copy_length_min) auto
    have "nat ss + nat ?n \<le> unat (buf_length src)" using c by (auto simp: defs)
    note rd = read_in_bounds [OF assms(1) this]
    have "write_mem hp (ea_block tgt, ea_off tgt + nat ts) (take (nat ?n) (drop (nat ss) (buffer_bytes hp src)))
      = Return (store hp (ea_block tgt, ea_off tgt + nat ts) (take (nat ?n) (drop (nat ss) (buffer_bytes hp src))))"
      using assms(2) c by (intro write_mem_store) (auto simp: view_wf_def)
    then show ?thesis unfolding n rd by simp
  qed
  have "0 \<le> ss \<Longrightarrow> buf_length src \<le> size_of_int ss \<longleftrightarrow> len \<le> ss"
    "0 \<le> se \<Longrightarrow> buf_length src < size_of_int se \<longleftrightarrow> len < se"
    using size_of_int32_less r by (simp_all add: defs)
  note conds = this
  have args: "arg (JBuffer tgt # args) 0 = JBuffer tgt" "arg (JBuffer tgt # args) 1 = arg args 0"
    "arg (JBuffer tgt # args) 2 = arg args 1" "arg (JBuffer tgt # args) 3 = arg args 2"
    by simp_all
  show ?thesis
    unfolding buffer_copy_def Let_def args has_instance.simps array_of.simps se_def [symmetric]
      ts_ss_len_def [symmetric] se not_True_eq_False if_False
    using ok conds by (cases "se < ss"; cases "se = ss"; cases "ts < 0 \<or> ea_len tgt \<le> ts";
      cases "ss < 0"; cases "len \<le> ss"; simp)
qed

theorem copy_correct_witness:
  "buffer_copy ex_conv (ex_heap [1, 2, 3]) (ex_buffer 3)
     [JBuffer \<lparr>ea_block = 1, ea_off = 1, ea_len = 2\<rparr>, jint 0, jint 0]
   = Return (jint 2, ex_heap [1, 1, 2])"
  using copy_correct [OF ex_wf [of "[1, 2, 3]" 3, simplified], of "\<lparr>ea_block = 1, ea_off = 1, ea_len = 2\<rparr>" ex_conv
      "[jint 0, jint 0]"]
  by (simp add: Let_def splice_def)

section \<open>The bound of a write\<close>

text \<open>The bytes a write at an offset inside the buffer may fill.\<close>

definition room :: "conv \<Rightarrow> js_value \<Rightarrow> nat \<Rightarrow> buffer \<Rightarrow> nat" where
  "room h v off b =
     min (unat (buf_length b) - off)
         (if v = JUndefined then unat (buf_length b) - off else uint32_value h v)"

lemma write_bound_room:
  assumes "offset \<le> buf_length b"
  shows "unat (write_bound h v offset b) = room h v (unat offset) b"
proof -
  have "unat (buf_length b - offset) = unat (buf_length b) - unat offset"
    using assms by (simp add: unat_sub)
  then show ?thesis
    by (auto simp: write_bound_def room_def Let_def word_less_nat_alt min_def)
qed

lemma int_write_bound:
  assumes "offset \<le> buf_length b" "unat (buf_length b) < 2 ^ 31"
  shows "int_of_size (write_bound h v offset b) = int (room h v (unat offset) b)"
proof -
  have "room h v (unat offset) b < 2 ^ 31" using assms(2) by (simp add: room_def)
  then show ?thesis
    using write_bound_room [OF assms(1), of h v] int_of_size_small [of "write_bound h v offset b"] by simp
qed

lemma room_fits: "off \<le> unat (buf_length b) \<Longrightarrow> off + room h v off b \<le> unat (buf_length b)"
  by (simp add: room_def)

section \<open>utf8Write\<close>

text \<open>What \<open>utf8Write\<close> stores with room for \<open>n\<close> bytes, and the count it returns for it.\<close>

definition utf8_stored :: "nat \<Rightarrow> js_string \<Rightarrow> u8 list" where
  "utf8_stored n s =
     (let p = utf8_prefix n s; b = utf8_bytes p in if p = s \<and> length b < n then b @ [0] else b)"

definition utf8_count :: "u8 list \<Rightarrow> int" where
  "utf8_count bs = (if bs \<noteq> [] \<and> last bs = 0 then int (length bs) - 1 else int (length bs))"

lemma utf8_stored_fits: "length (utf8_stored n s) \<le> n"
  using write_utf8_fits [of s n] by (simp add: utf8_stored_def write_utf8_bounded Let_def)

lemma utf8_write_stores:
  assumes "buffer_wf hp b" "offset = uint32_value h (arg args 0)" "offset < unat (buf_length b)"
  shows "utf8_write h hp b (JString s # args) =
     (let n = room h (arg args 1) offset b; bs = utf8_stored n s
      in Return (jint (utf8_count bs),
           (store hp (advance (buf_data b) offset) bs)\<lparr>chars_written := Some (int (length (utf8_prefix n s)))\<rparr>))"
proof -
  have args: "arg (JString s # args) 1 = arg args 0" "arg (JString s # args) 2 = arg args 1"
    by simp_all
  have off: "unat (of_nat offset :: size_t) = offset" by (simp add: assms(2))
  have lt: "of_nat offset < buf_length b" using assms(3) by (simp add: word_less_nat_alt off)
  define n where "n = room h (arg args 1) offset b"
  have cap: "int_of_size (write_bound h (arg args 1) (of_nat offset) b) = int n"
    using int_write_bound [of "of_nat offset" b h "arg args 1"] assms(1) lt off
    by (simp add: buffer_wf_def n_def)
  have ok: "offset_ok s (of_nat offset) b" using lt by (simp add: offset_ok_def not_le)
  have "offset + length (utf8_stored n s) \<le> unat (buf_length b)"
    using utf8_stored_fits [of n s] room_fits [of offset b h "arg args 1"] assms(3) by (simp add: n_def)
  note wr = write_in_bounds [OF assms(1) this]
  have "write_utf8 s (int n) = (utf8_stored n s, length (utf8_prefix n s))"
    by (simp add: utf8_stored_def write_utf8_bounded Let_def)
  then show ?thesis
    using ok wr
    by (simp add: utf8_write_def Let_def args cap assms(2) [symmetric] off n_def [symmetric] utf8_count_def)
qed

lemma write_utf8_Nil: "write_utf8 [] cap = (if cap = -1 \<or> 0 < cap then [0] else [], 0)"
  by (simp add: write_utf8_def)

text \<open>
  When \<open>utf8Write\<close> leaves the buffer. It is only for the empty string, for which
  the offset is not checked: with an offset past the end the room wraps around, and the
  terminating NUL is stored unless the wrapped room, read as an \<open>int\<close>, is negative (but
  not \<open>-1\<close>, which \<open>WriteUtf8\<close> takes for no limit) or zero.
\<close>

theorem utf8_write_overrun:
  assumes "buffer_owns hp b"
  shows "utf8_write h hp b (JString s # args) = Overrun \<longleftrightarrow>
    s = [] \<and> unat (buf_length b) < uint32_value h (arg args 0) \<and>
    (let cap = int_of_size (write_bound h (arg args 1) (of_nat (uint32_value h (arg args 0))) b)
     in cap = -1 \<or> 0 < cap)"
proof (cases "uint32_value h (arg args 0) < unat (buf_length b)")
  case True
  then show ?thesis
    using utf8_write_stores [of hp b "uint32_value h (arg args 0)" h args s] assms
    by (simp add: buffer_owns_def Let_def)
next
  case False
  let ?o = "of_nat (uint32_value h (arg args 0)) :: size_t"
  have ge: "buf_length b \<le> ?o" using False by (simp add: word_le_nat_alt)
  show ?thesis
  proof (cases "s = []")
    case True
    have z: "uint32_value h (arg args 0) = unat (buf_length b) \<Longrightarrow>
        int_of_size (write_bound h (arg args 1) ?o b) = 0"
      using int_write_bound [of ?o b h "arg args 1"] assms
      by (simp add: buffer_owns_def buffer_wf_def room_def word_le_nat_alt)
    show ?thesis
      using True False z ge owned_overrun [OF assms]
      by (cases "uint32_value h (arg args 0) = unat (buf_length b)")
        (auto simp: utf8_write_def offset_ok_def Let_def write_utf8_Nil obind_eq_Overrun)
  next
    case False
    then show ?thesis using ge by (simp add: utf8_write_def offset_ok_def)
  qed
qed

theorem utf8_write_overrun_witness:
  "utf8_write ex_conv (ex_heap [7]) (ex_buffer 1) [JString [], jint 2] = Overrun"
  using utf8_write_overrun [OF ex_owns [of "[7]" 1, simplified], of ex_conv "[]" "[jint 2]"]
  by (simp add: Let_def write_bound_def int_of_size_def uint_word_ariths One_nat_def)

lemma cont_byte_nz: "(ucast (0x80 OR (x AND utf8_mask) :: u32) :: u8) \<noteq> 0"
proof -
  have "bit (ucast (0x80 OR (x AND utf8_mask) :: u32) :: u8) 7"
    by (simp add: bit_simps)
  then show ?thesis by (metis bit_0_eq bot_apply bot_bool_def)
qed

lemma last_utf8_encode: "last (utf8_encode (ucast (u :: u16))) = 0 \<longleftrightarrow> u = 0"
proof (cases "(ucast u :: u32) \<le> 0x7f")
  case True
  have "ucast (ucast u :: u32) = (0 :: u8) \<longleftrightarrow> u = 0"
  proof
    assume z: "ucast (ucast u :: u32) = (0 :: u8)"
    have "unat u < 2 ^ 16" using unsigned_less [of u] by simp
    then have "unat u < 2 ^ 7" using True by (simp add: word_le_nat_alt unsigned_ucast_eq take_bit_nat_eq_self)
    then have "unat (ucast u :: u8) = unat u"
      by (simp add: unsigned_ucast_eq take_bit_nat_eq_self)
    moreover have "(ucast (ucast u :: u32) :: u8) = ucast u"
      by (rule bit_word_eqI) (auto simp: bit_simps)
    ultimately have "unat (ucast (ucast u :: u32) :: u8) = unat u" by simp
    then show "u = 0" using z by (simp add: unat_eq_zero)
  qed simp
  then show ?thesis using True by (simp add: utf8_encode_def)
next
  case False
  then have "u \<noteq> 0" by auto
  then show ?thesis using False
    by (simp add: utf8_encode_def cont_byte_nz)
qed

lemma last_utf8_bytes: "s \<noteq> [] \<Longrightarrow> last (utf8_bytes s) = 0 \<longleftrightarrow> last s = 0"
proof (cases s rule: rev_cases)
  case (snoc t u)
  then show ?thesis by (simp add: utf8_bytes_append utf8_bytes_Cons utf8_bytes_Nil last_utf8_encode)
qed simp

lemma utf8_bytes_eq_Nil: "utf8_bytes s = [] \<longleftrightarrow> s = []"
  by (cases s) (simp_all add: utf8_bytes_Nil utf8_bytes_Cons)

lemma utf8_stored_whole:
  "utf8_stored n s = utf8_bytes (utf8_prefix n s) @ (if utf8_prefix n s = s \<and> utf8_length s < n then [0] else [])"
  by (simp add: utf8_stored_def Let_def length_utf8_bytes)

lemma utf8_count_stored:
  assumes "p = utf8_prefix n s"
  shows "utf8_count (utf8_stored n s) = int (length (utf8_bytes p)) -
     (if p \<noteq> [] \<and> last p = 0 \<and> \<not> (p = s \<and> utf8_length s < n) then 1 else 0)"
  using last_utf8_bytes [of p]
  by (cases "p = []") (auto simp: utf8_stored_whole utf8_count_def assms [symmetric] utf8_bytes_eq_Nil)



section \<open>ucs2Write\<close>

lemma offset_facts:
  assumes "off = uint32_value h v" "off < unat (buf_length b)"
  shows "unat (of_nat off :: size_t) = off" "offset_ok s (of_nat off) b" "of_nat off \<le> buf_length b"
proof -
  show 1: "unat (of_nat off :: size_t) = off" by (simp add: assms(1))
  then show "offset_ok s (of_nat off) b" "of_nat off \<le> buf_length b"
    using assms(2) by (simp_all add: offset_ok_def word_le_nat_alt)
qed

definition ucs2_stored :: "nat \<Rightarrow> js_string \<Rightarrow> u16 list" where
  "ucs2_stored n s = (if length s < n then s @ [0] else take n s)"

lemma write_two_byte_stored:
  "write_two_byte s 0 (int n) = (ucs2_stored n s, int (min (length s) n))"
  by (auto simp: write_two_byte_def ucs2_stored_def Let_def min_def)

lemma ucs2_write_run:
  assumes "buffer_wf hp b" "off = uint32_value h (arg args 0)" "off < unat (buf_length b)"
    and "n = room h (arg args 1) off b"
  shows "ucs2_write h hp b (JString s # args) =
     obind (write_mem hp (advance (buf_data b) off) (u16_bytes (ucs2_stored n s)))
       (\<lambda>hp'. Return (jint (2 * int (min (length s) n)), hp'))"
proof -
  note off = offset_facts [OF assms(2,3)]
  have "int_of_size (write_bound h (arg args 1) (of_nat off) b) = int n"
    using int_write_bound [OF off(3), of h "arg args 1"] assms(1) off(1)
    by (simp add: buffer_wf_def assms(4))
  then show ?thesis
    using off by (simp add: ucs2_write_def Let_def assms(2) [symmetric] write_two_byte_stored mult.commute)
qed

text \<open>
  When \<open>ucs2Write\<close> leaves the buffer. The room, in bytes, bounds the number of
  16-bit units: the units stored, the terminating one included, need twice that, so a string
  that does not fit is stored up to twice as far as the buffer goes.
\<close>

theorem ucs2_write_overrun:
  assumes "buffer_owns hp b" "off = uint32_value h (arg args 0)" "off < unat (buf_length b)"
    and "n = room h (arg args 1) off b"
  shows "ucs2_write h hp b (JString s # args) = Overrun \<longleftrightarrow>
    unat (buf_length b) < off + 2 * min (length s + 1) n"
proof -
  have wf: "buffer_wf hp b" using assms(1) by (simp add: buffer_owns_def)
  have len: "length (u16_bytes (ucs2_stored n s)) = 2 * min (length s + 1) n"
    by (simp add: ucs2_stored_def length_u16_bytes)
  show ?thesis
    using assms(3) ucs2_write_run [OF wf assms(2-4), of s] owned_overrun [OF assms(1)] len
    by (cases "u16_bytes (ucs2_stored n s) = []") (auto simp: obind_eq_Overrun)
qed

theorem ucs2_write_overrun_witness:
  "ucs2_write ex_conv (ex_heap [7, 7]) (ex_buffer 2) [JString [0x41, 0x42], jint 0] = Overrun"
  using ucs2_write_overrun [OF ex_owns [of "[7, 7]" 2, simplified], of 0 ex_conv "[jint 0]" 2 "[0x41, 0x42]"]
  by (simp add: room_def)

section \<open>asciiWrite\<close>

text \<open>A signed offset converted to \<open>size_t\<close>: negative ones are past every buffer.\<close>

lemma signed_offset:
  assumes "int32_range i" "unat (buf_length b) < 2 ^ 31"
  shows "buf_length b \<le> size_of_int i \<longleftrightarrow> i < 0 \<or> unat (buf_length b) \<le> nat i"
proof (cases "i < 0")
  case True
  have "2 ^ 63 \<le> unat (size_of_int i)"
    using assms(1) True by (intro unat_size_of_int_neg) (auto simp: int32_range_def)
  then show ?thesis using assms(2) True by (simp add: word_le_nat_alt)
next
  case False
  then show ?thesis using unat_size_of_int32 [of i] assms(1) by (simp add: word_le_nat_alt)
qed

lemma signed_offset_ok:
  assumes "int32_range i" "unat (buf_length b) < 2 ^ 31"
  shows "offset_ok s (size_of_int i) b \<longleftrightarrow> s = [] \<or> 0 \<le> i \<and> nat i < unat (buf_length b)"
  using signed_offset [OF assms] by (auto simp: offset_ok_def not_less)

lemma write_ascii_min:
  assumes "n \<le> length s" shows "write_ascii s 0 (int n) = (map ascii_char (take n s), int n)"
  using write_ascii_length [OF assms] .

text \<open>\<open>asciiWrite\<close> on a well-formed buffer, for every offset and bound. It never
  stores outside the buffer; it stores the low byte of each character that fits (a zero as a
  space) and returns their number.
\<close>

lemma ascii_write_stores:
  assumes "buffer_wf hp b" "length s < 2 ^ 31" "i = int32_value h (arg args 0)"
  shows "ascii_write h hp b (JString s # args) =
     (if s \<noteq> [] \<and> (i < 0 \<or> unat (buf_length b) \<le> nat i)
      then Throw (JsTypeError ''Offset is out of bounds'')
      else let n = min (length s) (room h (arg args 1) (nat i) b)
      in Return (jint (int n), store hp (advance (buf_data b) (nat i)) (map ascii_char (take n s))))"
proof -
  have small: "unat (buf_length b) < 2 ^ 31" using assms(1) by (simp add: buffer_wf_def)
  have i: "int32_range i" by (simp add: assms(3))
  note ok = signed_offset_ok [OF i small, of s]
  have slen: "unat (size_of_int (int (length s))) = length s"
    using assms(2) by (intro trans [OF unat_size_of_int32]) (auto simp: int32_range_def)
  show ?thesis
  proof (cases "s = []")
    case True
    have "\<not> size_of_int 0 < w \<Longrightarrow> w = 0" for w
      by (simp add: size_of_int_def word_neq_0_conv not_less)
    then have "(if size_of_int 0 < w then size_of_int 0 else w) = 0" for w
      by (simp add: size_of_int_def) 
    moreover have "write_ascii [] 0 (int_of_size 0) = ([], 0)"
      by (simp add: write_ascii_def int_of_size_def)
    ultimately show ?thesis
      using True ok by (simp add: ascii_write_def Let_def assms(3) [symmetric] write_mem_store)
  next
    case False
    show ?thesis
    proof (cases "0 \<le> i \<and> nat i < unat (buf_length b)")
      case True
      define n where "n = min (length s) (room h (arg args 1) (nat i) b)"
      have ui: "unat (size_of_int i) = nat i" using True i by (intro unat_size_of_int32) auto
      then have le: "size_of_int i \<le> buf_length b" using True by (simp add: word_le_nat_alt)
      define mb where "mb = (let m = write_bound h (arg args 1) (size_of_int i) b;
           len = size_of_int (int (length s)) in if len < m then len else m)"
      have "unat mb = n"
        using write_bound_room [OF le, of h "arg args 1"]
        by (auto simp: mb_def n_def Let_def word_less_nat_alt slen ui)
      moreover have "n < 2 ^ 31" using assms(2) by (simp add: n_def)
      ultimately have "int_of_size mb = int n" using int_of_size_small [of mb] by simp
      moreover have "n \<le> length s" by (simp add: n_def)
      ultimately have wa: "write_ascii s 0 (int_of_size mb) = (map ascii_char (take n s), int n)"
        by (simp add: write_ascii_min)
      have "nat i + length (map ascii_char (take n s)) \<le> unat (buf_length b)"
        using room_fits [of "nat i" b h "arg args 1"] True by (simp add: n_def)
      note wr = write_in_bounds [OF assms(1) this]
      have "ascii_write h hp b (JString s # args) =
         (case write_ascii s 0 (int_of_size mb) of (bs, written) \<Rightarrow>
            obind (write_mem hp (advance (buf_data b) (nat i)) bs) (\<lambda>hp'. Return (jint written, hp')))"
        using True ok by (simp add: ascii_write_def Let_def assms(3) [symmetric] mb_def ui)
      then show ?thesis using True wa wr by (simp add: n_def [symmetric])
    qed (use False ok in \<open>auto simp: ascii_write_def assms(3) [symmetric] not_le not_less\<close>)
  qed
qed

text \<open>
  \<open>asciiWrite\<close> on a well-formed buffer, for every argument, offset and bound. It
  refuses what is not a string and, for a string that is not empty, an offset outside the
  buffer; it never stores outside the buffer; it stores the low byte of each character that
  fits (a zero as a space) and returns their number.
\<close>

theorem ascii_write_correct:
  assumes "buffer_wf hp b" "length s < 2 ^ 31" "i = int32_value h (arg args 0)"
  shows "((\<nexists>s. v = JString s) \<longrightarrow>
      ascii_write h hp b (v # args) = Throw (JsTypeError ''Argument must be a string'')) \<and>
    ascii_write h hp b (JString s # args) =
     (if s \<noteq> [] \<and> (i < 0 \<or> unat (buf_length b) \<le> nat i)
      then Throw (JsTypeError ''Offset is out of bounds'')
      else let n = min (length s) (room h (arg args 1) (nat i) b)
      in Return (jint (int n), store hp (advance (buf_data b) (nat i)) (map ascii_char (take n s))))"
  using ascii_write_stores [OF assms] by (cases v) (simp_all add: ascii_write_def)

theorem ascii_write_correct_witness:
  "ascii_write ex_conv (ex_heap [7, 7]) (ex_buffer 2) [JString [0x41, 0, 0x43], jint 0] =
     Return (jint 2, ex_heap [0x41, 0x20])"
  using ascii_write_correct [OF ex_wf [of "[7, 7]" 2, simplified], of "[0x41, 0, 0x43]" 0 ex_conv "[jint 0]" JNull]
  by (simp add: room_def Let_def ascii_char_def splice_def)

section \<open>binaryWrite\<close>

text \<open>\<open>binaryWrite\<close> on a well-formed buffer, for every offset: it stores the low
  bytes of the characters that fit and returns their number, or aborts the process when one
  of them is above 255; it never stores outside the buffer, and the uninitialised part of
  the two-byte array is never read.
\<close>

lemma binary_write_stores:
  assumes "buffer_wf hp b" "length s < 2 ^ 31" "i = int32_value h (arg args 0)"
  shows "binary_write h fresh hp b (JString s # args) =
     (if s \<noteq> [] \<and> (i < 0 \<or> unat (buf_length b) \<le> nat i)
      then Throw (JsTypeError ''Offset is out of bounds'')
      else let n = min (length s) (unat (buf_length b) - nat i); cs = take n s
      in if \<forall>c\<in>set cs. drop_bit 8 c = 0
         then Return (jint (int n), store hp (advance (buf_data b) (nat i)) (map ucast cs))
         else Abort)"
proof -
  have small: "unat (buf_length b) < 2 ^ 31" using assms(1) by (simp add: buffer_wf_def)
  have i: "int32_range i" by (simp add: assms(3))
  note ok = signed_offset_ok [OF i small, of s]
  have slen: "unat (of_nat (length s) :: size_t) = length s"
    using assms(2) by (intro unat_of_small_nat)
  define towrite where "towrite = (if of_nat (length s) < buf_length b - size_of_int i
     then of_nat (length s) else buf_length b - size_of_int i)"
  define n where "n = min (length s) (unat (buf_length b) - nat i)"
  have n: "n < 2 ^ 31" "n \<le> length s" using assms(2) by (simp_all add: n_def)
  show ?thesis
  proof (cases "s = [] \<or> 0 \<le> i \<and> nat i < unat (buf_length b)")
    case True
    have "towrite = of_nat n"
    proof (cases "s = []")
      case True
      then have "towrite = 0" by (auto simp: towrite_def word_neq_0_conv not_less)
      then show ?thesis using True by (simp add: n_def)
    next
      case False
      with True have t: "0 \<le> i" "nat i < unat (buf_length b)" by auto
      have ui: "unat (size_of_int i) = nat i" using t i by (intro unat_size_of_int32)
      then have "size_of_int i \<le> buf_length b" using t by (simp add: word_le_nat_alt)
      then have "unat (buf_length b - size_of_int i) = unat (buf_length b) - nat i"
        by (simp add: unat_sub ui)
      then have "unat towrite = n"
        by (auto simp: towrite_def n_def word_less_nat_alt slen)
      then show ?thesis using n(1) by (simp add: word_unat_eq_iff unat_of_small_nat)
    qed
    moreover have "nat i + length (map ucast (take n s) :: u8 list) \<le> unat (buf_length b) \<or> take n s = []"
      using True by (cases "s = []") (auto simp: n_def)
    then have "write_mem hp (advance (buf_data b) (nat i)) (map ucast (take n s))
        = Return (store hp (advance (buf_data b) (nat i)) (map ucast (take n s)))"
      using write_in_bounds [OF assms(1), of "nat i" "map ucast (take n s)"] by (auto simp: write_mem_store)
    moreover have "s = [] \<Longrightarrow> n = 0" by (simp add: n_def)
    moreover have "0 \<le> i \<Longrightarrow> unat (size_of_int i) = nat i" using i by (intro unat_size_of_int32)
    moreover have "binary_write h fresh hp b (JString s # args) =
       obind (decode_write h fresh towrite (JString s) BINARY)
         (\<lambda>(bs, m). obind (write_mem hp (advance (buf_data b) (unat (size_of_int i))) bs)
            (\<lambda>hp'. Return (jint (int_of_size m), hp')))"
      using True ok by (simp add: binary_write_def Let_def assms(3) [symmetric] towrite_def)
    ultimately show ?thesis
      using decode_write_binary [OF n(2,1), of h fresh] int_of_size_nat [OF n(1)] True
      by (cases "s = []") (auto simp: n_def [symmetric] write_mem_store Let_def)
  qed (use ok in \<open>auto simp: binary_write_def assms(3) [symmetric] not_le not_less\<close>)
qed

text \<open>
  \<open>binaryWrite\<close> on a well-formed buffer, for every argument and offset: it
  refuses what is not a string and an offset outside the buffer (unless the string is empty);
  it stores the low bytes of the characters that fit and returns their number, or aborts the
  process when one of them is above 255; it never stores outside the buffer, and the
  uninitialised part of the two-byte array is never read.
\<close>

theorem binary_write_correct:
  assumes "buffer_wf hp b" "length s < 2 ^ 31" "i = int32_value h (arg args 0)"
  shows "((\<nexists>s. v = JString s) \<longrightarrow>
      binary_write h fresh hp b (v # args) = Throw (JsTypeError ''Argument must be a string'')) \<and>
    binary_write h fresh hp b (JString s # args) =
     (if s \<noteq> [] \<and> (i < 0 \<or> unat (buf_length b) \<le> nat i)
      then Throw (JsTypeError ''Offset is out of bounds'')
      else let n = min (length s) (unat (buf_length b) - nat i); cs = take n s
      in if \<forall>c\<in>set cs. drop_bit 8 c = 0
         then Return (jint (int n), store hp (advance (buf_data b) (nat i)) (map ucast cs))
         else Abort)"
  using binary_write_stores [OF assms] by (cases v) (simp_all add: binary_write_def)

theorem binary_write_correct_witness:
  "binary_write ex_conv (\<lambda>_. 0) (ex_heap [7, 7]) (ex_buffer 2) [JString [0xFF], jint 1] =
     Return (jint 1, ex_heap [7, 0xFF]) \<and>
   binary_write ex_conv (\<lambda>_. 0) (ex_heap [7, 7]) (ex_buffer 2) [JString [0x100], jint 1] = Abort"
  using binary_write_correct [OF ex_wf [of "[7, 7]" 2, simplified], of "[0xFF]" 1 ex_conv "[jint 1]" JNull "\<lambda>_. 0"]
    binary_write_correct [OF ex_wf [of "[7, 7]" 2, simplified], of "[0x100]" 1 ex_conv "[jint 1]" JNull "\<lambda>_. 0"]
  by (simp add: Let_def splice_def drop_bit_eq_div One_nat_def)

section \<open>base64Write\<close>

lemma unbase64_asserts_hold: "unbase64_asserts"
  by (simp add: unbase64_asserts_def unbase64_def unbase64_table_def)

lemma base64_write_run:
  assumes "buffer_wf hp b" "i = int32_value h (arg args 0)" "0 \<le> i" "nat i < unat (buf_length b)"
    and "src = ascii_value s"
  shows "base64_write h hp b (JString s # args) =
     (if unat (buf_length b) - nat i < unat (base64_decoded_size src)
      then Throw (JsTypeError ''Buffer too small'')
      else obind (write_mem hp (advance (buf_data b) (nat i)) (base64_decode src))
             (\<lambda>hp'. Return (jint (int (length (base64_decode src))), hp')))"
proof -
  have small: "unat (buf_length b) < 2 ^ 31" using assms(1) by (simp add: buffer_wf_def)
  have i: "int32_range i" by (simp add: assms(2))
  have ui: "unat (size_of_int i) = nat i" using assms i by (intro unat_size_of_int32)
  have lt: "\<not> buf_length b \<le> size_of_int i" using assms(4) by (simp add: word_le_nat_alt ui)
  then have ne: "\<not> (size_of_int i = 0 \<and> buf_length b = 0)" by auto
  from lt have "unat (buf_length b - size_of_int i) = unat (buf_length b) - nat i"
    by (simp add: unat_sub ui)
  then show ?thesis using lt ne
    by (simp only: base64_write_def unbase64_asserts_hold oassert_simps Let_def assms(2) [symmetric]
        assms(5) [symmetric] word_less_nat_alt ui arg_Cons arg_one is_string.simps to_string.simps
        not_True_eq_False if_False)
qed

lemma base64_bad_excess:
  assumes "list_all base64_valid body" "body \<noteq> []" "length body mod 4 = 0" "length body < 2 ^ 60"
  shows "length (base64_decode (body @ [eq_sign, eq_sign]))
    = unat (base64_decoded_size (body @ [eq_sign, eq_sign])) + 1"
proof -
  obtain k where k: "length body = 4 * k" using assms(3) by auto
  have "0 < k" using assms(2) k by (cases k) auto
  have "filter base64_valid (body @ [eq_sign, eq_sign]) = body"
    using assms(1) by (simp add: filter_id_conv list_all_iff)
  then have dec: "length (base64_decode (body @ [eq_sign, eq_sign])) = 3 * k"
    by (simp add: base64_decode_length k)
  have "(4 * k + 2) mod 4 = 2" "(4 * k + 2) div 4 = k" by presburger+
  then have est: "base64_estimate (length body + 2) = 3 * k + 1"
    by (simp only: base64_estimate_def k) simp
  have le: "2 \<le> 3 * k + 1" and eq: "3 * k - 1 = 3 * k + 1 - 2" using \<open>0 < k\<close> by simp_all
  have "base64_decoded_size (body @ [eq_sign, eq_sign]) = of_nat (3 * k + 1) - of_nat 2"
    using base64_decoded_size_two [OF assms(4), of eq_sign eq_sign] unfolding est by simp
  then have "base64_decoded_size (body @ [eq_sign, eq_sign]) = of_nat (3 * k - 1)"
    by (simp only: eq of_nat_diff [OF le])
  moreover have "3 * k - 1 < 2 ^ 64" using assms(4) k by simp
  ultimately have "unat (base64_decoded_size (body @ [eq_sign, eq_sign])) = 3 * k - 1"
    by (simp only: unat_size_of_nat)
  then show ?thesis using dec \<open>0 < k\<close> by simp
qed

text \<open>
  Property C5: when \<open>base64Write\<close> leaves the buffer. Exactly for a source of \<open>4 k + 2\<close> bytes
  whose last two are padding and whose first \<open>4 k > 0\<close> are all in the alphabet, when the room
  is the size \<open>base64_decoded_size\<close> computes: one byte is then stored past the end.
\<close>

theorem base64_write_overrun:
  assumes "buffer_owns hp b" "i = int32_value h (arg args 0)" "0 \<le> i" "nat i < unat (buf_length b)"
    and "src = ascii_value s" "length s < 2 ^ 31"
  shows "base64_write h hp b (JString s # args) = Overrun \<longleftrightarrow>
    (\<exists>body. src = body @ [eq_sign, eq_sign] \<and> list_all base64_valid body
       \<and> body \<noteq> [] \<and> length body mod 4 = 0) \<and>
    unat (base64_decoded_size src) = unat (buf_length b) - nat i"
proof -
  have wf: "buffer_wf hp b" using assms(1) by (simp add: buffer_owns_def)
  have len: "length src < 2 ^ 60" using assms(5,6) by (simp add: ascii_value_def)
  let ?bad = "\<exists>body. src = body @ [eq_sign, eq_sign] \<and> list_all base64_valid body
       \<and> body \<noteq> [] \<and> length body mod 4 = 0"
  let ?room = "unat (buf_length b) - nat i" and ?size = "unat (base64_decoded_size src)"
  have ov: "base64_write h hp b (JString s # args) = Overrun \<longleftrightarrow>
     ?size \<le> ?room \<and> ?room < length (base64_decode src)"
    using base64_write_run [OF wf assms(2-5)] owned_overrun [OF assms(1)] assms(4)
    by (auto simp: obind_eq_Overrun)
  have "length (base64_decode src) = ?size + 1" if ?bad
    using that len base64_bad_excess by auto
  then show ?thesis
    using ov base64_write_fits [OF len] by auto
qed

theorem base64_write_overrun_witness:
  "base64_write ex_conv (ex_heap [7, 7]) (ex_buffer 2)
     [JString (map ucast (cstr ''abcd=='')), jint 0] = Overrun"
proof -
  let ?s = "map ucast (cstr ''abcd=='') :: js_string"
  have src: "ascii_value ?s = cstr ''abcd'' @ [eq_sign, eq_sign]"
    by (simp add: ascii_value_def cstr_def ascii_char_def eq_sign_def)
  have valid: "list_all base64_valid (cstr ''abcd'')"
    by (simp add: cstr_def base64_valid_def unbase64_def unbase64_table_def)
  have "base64_decoded_size (cstr ''abcd'' @ [eq_sign, eq_sign]) = 2"
    by (simp add: base64_decoded_size_def cstr_def eq_sign_def)
  then show ?thesis
    using base64_write_overrun [OF ex_owns [of "[7, 7]" 2, simplified], of 0 ex_conv "[jint 0]" _ ?s] src valid
    by (fastforce simp: cstr_def)
qed

end
