(* ===== verification/BufferCodec.thy ===== *)
theory BufferCodec
  imports BufferOps
begin

text \<open>
  The contract shared by the five encodings of Buffer, as the locale \<open>buffer_codec\<close>: what a
  write method stores and what the slice method of the same encoding reads. Its consequences
  are proved once and interpreted for \<open>utf8\<close>, \<open>ucs2\<close>, \<open>ascii\<close>, \<open>binary\<close> and \<open>base64\<close>.
\<close>

section \<open>What every encoding of a buffer promises\<close>

text \<open>
  A write method, the slice method of the same encoding and the bytes they exchange. \<open>need\<close>
  is the room a string takes, the terminator included where the method needs room for one.
\<close>

locale buffer_codec =
  fixes wr :: "conv \<Rightarrow> heap \<Rightarrow> buffer \<Rightarrow> js_value list \<Rightarrow> (js_value \<times> heap) outcome"
    and sl :: "conv \<Rightarrow> heap \<Rightarrow> buffer \<Rightarrow> js_value list \<Rightarrow> js_value outcome"
    and enc :: "js_string \<Rightarrow> u8 list"
    and dec :: "u8 list \<Rightarrow> js_string"
    and encodable :: "js_string \<Rightarrow> bool"
    and need :: "js_string \<Rightarrow> nat"
  assumes dec_enc: "encodable s \<Longrightarrow> dec (enc s) = s"
    and need_enc: "length (enc s) \<le> need s"
    and write_law: "\<lbrakk>buffer_wf hp b; encodable s; s \<noteq> []; length s < 2 ^ 31;
        off < unat (buf_length b); off + need s \<le> unat (buf_length b)\<rbrakk> \<Longrightarrow>
      \<exists>r hp' bs. wr h hp b [JString s, jint (int off)] = Return (r, hp') \<and>
        buffer_wf hp' b \<and> off + length bs \<le> unat (buf_length b) \<and>
        take (length (enc s)) bs = enc s \<and>
        buffer_bytes hp' b = splice (buffer_bytes hp b) off bs"
    and slice_law: "\<lbrakk>buffer_wf hp b; i \<le> j; j \<le> unat (buf_length b)\<rbrakk> \<Longrightarrow>
      sl h hp b [jint (int i), jint (int j)] = Return (JString (dec (take (j - i) (drop i (buffer_bytes hp b)))))"
begin

lemma slice_after_write:
  assumes "buffer_wf hp b" "encodable s" "s \<noteq> []" "length s < 2 ^ 31"
    "off < unat (buf_length b)" "off + need s \<le> unat (buf_length b)"
  shows "\<exists>r hp'. wr h hp b [JString s, jint (int off)] = Return (r, hp') \<and> buffer_wf hp' b \<and>
    sl h hp' b [jint (int off), jint (int (off + length (enc s)))] = Return (JString s)"
proof -
  obtain r hp' bs where w: "wr h hp b [JString s, jint (int off)] = Return (r, hp')"
    "buffer_wf hp' b" "off + length bs \<le> unat (buf_length b)" "take (length (enc s)) bs = enc s"
    "buffer_bytes hp' b = splice (buffer_bytes hp b) off bs"
    using write_law [OF assms] by blast
  have le: "length (enc s) \<le> length bs" using w(4) by (metis nat_le_linear take_all)
  have "take (length bs) (drop off (buffer_bytes hp' b)) = bs"
    using w(3) by (simp add: w(5) splice_window length_buffer_bytes [OF assms(1)])
  then have "take (length (enc s)) (drop off (buffer_bytes hp' b)) = enc s"
    using le w(4) by (metis min.absorb1 take_take)
  moreover have "off + length (enc s) \<le> unat (buf_length b)" using w(3) le by linarith
  ultimately show ?thesis
    using w slice_law [OF w(2), of off "off + length (enc s)" h] dec_enc [OF assms(2)] by auto
qed

lemma write_frame:
  assumes "buffer_wf hp b" "encodable s" "s \<noteq> []" "length s < 2 ^ 31"
    "off < unat (buf_length b)" "off + need s \<le> unat (buf_length b)" "k < off"
  shows "\<exists>r hp'. wr h hp b [JString s, jint (int off)] = Return (r, hp') \<and>
    buffer_bytes hp' b ! k = buffer_bytes hp b ! k"
proof -
  obtain r hp' bs where w: "wr h hp b [JString s, jint (int off)] = Return (r, hp')"
    "off + length bs \<le> unat (buf_length b)" "buffer_bytes hp' b = splice (buffer_bytes hp b) off bs"
    using write_law [OF assms(1-6)] by blast
  then show ?thesis
    using assms(5,7) nth_splice [of off bs "buffer_bytes hp b" k] by (auto simp: length_buffer_bytes [OF assms(1)])
qed

end

lemma uint32_off: "off < 2 ^ 31 \<Longrightarrow> uint32_value h (jint (int off)) = off"
  by simp

lemma int32_off: "off < 2 ^ 31 \<Longrightarrow> int32_value h (jint (int off)) = int off"
  by (simp add: int32_range_def)

lemma slice_args_jint:
  assumes "i \<le> j" "j \<le> unat (buf_length b)" "unat (buf_length b) < 2 ^ 31"
  shows "slice_args h [jint (int i), jint (int j)] b = Return (int i, int j)"
proof -
  have r: "int32_range (int i)" "int32_range (int j)" using assms by (simp_all add: int32_range_def)
  then have "unat (size_of_int (int j)) = j" by (simp add: unat_size_of_int32)
  then have "\<not> buf_length b < size_of_int (int j)" using assms(2) by (simp add: word_less_nat_alt)
  then show ?thesis using r assms(1) by (simp add: slice_args_def)
qed

lemma room_undefined: "room h JUndefined off b = unat (buf_length b) - off"
  by (simp add: room_def)

lemma wf_small: "buffer_wf hp b \<Longrightarrow> unat (buf_length b) < 2 ^ 31" by (simp add: buffer_wf_def)

lemma codec_store:
  assumes "res = Return (r, store hp (advance (buf_data b) off) bs)" "buffer_wf hp b"
    "off + length bs \<le> unat (buf_length b)" "take n bs = e"
  shows "\<exists>r hp' bs. res = Return (r, hp') \<and> buffer_wf hp' b \<and> off + length bs \<le> unat (buf_length b) \<and>
    take n bs = e \<and> buffer_bytes hp' b = splice (buffer_bytes hp b) off bs"
  using assms(1,3,4) buffer_bytes_store [OF assms(2,3)] buffer_wf_store [OF assms(2,3)] by blast

interpretation utf8: buffer_codec utf8_write utf8_slice utf8_bytes utf8_decode "\<lambda>s. True" utf8_length
proof (unfold_locales, goal_cases)
  case (3 hp b s off h)
  have o: "off < 2 ^ 31" using 3 by (simp add: buffer_wf_def)
  let ?n = "unat (buf_length b) - off"
  have "length s \<le> length (utf8_prefix ?n s)"
    using 3 by (intro utf8_prefix_maximal) (simp_all add: length_utf8_bytes)
  then have p: "utf8_prefix ?n s = s" using utf8_prefix_take [of ?n s] by simp
  have fit: "off + length (utf8_stored ?n s) \<le> unat (buf_length b)"
    using utf8_stored_fits [of ?n s] 3 by linarith
  have "take (length (utf8_bytes s)) (utf8_stored ?n s) = utf8_bytes s"
    by (simp add: utf8_stored_def p Let_def)
  then show ?case
    using utf8_write_stores [OF 3(1), of off h "[jint (int off)]" s] 3(5) o fit
      buffer_bytes_store [OF 3(1) fit] buffer_wf_store [OF 3(1) fit]
    by (auto simp: uint32_off room_undefined Let_def)
next
  case (4 hp b i j h)
  then show ?case
    using slice_bytes_spec [OF 4(1) slice_args_jint [OF 4(2,3) wf_small [OF 4(1)], of h]]
    by (simp add: utf8_slice_def nat_diff_distrib)
qed (simp_all add: utf8_decode_bytes length_utf8_bytes)

lemma ucs2_slice_law:
  assumes "buffer_wf hp b" "i \<le> j" "j \<le> unat (buf_length b)"
  shows "ucs2_slice h hp b [jint (int i), jint (int j)]
    = Return (JString (bytes_u16 (take (j - i) (drop i (buffer_bytes hp b)))))"
proof -
  have trunc: "bytes_u16 (take (length xs div 2 * 2) xs) = bytes_u16 xs" for xs
    by (induction xs rule: bytes_u16.induct) simp_all
  let ?xs = "take (j - i) (drop i (buffer_bytes hp b))"
  have len: "length ?xs = j - i" using assms by (simp add: length_buffer_bytes)
  have "nat ((int j - int i) div 2 * 2) = (j - i) div 2 * 2"
    using assms(2) by (simp add: nat_mult_distrib nat_div_distrib flip: of_nat_diff)
  moreover have "(j - i) div 2 * 2 \<le> j - i" by simp
  ultimately have "take (nat ((int j - int i) div 2 * 2)) (drop i (buffer_bytes hp b))
      = take (length ?xs div 2 * 2) ?xs"
    unfolding len by (simp add: min_def)
  then show ?thesis
    using ucs2_slice_spec [OF assms(1) slice_args_jint [OF assms(2,3) wf_small [OF assms(1)], of h]] trunc [of ?xs]
    by simp
qed

lemma u16_bytes_append: "u16_bytes (s @ t) = u16_bytes s @ u16_bytes t"
  by (simp add: u16_bytes_def)

interpretation ucs2: buffer_codec ucs2_write ucs2_slice u16_bytes bytes_u16 "\<lambda>s. True" "\<lambda>s. 2 * length s + 2"
proof (unfold_locales, goal_cases)
  case (3 hp b s off h)
  have o: "off < 2 ^ 31" using 3 by (simp add: buffer_wf_def)
  let ?n = "unat (buf_length b) - off"
  have st: "ucs2_stored ?n s = s @ [0]" using 3 by (auto simp: ucs2_stored_def)
  have fit: "off + length (u16_bytes (s @ [0])) \<le> unat (buf_length b)"
    using 3 by (simp add: length_u16_bytes)
  have "take (length (u16_bytes s)) (u16_bytes (s @ [0])) = u16_bytes s"
    by (simp add: u16_bytes_append)
  then show ?case
    using ucs2_write_run [OF 3(1), of off h "[jint (int off)]" ?n s] 3(5) o fit st
      write_in_bounds [OF 3(1) fit] buffer_bytes_store [OF 3(1) fit] buffer_wf_store [OF 3(1) fit]
    by (auto simp: uint32_off room_undefined)
qed (simp_all add: bytes_u16_bytes length_u16_bytes ucs2_slice_law)

text \<open>The characters \<open>asciiWrite\<close> keeps: U+0001 to U+007F.\<close>

definition ascii_only :: "js_string \<Rightarrow> bool" where
  "ascii_only s \<longleftrightarrow> (\<forall>c\<in>set s. 0 < unat c \<and> unat c < 128)"

lemma value_of_ascii: "unat b < 128 \<Longrightarrow> value_of (b # bs) = (ucast b, 1)"
  by (simp add: value_of_def word_le_nat_alt)

lemma utf8_decode_ascii:
  "\<forall>b\<in>set bs. unat b < 128 \<Longrightarrow> utf8_decode bs = map ucast bs"
proof (induction bs)
  case (Cons b bs)
  have "(ucast (ucast b :: u32) :: u16) = ucast b" by (rule bit_word_eqI) (auto simp: bit_simps)
  moreover have "\<not> 0xFFFF < (ucast b :: u32)"
    using Cons.prems by (simp add: word_less_nat_alt unsigned_ucast_eq take_bit_nat_eq_self)
  ultimately have "clip_bmp (ucast b) = ucast b" by (simp add: clip_bmp_def)
  then show ?case using Cons by (subst utf8_decode.simps) (simp add: value_of_ascii)
qed simp

lemma ascii_char_small: "0 < unat c \<Longrightarrow> unat c < 128 \<Longrightarrow> unat (ascii_char c) = unat c"
proof -
  assume a: "0 < unat c" "unat c < 128"
  then have "unat (ucast c :: u8) = unat c"
    by (simp add: unsigned_ucast_eq take_bit_nat_eq_self)
  then show ?thesis using a by (auto simp: ascii_char_def Let_def)
qed

lemma ascii_decode: "ascii_only s \<Longrightarrow> utf8_decode (map ascii_char s) = s"
proof -
  assume a: "ascii_only s"
  have "ucast (ascii_char c) = c" if "c \<in> set s" for c
  proof -
    have "0 < unat c" "unat c < 128" using a that by (simp_all add: ascii_only_def)
    then show ?thesis using ascii_char_small [of c]
      by (simp add: word_unat_eq_iff unsigned_ucast_eq take_bit_nat_eq_self)
  qed
  then have "map ucast (map ascii_char s) = s" by (simp add: map_idI)
  moreover have "\<forall>b\<in>set (map ascii_char s). unat b < 128"
    using a ascii_char_small by (auto simp: ascii_only_def)
  ultimately show ?thesis using utf8_decode_ascii by metis
qed

interpretation ascii: buffer_codec ascii_write ascii_slice "map ascii_char" utf8_decode ascii_only length
proof (unfold_locales, goal_cases)
  case (3 hp b s off h)
  have o: "off < 2 ^ 31" using 3 by (simp add: buffer_wf_def)
  have "ascii_write h hp b [JString s, jint (int off)]
     = Return (jint (int (length s)), store hp (advance (buf_data b) off) (map ascii_char s))"
    using ascii_write_stores [OF 3(1,4), of "int off" h "[jint (int off)]"] 3(3,5,6) o
    by (simp add: int32_off room_undefined Let_def)
  then show ?case by (rule codec_store [OF _ 3(1)]) (use 3(6) in simp_all)
next
  case (4 hp b i j h)
  then show ?case
    using slice_bytes_spec [OF 4(1) slice_args_jint [OF 4(2,3) wf_small [OF 4(1)], of h]]
    by (simp add: ascii_slice_def nat_diff_distrib)
qed (simp_all add: ascii_decode)

definition binary_only :: "js_string \<Rightarrow> bool" where
  "binary_only s \<longleftrightarrow> (\<forall>c\<in>set s. drop_bit 8 c = 0)"

lemma encode_binary: "encode bs BINARY = map ucast bs"
  by (simp add: encode_def)

lemma binary_decode: "binary_only s \<Longrightarrow> map ucast (map ucast s :: u8 list) = s"
proof -
  have "(ucast (ucast c :: u8) :: u16) = c" if "drop_bit 8 c = 0" for c :: u16
  proof (rule bit_word_eqI)
    fix n assume "n < LENGTH(16)"
    have "\<not> bit c n" if "8 \<le> n" using \<open>drop_bit 8 c = 0\<close> that
    proof -
      have "bit (drop_bit 8 c) (n - 8) = bit c n" using that by (simp add: bit_drop_bit_eq)
      then show ?thesis using \<open>drop_bit 8 c = 0\<close> by simp
    qed
    then show "bit (ucast (ucast c :: u8) :: u16) n = bit c n"
      using \<open>n < LENGTH(16)\<close> by (cases "8 \<le> n") (auto simp: bit_simps)
  qed
  then show "binary_only s \<Longrightarrow> ?thesis" by (simp add: binary_only_def map_idI)
qed

interpretation binary: buffer_codec "\<lambda>h. binary_write h fresh" binary_slice "map ucast" "map ucast" binary_only length
  for fresh
proof (unfold_locales, goal_cases)
  case (3 hp b s off h)
  have o: "off < 2 ^ 31" using 3 by (simp add: buffer_wf_def)
  have "binary_write h fresh hp b [JString s, jint (int off)]
     = Return (jint (int (length s)), store hp (advance (buf_data b) off) (map ucast s))"
    using binary_write_stores [OF 3(1,4), of "int off" h "[jint (int off)]" fresh] 3(2,3,5,6) o
    by (simp add: int32_off binary_only_def Let_def)
  then show ?case by (rule codec_store [OF _ 3(1)]) (use 3(6) in simp_all)
next
  case (4 hp b i j h)
  then show ?case
    using slice_bytes_spec [OF 4(1) slice_args_jint [OF 4(2,3) wf_small [OF 4(1)], of h]]
    by (simp add: binary_slice_def nat_diff_distrib encode_binary)
qed (use binary_decode in simp_all)

text \<open>The strings \<open>base64Slice\<close> gives: the padded encodings.\<close>

definition base64_string :: "u8 list \<Rightarrow> js_string" where
  "base64_string bs = map ucast (base64_encode bs)"

lemma base64_char_ascii: "unat c < 64 \<Longrightarrow> 0 < unat (base64_char c) \<and> unat (base64_char c) < 128"
proof -
  assume a: "unat c < 64"
  have "\<forall>k<64. 0 < (of_char (base64_table ! k) :: nat) \<and> (of_char (base64_table ! k) :: nat) < 128"
    by (simp add: base64_table_def numeral_eq_Suc All_less_Suc2)
  then have "0 < (of_char (base64_table ! unat c) :: nat) \<and> (of_char (base64_table ! unat c) :: nat) < 128"
    using a by blast
  then show ?thesis by (simp add: base64_char_def unat_of_nat take_bit_nat_eq_self)
qed

lemma base64_encode_ascii: "b \<in> set (base64_encode bs) \<Longrightarrow> 0 < unat b \<and> unat b < 128"
  by (induction bs rule: by_threes)
    (auto simp: Let_def eq_sign_def base64_char_ascii)

lemma base64_value: "ascii_value (base64_string bs) = base64_encode bs"
proof -
  have "ascii_char (ucast b) = b" if "b \<in> set (base64_encode bs)" for b
    using base64_encode_ascii [OF that] by (auto simp: ascii_char_def Let_def ucast_u8_u16)
  then show ?thesis by (simp add: ascii_value_def base64_string_def map_idI)
qed

lemma base64_char_not_eq_sign [simp]: "unat c < 64 \<Longrightarrow> base64_char c \<noteq> eq_sign"
  by (metis base64_alphabet(1) eq_sign_invalid)

lemma base64_estimate_step: "base64_estimate (n + 4) = base64_estimate n + 3"
proof -
  have "(n + 4) div 4 = n div 4 + 1" "(n + 4) mod 4 = n mod 4" by simp_all
  then show ?thesis unfolding base64_estimate_def by simp
qed

text \<open>The last two characters of an encoding tell how many bytes it has.\<close>

lemma base64_encode_shape:
  "bs \<noteq> [] \<Longrightarrow> \<exists>body p q. base64_encode bs = body @ [p, q] \<and>
     base64_estimate (length body + 2) = length bs + of_bool (q = eq_sign) + of_bool (p = eq_sign)"
proof (induction bs rule: by_threes)
  case (One x)
  show ?case
    by (rule exI [of _ "[base64_char (quad1 x), base64_char (quad2 x 0)]"])
      (simp add: Let_def base64_estimate_def)
next
  case (Two x y)
  show ?case
    by (rule exI [of _ "[base64_char (quad1 x), base64_char (quad2 x y)]"])
      (simp add: Let_def base64_estimate_def)
next
  case (Three x y z r)
  let ?four = "[base64_char (quad1 x), base64_char (quad2 x y)]"
  let ?last = "[base64_char (quad3 y z), base64_char (quad4 z)]"
  have enc: "base64_encode (x # y # z # r) = ?four @ ?last @ base64_encode r" by (simp add: Let_def)
  show ?case
  proof (cases "r = []")
    case True
    then show ?thesis
      by (intro exI [of _ ?four]) (simp add: Let_def base64_estimate_def)
  next
    case False
    then obtain body p q where IH: "base64_encode r = body @ [p, q]"
      "base64_estimate (length body + 2) = length r + of_bool (q = eq_sign) + of_bool (p = eq_sign)"
      using Three.IH by blast
    have "length (?four @ ?last @ body) + 2 = (length body + 2) + 4" by simp
    then have "base64_estimate (length (?four @ ?last @ body) + 2) = length r + of_bool (q = eq_sign) + of_bool (p = eq_sign) + 3"
      by (simp only: base64_estimate_step IH(2))
    moreover have "base64_encode (x # y # z # r) = (?four @ ?last @ body) @ [p, q]"
      using enc IH(1) by simp
    ultimately show ?thesis 
      by (intro exI [of _ "?four @ ?last @ body"] exI [of _ p] exI [of _ q]) simp
  qed
qed simp

lemma base64_decoded_size_encode:
  assumes "length bs < 2 ^ 31"
  shows "base64_decoded_size (base64_encode bs) = of_nat (length bs)"
proof (cases "bs = []")
  case True then show ?thesis by (simp add: base64_decoded_size_def)
next
  case False
  then obtain body p q where e: "base64_encode bs = body @ [p, q]"
    "base64_estimate (length body + 2) = length bs + of_bool (q = eq_sign) + of_bool (p = eq_sign)"
    using base64_encode_shape by blast
  have "length (base64_encode bs) < 2 ^ 60" using assms by (simp add: base64_encode_length)
  then have "length body < 2 ^ 60" using e(1) by simp
  then show ?thesis using base64_decoded_size_two [of body p q] e by simp
qed

interpretation base64: buffer_codec base64_write base64_slice "\<lambda>s. base64_decode (ascii_value s)"
  "\<lambda>bs. utf8_decode (base64_encode bs)" "\<lambda>s. \<exists>bs. s = base64_string bs" "\<lambda>s. length (base64_decode (ascii_value s))"
proof (unfold_locales, goal_cases)
  case (1 s)
  then obtain bs where s: "s = base64_string bs" by blast
  have "utf8_decode (base64_encode bs) = s"
    unfolding s base64_string_def using base64_encode_ascii by (intro utf8_decode_ascii) blast
  then show ?case by (simp add: s base64_value base64_decode_encode)
next
  case (3 hp b s off h)
  then obtain bs where bs: "s = base64_string bs" by blast
  have o: "off < 2 ^ 31" using 3 by (simp add: buffer_wf_def)
  have dec: "base64_decode (ascii_value s) = bs" by (simp add: bs base64_value base64_decode_encode)
  have "length bs < 2 ^ 31" using 3 dec by (simp add: buffer_wf_def)
  then have "unat (base64_decoded_size (ascii_value s)) = length bs"
    by (simp add: bs base64_value base64_decoded_size_encode unat_of_small_nat)
  then have "base64_write h hp b [JString s, jint (int off)]
     = Return (jint (int (length bs)), store hp (advance (buf_data b) off) bs)"
    using base64_write_run [OF 3(1), of "int off" h "[jint (int off)]" _ s] 3(5,6) o dec
      write_in_bounds [OF 3(1), of off bs] by (simp add: int32_off)
  then show ?case by (rule codec_store [OF _ 3(1)]) (use 3(6) dec in simp_all)
next
  case (4 hp b i j h)
  then show ?case
    using base64_slice_spec [OF 4(1) slice_args_jint [OF 4(2,3) wf_small [OF 4(1)], of h]]
    by (simp add: nat_diff_distrib)
qed simp



section \<open>byteLength\<close>

lemma utf8_bytes_ascii: "\<forall>b\<in>set bs. unat b < 128 \<Longrightarrow> utf8_bytes (map ucast bs) = bs"
proof (induction bs)
  case (Cons b bs)
  have "(ucast (ucast b :: u16) :: u32) = ucast b"
    by (rule bit_word_eqI) (auto simp: bit_simps dest: bit_imp_le_length)
  moreover have "(ucast b :: u32) \<le> 0x7f"
    using Cons.prems by (simp add: word_le_nat_alt unsigned_ucast_eq take_bit_nat_eq_self)
  moreover have "(ucast (ucast b :: u32) :: u8) = b" by (rule bit_word_eqI) (auto simp: bit_simps)
  ultimately have "utf8_encode (ucast (ucast b :: u16)) = [b]" by (simp add: utf8_encode_def)
  then show ?case using Cons by (simp add: utf8_bytes_Cons)
qed (simp add: utf8_bytes_Nil)

lemma base64_utf8_value: "utf8_value (base64_string bs) = base64_encode bs"
  unfolding utf8_value_def base64_string_def using base64_encode_ascii by (intro utf8_bytes_ascii) blast

lemma base64_size_of_string:
  assumes "length (base64_string bs) < 2 ^ 30"
  shows "int_of_size (base64_decoded_size (utf8_value (base64_string bs))) = int (length bs)"
proof -
  have "length bs \<le> (length bs + 2) div 3 * 4" by linarith
  then have "length bs < 2 ^ 31"
    using assms by (simp add: base64_string_def base64_encode_length)
  then show ?thesis by (simp add: base64_utf8_value base64_decoded_size_encode int_of_size_nat)
qed

lemma base64_size_of_padding:
  "int_of_size (base64_decoded_size (utf8_value [0x3D, 0x3D])) = -1"
proof -
  have "utf8_value [0x3D, 0x3D] = [] @ [eq_sign, eq_sign]"
    by (simp add: utf8_value_def utf8_bytes_def utf8_encode_def eq_sign_def)
  then have "base64_decoded_size (utf8_value [0x3D, 0x3D]) = size_of_int (-1)"
    using base64_decoded_size_two [of "[]" eq_sign eq_sign]
    by (simp add: base64_estimate_def size_of_int_def)
  then show ?thesis by (simp add: int_of_size_of_int)
qed

text \<open>
  \<open>byteLength\<close> is the number of bytes the matching write stores for the string,
  in every encoding, on canonical texts for \<open>base64\<close>; there \<open>"=="\<close> has length \<open>-1\<close>.
\<close>

theorem byte_length_exact:
  assumes "length s < 2 ^ 30" "utf8_length s < 2 ^ 31"
  shows "int_of_size (byte_length_of s UTF8) = int (length (utf8_bytes s)) \<and>
    int_of_size (byte_length_of s UCS2) = int (length (u16_bytes s)) \<and>
    int_of_size (byte_length_of s ASCII) = int (length (map ascii_char s)) \<and>
    int_of_size (byte_length_of s BINARY) = int (length s) \<and>
    (s = base64_string bs \<longrightarrow> int_of_size (byte_length_of s BASE64) = int (length bs)) \<and>
    (s = [0x3D, 0x3D] \<longrightarrow> int_of_size (byte_length_of s BASE64) = -1)"
proof -
  have "int_of_size (size_of_int (int (length s) * 2)) = int (length s) * 2"
    using assms(1) by (intro int_of_size_of_int) (simp add: int32_range_def)
  then show ?thesis
    using assms base64_size_of_string [of bs] base64_size_of_padding
    by (auto simp: byte_length_of_def int_of_size_nat length_utf8_bytes length_u16_bytes)
qed

theorem byte_length_exact_witness:
  "int_of_size (byte_length_of [0xE9, 0x41] UTF8) = 3 \<and> int_of_size (byte_length_of [0xE9, 0x41] UCS2) = 4"
  using byte_length_exact [of "[0xE9, 0x41]"]
  by (simp add: utf8_length_def utf8_char_length_def length_utf8_bytes length_u16_bytes)

section \<open>makeFastBuffer\<close>

text \<open>
  \<open>makeFastBuffer\<close> checks nothing: the view it makes is inside the buffer exactly
  when the offset and length the caller passes are.
\<close>

theorem make_fast_buffer_unchecked:
  assumes "buffer_owns hp b" "off = uint32_value h (arg args 2)" "len = uint32_value h (arg args 3)"
    and "len \<le> 0x3fffffff"
  shows "\<exists>ea. make_fast_buffer h b args = Return ea \<and>
    (view_wf hp ea \<longleftrightarrow> off + len \<le> unat (buf_length b))"
  using assms
  by (simp add: make_fast_buffer_def set_indexed_def oassert_def int_of_size_nat view_wf_def
      buffer_owns_def advance_def flip: assms(3))

theorem make_fast_buffer_unchecked_witness:
  "\<exists>ea. make_fast_buffer ex_conv (ex_buffer 2) [JUndefined, JUndefined, jint 1, jint 100] = Return ea \<and>
    \<not> view_wf (ex_heap [0, 0]) ea"
  using make_fast_buffer_unchecked [OF ex_owns [of "[0, 0]" 2, simplified], of 1 ex_conv
      "[JUndefined, JUndefined, jint 1, jint 100]" 100]
  by auto

end
