(* ===== verification/Errno.thy ===== *)
theory Errno
  imports Prelude
begin

text \<open>
  Error codes: \<open>errno_string\<close>, \<open>signo_string\<close> and \<open>ErrnoException\<close> of \<open>src/node.cc\<close>, and
  \<open>DefineConstants\<close> of \<open>src/node_constants.cc\<close>, the table behind
  \<open>process.binding('constants')\<close>.

  The headers of the platform decide which macros exist and their values: a \<open>platform\<close> is a
  parameter, and the conditional compilation of the two files is kept in the tables.
\<close>

section \<open>Conditional compilation\<close>

type_synonym platform = "string \<Rightarrow> int option"

text \<open>
  The guards the files use around an entry \<open>X\<close>: none; \<open>#ifdef X\<close>; \<open>#ifdef X\<close> with
  \<open># if A != B\<close> inside; \<open>#ifdef X\<close> in the \<open>#else\<close> of \<open>#ifdef A\<close>.
\<close>

datatype guard = Always | Ifdef | IfdefDiffers string string | IfdefUnless string

text \<open>An identifier without a macro counts as 0 in \<open>#if\<close>.\<close>

definition pp_value :: "platform \<Rightarrow> string \<Rightarrow> int" where
  "pp_value p n = (case p n of None \<Rightarrow> 0 | Some v \<Rightarrow> v)"

fun defined_on :: "platform \<Rightarrow> guard \<times> string \<Rightarrow> bool" where
  "defined_on p (Always, n) = (p n \<noteq> None)"
| "defined_on p (Ifdef, n) = (p n \<noteq> None)"
| "defined_on p (IfdefDiffers a b, n) = (p n \<noteq> None \<and> pp_value p a \<noteq> pp_value p b)"
| "defined_on p (IfdefUnless a, n) = (p n \<noteq> None \<and> p a = None)"

text \<open>
  A \<open>switch\<close> of \<open>case X: return "X";\<close> entries with the default \<open>""\<close>. Two active labels of one
  value do not compile: \<open>switch_ok\<close>.
\<close>

definition switch_string :: "platform \<Rightarrow> (guard \<times> string) list \<Rightarrow> int \<Rightarrow> string" where
  "switch_string p cases v =
     (case find (\<lambda>e. defined_on p e \<and> p (snd e) = Some v) cases of
        None \<Rightarrow> []
      | Some e \<Rightarrow> snd e)"

definition switch_ok :: "platform \<Rightarrow> (guard \<times> string) list \<Rightarrow> bool" where
  "switch_ok p cases \<longleftrightarrow> distinct (map (\<lambda>e. p (snd e)) (filter (defined_on p) cases))"

section \<open>errno_string\<close>

definition errno_cases_1 :: "(guard \<times> string) list" where
  "errno_cases_1 =
    [(Ifdef, ''EACCES''), (Ifdef, ''EADDRINUSE''), (Ifdef, ''EADDRNOTAVAIL''),
     (Ifdef, ''EAFNOSUPPORT''), (Ifdef, ''EAGAIN''),
     (IfdefDiffers ''EAGAIN'' ''EWOULDBLOCK'', ''EWOULDBLOCK''), (Ifdef, ''EALREADY''),
     (Ifdef, ''EBADF''), (Ifdef, ''EBADMSG''), (Ifdef, ''EBUSY''), (Ifdef, ''ECANCELED''),
     (Ifdef, ''ECHILD''), (Ifdef, ''ECONNABORTED''), (Ifdef, ''ECONNREFUSED''),
     (Ifdef, ''ECONNRESET''), (Ifdef, ''EDEADLK''), (Ifdef, ''EDESTADDRREQ''), (Ifdef, ''EDOM''),
     (Ifdef, ''EDQUOT''), (Ifdef, ''EEXIST''), (Ifdef, ''EFAULT''), (Ifdef, ''EFBIG''),
     (Ifdef, ''EHOSTUNREACH''), (Ifdef, ''EIDRM''), (Ifdef, ''EILSEQ''), (Ifdef, ''EINPROGRESS''),
     (Ifdef, ''EINTR''), (Ifdef, ''EINVAL''), (Ifdef, ''EIO''), (Ifdef, ''EISCONN''),
     (Ifdef, ''EISDIR''), (Ifdef, ''ELOOP''), (Ifdef, ''EMFILE''), (Ifdef, ''EMLINK''),
     (Ifdef, ''EMSGSIZE''), (Ifdef, ''EMULTIHOP'')]"

definition errno_cases_2 :: "(guard \<times> string) list" where
  "errno_cases_2 =
    [(Ifdef, ''ENAMETOOLONG''), (Ifdef, ''ENETDOWN''), (Ifdef, ''ENETRESET''),
     (Ifdef, ''ENETUNREACH''), (Ifdef, ''ENFILE''), (Ifdef, ''ENOBUFS''), (Ifdef, ''ENODATA''),
     (Ifdef, ''ENODEV''), (Ifdef, ''ENOENT''), (Ifdef, ''ENOEXEC''), (Ifdef, ''ENOLINK''),
     (IfdefDiffers ''ENOLINK'' ''ENOLCK'', ''ENOLCK''), (Ifdef, ''ENOMEM''), (Ifdef, ''ENOMSG''),
     (Ifdef, ''ENOPROTOOPT''), (Ifdef, ''ENOSPC''), (Ifdef, ''ENOSR''), (Ifdef, ''ENOSTR''),
     (Ifdef, ''ENOSYS''), (Ifdef, ''ENOTCONN''), (Ifdef, ''ENOTDIR''), (Ifdef, ''ENOTEMPTY''),
     (Ifdef, ''ENOTSOCK''), (Ifdef, ''ENOTSUP''), (IfdefUnless ''ENOTSUP'', ''EOPNOTSUPP''),
     (Ifdef, ''ENOTTY''), (Ifdef, ''ENXIO''), (Ifdef, ''EOVERFLOW''), (Ifdef, ''EPERM''),
     (Ifdef, ''EPIPE''), (Ifdef, ''EPROTO''), (Ifdef, ''EPROTONOSUPPORT''),
     (Ifdef, ''EPROTOTYPE''), (Ifdef, ''ERANGE''), (Ifdef, ''EROFS''), (Ifdef, ''ESPIPE'')]"

definition errno_cases_3 :: "(guard \<times> string) list" where
  "errno_cases_3 =
    [(Ifdef, ''ESRCH''), (Ifdef, ''ESTALE''), (Ifdef, ''ETIME''), (Ifdef, ''ETIMEDOUT''),
     (Ifdef, ''ETXTBSY''), (Ifdef, ''EXDEV''), (Ifdef, ''WSAEINTR''), (Ifdef, ''WSAEBADF''),
     (Ifdef, ''WSAEACCES''), (Ifdef, ''WSAEFAULT''), (Ifdef, ''WSAEINVAL''),
     (Ifdef, ''WSAEMFILE''), (Ifdef, ''WSAEWOULDBLOCK''), (Ifdef, ''WSAEINPROGRESS''),
     (Ifdef, ''WSAEALREADY''), (Ifdef, ''WSAENOTSOCK''), (Ifdef, ''WSAEDESTADDRREQ''),
     (Ifdef, ''WSAEMSGSIZE''), (Ifdef, ''WSAEPROTOTYPE''), (Ifdef, ''WSAENOPROTOOPT''),
     (Ifdef, ''WSAEPROTONOSUPPORT''), (Ifdef, ''WSAESOCKTNOSUPPORT''), (Ifdef, ''WSAEOPNOTSUPP''),
     (Ifdef, ''WSAEPFNOSUPPORT''), (Ifdef, ''WSAEAFNOSUPPORT''), (Ifdef, ''WSAEADDRINUSE''),
     (Ifdef, ''WSAEADDRNOTAVAIL''), (Ifdef, ''WSAENETDOWN''), (Ifdef, ''WSAENETUNREACH''),
     (Ifdef, ''WSAENETRESET''), (Ifdef, ''WSAECONNABORTED''), (Ifdef, ''WSAECONNRESET''),
     (Ifdef, ''WSAENOBUFS''), (Ifdef, ''WSAEISCONN''), (Ifdef, ''WSAENOTCONN''),
     (Ifdef, ''WSAESHUTDOWN''), (Ifdef, ''WSAETOOMANYREFS'')]"

definition errno_cases_4 :: "(guard \<times> string) list" where
  "errno_cases_4 =
    [(Ifdef, ''WSAETIMEDOUT''), (Ifdef, ''WSAECONNREFUSED''), (Ifdef, ''WSAELOOP''),
     (Ifdef, ''WSAENAMETOOLONG''), (Ifdef, ''WSAEHOSTDOWN''), (Ifdef, ''WSAEHOSTUNREACH''),
     (Ifdef, ''WSAENOTEMPTY''), (Ifdef, ''WSAEPROCLIM''), (Ifdef, ''WSAEUSERS''),
     (Ifdef, ''WSAEDQUOT''), (Ifdef, ''WSAESTALE''), (Ifdef, ''WSAEREMOTE''),
     (Ifdef, ''WSASYSNOTREADY''), (Ifdef, ''WSAVERNOTSUPPORTED''), (Ifdef, ''WSANOTINITIALISED''),
     (Ifdef, ''WSAEDISCON''), (Ifdef, ''WSAENOMORE''), (Ifdef, ''WSAECANCELLED''),
     (Ifdef, ''WSAEINVALIDPROCTABLE''), (Ifdef, ''WSAEINVALIDPROVIDER''),
     (Ifdef, ''WSAEPROVIDERFAILEDINIT''), (Ifdef, ''WSASYSCALLFAILURE''),
     (Ifdef, ''WSASERVICE_NOT_FOUND''), (Ifdef, ''WSATYPE_NOT_FOUND''), (Ifdef, ''WSA_E_NO_MORE''),
     (Ifdef, ''WSA_E_CANCELLED'')]"

definition errno_cases :: "(guard \<times> string) list" where
  "errno_cases = errno_cases_1 @ errno_cases_2 @ errno_cases_3 @ errno_cases_4"

definition errno_string :: "platform \<Rightarrow> int \<Rightarrow> string" where
  "errno_string p e = switch_string p errno_cases e"

section \<open>signo_string\<close>

definition signo_cases_1 :: "(guard \<times> string) list" where
  "signo_cases_1 =
    [(Ifdef, ''SIGHUP''), (Ifdef, ''SIGINT''), (Ifdef, ''SIGQUIT''), (Ifdef, ''SIGILL''),
     (Ifdef, ''SIGTRAP''), (Ifdef, ''SIGABRT''), (IfdefDiffers ''SIGABRT'' ''SIGIOT'', ''SIGIOT''),
     (Ifdef, ''SIGBUS''), (Ifdef, ''SIGFPE''), (Ifdef, ''SIGKILL''), (Ifdef, ''SIGUSR1''),
     (Ifdef, ''SIGSEGV''), (Ifdef, ''SIGUSR2''), (Ifdef, ''SIGPIPE''), (Ifdef, ''SIGALRM''),
     (Always, ''SIGTERM''), (Ifdef, ''SIGCHLD''), (Ifdef, ''SIGSTKFLT''), (Ifdef, ''SIGCONT''),
     (Ifdef, ''SIGSTOP''), (Ifdef, ''SIGTSTP''), (Ifdef, ''SIGTTIN''), (Ifdef, ''SIGTTOU''),
     (Ifdef, ''SIGURG''), (Ifdef, ''SIGXCPU''), (Ifdef, ''SIGXFSZ''), (Ifdef, ''SIGVTALRM''),
     (Ifdef, ''SIGPROF''), (Ifdef, ''SIGWINCH''), (Ifdef, ''SIGIO''),
     (IfdefDiffers ''SIGPOLL'' ''SIGIO'', ''SIGPOLL''), (Ifdef, ''SIGLOST''),
     (IfdefDiffers ''SIGPWR'' ''SIGLOST'', ''SIGPWR''), (Ifdef, ''SIGSYS'')]"

definition signo_cases :: "(guard \<times> string) list" where
  "signo_cases = signo_cases_1"

definition signo_string :: "platform \<Rightarrow> int \<Rightarrow> string" where
  "signo_string p s = switch_string p signo_cases s"

section \<open>DefineConstants\<close>

text \<open>Every entry sets the property of its name on the target, in order.\<close>

definition constant_entries_1 :: "(guard \<times> string) list" where
  "constant_entries_1 =
    [(Always, ''EV_MINPRI''), (Always, ''EV_MAXPRI''), (Always, ''O_RDONLY''),
     (Always, ''O_WRONLY''), (Always, ''O_RDWR''), (Always, ''S_IFMT''), (Always, ''S_IFREG''),
     (Always, ''S_IFDIR''), (Always, ''S_IFCHR''), (Always, ''S_IFBLK''), (Always, ''S_IFIFO''),
     (Ifdef, ''S_IFLNK''), (Ifdef, ''S_IFSOCK''), (Ifdef, ''O_CREAT''), (Ifdef, ''O_EXCL''),
     (Ifdef, ''O_NOCTTY''), (Ifdef, ''O_TRUNC''), (Ifdef, ''O_APPEND''), (Ifdef, ''O_DIRECTORY''),
     (Ifdef, ''O_EXCL''), (Ifdef, ''O_NOFOLLOW''), (Ifdef, ''O_SYNC''), (Ifdef, ''S_IRWXU''),
     (Ifdef, ''S_IRUSR''), (Ifdef, ''S_IWUSR''), (Ifdef, ''S_IXUSR''), (Ifdef, ''S_IRWXG''),
     (Ifdef, ''S_IRGRP''), (Ifdef, ''S_IWGRP''), (Ifdef, ''S_IXGRP''), (Ifdef, ''S_IRWXO''),
     (Ifdef, ''S_IROTH''), (Ifdef, ''S_IWOTH''), (Ifdef, ''S_IXOTH''), (Ifdef, ''E2BIG''),
     (Ifdef, ''EACCES''), (Ifdef, ''EADDRINUSE''), (Ifdef, ''EADDRNOTAVAIL''),
     (Ifdef, ''EAFNOSUPPORT''), (Ifdef, ''EAGAIN''), (Ifdef, ''EALREADY''), (Ifdef, ''EBADF''),
     (Ifdef, ''EBADMSG'')]"

definition constant_entries_2 :: "(guard \<times> string) list" where
  "constant_entries_2 =
    [(Ifdef, ''EBUSY''), (Ifdef, ''ECANCELED''), (Ifdef, ''ECHILD''), (Ifdef, ''ECONNABORTED''),
     (Ifdef, ''ECONNREFUSED''), (Ifdef, ''ECONNRESET''), (Ifdef, ''EDEADLK''),
     (Ifdef, ''EDESTADDRREQ''), (Ifdef, ''EDOM''), (Ifdef, ''EDQUOT''), (Ifdef, ''EEXIST''),
     (Ifdef, ''EFAULT''), (Ifdef, ''EFBIG''), (Ifdef, ''EHOSTUNREACH''), (Ifdef, ''EIDRM''),
     (Ifdef, ''EILSEQ''), (Ifdef, ''EINPROGRESS''), (Ifdef, ''EINTR''), (Ifdef, ''EINVAL''),
     (Ifdef, ''EIO''), (Ifdef, ''EISCONN''), (Ifdef, ''EISDIR''), (Ifdef, ''ELOOP''),
     (Ifdef, ''EMFILE''), (Ifdef, ''EMLINK''), (Ifdef, ''EMSGSIZE''), (Ifdef, ''EMULTIHOP''),
     (Ifdef, ''ENAMETOOLONG''), (Ifdef, ''ENETDOWN''), (Ifdef, ''ENETRESET''),
     (Ifdef, ''ENETUNREACH''), (Ifdef, ''ENFILE''), (Ifdef, ''ENOBUFS''), (Ifdef, ''ENODATA''),
     (Ifdef, ''ENODEV''), (Ifdef, ''ENOENT''), (Ifdef, ''ENOEXEC'')]"

definition constant_entries_3 :: "(guard \<times> string) list" where
  "constant_entries_3 =
    [(Ifdef, ''ENOLCK''), (Ifdef, ''ENOLINK''), (Ifdef, ''ENOMEM''), (Ifdef, ''ENOMSG''),
     (Ifdef, ''ENOPROTOOPT''), (Ifdef, ''ENOSPC''), (Ifdef, ''ENOSR''), (Ifdef, ''ENOSTR''),
     (Ifdef, ''ENOSYS''), (Ifdef, ''ENOTCONN''), (Ifdef, ''ENOTDIR''), (Ifdef, ''ENOTEMPTY''),
     (Ifdef, ''ENOTSOCK''), (Ifdef, ''ENOTSUP''), (Ifdef, ''ENOTTY''), (Ifdef, ''ENXIO''),
     (Ifdef, ''EOPNOTSUPP''), (Ifdef, ''EOVERFLOW''), (Ifdef, ''EPERM''), (Ifdef, ''EPIPE''),
     (Ifdef, ''EPROTO''), (Ifdef, ''EPROTONOSUPPORT''), (Ifdef, ''EPROTOTYPE''),
     (Ifdef, ''ERANGE''), (Ifdef, ''EROFS''), (Ifdef, ''ESPIPE''), (Ifdef, ''ESRCH''),
     (Ifdef, ''ESTALE''), (Ifdef, ''ETIME''), (Ifdef, ''ETIMEDOUT''), (Ifdef, ''ETXTBSY''),
     (Ifdef, ''EWOULDBLOCK''), (Ifdef, ''EXDEV''), (Ifdef, ''WSAEINTR''), (Ifdef, ''WSAEBADF''),
     (Ifdef, ''WSAEACCES''), (Ifdef, ''WSAEFAULT'')]"

definition constant_entries_4 :: "(guard \<times> string) list" where
  "constant_entries_4 =
    [(Ifdef, ''WSAEINVAL''), (Ifdef, ''WSAEMFILE''), (Ifdef, ''WSAEWOULDBLOCK''),
     (Ifdef, ''WSAEINPROGRESS''), (Ifdef, ''WSAEALREADY''), (Ifdef, ''WSAENOTSOCK''),
     (Ifdef, ''WSAEDESTADDRREQ''), (Ifdef, ''WSAEMSGSIZE''), (Ifdef, ''WSAEPROTOTYPE''),
     (Ifdef, ''WSAENOPROTOOPT''), (Ifdef, ''WSAEPROTONOSUPPORT''), (Ifdef, ''WSAESOCKTNOSUPPORT''),
     (Ifdef, ''WSAEOPNOTSUPP''), (Ifdef, ''WSAEPFNOSUPPORT''), (Ifdef, ''WSAEAFNOSUPPORT''),
     (Ifdef, ''WSAEADDRINUSE''), (Ifdef, ''WSAEADDRNOTAVAIL''), (Ifdef, ''WSAENETDOWN''),
     (Ifdef, ''WSAENETUNREACH''), (Ifdef, ''WSAENETRESET''), (Ifdef, ''WSAECONNABORTED''),
     (Ifdef, ''WSAECONNRESET''), (Ifdef, ''WSAENOBUFS''), (Ifdef, ''WSAEISCONN''),
     (Ifdef, ''WSAENOTCONN''), (Ifdef, ''WSAESHUTDOWN''), (Ifdef, ''WSAETOOMANYREFS''),
     (Ifdef, ''WSAETIMEDOUT''), (Ifdef, ''WSAECONNREFUSED''), (Ifdef, ''WSAELOOP''),
     (Ifdef, ''WSAENAMETOOLONG''), (Ifdef, ''WSAEHOSTDOWN''), (Ifdef, ''WSAEHOSTUNREACH''),
     (Ifdef, ''WSAENOTEMPTY''), (Ifdef, ''WSAEPROCLIM''), (Ifdef, ''WSAEUSERS''),
     (Ifdef, ''WSAEDQUOT'')]"

definition constant_entries_5 :: "(guard \<times> string) list" where
  "constant_entries_5 =
    [(Ifdef, ''WSAESTALE''), (Ifdef, ''WSAEREMOTE''), (Ifdef, ''WSASYSNOTREADY''),
     (Ifdef, ''WSAVERNOTSUPPORTED''), (Ifdef, ''WSANOTINITIALISED''), (Ifdef, ''WSAEDISCON''),
     (Ifdef, ''WSAENOMORE''), (Ifdef, ''WSAECANCELLED''), (Ifdef, ''WSAEINVALIDPROCTABLE''),
     (Ifdef, ''WSAEINVALIDPROVIDER''), (Ifdef, ''WSAEPROVIDERFAILEDINIT''),
     (Ifdef, ''WSASYSCALLFAILURE''), (Ifdef, ''WSASERVICE_NOT_FOUND''),
     (Ifdef, ''WSATYPE_NOT_FOUND''), (Ifdef, ''WSA_E_NO_MORE''), (Ifdef, ''WSA_E_CANCELLED''),
     (Ifdef, ''WSAEREFUSED''), (Ifdef, ''SIGHUP''), (Ifdef, ''SIGINT''), (Ifdef, ''SIGQUIT''),
     (Ifdef, ''SIGILL''), (Ifdef, ''SIGTRAP''), (Ifdef, ''SIGABRT''), (Ifdef, ''SIGIOT''),
     (Ifdef, ''SIGBUS''), (Ifdef, ''SIGFPE''), (Ifdef, ''SIGKILL''), (Ifdef, ''SIGUSR1''),
     (Ifdef, ''SIGSEGV''), (Ifdef, ''SIGUSR2''), (Ifdef, ''SIGPIPE''), (Ifdef, ''SIGALRM''),
     (Always, ''SIGTERM''), (Ifdef, ''SIGCHLD''), (Ifdef, ''SIGSTKFLT''), (Ifdef, ''SIGCONT''),
     (Ifdef, ''SIGSTOP'')]"

definition constant_entries_6 :: "(guard \<times> string) list" where
  "constant_entries_6 =
    [(Ifdef, ''SIGTSTP''), (Ifdef, ''SIGTTIN''), (Ifdef, ''SIGTTOU''), (Ifdef, ''SIGURG''),
     (Ifdef, ''SIGXCPU''), (Ifdef, ''SIGXFSZ''), (Ifdef, ''SIGVTALRM''), (Ifdef, ''SIGPROF''),
     (Ifdef, ''SIGWINCH''), (Ifdef, ''SIGIO''), (Ifdef, ''SIGPOLL''), (Ifdef, ''SIGLOST''),
     (Ifdef, ''SIGPWR''), (Ifdef, ''SIGSYS''), (Ifdef, ''SIGUNUSED'')]"

definition constant_entries :: "(guard \<times> string) list" where
  "constant_entries = constant_entries_1 @ constant_entries_2 @ constant_entries_3 @ constant_entries_4 @ constant_entries_5 @ constant_entries_6"

definition define_constants :: "platform \<Rightarrow> string \<Rightarrow> int option" where
  "define_constants p =
     foldl (\<lambda>target e. target(snd e := p (snd e))) (\<lambda>_. None) (filter (defined_on p) constant_entries)"

section \<open>ErrnoException\<close>

text \<open>\<open>strerror\<close> belongs to the C library; a null \<open>syscall\<close> or \<open>path\<close> is \<open>None\<close>.\<close>

record errno_error =
  ee_message :: string
  ee_errno :: int
  ee_code :: string
  ee_path :: "string option"
  ee_syscall :: "string option"

definition errno_exception ::
  "platform \<Rightarrow> (int \<Rightarrow> string) \<Rightarrow> int \<Rightarrow> string option \<Rightarrow> string \<Rightarrow> string option \<Rightarrow> errno_error" where
  "errno_exception p strerror errorno syscall msg path =
     (let estring = errno_string p errorno;
          message = (if msg = [] then strerror errorno else msg);
          cons2 = (estring @ '', '') @ message
      in \<lparr>ee_message = (case path of
             Some f \<Rightarrow> ((cons2 @ [CHR '' '', CHR 0x27]) @ f) @ [CHR 0x27]
           | None \<Rightarrow> cons2),
           ee_errno = errorno, ee_code = estring, ee_path = path, ee_syscall = syscall\<rparr>)"

section \<open>Names and values agree\<close>

lemma foldl_upd:
  "foldl (\<lambda>target e. target(snd e := p (snd e))) f es n = (if n \<in> snd ` set es then p n else f n)"
  by (induction es arbitrary: f) auto

lemma define_constants_iff:
  "define_constants p n = (if \<exists>g. (g, n) \<in> set constant_entries \<and> defined_on p (g, n) then p n else None)"
  unfolding define_constants_def foldl_upd by (force simp: image_iff)

lemma switch_string_Some:
  assumes "switch_string p cases v \<noteq> []"
  shows "\<exists>g. (g, switch_string p cases v) \<in> set cases \<and> p (switch_string p cases v) = Some v"
proof -
  obtain e where e: "find (\<lambda>e. defined_on p e \<and> p (snd e) = Some v) cases = Some e"
    using assms by (auto simp: switch_string_def split: option.splits)
  then have "e \<in> set cases" "p (snd e) = Some v" by (auto simp: find_Some_iff)
  then show ?thesis using e by (intro exI [of _ "fst e"]) (simp add: switch_string_def)
qed

lemma errno_names_1:
  "snd ` set errno_cases_1 \<subseteq> snd ` set constant_entries_1 \<union> snd ` set constant_entries_2 \<union> snd ` set constant_entries_3"
  by (simp add: errno_cases_1_def constant_entries_1_def constant_entries_2_def constant_entries_3_def)
lemma errno_names_2:
  "snd ` set errno_cases_2 \<subseteq> snd ` set constant_entries_2 \<union> snd ` set constant_entries_3"
  by (simp add: errno_cases_2_def constant_entries_2_def constant_entries_3_def)
lemma errno_names_3:
  "snd ` set errno_cases_3 \<subseteq> snd ` set constant_entries_3 \<union> snd ` set constant_entries_4"
  by (simp add: errno_cases_3_def constant_entries_3_def constant_entries_4_def)
lemma errno_names_4:
  "snd ` set errno_cases_4 \<subseteq> snd ` set constant_entries_4 \<union> snd ` set constant_entries_5"
  by (simp add: errno_cases_4_def constant_entries_4_def constant_entries_5_def)
lemma signo_names_1:
  "snd ` set signo_cases_1 \<subseteq> snd ` set constant_entries_5 \<union> snd ` set constant_entries_6"
  by (simp add: signo_cases_1_def constant_entries_5_def constant_entries_6_def)

lemma names_in_constants:
  "snd ` set errno_cases \<subseteq> snd ` set constant_entries" "snd ` set signo_cases \<subseteq> snd ` set constant_entries"
proof -
  have errno: "\<lbrakk>A1 \<subseteq> C1 \<union> C2 \<union> C3; A2 \<subseteq> C2 \<union> C3; A3 \<subseteq> C3 \<union> C4; A4 \<subseteq> C4 \<union> C5\<rbrakk> \<Longrightarrow>
    A1 \<union> (A2 \<union> (A3 \<union> A4)) \<subseteq> C1 \<union> (C2 \<union> (C3 \<union> (C4 \<union> (C5 \<union> C6))))" for A1 A2 A3 A4 C1 C2 C3 C4 C5 C6 :: "string set"
    by blast
  have signo: "A \<subseteq> C5 \<union> C6 \<Longrightarrow> A \<subseteq> C1 \<union> (C2 \<union> (C3 \<union> (C4 \<union> (C5 \<union> C6))))" for A C1 C2 C3 C4 C5 C6 :: "string set"
    by blast
  show "snd ` set errno_cases \<subseteq> snd ` set constant_entries"
    unfolding errno_cases_def constant_entries_def set_append image_Un
    by (rule errno [OF errno_names_1 errno_names_2 errno_names_3 errno_names_4])
  show "snd ` set signo_cases \<subseteq> snd ` set constant_entries"
    unfolding signo_cases_def constant_entries_def set_append image_Un
    by (rule signo [OF signo_names_1])
qed

lemma constant_guards: "e \<in> set constant_entries \<Longrightarrow> fst e = Always \<or> fst e = Ifdef"
proof -
  have "list_all (\<lambda>e. fst e = Always \<or> fst e = Ifdef) constant_entries"
    by (simp add: constant_entries_def constant_entries_1_def constant_entries_2_def constant_entries_3_def
      constant_entries_4_def constant_entries_5_def constant_entries_6_def)
  then show "e \<in> set constant_entries \<Longrightarrow> fst e = Always \<or> fst e = Ifdef" by (simp add: list_all_iff)
qed

lemma define_constants_name:
  assumes "n \<in> snd ` set constant_entries" shows "define_constants p n = p n"
proof -
  obtain g where g: "(g, n) \<in> set constant_entries" using assms by force
  then have "defined_on p (g, n) \<longleftrightarrow> p n \<noteq> None" using constant_guards [OF g] by auto
  then show ?thesis using g by (cases "p n") (auto simp: define_constants_iff)
qed

text \<open>
  The names in errors can be looked up. Whatever the platform, when
  \<open>errno_string\<close> or \<open>signo_string\<close> gives a name for a number, the table of constants maps the
  name back to the number; so \<open>constants[err.code]\<close> is \<open>err.errno\<close> in every exception that
  has a code.
\<close>

theorem error_names_roundtrip:
  "(errno_string p e \<noteq> [] \<longrightarrow> define_constants p (errno_string p e) = Some e) \<and>
   (signo_string p s \<noteq> [] \<longrightarrow> define_constants p (signo_string p s) = Some s) \<and>
   (let x = errno_exception p strerror e syscall msg path
    in ee_errno x = e \<and> (ee_code x \<noteq> [] \<longrightarrow> define_constants p (ee_code x) = Some (ee_errno x)))"
proof -
  have "define_constants p (switch_string p cs v) = Some v"
    if ne: "switch_string p cs v \<noteq> []" and sub: "snd ` set cs \<subseteq> snd ` set constant_entries" for cs v
  proof -
    obtain g where "(g, switch_string p cs v) \<in> set cs" "p (switch_string p cs v) = Some v"
      using switch_string_Some [OF ne] by blast
    moreover from this have "switch_string p cs v \<in> snd ` set constant_entries" using sub by force
    ultimately show ?thesis by (simp add: define_constants_name)
  qed
  then show ?thesis using names_in_constants
    by (simp add: errno_string_def signo_string_def errno_exception_def Let_def)
qed

theorem error_names_roundtrip_witness:
  "define_constants [''ENOENT'' \<mapsto> 2] (errno_string [''ENOENT'' \<mapsto> 2] 2) = Some 2"
proof -
  let ?p = "[''ENOENT'' \<mapsto> 2] :: platform"
  have "(Ifdef, ''ENOENT'') \<in> set errno_cases"
    by (simp add: errno_cases_def errno_cases_2_def)
  then have "find (\<lambda>e. defined_on ?p e \<and> ?p (snd e) = Some 2) errno_cases \<noteq> None"
    unfolding find_None_iff by (auto intro!: exI [of _ Ifdef])
  then obtain x where x: "find (\<lambda>e. defined_on ?p e \<and> ?p (snd e) = Some 2) errno_cases = Some x" by blast
  then have "?p (snd x) = Some 2" unfolding find_Some_iff by blast
  then have "snd x \<noteq> []" by (auto split: if_splits)
  then have "errno_string ?p 2 \<noteq> []" using x by (simp add: errno_string_def switch_string_def)
  then show ?thesis using error_names_roundtrip [of "[''ENOENT'' \<mapsto> 2]" 2] by blast
qed

lemma no_E2BIG: "''E2BIG'' \<notin> snd ` set errno_cases"
  by (simp add: errno_cases_def errno_cases_1_def errno_cases_2_def errno_cases_3_def errno_cases_4_def)

text \<open>
  On a platform where the \<open>switch\<close> compiles, every number with an active case
  gets the name of that case; the code is empty exactly for the numbers without one, and
  \<open>E2BIG\<close> is one of them on every platform that gives its number to no other macro.
\<close>

theorem errno_string_complete:
  assumes "switch_ok p errno_cases"
  shows "(\<forall>g n e. (g, n) \<in> set errno_cases \<longrightarrow> defined_on p (g, n) \<longrightarrow> p n = Some e \<longrightarrow> errno_string p e = n) \<and>
    ((\<forall>n. p n = Some k \<longrightarrow> n = ''E2BIG'') \<longrightarrow> errno_string p k = [])"
proof (intro conjI allI impI)
  fix g n e
  assume n: "(g, n) \<in> set errno_cases" "defined_on p (g, n)" "p n = Some e"
  have inj: "inj_on (\<lambda>e. p (snd e)) (set (filter (defined_on p) errno_cases))"
    using assms by (simp add: switch_ok_def distinct_map)
  have "find (\<lambda>x. defined_on p x \<and> p (snd x) = Some e) errno_cases \<noteq> None"
    unfolding find_None_iff using n by force
  then obtain x where x: "find (\<lambda>x. defined_on p x \<and> p (snd x) = Some e) errno_cases = Some x" by blast
  then have "x \<in> set errno_cases" "defined_on p x" "p (snd x) = Some e" by (auto simp: find_Some_iff)
  then have "x = (g, n)" using inj_onD [OF inj, of x "(g, n)"] n by simp
  then show "errno_string p e = n" using x by (simp add: errno_string_def switch_string_def)
next
  assume only: "\<forall>n. p n = Some k \<longrightarrow> n = ''E2BIG''"
  show "errno_string p k = []"
  proof (rule ccontr)
    assume "errno_string p k \<noteq> []"
    then obtain g where "(g, errno_string p k) \<in> set errno_cases" "p (errno_string p k) = Some k"
      unfolding errno_string_def using switch_string_Some by blast
    then have "''E2BIG'' \<in> snd ` set errno_cases" using only by force
    then show False using no_E2BIG by blast
  qed
qed

theorem errno_string_complete_witness:
  "errno_string [''E2BIG'' \<mapsto> 7] 7 = []"
proof -
  have "(''E2BIG'' \<in> snd ` set errno_cases) = False" using no_E2BIG by simp
  then have "filter (defined_on [''E2BIG'' \<mapsto> 7]) errno_cases = []"
    by (auto simp: filter_empty_conv image_iff elim!: defined_on.elims)
  then have "switch_ok [''E2BIG'' \<mapsto> 7] errno_cases" by (simp add: switch_ok_def)
  then show ?thesis using errno_string_complete [of "[''E2BIG'' \<mapsto> 7]" 7] by simp
qed

end
