(* ===== verification/Watchers.thy ===== *)
theory Watchers
  imports Utf8
begin

text \<open>
  The objects that tie JavaScript to the event loop: the reference counting of
  \<open>src/node_object_wrap.h\<close> and the watcher classes built on it, \<open>IOWatcher\<close>, \<open>IdleWatcher\<close>,
  \<open>SignalWatcher\<close> and \<open>StatWatcher\<close> (\<open>Timer\<close> has a theory of its own).

  A watcher is active while it is registered with libev; an active watcher keeps its object
  alive (\<open>Ref\<close>) and keeps the loop running (\<open>activecnt\<close>). Of \<open>deps/libev/ev.c\<close> the common
  part of every start and stop function is modelled: the active and pending flags and the
  count; what each kind of watcher registers with the kernel is not.
\<close>

section \<open>ObjectWrap\<close>

text \<open>\<open>weak\<close>: the collector may take the object; \<open>unwrapped\<close>: \<open>handle_\<close> is empty.\<close>

record wrap =
  refs :: int
  weak :: bool
  unwrapped :: bool

definition wrap_init :: "'a wrap_scheme \<Rightarrow> 'a wrap_scheme" where
  "wrap_init w = w\<lparr>refs := 0, weak := False, unwrapped := True\<rparr>"

definition wrap_wrap :: "'a wrap_scheme \<Rightarrow> 'a wrap_scheme outcome" where
  "wrap_wrap w = oassert (unwrapped w) (Return (w\<lparr>unwrapped := False, weak := True\<rparr>))"

definition wrap_ref :: "'a wrap_scheme \<Rightarrow> 'a wrap_scheme outcome" where
  "wrap_ref w = oassert (\<not> unwrapped w) (Return (w\<lparr>refs := refs w + 1, weak := False\<rparr>))"

definition wrap_unref :: "'a wrap_scheme \<Rightarrow> 'a wrap_scheme outcome" where
  "wrap_unref w =
     oassert (\<not> unwrapped w) (oassert (\<not> weak w) (oassert (0 < refs w)
       (let r = refs w - 1 in Return (w\<lparr>refs := r, weak := (if r = 0 then True else weak w)\<rparr>))))"

text \<open>
  The collector calls \<open>WeakCallback\<close> on a weak handle that is near death: the object is
  deleted and its handle cleared.
\<close>

definition weak_callback :: "'a wrap_scheme \<Rightarrow> 'a wrap_scheme outcome" where
  "weak_callback w = oassert (refs w = 0) (Return (w\<lparr>weak := False, unwrapped := True\<rparr>))"

definition wrap_ok :: "'a wrap_scheme \<Rightarrow> bool" where
  "wrap_ok w \<longleftrightarrow> \<not> unwrapped w \<and> 0 \<le> refs w \<and> (weak w \<longleftrightarrow> refs w = 0)"

lemma wrap_ref_ok:
  "wrap_ok w \<Longrightarrow> wrap_ref w = Return (w\<lparr>refs := refs w + 1, weak := False\<rparr>)"
  "wrap_ok w \<Longrightarrow> wrap_ok (w\<lparr>refs := refs w + 1, weak := False\<rparr>)"
  by (simp_all add: wrap_ref_def oassert_def wrap_ok_def)

lemma wrap_unref_ok:
  "wrap_ok w \<Longrightarrow> 0 < refs w \<Longrightarrow>
     wrap_unref w = Return (w\<lparr>refs := refs w - 1, weak := (refs w = 1)\<rparr>)"
  "wrap_ok w \<Longrightarrow> 0 < refs w \<Longrightarrow> wrap_ok (w\<lparr>refs := refs w - 1, weak := (refs w = 1)\<rparr>)"
  by (auto simp: wrap_unref_def oassert_def wrap_ok_def Let_def)

lemma wrap_unref_abort: "wrap_ok w \<Longrightarrow> refs w = 0 \<Longrightarrow> wrap_unref w = Abort"
  by (simp add: wrap_unref_def oassert_def wrap_ok_def)

section \<open>Starting and stopping in libev\<close>

text \<open>
  A watcher with the count of the loop: \<open>ev_start\<close> and \<open>ev_stop\<close>, and the frame every
  \<open>ev_TYPE_start\<close> and \<open>ev_TYPE_stop\<close> puts around them.
\<close>

record watcher = wrap +
  active :: bool
  pending :: bool

definition ev_init :: "'a watcher_scheme \<Rightarrow> 'a watcher_scheme" where
  "ev_init w = w\<lparr>active := False, pending := False\<rparr>"

definition ev_type_start :: "'a watcher_scheme \<times> int \<Rightarrow> 'a watcher_scheme \<times> int" where
  "ev_type_start s = (case s of (w, cnt) \<Rightarrow>
     if active w then (w, cnt) else (w\<lparr>active := True\<rparr>, cnt + 1))"

definition ev_type_stop :: "'a watcher_scheme \<times> int \<Rightarrow> 'a watcher_scheme \<times> int" where
  "ev_type_stop s = (case s of (w, cnt) \<Rightarrow>
     let w1 = w\<lparr>pending := False\<rparr>
     in if \<not> active w1 then (w1, cnt) else (w1\<lparr>active := False\<rparr>, cnt - 1))"

definition ev_ref :: "'w \<times> int \<Rightarrow> 'w \<times> int" where
  "ev_ref s = (fst s, snd s + 1)"

definition ev_unref :: "'w \<times> int \<Rightarrow> 'w \<times> int" where
  "ev_unref s = (fst s, snd s - 1)"

definition on_object :: "('w \<Rightarrow> 'w outcome) \<Rightarrow> 'w \<times> int \<Rightarrow> ('w \<times> int) outcome" where
  "on_object f s = obind (f (fst s)) (\<lambda>w. Return (w, snd s))"

section \<open>IOWatcher\<close>

record io_watcher = watcher +
  io_fd :: int
  io_events :: int

definition EV_READ :: int where "EV_READ = 1"
definition EV_WRITE :: int where "EV_WRITE = 2"

definition io_start :: "'a io_watcher_scheme \<times> int \<Rightarrow> ('a io_watcher_scheme \<times> int) outcome" where
  "io_start s =
     (if \<not> active (fst s) then on_object wrap_ref (ev_type_start s) else Return s)"

definition io_stop :: "'a io_watcher_scheme \<times> int \<Rightarrow> ('a io_watcher_scheme \<times> int) outcome" where
  "io_stop s =
     (if active (fst s) then on_object wrap_unref (ev_type_stop s) else Return s)"

definition io_set ::
  "conv \<Rightarrow> js_value list \<Rightarrow> 'a io_watcher_scheme \<Rightarrow> 'a io_watcher_scheme outcome" where
  "io_set h args w =
     (if \<not> is_int32 (arg args 0)
      then Throw (JsTypeError ''First arg should be a file descriptor.'')
      else if \<not> is_boolean (arg args 1)
      then Throw (JsTypeError ''Second arg should boolean (readable).'')
      else let ev1 = (if arg args 1 = JBool True then EV_READ else 0)
      in if \<not> is_boolean (arg args 2)
      then Throw (JsTypeError ''Third arg should boolean (writable).'')
      else let ev2 = (if arg args 2 = JBool True then ev1 + EV_WRITE else ev1)
      in oassert (\<not> active w)
           (Return (w\<lparr>io_fd := int32_value h (arg args 0), io_events := ev2\<rparr>)))"

text \<open>
  The callback from the loop: the JavaScript call it makes, with its two arguments, or none
  when the \<open>callback\<close> property is not a function; then the watcher stops itself.
\<close>

definition io_callback ::
  "js_value \<Rightarrow> bool \<Rightarrow> bool \<Rightarrow> 'a io_watcher_scheme \<times> int
     \<Rightarrow> ('a io_watcher_scheme \<times> int \<times> (bool \<times> bool) option) outcome" where
  "io_callback callback readable writable s =
     (if \<not> is_function callback
      then obind (io_stop s) (\<lambda>s'. Return (fst s', snd s', None))
      else Return (fst s, snd s, Some (readable, writable)))"

text \<open>The destructor, run when the collector takes the object.\<close>

definition io_destroy :: "'a io_watcher_scheme \<times> int \<Rightarrow> ('a io_watcher_scheme \<times> int) outcome" where
  "io_destroy s =
     (let s' = ev_type_stop s
      in oassert (\<not> active (fst s')) (oassert (\<not> pending (fst s')) (Return s')))"

section \<open>IdleWatcher\<close>

record idle_watcher = watcher +
  priority :: int

definition idle_start :: "'a idle_watcher_scheme \<times> int \<Rightarrow> ('a idle_watcher_scheme \<times> int) outcome" where
  "idle_start s =
     (if \<not> active (fst s) then on_object wrap_ref (ev_type_start s) else Return s)"

definition idle_stop :: "'a idle_watcher_scheme \<times> int \<Rightarrow> ('a idle_watcher_scheme \<times> int) outcome" where
  "idle_stop s =
     (if active (fst s) then on_object wrap_unref (ev_type_stop s) else Return s)"

definition idle_set_priority ::
  "conv \<Rightarrow> js_value list \<Rightarrow> 'a idle_watcher_scheme \<Rightarrow> 'a idle_watcher_scheme" where
  "idle_set_priority h args w = w\<lparr>priority := int32_value h (arg args 0)\<rparr>"

definition idle_callback ::
  "js_value \<Rightarrow> 'a idle_watcher_scheme \<times> int \<Rightarrow> ('a idle_watcher_scheme \<times> int \<times> bool) outcome" where
  "idle_callback callback s =
     (if \<not> is_function callback
      then obind (idle_stop s) (\<lambda>s'. Return (fst s', snd s', False))
      else Return (fst s, snd s, True))"

section \<open>SignalWatcher\<close>

text \<open>A signal watcher does not keep the loop running: its count is given back at once.\<close>

record signal_watcher = watcher +
  signum :: int

definition signal_new :: "conv \<Rightarrow> js_value list \<Rightarrow> 'a signal_watcher_scheme \<Rightarrow> 'a signal_watcher_scheme outcome" where
  "signal_new h args w =
     (if length args \<noteq> 1 \<or> \<not> is_int32 (arg args 0) then Throw (JsString ''Bad arguments'')
      else wrap_wrap (ev_init (wrap_init (w\<lparr>signum := int32_value h (arg args 0)\<rparr>))))"

definition signal_start :: "'a signal_watcher_scheme \<times> int \<Rightarrow> ('a signal_watcher_scheme \<times> int) outcome" where
  "signal_start s =
     (if \<not> active (fst s) then on_object wrap_ref (ev_unref (ev_type_start s)) else Return s)"

definition signal_stop :: "'a signal_watcher_scheme \<times> int \<Rightarrow> ('a signal_watcher_scheme \<times> int) outcome" where
  "signal_stop s =
     (if active (fst s) then on_object wrap_unref (ev_type_stop (ev_ref s)) else Return s)"

definition signal_callback ::
  "js_value \<Rightarrow> 'a signal_watcher_scheme \<times> int \<Rightarrow> ('a signal_watcher_scheme \<times> int \<times> bool) outcome" where
  "signal_callback callback s =
     (if \<not> is_function callback
      then obind (signal_stop s) (\<lambda>s'. Return (fst s', snd s', False))
      else Return (fst s, snd s, True))"

section \<open>StatWatcher\<close>

text \<open>The interval is in milliseconds.\<close>

record stat_watcher = watcher +
  stat_path :: "u8 list option"
  persistent :: bool
  interval :: int

definition stat_init :: "'a stat_watcher_scheme \<Rightarrow> 'a stat_watcher_scheme" where
  "stat_init w = ev_init (wrap_init (w\<lparr>stat_path := None, persistent := False\<rparr>))"

definition stat_stop :: "'a stat_watcher_scheme \<times> int \<Rightarrow> ('a stat_watcher_scheme \<times> int) outcome" where
  "stat_stop s =
     (if active (fst s)
      then let s1 = (if \<not> persistent (fst s) then ev_ref s else s);
               s2 = ev_type_stop s1
           in on_object (\<lambda>w. wrap_unref (w\<lparr>stat_path := None\<rparr>)) s2
      else Return s)"

definition stat_start ::
  "conv \<Rightarrow> js_value list \<Rightarrow> 'a stat_watcher_scheme \<times> int \<Rightarrow> ('a stat_watcher_scheme \<times> int) outcome" where
  "stat_start h args s =
     (if length args < 1 \<or> \<not> is_string (arg args 0) then Throw (JsTypeError ''Bad arguments'')
      else oassert (stat_path (fst s) = None)
       (let path = until_nul (utf8_value (to_string h (arg args 0)));
            ms = (if is_int32 (arg args 2) then integer_value h (arg args 2) else 0);
            s1 = ev_type_start ((fst s)\<lparr>stat_path := Some path, interval := ms\<rparr>, snd s);
            keep = (arg args 1 = JBool True);
            s2 = ((fst s1)\<lparr>persistent := keep\<rparr>, snd s1);
            s3 = (if \<not> keep then ev_unref s2 else s2)
        in on_object wrap_ref s3))"

definition stat_destroy :: "'a stat_watcher_scheme \<times> int \<Rightarrow> ('a stat_watcher_scheme \<times> int) outcome" where
  "stat_destroy s = obind (stat_stop s) (\<lambda>s'. oassert (stat_path (fst s') = None) (Return s'))"

section \<open>What starting and stopping promise\<close>

text \<open>
  The contract of a watcher class towards JavaScript: \<open>start\<close> and \<open>stop\<close> change nothing on a
  watcher that is already there, and otherwise move the reference count by one and the count
  of the loop by the weight of the class. \<open>good\<close> is what holds of a wrapped object.
\<close>

text \<open>A run of calls from JavaScript: \<open>True\<close> is \<open>start()\<close>, \<open>False\<close> is \<open>stop()\<close>.\<close>

fun run_calls :: "('s \<Rightarrow> 's outcome) \<Rightarrow> ('s \<Rightarrow> 's outcome) \<Rightarrow> bool list \<Rightarrow> 's \<Rightarrow> 's outcome" where
  "run_calls start stop [] s = Return s"
| "run_calls start stop (b # bs) s = obind ((if b then start else stop) s) (run_calls start stop bs)"

locale counted_watcher =
  fixes start stop :: "'w \<times> int \<Rightarrow> ('w \<times> int) outcome"
    and is_active :: "'w \<Rightarrow> bool"
    and count :: "'w \<Rightarrow> int"
    and good :: "'w \<Rightarrow> bool"
    and weight :: int
  assumes start_again: "good w \<Longrightarrow> is_active w \<Longrightarrow> start (w, c) = Return (w, c)"
    and stop_again: "good w \<Longrightarrow> \<not> is_active w \<Longrightarrow> stop (w, c) = Return (w, c)"
    and start_law: "good w \<Longrightarrow> \<not> is_active w \<Longrightarrow>
      \<exists>w'. start (w, c) = Return (w', c + weight) \<and> good w' \<and> is_active w' \<and> count w' = count w + 1"
    and stop_law: "good w \<Longrightarrow> is_active w \<Longrightarrow> 0 < count w \<Longrightarrow>
      \<exists>w'. stop (w, c) = Return (w', c - weight) \<and> good w' \<and> \<not> is_active w' \<and> count w' = count w - 1"
begin

text \<open>The object is referenced exactly while it is active.\<close>

definition balanced :: "'w \<Rightarrow> bool" where
  "balanced w \<longleftrightarrow> good w \<and> count w = of_bool (is_active w)"

lemma call_balanced:
  assumes "balanced w"
  shows "\<exists>w' c'. (if b then start else stop) (w, c) = Return (w', c') \<and> balanced w' \<and>
    is_active w' = b \<and> c' - weight * of_bool (is_active w') = c - weight * of_bool (is_active w)"
proof (cases "is_active w")
  case True
  then show ?thesis
    using assms start_again [of w c] stop_law [of w c]
    by (cases b) (fastforce simp: balanced_def)+
next
  case False
  then show ?thesis
    using assms stop_again [of w c] start_law [of w c]
    by (cases b) (fastforce simp: balanced_def)+
qed

lemma calls_balanced:
  "balanced w \<Longrightarrow> \<exists>w' c'. run_calls start stop bs (w, c) = Return (w', c') \<and> balanced w' \<and>
    is_active w' = (if bs = [] then is_active w else last bs) \<and>
    c' - weight * of_bool (is_active w') = c - weight * of_bool (is_active w)"
proof (induction bs arbitrary: w c)
  case (Cons b bs)
  obtain w1 c1 where 1: "(if b then start else stop) (w, c) = Return (w1, c1)" "balanced w1"
    "is_active w1 = b" "c1 - weight * of_bool (is_active w1) = c - weight * of_bool (is_active w)"
    using call_balanced [OF Cons.prems] by blast
  show ?case using Cons.IH [OF 1(2), of c1] 1 by (cases "bs = []") auto
qed simp

end

lemma on_object_ref:
  "wrap_ok w \<Longrightarrow> on_object wrap_ref (w, c) = Return (w\<lparr>refs := refs w + 1, weak := False\<rparr>, c)"
  by (simp add: on_object_def wrap_ref_ok)

lemma on_object_unref:
  "wrap_ok w \<Longrightarrow> 0 < refs w \<Longrightarrow>
     on_object wrap_unref (w, c) = Return (w\<lparr>refs := refs w - 1, weak := (refs w = 1)\<rparr>, c)"
  by (simp add: on_object_def wrap_unref_ok)

lemma wrap_ok_active [simp]:
  "wrap_ok (w\<lparr>active := a\<rparr>) = wrap_ok w" "wrap_ok (w\<lparr>pending := p\<rparr>) = wrap_ok w"
  by (simp_all add: wrap_ok_def)

lemmas watcher_defs = ev_type_start_def ev_type_stop_def ev_ref_def ev_unref_def Let_def
  on_object_ref on_object_unref wrap_ok_def

interpretation io: counted_watcher io_start io_stop active refs wrap_ok 1
  by unfold_locales (auto simp: io_start_def io_stop_def watcher_defs)

interpretation idle: counted_watcher idle_start idle_stop active refs wrap_ok 1
  by unfold_locales (auto simp: idle_start_def idle_stop_def watcher_defs)

interpretation signal: counted_watcher signal_start signal_stop active refs wrap_ok 0
  by unfold_locales (auto simp: signal_start_def signal_stop_def watcher_defs)

section \<open>Properties\<close>

definition watcher_balanced :: "'a watcher_scheme \<Rightarrow> bool" where
  "watcher_balanced w \<longleftrightarrow> wrap_ok w \<and> refs w = of_bool (active w)"

definition keeps_balance ::
  "('a watcher_scheme \<times> int \<Rightarrow> ('a watcher_scheme \<times> int) outcome) \<Rightarrow>
   ('a watcher_scheme \<times> int \<Rightarrow> ('a watcher_scheme \<times> int) outcome) \<Rightarrow> int \<Rightarrow> bool list \<Rightarrow>
   'a watcher_scheme \<Rightarrow> int \<Rightarrow> bool" where
  "keeps_balance start stop weight bs w c \<longleftrightarrow>
     (\<exists>w' c'. run_calls start stop bs (w, c) = Return (w', c') \<and> watcher_balanced w' \<and>
        active w' = (if bs = [] then active w else last bs) \<and>
        c' - weight * of_bool (active w') = c - weight * of_bool (active w))"

text \<open>
  No sequence of \<open>start\<close> and \<open>stop\<close> calls on an IO, idle or signal watcher
  aborts; after it the object is referenced exactly when the watcher is active, which the last
  call decides, and the loop is kept running by active IO and idle watchers, once each, and by
  no signal watcher.
\<close>

theorem watcher_calls_balanced:
  assumes "watcher_balanced wi" "watcher_balanced wd" "watcher_balanced ws"
  shows "keeps_balance io_start io_stop 1 bs wi c \<and> keeps_balance idle_start idle_stop 1 bs wd c \<and>
    keeps_balance signal_start signal_stop 0 bs ws c"
  using assms io.calls_balanced [of wi bs c] idle.calls_balanced [of wd bs c]
    signal.calls_balanced [of ws bs c]
  by (simp add: io.balanced_def idle.balanced_def signal.balanced_def watcher_balanced_def
      keeps_balance_def)

definition ex_io :: io_watcher where
  "ex_io = \<lparr>refs = 0, weak = True, unwrapped = False, active = False, pending = False,
     io_fd = 3, io_events = 1\<rparr>"

definition ex_idle :: idle_watcher where
  "ex_idle = \<lparr>refs = 0, weak = True, unwrapped = False, active = False, pending = False, priority = 0\<rparr>"

definition ex_signal :: signal_watcher where
  "ex_signal = \<lparr>refs = 1, weak = False, unwrapped = False, active = True, pending = False, signum = 2\<rparr>"

definition ex_stat :: stat_watcher where
  "ex_stat = \<lparr>refs = 0, weak = True, unwrapped = False, active = False, pending = False,
     stat_path = None, persistent = False, interval = 0\<rparr>"

theorem watcher_calls_balanced_witness:
  "keeps_balance io_start io_stop 1 [True, True, False, True] ex_io 0 \<and>
   keeps_balance idle_start idle_stop 1 [True, True, False, True] ex_idle 0 \<and>
   keeps_balance signal_start signal_stop 0 [True, True, False, True] ex_signal 0"
  by (rule watcher_calls_balanced)
    (simp_all add: watcher_balanced_def ex_io_def ex_idle_def ex_signal_def wrap_ok_def)

text \<open>
  An IO watcher whose \<open>callback\<close> is not a function stops itself when an event
  arrives: it ends inactive, unreferenced and collectable, the loop no longer waits for it and
  JavaScript is not called; with a function the watcher stays as it is and JavaScript gets
  the two readiness flags.
\<close>

theorem io_callback_correct:
  assumes "wrap_ok w" "active w" "refs w = 1"
  shows "(\<not> is_function cb \<longrightarrow>
      (\<exists>w'. io_callback cb r wr (w, c) = Return (w', c - 1, None) \<and>
         \<not> active w' \<and> \<not> pending w' \<and> refs w' = 0 \<and> weak w' \<and> wrap_ok w' \<and>
         (\<exists>w''. weak_callback w' = Return w''))) \<and>
    (is_function cb \<longrightarrow> io_callback cb r wr (w, c) = Return (w, c, Some (r, wr)))"
  using assms by (auto simp: io_callback_def io_stop_def watcher_defs weak_callback_def oassert_def)

theorem io_callback_correct_witness:
  "\<exists>w'. io_callback JNull True False (ex_io\<lparr>active := True, refs := 1, weak := False\<rparr>, 5) = Return (w', 4, None)"
  using io_callback_correct [of "ex_io\<lparr>active := True, refs := 1, weak := False\<rparr>" JNull True False 5]
  by (auto simp: ex_io_def wrap_ok_def)

text \<open>
  A stat watcher. Starting an inactive one takes a reference, remembers the path
  and keeps the loop running only when it is persistent; stopping undoes all of it. Starting
  it a second time before it is stopped aborts the process.
\<close>

theorem stat_start_stop:
  assumes "wrap_ok w" "\<not> active w" "refs w = 0" "stat_path w = None"
    and "is_string (arg args 0)" "args \<noteq> []"
  shows "\<exists>w1 c1 w2. stat_start h args (w, c) = Return (w1, c1) \<and>
    active w1 \<and> refs w1 = 1 \<and> wrap_ok w1 \<and>
    stat_path w1 = Some (until_nul (utf8_value (to_string h (arg args 0)))) \<and>
    c1 = (if arg args 1 = JBool True then c + 1 else c) \<and>
    stat_start h args (w1, c1) = Abort \<and>
    stat_stop (w1, c1) = Return (w2, c) \<and>
    \<not> active w2 \<and> refs w2 = 0 \<and> weak w2 \<and> stat_path w2 = None"
  using assms
  by (cases args) (auto simp: stat_start_def stat_stop_def watcher_defs oassert_def on_object_def
      wrap_ref_def wrap_unref_def)

theorem stat_start_stop_witness:
  "\<exists>w1 c1. stat_start \<lparr>other_to_number = \<lambda>_. NaN, other_to_string = \<lambda>_. []\<rparr>
      [JString [0x66], JBool False] (ex_stat, 2) = Return (w1, c1) \<and> c1 = 2 \<and> refs w1 = 1"
  using stat_start_stop [of ex_stat "[JString [0x66], JBool False]" _ 2]
  by (fastforce simp: ex_stat_def wrap_ok_def)

end
