(* ===== verification/EvHeap.thy ===== *)
theory EvHeap
  imports Prelude "HOL-Library.Multiset"
begin

text \<open>
  The heap of timers in \<open>deps/libev/ev.c\<close>: a heap of branching factor four in an array, in which
  every entry caches the time of its watcher and every watcher keeps the index of its entry.
  Index \<open>k\<close> here is index \<open>HEAP0 + k\<close> of the array, whose first \<open>HEAP0\<close> cells are not used, and
  the list holds exactly the cells in use, so its length is \<open>timercnt\<close>.
\<close>

section \<open>The array and its operations\<close>

record anhe =
  e_at :: int
  e_timer :: nat

record ev_heap =
  cells :: "anhe list"
  index_of :: "nat \<Rightarrow> nat" \<comment> \<open>\<open>ev_active\<close> of a watcher\<close>

definition DHEAP :: nat where "DHEAP = 4"

definition hparent :: "nat \<Rightarrow> nat" where
  "hparent k = (k - 1) div DHEAP"

text \<open>\<open>heap [k] = he; ev_active (ANHE_w (he)) = k\<close>.\<close>

definition put_cell :: "nat \<Rightarrow> anhe \<Rightarrow> ev_heap \<Rightarrow> ev_heap" where
  "put_cell k he H = H\<lparr>cells := (cells H)[k := he], index_of := (index_of H)(e_timer he := k)\<rparr>"

text \<open>The least child among those from \<open>pos\<close>, by the fast path when all four are there.\<close>

definition min_child :: "anhe list \<Rightarrow> nat \<Rightarrow> nat" where
  "min_child h pos =
     (let less = (\<lambda>j minpos. e_at (h ! (pos + j)) < e_at (h ! minpos)); E = length h
      in if pos + DHEAP - 1 < E
         then let m0 = pos; m1 = (if less 1 m0 then pos + 1 else m0);
                  m2 = (if less 2 m1 then pos + 2 else m1)
              in if less 3 m2 then pos + 3 else m2
         else let m0 = pos; m1 = (if pos + 1 < E \<and> less 1 m0 then pos + 1 else m0);
                  m2 = (if pos + 2 < E \<and> less 2 m1 then pos + 2 else m1)
              in if pos + 3 < E \<and> less 3 m2 then pos + 3 else m2)"

lemma min_child_ge: "pos \<le> min_child h pos"
  by (auto simp: min_child_def Let_def)

text \<open>The loop of \<open>downheap\<close>, with the entry \<open>he\<close> still to be stored and the free cell \<open>k\<close>.\<close>

function downheap_loop :: "anhe \<Rightarrow> nat \<Rightarrow> ev_heap \<Rightarrow> ev_heap" where
  "downheap_loop he k H =
     (let h = cells H; pos = DHEAP * k + 1
      in if pos < length h
         then let m = min_child h pos
              in if e_at he \<le> e_at (h ! m) then put_cell k he H
                 else downheap_loop he m (put_cell k (h ! m) H)
         else put_cell k he H)"
  by auto
termination
proof (relation "measure (\<lambda>(he, k, H). length (cells H) - k)")
  fix he :: anhe and k h and H :: ev_heap and pos m :: nat
  assume h: "h = cells H" "pos = DHEAP * k + 1" "pos < length h" "m = min_child h pos"
  have "k < m" using min_child_ge [of pos h] h(2,4) by (simp add: DHEAP_def)
  then show "((he, m, put_cell k (h ! m) H), (he, k, H)) \<in> measure (\<lambda>(he, k, H). length (cells H) - k)"
    using h by (auto simp: put_cell_def DHEAP_def)
qed simp

definition downheap :: "nat \<Rightarrow> ev_heap \<Rightarrow> ev_heap" where
  "downheap k H = downheap_loop (cells H ! k) k H"

text \<open>\<open>UPHEAP_DONE\<close> holds at the root, which is its own parent.\<close>

function upheap_loop :: "anhe \<Rightarrow> nat \<Rightarrow> ev_heap \<Rightarrow> ev_heap" where
  "upheap_loop he k H =
     (let p = hparent k
      in if p = k \<or> e_at (cells H ! p) \<le> e_at he then put_cell k he H
         else upheap_loop he p (put_cell k (cells H ! p) H))"
  by auto
termination
  by (relation "measure (\<lambda>(he, k, H). k)") (auto simp: hparent_def DHEAP_def)

definition upheap :: "nat \<Rightarrow> ev_heap \<Rightarrow> ev_heap" where
  "upheap k H = upheap_loop (cells H ! k) k H"

definition adjustheap :: "nat \<Rightarrow> ev_heap \<Rightarrow> ev_heap" where
  "adjustheap k H =
     (if 0 < k \<and> e_at (cells H ! k) \<le> e_at (cells H ! hparent k) then upheap k H else downheap k H)"

text \<open>What starting, stopping and retiming a timer do to the heap.\<close>

definition heap_insert :: "anhe \<Rightarrow> ev_heap \<Rightarrow> ev_heap" where
  "heap_insert he H =
     (let k = length (cells H)
      in upheap k (H\<lparr>cells := cells H @ [he], index_of := (index_of H)(e_timer he := k)\<rparr>))"

definition heap_remove :: "nat \<Rightarrow> ev_heap \<Rightarrow> ev_heap" where
  "heap_remove k H =
     (let n = length (cells H) - 1
      in if k < n then adjustheap k (H\<lparr>cells := (take n (cells H))[k := cells H ! n]\<rparr>)
         else H\<lparr>cells := take n (cells H)\<rparr>)"

definition at_cache :: "nat \<Rightarrow> int \<Rightarrow> ev_heap \<Rightarrow> ev_heap" where
  "at_cache k a H = H\<lparr>cells := (cells H)[k := (cells H ! k)\<lparr>e_at := a\<rparr>]\<rparr>"

text \<open>\<open>verify_heap\<close>, without what it says of the watchers.\<close>

definition verify_heap :: "ev_heap \<Rightarrow> bool" where
  "verify_heap H \<longleftrightarrow> (\<forall>i<length (cells H). index_of H (e_timer (cells H ! i)) = i \<and>
     (i = 0 \<or> e_at (cells H ! hparent i) \<le> e_at (cells H ! i)))"

section \<open>Sifting with a hole\<close>

text \<open>
  While an entry \<open>he\<close> is being moved its cell \<open>k\<close> is free; the list with \<open>he\<close> put there is
  what the heap will hold.
\<close>

definition hole_ok :: "anhe \<Rightarrow> nat \<Rightarrow> ev_heap \<Rightarrow> bool" where
  "hole_ok he k H \<longleftrightarrow> k < length (cells H) \<and>
     (\<forall>j<length (cells H). j \<noteq> k \<longrightarrow> index_of H (e_timer (cells H ! j)) = j \<and> e_timer (cells H ! j) \<noteq> e_timer he)"

definition index_ok :: "ev_heap \<Rightarrow> bool" where
  "index_ok H \<longleftrightarrow> (\<forall>j<length (cells H). index_of H (e_timer (cells H ! j)) = j)"

definition ordered_at :: "anhe list \<Rightarrow> nat \<Rightarrow> bool" where
  "ordered_at v x \<longleftrightarrow> e_at (v ! hparent x) \<le> e_at (v ! x)"

definition heap_ordered :: "anhe list \<Rightarrow> bool" where
  "heap_ordered v \<longleftrightarrow> (\<forall>x. 0 < x \<and> x < length v \<longrightarrow> ordered_at v x)"

text \<open>The children of \<open>k\<close> are not before its parent.\<close>

definition bridged :: "anhe list \<Rightarrow> nat \<Rightarrow> bool" where
  "bridged v k \<longleftrightarrow> (\<forall>x. 0 < x \<and> x < length v \<and> hparent x = k \<and> 0 < k \<longrightarrow> e_at (v ! hparent k) \<le> e_at (v ! x))"

definition ordered_but_below :: "anhe list \<Rightarrow> nat \<Rightarrow> bool" where
  "ordered_but_below v k \<longleftrightarrow> (\<forall>x. 0 < x \<and> x < length v \<and> hparent x \<noteq> k \<longrightarrow> ordered_at v x) \<and> bridged v k"

definition ordered_but_at :: "anhe list \<Rightarrow> nat \<Rightarrow> bool" where
  "ordered_but_at v k \<longleftrightarrow> (\<forall>x. 0 < x \<and> x < length v \<and> x \<noteq> k \<longrightarrow> ordered_at v x) \<and> bridged v k"

lemma verify_heap_iff: "verify_heap H \<longleftrightarrow> index_ok H \<and> heap_ordered (cells H)"
  by (auto simp: verify_heap_def index_ok_def heap_ordered_def ordered_at_def)

lemma hparent_less: "0 < x \<Longrightarrow> hparent x < x"
  by (auto simp: hparent_def DHEAP_def)

lemma hparent_child: "0 < x \<Longrightarrow> hparent x = k \<longleftrightarrow> DHEAP * k + 1 \<le> x \<and> x \<le> DHEAP * k + 4"
  by (auto simp: hparent_def DHEAP_def)

lemma min_child_less:
  assumes "pos < length h"
  shows "min_child h pos < length h" "min_child h pos \<le> pos + 3"
  using assms by (auto simp: min_child_def Let_def DHEAP_def)

lemma min_child_least:
  assumes "pos \<le> x" "x \<le> pos + 3" "x < length h"
  shows "e_at (h ! min_child h pos) \<le> e_at (h ! x)"
proof -
  consider "x = pos" | "x = pos + 1" | "x = pos + 2" | "x = pos + 3" using assms by linarith
  then show ?thesis
    using assms(3) by cases (auto simp: min_child_def Let_def DHEAP_def not_less)
qed

lemma put_cell_simps [simp]:
  "cells (put_cell k he H) = (cells H)[k := he]"
  "index_of (put_cell k he H) = (index_of H)(e_timer he := k)"
  by (simp_all add: put_cell_def)

lemma hole_move:
  assumes "hole_ok he k H" "m < length (cells H)" "m \<noteq> k"
  shows "hole_ok he m (put_cell k (cells H ! m) H)"
  using assms by (auto simp: hole_ok_def nth_list_update) metis

lemma hole_fill: "hole_ok he k H \<Longrightarrow> index_ok (put_cell k he H)"
  by (auto simp: hole_ok_def index_ok_def nth_list_update)

lemma hole_swap:
  assumes "k < length h" "m < length h" "m \<noteq> k"
  shows "mset (h[k := h ! m, m := he]) = mset (h[k := he])"
  using assms mset_swap [of m "h[k := he]" k] by (simp add: list_update_swap)

lemma heap_ordered_down:
  assumes "ordered_but_below v k"
    and "\<And>x. 0 < x \<Longrightarrow> x < length v \<Longrightarrow> hparent x = k \<Longrightarrow> e_at (v ! k) \<le> e_at (v ! x)"
  shows "heap_ordered v"
  using assms by (auto simp: ordered_but_below_def heap_ordered_def ordered_at_def)

lemma heap_ordered_up:
  assumes "ordered_but_at v k" "k = 0 \<or> ordered_at v k"
  shows "heap_ordered v"
  using assms by (auto simp: ordered_but_at_def heap_ordered_def)

lemma ordered_down_move:
  assumes v: "ordered_but_below (h[k := he]) k" and m: "m < length h" "0 < m" "hparent m = k"
    and least: "\<And>x. 0 < x \<Longrightarrow> x < length h \<Longrightarrow> hparent x = k \<Longrightarrow> e_at (h ! m) \<le> e_at (h ! x)"
    and lt: "e_at (h ! m) < e_at he"
  shows "ordered_but_below (h[k := h ! m, m := he]) m"
proof -
  let ?v = "h[k := h ! m, m := he]"
  have km: "k < m" using hparent_less [OF m(2)] m(3) by simp
  have up: "0 < x \<Longrightarrow> hparent x < x" for x by (rule hparent_less)
  have old: "e_at ((h[k := he]) ! hparent x) \<le> e_at ((h[k := he]) ! x)"
    if "0 < x" "x < length h" "hparent x \<noteq> k" for x
    using v that by (auto simp: ordered_but_below_def ordered_at_def)
  have bridge: "e_at (h ! hparent k) \<le> e_at (h ! x)" if x: "0 < x" "x < length h" "hparent x = k" "0 < k" for x
  proof -
    have "e_at ((h[k := he]) ! hparent k) \<le> e_at ((h[k := he]) ! x)"
      using v x by (simp add: ordered_but_below_def bridged_def)
    moreover have "k < x" "hparent k < k" using up [OF x(1)] up [OF x(4)] x(3) by simp_all
    ultimately show ?thesis by simp
  qed
  have "ordered_at ?v x" if x: "0 < x" "x < length h" "hparent x \<noteq> m" for x
  proof -
    consider (k) "x = k" | (m) "x = m" | (child) "x \<noteq> k" "x \<noteq> m" "hparent x = k" | (other) "x \<noteq> k" "x \<noteq> m" "hparent x \<noteq> k"
      by blast
    then show ?thesis
    proof cases
      case k
      then show ?thesis using bridge [of m] m km x up [of k] by (simp add: ordered_at_def)
    next
      case child
      then show ?thesis using least [of x] x m km by (simp add: ordered_at_def)
    next
      case other
      then show ?thesis using old [of x] x by (simp add: ordered_at_def)
    qed (use m km lt in \<open>simp add: ordered_at_def\<close>)
  qed
  moreover have "bridged ?v m"
    unfolding bridged_def
  proof (intro allI impI)
    fix x assume x: "0 < x \<and> x < length ?v \<and> hparent x = m \<and> 0 < m"
    then have "m < x" using up [of x] by auto
    then show "e_at (?v ! hparent m) \<le> e_at (?v ! x)" using old [of x] x m km by simp
  qed
  ultimately show ?thesis by (simp add: ordered_but_below_def)
qed

lemma ordered_up_move:
  assumes v: "ordered_but_at (h[k := he]) k" and k: "k < length h" "0 < k" and p: "p = hparent k"
    and lt: "e_at he < e_at (h ! p)"
  shows "ordered_but_at (h[k := h ! p, p := he]) p"
proof -
  let ?v = "h[k := h ! p, p := he]"
  have pk: "p < k" using hparent_less [OF k(2)] p by simp
  have up: "0 < x \<Longrightarrow> hparent x < x" for x by (rule hparent_less)
  have old: "e_at ((h[k := he]) ! hparent x) \<le> e_at (h ! x)" if "0 < x" "x < length h" "x \<noteq> k" for x
    using v that by (auto simp: ordered_but_at_def ordered_at_def)
  have bridge: "e_at (h ! p) \<le> e_at (h ! x)" if x: "0 < x" "x < length h" "hparent x = k" for x
  proof -
    have "e_at ((h[k := he]) ! p) \<le> e_at ((h[k := he]) ! x)"
      using v x k(2) p by (simp add: ordered_but_at_def bridged_def)
    moreover have "k < x" using up [OF x(1)] x(3) by simp
    ultimately show ?thesis using pk by simp
  qed
  have "ordered_at ?v x" if x: "0 < x" "x < length h" "x \<noteq> p" for x
  proof -
    consider (k) "x = k" | (child) "x \<noteq> k" "hparent x = k" | (sibling) "x \<noteq> k" "hparent x = p"
      | (other) "x \<noteq> k" "hparent x \<noteq> k" "hparent x \<noteq> p" by blast
    then show ?thesis
    proof cases
      case child
      then show ?thesis using bridge [of x] x pk k(1) by (simp add: ordered_at_def)
    next
      case sibling
      then show ?thesis using old [of x] x pk lt k by (simp add: ordered_at_def)
    next
      case other
      then show ?thesis using old [of x] x by (simp add: ordered_at_def)
    qed (use x p pk lt k in \<open>simp add: ordered_at_def\<close>)
  qed
  moreover have "bridged ?v p"
    unfolding bridged_def
  proof (intro allI impI)
    fix x assume x: "0 < x \<and> x < length ?v \<and> hparent x = p \<and> 0 < p"
    have hp: "e_at (h ! hparent p) \<le> e_at (h ! p)" using old [of p] x up [of p] pk k by simp
    show "e_at (?v ! hparent p) \<le> e_at (?v ! x)"
    proof (cases "x = k")
      case True
      then show ?thesis using hp up [of p] x pk k by simp
    next
      case False
      then have "e_at (h ! p) \<le> e_at (h ! x)" using old [of x] x pk by simp
      then show ?thesis using hp up [of p] up [of x] x pk False by simp
    qed
  qed
  ultimately show ?thesis by (simp add: ordered_but_at_def)
qed

declare downheap_loop.simps [simp del] upheap_loop.simps [simp del]

lemma downheap_loop_stop:
  "\<not> (DHEAP * k + 1 < length (cells H) \<and> \<not> e_at he \<le> e_at (cells H ! min_child (cells H) (DHEAP * k + 1))) \<Longrightarrow>
    downheap_loop he k H = put_cell k he H"
  by (subst downheap_loop.simps) (auto simp: Let_def)

lemma downheap_loop_move:
  assumes "DHEAP * k + 1 < length (cells H) \<and> \<not> e_at he \<le> e_at (cells H ! m)" "m = min_child (cells H) (DHEAP * k + 1)"
  shows "downheap_loop he k H = downheap_loop he m (put_cell k (cells H ! m) H)" "m < length (cells H)" "m \<noteq> k"
  using assms min_child_less(1) [of "DHEAP * k + 1" "cells H"] min_child_ge [of "DHEAP * k + 1" "cells H"]
  by (simp_all add: downheap_loop.simps [of he k H] Let_def DHEAP_def)

lemma downheap_loop_mset:
  "k < length (cells H) \<Longrightarrow> mset (cells (downheap_loop he k H)) = mset ((cells H)[k := he])"
proof (induction he k H rule: downheap_loop.induct)
  case (1 he k H)
  let ?m = "min_child (cells H) (DHEAP * k + 1)"
  show ?case
  proof (cases "DHEAP * k + 1 < length (cells H) \<and> \<not> e_at he \<le> e_at (cells H ! ?m)")
    case True
    note m = downheap_loop_move [OF True refl]
    then show ?thesis using 1(1) [OF refl refl _ refl] True hole_swap [OF 1(2) m(2,3)] by simp
  qed (simp add: downheap_loop_stop)
qed

lemma downheap_loop_index: "hole_ok he k H \<Longrightarrow> index_ok (downheap_loop he k H)"
proof (induction he k H rule: downheap_loop.induct)
  case (1 he k H)
  let ?m = "min_child (cells H) (DHEAP * k + 1)"
  show ?case
  proof (cases "DHEAP * k + 1 < length (cells H) \<and> \<not> e_at he \<le> e_at (cells H ! ?m)")
    case True
    note m = downheap_loop_move [OF True refl]
    then show ?thesis using 1(1) [OF refl refl _ refl] True hole_move [OF 1(2) m(2,3)] by simp
  qed (simp add: downheap_loop_stop hole_fill [OF 1(2)])
qed

lemma downheap_loop_ordered:
  "k < length (cells H) \<Longrightarrow> ordered_but_below ((cells H)[k := he]) k \<Longrightarrow> heap_ordered (cells (downheap_loop he k H))"
proof (induction he k H rule: downheap_loop.induct)
  case (1 he k H)
  let ?h = "cells H" and ?pos = "DHEAP * k + 1" and ?m = "min_child (cells H) (DHEAP * k + 1)"
  have child: "?pos \<le> x \<and> x \<le> ?pos + 3" if "0 < x" "hparent x = k" for x
    using that hparent_child by simp
  have least: "e_at (?h ! ?m) \<le> e_at (?h ! x)" if "0 < x" "x < length ?h" "hparent x = k" for x
    using min_child_least [of ?pos x ?h] child that by blast
  show ?case
  proof (cases "?pos < length ?h \<and> \<not> e_at he \<le> e_at (?h ! ?m)")
    case True
    then have b: "?m < length ?h" "?m \<le> ?pos + 3" "?pos \<le> ?m" "0 < ?m"
      using min_child_less [of ?pos ?h] min_child_ge [of ?pos ?h] by (blast, blast, blast, linarith)
    then have m: "?m < length ?h" "0 < ?m" "hparent ?m = k"
      using hparent_child [OF b(4), of k] by (blast, blast, linarith)
    have "downheap_loop he k H = downheap_loop he ?m (put_cell k (?h ! ?m) H)"
      by (rule downheap_loop_move(1) [OF True refl])
    moreover have "heap_ordered (cells (downheap_loop he ?m (put_cell k (?h ! ?m) H)))"
    proof (rule 1(1) [OF refl refl _ refl])
      show "ordered_but_below ((cells (put_cell k (?h ! ?m) H))[?m := he]) ?m"
        using ordered_down_move [OF 1(3) m least] True by (simp only: put_cell_simps not_le)
    qed (use True m in \<open>simp_all only: put_cell_simps length_list_update simp_thms\<close>)
    ultimately show ?thesis by (simp only:)
  next
    case False
    have "e_at ((?h[k := he]) ! k) \<le> e_at ((?h[k := he]) ! x)" if x: "0 < x" "x < length (?h[k := he])" "hparent x = k" for x
    proof -
      have "?pos < length ?h" using child [OF x(1,3)] x(2) by simp
      then show ?thesis using False least [of x] x 1(2) hparent_less [of x] by auto
    qed
    then have "heap_ordered (?h[k := he])" by (rule heap_ordered_down [OF 1(3)])
    then show ?thesis by (simp add: downheap_loop_stop [OF False])
  qed
qed

lemma upheap_loop_move:
  assumes "\<not> (hparent k = k \<or> e_at (cells H ! hparent k) \<le> e_at he)" "k < length (cells H)"
  shows "upheap_loop he k H = upheap_loop he (hparent k) (put_cell k (cells H ! hparent k) H)"
    "hparent k < length (cells H)" "hparent k \<noteq> k"
proof -
  have "hparent k \<le> k" by (simp add: hparent_def DHEAP_def)
  then show "upheap_loop he k H = upheap_loop he (hparent k) (put_cell k (cells H ! hparent k) H)"
    "hparent k < length (cells H)" "hparent k \<noteq> k"
    using assms by (simp_all add: upheap_loop.simps [of he k H] Let_def)
qed

lemma upheap_loop_stop:
  "hparent k = k \<or> e_at (cells H ! hparent k) \<le> e_at he \<Longrightarrow> upheap_loop he k H = put_cell k he H"
  by (subst upheap_loop.simps) (auto simp: Let_def)

lemma upheap_loop_mset:
  "k < length (cells H) \<Longrightarrow> mset (cells (upheap_loop he k H)) = mset ((cells H)[k := he])"
proof (induction he k H rule: upheap_loop.induct)
  case (1 he k H)
  show ?case
  proof (cases "hparent k = k \<or> e_at (cells H ! hparent k) \<le> e_at he")
    case False
    note m = upheap_loop_move [OF False 1(2)]
    then show ?thesis using 1(1) [OF refl] False hole_swap [OF 1(2) m(2,3)] by simp
  qed (simp add: upheap_loop_stop)
qed

lemma upheap_loop_index: "hole_ok he k H \<Longrightarrow> index_ok (upheap_loop he k H)"
proof (induction he k H rule: upheap_loop.induct)
  case (1 he k H)
  show ?case
  proof (cases "hparent k = k \<or> e_at (cells H ! hparent k) \<le> e_at he")
    case False
    have "k < length (cells H)" using 1(2) by (simp add: hole_ok_def)
    note m = upheap_loop_move [OF False this]
    then show ?thesis using 1(1) [OF refl] False hole_move [OF 1(2) m(2,3)] by simp
  qed (simp add: upheap_loop_stop hole_fill [OF 1(2)])
qed

text \<open>The watcher of the entry that was moved holds its index, whatever else the array holds.\<close>

lemma upheap_loop_at:
  "k < length (cells H) \<Longrightarrow> (let R = upheap_loop he k H; j = index_of R (e_timer he)
     in j < length (cells R) \<and> cells R ! j = he)"
proof (induction he k H rule: upheap_loop.induct)
  case (1 he k H)
  show ?case
  proof (cases "hparent k = k \<or> e_at (cells H ! hparent k) \<le> e_at he")
    case False
    note m = upheap_loop_move [OF False 1(2)]
    then show ?thesis using 1(1) [OF refl] False by simp
  qed (use 1(2) in \<open>simp add: upheap_loop_stop\<close>)
qed

lemma upheap_loop_ordered:
  "k < length (cells H) \<Longrightarrow> ordered_but_at ((cells H)[k := he]) k \<Longrightarrow> heap_ordered (cells (upheap_loop he k H))"
proof (induction he k H rule: upheap_loop.induct)
  case (1 he k H)
  let ?h = "cells H" and ?p = "hparent k"
  show ?case
  proof (cases "?p = k \<or> e_at (?h ! ?p) \<le> e_at he")
    case True
    have "k = 0 \<or> ordered_at (?h[k := he]) k"
    proof (cases "k = 0")
      case False
      then have "?p < k" by (simp add: hparent_less)
      then show ?thesis using True 1(2) by (simp add: ordered_at_def)
    qed simp
    then have "heap_ordered (?h[k := he])" by (rule heap_ordered_up [OF 1(3)])
    then show ?thesis by (simp add: upheap_loop_stop [OF True])
  next
    case False
    then have k: "0 < k" by (cases k) (auto simp: hparent_def)
    note m = upheap_loop_move [OF False 1(2)]
    then show ?thesis
      using 1(1) [of ?p] False ordered_up_move [OF 1(3) 1(2) k refl] m by simp
  qed
qed

section \<open>What the operations keep and do\<close>

lemma heap_insert_mset: "mset (cells (heap_insert he H)) = add_mset he (mset (cells H))"
  using upheap_loop_mset [of "length (cells H)" "H\<lparr>cells := cells H @ [he],
      index_of := (index_of H)(e_timer he := length (cells H))\<rparr>" he]
  by (simp add: heap_insert_def upheap_def Let_def)

lemma heap_insert_at:
  "index_of (heap_insert he H) (e_timer he) < length (cells (heap_insert he H))"
  "cells (heap_insert he H) ! index_of (heap_insert he H) (e_timer he) = he"
  using upheap_loop_at [of "length (cells H)" "H\<lparr>cells := cells H @ [he],
      index_of := (index_of H)(e_timer he := length (cells H))\<rparr>" he]
  by (simp_all add: heap_insert_def upheap_def Let_def)

lemma adjustheap_mset: "k < length (cells H) \<Longrightarrow> mset (cells (adjustheap k H)) = mset (cells H)"
  by (simp add: adjustheap_def upheap_def downheap_def upheap_loop_mset downheap_loop_mset)

lemma heap_remove_mset:
  assumes "k < length (cells H)"
  shows "add_mset (cells H ! k) (mset (cells (heap_remove k H))) = mset (cells H)"
proof -
  let ?h = "cells H"
  obtain n where n: "length ?h = Suc n" using assms by (cases "length ?h") auto
  have h: "?h = take n ?h @ [?h ! n]"
    using assms append_butlast_last_id [of ?h] by (cases "?h = []") (auto simp: butlast_conv_take last_conv_nth n)
  show ?thesis
  proof (cases "k < n")
    case True
    have "mset (?h[k := ?h ! n, n := ?h ! k]) = mset ?h" using True n by (intro mset_swap) auto
    moreover have "(take n ?h @ [?h ! n])[k := ?h ! n, n := ?h ! k] = (take n ?h)[k := ?h ! n] @ [?h ! k]"
      using True n by (simp add: list_update_append)
    then have "?h[k := ?h ! n, n := ?h ! k] = (take n ?h)[k := ?h ! n] @ [?h ! k]" using h by simp
    ultimately show ?thesis using True n by (simp add: heap_remove_def Let_def adjustheap_mset)
  next
    case False
    then have "k = n" using assms n by simp
    then have "heap_remove k H = H\<lparr>cells := take n ?h\<rparr>" using n by (simp add: heap_remove_def Let_def)
    moreover have "mset (take n ?h @ [?h ! n]) = mset ?h" using h by simp
    ultimately show ?thesis using \<open>k = n\<close> by simp
  qed
qed

lemma adjustheap_ok:
  assumes "hole_ok he k H" "cells H = v[k := he]" "heap_ordered v"
  shows "verify_heap (adjustheap k H)"
proof -
  have k: "k < length v" "k < length (cells H)" using assms(1,2) by (simp_all add: hole_ok_def)
  have he: "cells H ! k = he" and up: "(cells H)[k := he] = cells H" using assms(2) k by simp_all
  have br: "bridged (cells H) k"
    unfolding bridged_def
  proof (intro allI impI)
    fix x assume x: "0 < x \<and> x < length (cells H) \<and> hparent x = k \<and> 0 < k"
    then have "e_at (v ! k) \<le> e_at (v ! x)" "e_at (v ! hparent k) \<le> e_at (v ! k)" "k < x" "hparent k < k"
      using assms(2,3) k hparent_less [of x] hparent_less [of k] by (auto simp: heap_ordered_def ordered_at_def)
    then show "e_at (cells H ! hparent k) \<le> e_at (cells H ! x)" using assms(2) by simp
  qed
  have old: "ordered_at (cells H) x" if "0 < x" "x < length (cells H)" "x \<noteq> k" "hparent x \<noteq> k" for x
    using that assms(2,3) by (auto simp: heap_ordered_def ordered_at_def)
  show ?thesis
  proof (cases "0 < k \<and> e_at he \<le> e_at (cells H ! hparent k)")
    case True
    have "ordered_at (cells H) x" if "0 < x" "x < length (cells H)" "x \<noteq> k" for x
    proof (cases "hparent x = k")
      case child: True
      then have "e_at (cells H ! hparent k) \<le> e_at (cells H ! x)" using br that True by (auto simp: bridged_def)
      then show ?thesis using True child he by (simp add: ordered_at_def)
    qed (use old that in blast)
    then have "ordered_but_at (cells H) k" using br by (simp add: ordered_but_at_def)
    then show ?thesis
      using True he upheap_loop_index [OF assms(1)] upheap_loop_ordered [OF k(2), of he]
      by (simp add: adjustheap_def upheap_def verify_heap_iff up)
  next
    case False
    have "ordered_at (cells H) x" if "0 < x" "x < length (cells H)" "hparent x \<noteq> k" for x
      using old [OF that(1,2)] that False he by (cases "x = k") (auto simp: ordered_at_def)
    then have "ordered_but_below (cells H) k" using br by (simp add: ordered_but_below_def)
    then show ?thesis
      using False he downheap_loop_index [OF assms(1)] downheap_loop_ordered [OF k(2), of he]
      by (auto simp: adjustheap_def downheap_def verify_heap_iff up)
  qed
qed

lemma verify_heap_distinct:
  assumes "verify_heap H"
  shows "distinct (map e_timer (cells H))"
  unfolding distinct_conv_nth
proof (intro allI impI)
  fix i j assume ij: "i < length (map e_timer (cells H))" "j < length (map e_timer (cells H))" "i \<noteq> j"
  then have "index_of H (e_timer (cells H ! i)) = i" "index_of H (e_timer (cells H ! j)) = j"
    using assms by (simp_all add: verify_heap_def)
  then show "map e_timer (cells H) ! i \<noteq> map e_timer (cells H) ! j" using ij by auto
qed

lemma heap_insert_ok:
  assumes "verify_heap H" "e_timer he \<notin> e_timer ` set (cells H)"
  shows "verify_heap (heap_insert he H)"
proof -
  let ?k = "length (cells H)"
  let ?H = "H\<lparr>cells := cells H @ [he], index_of := (index_of H)(e_timer he := ?k)\<rparr>"
  have "e_timer (cells H ! j) \<noteq> e_timer he" if "j < ?k" for j
    using assms(2) nth_mem [OF that] by (metis image_eqI)
  then have hole: "hole_ok he ?k ?H"
    using assms(1) by (auto simp: hole_ok_def verify_heap_def nth_append less_Suc_eq)
  have "ordered_at (cells H @ [he]) x" if x: "0 < x" "x < ?k" for x
    using assms(1) x hparent_less [OF x(1)] by (auto simp: verify_heap_def ordered_at_def nth_append)
  moreover have "bridged (cells H @ [he]) ?k"
    unfolding bridged_def
  proof (intro allI impI)
    fix x assume "0 < x \<and> x < length (cells H @ [he]) \<and> hparent x = ?k \<and> 0 < ?k"
    then have "x \<le> ?k" "?k < x" using hparent_less [of x] by auto
    then show "e_at ((cells H @ [he]) ! hparent ?k) \<le> e_at ((cells H @ [he]) ! x)" by simp
  qed
  ultimately have "ordered_but_at (cells H @ [he]) ?k" by (auto simp: ordered_but_at_def less_Suc_eq)
  then show "verify_heap (heap_insert he H)"
    using upheap_loop_index [OF hole] upheap_loop_ordered [of ?k ?H he]
    by (simp add: heap_insert_def upheap_def verify_heap_iff Let_def)
qed

lemma heap_ordered_take: "heap_ordered v \<Longrightarrow> heap_ordered (take n v)"
  unfolding heap_ordered_def ordered_at_def
proof (intro allI impI)
  fix x assume v: "\<forall>x. 0 < x \<and> x < length v \<longrightarrow> e_at (v ! hparent x) \<le> e_at (v ! x)"
    and x: "0 < x \<and> x < length (take n v)"
  then show "e_at (take n v ! hparent x) \<le> e_at (take n v ! x)" using hparent_less [of x] by simp
qed

lemma heap_remove_ok:
  assumes "verify_heap H" "k < length (cells H)"
  shows "verify_heap (heap_remove k H)"
proof -
  let ?h = "cells H"
  obtain n where n: "length ?h = Suc n" using assms(2) by (cases "length ?h") auto
  have o: "heap_ordered (take n ?h)" using assms(1) by (simp add: verify_heap_iff heap_ordered_take)
  have ix: "index_of H (e_timer (?h ! j)) = j" if "j < length ?h" for j using assms(1) that by (simp add: verify_heap_def)
  show ?thesis
  proof (cases "k < n")
    case True
    have "e_timer (?h ! j) \<noteq> e_timer (?h ! n)" if "j < n" for j
      using ix [of j] ix [of n] that n by (metis less_Suc_eq nat_neq_iff)
    then have "hole_ok (?h ! n) k (H\<lparr>cells := (take n ?h)[k := ?h ! n]\<rparr>)"
      using True ix n by (auto simp: hole_ok_def nth_list_update)
    from adjustheap_ok [OF this _ o] show ?thesis using True n by (simp add: heap_remove_def Let_def)
  next
    case False
    then show ?thesis using assms n o
      by (auto simp: heap_remove_def Let_def verify_heap_iff index_ok_def)
  qed
qed

lemma at_cache_hole:
  assumes "verify_heap H" "k < length (cells H)"
  shows "hole_ok ((cells H ! k)\<lparr>e_at := a\<rparr>) k (at_cache k a H)"
    "cells (at_cache k a H) = (cells H)[k := (cells H ! k)\<lparr>e_at := a\<rparr>]" "heap_ordered (cells H)"
proof -
  have "e_timer (cells H ! j) \<noteq> e_timer (cells H ! k)" if "j < length (cells H)" "j \<noteq> k" for j
    using assms that unfolding verify_heap_def by metis
  then show "hole_ok ((cells H ! k)\<lparr>e_at := a\<rparr>) k (at_cache k a H)"
    using assms by (auto simp: hole_ok_def at_cache_def verify_heap_def)
qed (use assms in \<open>simp_all add: at_cache_def verify_heap_iff\<close>)

lemma mset_update_add: "k < length h \<Longrightarrow> add_mset (h ! k) (mset (h[k := e])) = add_mset e (mset h)"
  using set_mset_mset [of h] nth_mem [of k h] by (simp add: mset_update)

lemma retime_ok:
  assumes "verify_heap H" "k < length (cells H)"
  shows "verify_heap (adjustheap k (at_cache k a H))"
    "add_mset (cells H ! k) (mset (cells (adjustheap k (at_cache k a H)))) =
       add_mset ((cells H ! k)\<lparr>e_at := a\<rparr>) (mset (cells H))"
  using adjustheap_ok [OF at_cache_hole [OF assms]] mset_update_add [OF assms(2)] at_cache_hole(2) [OF assms]
    adjustheap_mset [of k "at_cache k a H"] assms(2)
  by simp_all

text \<open>A new time for the entry at the top, as \<open>timers_reify\<close> gives it.\<close>

lemma retime_top_ok:
  assumes "verify_heap H" "cells H \<noteq> []"
  shows "verify_heap (downheap 0 (at_cache 0 a H))"
    "add_mset (hd (cells H)) (mset (cells (downheap 0 (at_cache 0 a H)))) =
       add_mset ((hd (cells H))\<lparr>e_at := a\<rparr>) (mset (cells H))"
proof -
  have 0: "0 < length (cells H)" using assms(2) by simp
  then have "adjustheap 0 (at_cache 0 a H) = downheap 0 (at_cache 0 a H)" by (simp add: adjustheap_def)
  then show "verify_heap (downheap 0 (at_cache 0 a H))"
    "add_mset (hd (cells H)) (mset (cells (downheap 0 (at_cache 0 a H)))) =
       add_mset ((hd (cells H))\<lparr>e_at := a\<rparr>) (mset (cells H))"
    using retime_ok [OF assms(1) 0, of a] assms(2) by (simp_all add: hd_conv_nth)
qed

lemma heap_top_least:
  assumes "heap_ordered v" "x < length v"
  shows "e_at (v ! 0) \<le> e_at (v ! x)"
  using assms(2)
proof (induction x rule: less_induct)
  case (less x)
  show ?case
  proof (cases "x = 0")
    case False
    then have p: "hparent x < x" by (simp add: hparent_less)
    then have "e_at (v ! 0) \<le> e_at (v ! hparent x)" using less by simp
    also have "\<dots> \<le> e_at (v ! x)" using assms(1) less.prems False by (auto simp: heap_ordered_def ordered_at_def)
    finally show ?thesis .
  qed simp
qed

section \<open>The heap as a bag of entries\<close>

text \<open>
  What the users of the heap rely on: the entries are a bag in which a watcher occurs once, an
  entry is inserted, removed or given a new time by its watcher, and the first entry is one of
  least time.
\<close>

datatype heap_op = Insert anhe | Remove nat | Retime nat int

fun bag_op :: "heap_op \<Rightarrow> anhe multiset \<Rightarrow> anhe multiset" where
  "bag_op (Insert he) B = add_mset he B"
| "bag_op (Remove i) B = filter_mset (\<lambda>e. e_timer e \<noteq> i) B"
| "bag_op (Retime i a) B = image_mset (\<lambda>e. if e_timer e = i then e\<lparr>e_at := a\<rparr> else e) B"

fun op_allowed :: "heap_op \<Rightarrow> anhe multiset \<Rightarrow> bool" where
  "op_allowed (Insert he) B \<longleftrightarrow> e_timer he \<notin># image_mset e_timer B"
| "op_allowed (Remove i) B \<longleftrightarrow> i \<in># image_mset e_timer B"
| "op_allowed (Retime i a) B \<longleftrightarrow> i \<in># image_mset e_timer B"

fun run_allowed :: "heap_op list \<Rightarrow> anhe multiset \<Rightarrow> bool" where
  "run_allowed [] B \<longleftrightarrow> True"
| "run_allowed (p # ps) B \<longleftrightarrow> op_allowed p B \<and> run_allowed ps (bag_op p B)"

locale priority_bag =
  fixes wf :: "'q \<Rightarrow> bool"
    and bag :: "'q \<Rightarrow> anhe multiset"
    and step :: "heap_op \<Rightarrow> 'q \<Rightarrow> 'q"
    and first :: "'q \<Rightarrow> anhe option"
  assumes step_ok: "wf q \<Longrightarrow> op_allowed p (bag q) \<Longrightarrow> wf (step p q) \<and> bag (step p q) = bag_op p (bag q)"
    and first_None: "wf q \<Longrightarrow> first q = None \<longleftrightarrow> bag q = {#}"
    and first_Some: "wf q \<Longrightarrow> first q = Some e \<Longrightarrow> e \<in># bag q \<and> (\<forall>x\<in>#bag q. e_at e \<le> e_at x)"
begin

lemma run_ok:
  "wf q \<Longrightarrow> run_allowed ps (bag q) \<Longrightarrow> wf (fold step ps q) \<and> bag (fold step ps q) = fold bag_op ps (bag q)"
  by (induction ps arbitrary: q) (auto simp: step_ok)

lemma nothing_due:
  assumes "wf q" "\<nexists>e. first q = Some e \<and> e_at e < now" "x \<in># bag q"
  shows "now \<le> e_at x"
proof -
  obtain e where e: "first q = Some e" using first_None [OF assms(1)] assms(3) by (cases "first q") auto
  then have "now \<le> e_at e" using assms(2) by (auto simp: not_less)
  also have "\<dots> \<le> e_at x" using first_Some [OF assms(1) e] assms(3) by blast
  finally show ?thesis .
qed

end

definition heap_bag :: "ev_heap \<Rightarrow> anhe multiset" where
  "heap_bag H = mset (cells H)"

fun heap_step :: "heap_op \<Rightarrow> ev_heap \<Rightarrow> ev_heap" where
  "heap_step (Insert he) H = heap_insert he H"
| "heap_step (Remove i) H = heap_remove (index_of H i) H"
| "heap_step (Retime i a) H = adjustheap (index_of H i) (at_cache (index_of H i) a H)"

definition heap_first :: "ev_heap \<Rightarrow> anhe option" where
  "heap_first H = (if cells H = [] then None else Some (cells H ! 0))"

text \<open>The cell of a watcher in the heap, and the other cells, which belong to other watchers.\<close>

lemma verify_heap_cell:
  assumes "verify_heap H" "i \<in> e_timer ` set (cells H)"
  shows "index_of H i < length (cells H)" "e_timer (cells H ! index_of H i) = i"
    "\<exists>M. mset (cells H) = add_mset (cells H ! index_of H i) M \<and> (\<forall>e\<in>#M. e_timer e \<noteq> i)"
proof -
  obtain k where k: "k < length (cells H)" "i = e_timer (cells H ! k)"
    using assms(2) by (auto simp: in_set_conv_nth)
  then have ix: "index_of H i = k" using assms(1) by (simp add: verify_heap_def)
  then show "index_of H i < length (cells H)" "e_timer (cells H ! index_of H i) = i" using k by simp_all
  obtain xs ys where d: "cells H = xs @ cells H ! k # ys" "length xs = k"
    using id_take_nth_drop [OF k(1)] k(1) by (metis length_take min.absorb2 less_imp_le)
  have "distinct (map e_timer (xs @ cells H ! k # ys))"
    using verify_heap_distinct [OF assms(1)] d(1) by simp
  then have "\<forall>e\<in>#mset (xs @ ys). e_timer e \<noteq> i" using k(2) by (auto simp: image_iff)
  moreover have "mset (cells H) = add_mset (cells H ! k) (mset (xs @ ys))" by (subst d(1)) simp
  ultimately show "\<exists>M. mset (cells H) = add_mset (cells H ! index_of H i) M \<and> (\<forall>e\<in>#M. e_timer e \<noteq> i)"
    using ix by blast
qed

lemma heap_step_ok:
  assumes "verify_heap H" "op_allowed p (heap_bag H)"
  shows "verify_heap (heap_step p H) \<and> heap_bag (heap_step p H) = bag_op p (heap_bag H)"
proof (cases p)
  case (Insert he)
  then show ?thesis using assms heap_insert_ok [OF assms(1), of he] heap_insert_mset [of he H] by (simp add: heap_bag_def)
next
  case (Remove i)
  have i: "i \<in> e_timer ` set (cells H)" using assms(2) Remove by (simp add: heap_bag_def)
  note c = verify_heap_cell [OF assms(1) i]
  obtain M where M: "mset (cells H) = add_mset (cells H ! index_of H i) M" "\<forall>e\<in>#M. e_timer e \<noteq> i"
    using c(3) by blast
  have "filter_mset (\<lambda>e. e_timer e \<noteq> i) M = M" using M(2) by (simp add: filter_mset_eq_conv)
  then show ?thesis
    using heap_remove_ok [OF assms(1) c(1)] heap_remove_mset [OF c(1)] c(2) M(1) Remove by (simp add: heap_bag_def)
next
  case (Retime i a)
  have i: "i \<in> e_timer ` set (cells H)" using assms(2) Retime by (simp add: heap_bag_def)
  note c = verify_heap_cell [OF assms(1) i]
  obtain M where M: "mset (cells H) = add_mset (cells H ! index_of H i) M" "\<forall>e\<in>#M. e_timer e \<noteq> i"
    using c(3) by blast
  have "image_mset (\<lambda>e. if e_timer e = i then e\<lparr>e_at := a\<rparr> else e) M = image_mset id M"
    using M(2) by (intro image_mset_cong) simp
  then show ?thesis
    using retime_ok [OF assms(1) c(1), of a] c(2) M(1) Retime by (simp add: heap_bag_def add_mset_commute)
qed

interpretation libev: priority_bag verify_heap heap_bag heap_step heap_first
proof
  fix H p assume "verify_heap H" "op_allowed p (heap_bag H)"
  then show "verify_heap (heap_step p H) \<and> heap_bag (heap_step p H) = bag_op p (heap_bag H)" by (rule heap_step_ok)
next
  fix H e assume "verify_heap H" "heap_first H = Some e"
  then show "e \<in># heap_bag H \<and> (\<forall>x\<in>#heap_bag H. e_at e \<le> e_at x)"
    using heap_top_least [of "cells H"] nth_mem [of 0 "cells H"]
    by (auto simp: heap_first_def heap_bag_def verify_heap_iff in_set_conv_nth split: if_splits)
qed (simp add: heap_first_def heap_bag_def)

text \<open>
  Property C8: every run of insertions, removals and changes of time, from the empty heap and on watchers
  that are, respectively are not, in it, does to the array exactly what it does to the bag of
  entries; \<open>verify_heap\<close> of libev holds afterwards: every watcher holds the index of its entry
  and no entry is before its parent; and the entry at the top is one of least time.
\<close>

theorem heap_refines_bag:
  assumes "run_allowed ps {#}"
  shows "let H = fold heap_step ps \<lparr>cells = [], index_of = f\<rparr>; B = fold bag_op ps {#}
    in mset (cells H) = B \<and> verify_heap H \<and>
       (B \<noteq> {#} \<longrightarrow> cells H ! 0 \<in># B \<and> (\<forall>e\<in>#B. e_at (cells H ! 0) \<le> e_at e))"
proof -
  let ?H0 = "\<lparr>cells = [], index_of = f\<rparr>"
  have "verify_heap ?H0" "run_allowed ps (heap_bag ?H0)" using assms by (simp_all add: verify_heap_def heap_bag_def)
  note r = libev.run_ok [OF this]
  define H where "H = fold heap_step ps ?H0"
  have H: "verify_heap H" "mset (cells H) = fold bag_op ps {#}"
    using r by (simp_all add: H_def heap_bag_def)
  have "cells H ! 0 \<in># mset (cells H) \<and> (\<forall>e\<in>#mset (cells H). e_at (cells H ! 0) \<le> e_at e)" if "mset (cells H) \<noteq> {#}"
    using libev.first_Some [OF H(1), of "cells H ! 0"] that by (simp add: heap_first_def heap_bag_def)
  then show ?thesis using H(1) unfolding H(2) H_def [symmetric] Let_def by blast
qed

theorem heap_refines_bag_witness:
  "let e = (\<lambda>a i. \<lparr>e_at = a, e_timer = i\<rparr>);
       H = fold heap_step [Insert (e 5 0), Insert (e 3 1), Retime 0 2, Insert (e 1 2), Remove 2] \<lparr>cells = [], index_of = id\<rparr>
   in mset (cells H) = {#e 2 0, e 3 1#} \<and> verify_heap H"
  using heap_refines_bag [of "[Insert \<lparr>e_at = 5, e_timer = 0\<rparr>, Insert \<lparr>e_at = 3, e_timer = 1\<rparr>, Retime 0 2,
      Insert \<lparr>e_at = 1, e_timer = 2\<rparr>, Remove 2]" id]
  by (simp add: Let_def)

end
