(* ===== verification/Timers.thy ===== *)
theory Timers
  imports Watchers EvHeap
begin

text \<open>
  \<open>src/node_timer.cc\<close>: the \<open>Timer\<close> class, with the timer functions of \<open>deps/libev/ev.c\<close> it
  calls. Times are whole milliseconds (\<open>NODE_V8_UNIXTIME\<close> takes the integer value), which the
  code keeps as seconds in a double.

  The heap \<open>timers\<close> and the indices the watchers keep into it are those of \<open>EvHeap\<close>; the
  field \<open>active\<close> only says whether a watcher has one. The stack of pending events is kept as it is, \<open>None\<close> standing for the dummy watcher that replaces a cleared event;
  the timers are the only watchers on it here.
\<close>

section \<open>State\<close>

record timer = watcher +
  pend_at :: nat \<comment> \<open>\<open>pending\<close> as an index\<close>
  at :: int
  repeat :: int

record world =
  timer_of :: "nat \<Rightarrow> timer"
  timers :: ev_heap
  pendings :: "nat option list"
  activecnt :: int
  mn_now :: int

abbreviation entries :: "world \<Rightarrow> anhe list" where
  "entries W \<equiv> cells (timers W)"

definition set_timer :: "nat \<Rightarrow> timer \<Rightarrow> world \<Rightarrow> world" where
  "set_timer i t W = W\<lparr>timer_of := (timer_of W)(i := t)\<rparr>"

section \<open>The timer functions of libev\<close>

definition ev_timer_init :: "int \<Rightarrow> int \<Rightarrow> timer \<Rightarrow> timer" where
  "ev_timer_init after rpt t = (ev_init t)\<lparr>at := after, repeat := rpt\<rparr>"

definition clear_pending :: "nat \<Rightarrow> world \<Rightarrow> world" where
  "clear_pending i W =
     (let t = timer_of W i
      in if pending t
         then (set_timer i (t\<lparr>pending := False\<rparr>) W)\<lparr>pendings := (pendings W)[pend_at t := None]\<rparr>
         else W)"

definition ev_feed_event :: "nat \<Rightarrow> world \<Rightarrow> world" where
  "ev_feed_event i W =
     (let t = timer_of W i
      in if pending t then W
         else (set_timer i (t\<lparr>pending := True, pend_at := length (pendings W)\<rparr>) W)
                \<lparr>pendings := pendings W @ [Some i]\<rparr>)"

definition ev_timer_start :: "nat \<Rightarrow> world \<Rightarrow> world outcome" where
  "ev_timer_start i W =
     (let t = timer_of W i
      in if active t then Return W
         else let t1 = t\<lparr>at := at t + mn_now W\<rparr>
         in oassert (0 \<le> repeat t1)
           (Return ((set_timer i (t1\<lparr>active := True\<rparr>) W)
              \<lparr>timers := heap_insert \<lparr>e_at = at t1, e_timer = i\<rparr> (timers W),
               activecnt := activecnt W + 1\<rparr>)))"

definition ev_timer_stop :: "nat \<Rightarrow> world \<Rightarrow> world outcome" where
  "ev_timer_stop i W0 =
     (let W = clear_pending i W0; t = timer_of W i
      in if \<not> active t then Return W
         else let k = index_of (timers W) i
         in oassert (k < length (entries W) \<and> e_timer (entries W ! k) = i)
           (Return ((set_timer i (t\<lparr>at := at t - mn_now W, active := False\<rparr>) W)
              \<lparr>timers := heap_remove k (timers W), activecnt := activecnt W - 1\<rparr>)))"

definition ev_timer_again :: "nat \<Rightarrow> world \<Rightarrow> world outcome" where
  "ev_timer_again i W =
     (let t = timer_of W i
      in if active t then
           (if repeat t \<noteq> 0
            then let a = mn_now W + repeat t; k = index_of (timers W) i
                 in Return ((set_timer i (t\<lparr>at := a\<rparr>) W)\<lparr>timers := adjustheap k (at_cache k a (timers W))\<rparr>)
            else ev_timer_stop i W)
         else if repeat t \<noteq> 0 then ev_timer_start i (set_timer i (t\<lparr>at := repeat t\<rparr>) W)
         else Return W)"

text \<open>
  The first half of a turn of \<open>timers_reify\<close> on the entry \<open>e\<close> at the top of the heap: a
  repeating timer gets its next time, another one is stopped.
\<close>

definition reify_one :: "anhe \<Rightarrow> world \<Rightarrow> world outcome" where
  "reify_one e W =
     (let i = e_timer e; t = timer_of W i
      in if repeat t \<noteq> 0
         then let a0 = at t + repeat t; a = (if a0 < mn_now W then mn_now W else a0)
              in oassert (0 < repeat t)
                   (Return ((set_timer i (t\<lparr>at := a\<rparr>) W)
                      \<lparr>timers := downheap 0 (at_cache 0 a (timers W))\<rparr>))
         else ev_timer_stop i W)"

text \<open>
  \<open>timers_reify\<close>: the loop, with the watchers it has collected in \<open>rfeeds\<close>, and then their
  events, the last one first; \<open>None\<close> when \<open>fuel\<close> turns have not emptied the heap of due
  entries.
\<close>

fun reify_loop :: "nat \<Rightarrow> nat list \<Rightarrow> world \<Rightarrow> (world \<times> nat list) outcome option" where
  "reify_loop 0 rfeeds W = None"
| "reify_loop (Suc fuel) rfeeds W =
     (case heap_first (timers W) of
        None \<Rightarrow> Some (Return (W, rfeeds))
      | Some e \<Rightarrow>
          if e_at e < mn_now W
          then (case reify_one e W of
                  Return W' \<Rightarrow> reify_loop fuel (e_timer e # rfeeds) W'
                | Throw x \<Rightarrow> Some (Throw x) | Abort \<Rightarrow> Some Abort | Overrun \<Rightarrow> Some Overrun)
          else Some (Return (W, rfeeds)))"

definition timers_reify :: "nat \<Rightarrow> world \<Rightarrow> world outcome option" where
  "timers_reify fuel W =
     map_option (\<lambda>r. obind r (\<lambda>(W', rfeeds). Return (fold ev_feed_event rfeeds W')))
       (reify_loop fuel [] W)"

section \<open>The Timer class\<close>

definition timer_object :: "(timer \<Rightarrow> timer outcome) \<Rightarrow> nat \<Rightarrow> world \<Rightarrow> world outcome" where
  "timer_object f i W = obind (f (timer_of W i)) (\<lambda>t. Return (set_timer i t W))"

text \<open>The constructor leaves dummy values: a repeat of one second.\<close>

definition timer_new :: "nat \<Rightarrow> world \<Rightarrow> world outcome" where
  "timer_new i W = timer_object (\<lambda>t. wrap_wrap (ev_timer_init 0 1000 (wrap_init t))) i W"

text \<open>\<open>ev_now_update\<close> reads the clock, which has moved to \<open>clock\<close>.\<close>

definition timer_start :: "conv \<Rightarrow> int \<Rightarrow> js_value list \<Rightarrow> nat \<Rightarrow> world \<Rightarrow> world outcome" where
  "timer_start h clock args i W =
     (if length args \<noteq> 2 then Throw (JsString ''Bad arguments'')
      else let was_active = active (timer_of W i);
               after = integer_value h (arg args 0); rpt = integer_value h (arg args 1);
               W1 = set_timer i (ev_timer_init after rpt (timer_of W i)) W;
               W2 = W1\<lparr>mn_now := clock\<rparr>
      in obind (ev_timer_start i W2)
           (\<lambda>W3. if \<not> was_active then timer_object wrap_ref i W3 else Return W3))"

definition timer_stop :: "nat \<Rightarrow> world \<Rightarrow> world outcome" where
  "timer_stop i W =
     (if active (timer_of W i)
      then obind (ev_timer_stop i W) (timer_object wrap_unref i)
      else Return W)"

definition timer_again :: "conv \<Rightarrow> js_value list \<Rightarrow> nat \<Rightarrow> world \<Rightarrow> world outcome" where
  "timer_again h args i W =
     (let was_active = active (timer_of W i);
          W1 = (if length args > 0
                then let rpt = integer_value h (arg args 0)
                     in if 0 < rpt then set_timer i ((timer_of W i)\<lparr>repeat := rpt\<rparr>) W else W
                else W)
      in obind (ev_timer_again i W1)
           (\<lambda>W2. if active (timer_of W2 i)
                 then (if \<not> was_active then timer_object wrap_ref i W2 else Return W2)
                 else (if was_active then timer_object wrap_unref i W2 else Return W2)))"

text \<open>\<open>Integer::New(watcher_.repeat)\<close> cuts the seconds off to an \<open>int\<close>; the setter takes milliseconds.\<close>

definition repeat_getter :: "nat \<Rightarrow> world \<Rightarrow> js_value" where
  "repeat_getter i W = (let r = repeat (timer_of W i) in jint (sgn r * (\<bar>r\<bar> div 1000)))"

definition repeat_setter :: "conv \<Rightarrow> js_value \<Rightarrow> nat \<Rightarrow> world \<Rightarrow> world" where
  "repeat_setter h v i W = set_timer i ((timer_of W i)\<lparr>repeat := integer_value h v\<rparr>) W"

text \<open>
  \<open>OnTimeout\<close>, called for a pending event. \<open>js\<close> is what calling the \<open>callback\<close> does to the
  world, \<open>None\<close> when the property is not a function.
\<close>

definition timeout_done :: "nat \<Rightarrow> world \<Rightarrow> world outcome" where
  "timeout_done i W = (if repeat (timer_of W i) = 0 then timer_object wrap_unref i W else Return W)"

definition on_timeout :: "(world \<Rightarrow> world outcome) option \<Rightarrow> nat \<Rightarrow> world \<Rightarrow> world outcome" where
  "on_timeout js i W =
     (case js of
        None \<Rightarrow> timer_stop i W
      | Some call \<Rightarrow> obind (call W) (timeout_done i))"

text \<open>One turn of \<open>ev_invoke_pending\<close>: the last event is taken and its watcher called back.\<close>

definition take_pending :: "world \<Rightarrow> nat option \<times> world" where
  "take_pending W =
     (let p = last (pendings W); W1 = W\<lparr>pendings := butlast (pendings W)\<rparr>
      in case p of
           None \<Rightarrow> (None, W1)
         | Some i \<Rightarrow> (Some i, set_timer i ((timer_of W1 i)\<lparr>pending := False\<rparr>) W1))"

definition invoke_one :: "(nat \<Rightarrow> (world \<Rightarrow> world outcome) option) \<Rightarrow> world \<Rightarrow> world outcome" where
  "invoke_one js W =
     (case take_pending W of (None, W1) \<Rightarrow> Return W1 | (Some i, W1) \<Rightarrow> on_timeout (js i) i W1)"

definition timer_destroy :: "nat \<Rightarrow> world \<Rightarrow> world outcome" where
  "timer_destroy i W = ev_timer_stop i W"

section \<open>The steps of a program that uses timers\<close>

text \<open>
  What happens to the timers in a run: JavaScript calls the methods of live timers, between
  callbacks or inside the callback of the timer \<open>run\<close>; the collector takes timers; time
  passes; the loop makes timers pending and calls them back. The guards are the discipline of
  \<open>lib/timers.js\<close>: a timer is started when it is not active and has no event pending, its
  callback is a function when a one-shot timer fires, and neither a pending event nor a running
  callback sees its timer change between one-shot and repeating.
\<close>

type_synonym run_state = "nat option \<times> world"

abbreviation live :: "world \<Rightarrow> nat \<Rightarrow> bool" where
  "live W i \<equiv> \<not> unwrapped (timer_of W i)"

definition keeps_kind :: "nat option \<Rightarrow> world \<Rightarrow> nat \<Rightarrow> int \<Rightarrow> bool" where
  "keeps_kind run W i rpt \<longleftrightarrow> 0 \<le> rpt \<and>
     (run = Some i \<or> pending (timer_of W i) \<longrightarrow> (rpt = 0 \<longleftrightarrow> repeat (timer_of W i) = 0))"

definition may_start :: "conv \<Rightarrow> js_value list \<Rightarrow> nat option \<Rightarrow> world \<Rightarrow> nat \<Rightarrow> bool" where
  "may_start h args run W i \<longleftrightarrow> live W i \<and> length args = 2 \<and> \<not> active (timer_of W i) \<and>
     \<not> pending (timer_of W i) \<and> keeps_kind run W i (integer_value h (arg args 1))"

definition may_again :: "conv \<Rightarrow> js_value list \<Rightarrow> nat option \<Rightarrow> world \<Rightarrow> nat \<Rightarrow> bool" where
  "may_again h args run W i \<longleftrightarrow> live W i \<and> (pending (timer_of W i) \<longrightarrow> active (timer_of W i)) \<and>
     (args \<noteq> [] \<and> 0 < integer_value h (arg args 0) \<longrightarrow> keeps_kind run W i (integer_value h (arg args 0)))"

inductive timer_step :: "conv \<Rightarrow> run_state \<Rightarrow> run_state \<Rightarrow> bool" for h where
  new: "unwrapped (timer_of W i) \<Longrightarrow> timer_new i W = Return W' \<Longrightarrow> timer_step h (run, W) (run, W')"
| start: "may_start h args run W i \<Longrightarrow> timer_start h clock args i W = Return W' \<Longrightarrow>
    timer_step h (run, W) (run, W')"
| stop: "live W i \<Longrightarrow> timer_stop i W = Return W' \<Longrightarrow> timer_step h (run, W) (run, W')"
| again: "may_again h args run W i \<Longrightarrow> timer_again h args i W = Return W' \<Longrightarrow>
    timer_step h (run, W) (run, W')"
| set_repeat: "live W i \<Longrightarrow> keeps_kind run W i (integer_value h v) \<Longrightarrow>
    timer_step h (run, W) (run, repeat_setter h v i W)"
| collect: "live W i \<Longrightarrow> weak (timer_of W i) \<Longrightarrow> run \<noteq> Some i \<Longrightarrow>
    timer_object weak_callback i W = Return W1 \<Longrightarrow> timer_destroy i W1 = Return W' \<Longrightarrow>
    timer_step h (run, W) (run, W')"
| tick: "mn_now W \<le> t \<Longrightarrow> timer_step h (run, W) (run, W\<lparr>mn_now := t\<rparr>)"
| reify: "timers_reify fuel W = Some (Return W') \<Longrightarrow> timer_step h (None, W) (None, W')"
| take: "pendings W \<noteq> [] \<Longrightarrow> timer_step h (None, W) (take_pending W)"
| take_stop: "pendings W \<noteq> [] \<Longrightarrow> take_pending W = (Some i, W1) \<Longrightarrow> active (timer_of W1 i) \<Longrightarrow>
    on_timeout None i W1 = Return W' \<Longrightarrow> timer_step h (None, W) (None, W')"
| finish: "timeout_done i W = Return W' \<Longrightarrow> timer_step h (Some i, W) (None, W')"

inductive reachable :: "conv \<Rightarrow> world \<Rightarrow> run_state \<Rightarrow> bool" for h W0 where
  refl: "reachable h W0 (None, W0)"
| step: "reachable h W0 s \<Longrightarrow> timer_step h s s' \<Longrightarrow> reachable h W0 s'"

text \<open>At the start no timer object exists and the loop has no timer.\<close>

definition start_world :: "world \<Rightarrow> bool" where
  "start_world W \<longleftrightarrow> (\<forall>i. unwrapped (timer_of W i) \<and> \<not> active (timer_of W i) \<and>
     \<not> pending (timer_of W i)) \<and> entries W = [] \<and> pendings W = []"

section \<open>The invariant\<close>

text \<open>
  Of one timer: it is referenced once while it is active, once while its last event is still
  to be delivered, and once while a one-shot callback runs. \<open>due\<close>: it is among the timers
  \<open>fs\<close> that \<open>timers_reify\<close> has collected so far.
\<close>

definition timer_refs :: "bool \<Rightarrow> bool \<Rightarrow> timer \<Rightarrow> int" where
  "timer_refs due running t =
     of_bool (active t) + of_bool (\<not> active t \<and> (pending t \<or> due)) + of_bool (running \<and> repeat t = 0)"

definition timer_ok :: "bool \<Rightarrow> bool \<Rightarrow> timer \<Rightarrow> bool" where
  "timer_ok due running t \<longleftrightarrow>
     (unwrapped t \<longrightarrow> \<not> active t \<and> \<not> pending t \<and> \<not> running \<and> \<not> due) \<and>
     (\<not> unwrapped t \<longrightarrow> wrap_ok t \<and> refs t = timer_refs due running t \<and> 0 \<le> repeat t) \<and>
     (pending t \<or> due \<longrightarrow> (active t \<longleftrightarrow> repeat t \<noteq> 0))"

text \<open>The entries of the heap are those of the active timers, and libev's own check succeeds.\<close>

definition entry_for :: "world \<Rightarrow> anhe \<Rightarrow> bool" where
  "entry_for W e \<longleftrightarrow> (let t = timer_of W (e_timer e) in active t \<and> at t = e_at e)"

definition heap_ok :: "world \<Rightarrow> bool" where
  "heap_ok W \<longleftrightarrow> verify_heap (timers W) \<and> (\<forall>e. e \<in> set (entries W) \<longleftrightarrow> entry_for W e)"

definition pendings_ok :: "world \<Rightarrow> bool" where
  "pendings_ok W \<longleftrightarrow> (\<forall>k i. k < length (pendings W) \<and> pendings W ! k = Some i \<longleftrightarrow>
     pending (timer_of W i) \<and> pend_at (timer_of W i) = k)"

definition timers_ok :: "nat list \<Rightarrow> nat option \<Rightarrow> world \<Rightarrow> bool" where
  "timers_ok fs run W \<longleftrightarrow> heap_ok W \<and> pendings_ok W \<and>
     (\<forall>i. timer_ok (i \<in> set fs) (run = Some i) (timer_of W i))"

section \<open>What the functions of libev keep of it\<close>

lemma set_timer_simps [simp]:
  "timer_of (set_timer i t W) = (timer_of W)(i := t)"
  "timers (set_timer i t W) = timers W"
  "pendings (set_timer i t W) = pendings W" "activecnt (set_timer i t W) = activecnt W"
  "mn_now (set_timer i t W) = mn_now W"
  by (simp_all add: set_timer_def)

lemma heap_ok_world [simp]:
  "heap_ok (W\<lparr>pendings := ps\<rparr>) = heap_ok W" "heap_ok (W\<lparr>activecnt := n\<rparr>) = heap_ok W"
  "heap_ok (W\<lparr>mn_now := n\<rparr>) = heap_ok W"
  by (simp_all add: heap_ok_def entry_for_def)

lemma pendings_ok_world [simp]:
  "pendings_ok (W\<lparr>timers := H\<rparr>) = pendings_ok W" "pendings_ok (W\<lparr>activecnt := n\<rparr>) = pendings_ok W"
  "pendings_ok (W\<lparr>mn_now := n\<rparr>) = pendings_ok W"
  by (simp_all add: pendings_ok_def)

lemma heap_ok_frame:
  assumes "heap_ok W" "active t = active (timer_of W i)"
    "active t \<Longrightarrow> at t = at (timer_of W i)"
  shows "heap_ok (set_timer i t W)"
proof -
  have "entry_for (set_timer i t W) e = entry_for W e" for e
    using assms(2,3) by (auto simp: entry_for_def Let_def)
  then show ?thesis using assms by (simp add: heap_ok_def)
qed

lemma pendings_ok_frame:
  assumes "pendings_ok W" "pending t = pending (timer_of W i)" "pend_at t = pend_at (timer_of W i)"
  shows "pendings_ok (set_timer i t W)"
  using assms by (simp add: pendings_ok_def)

lemma heap_ok_add:
  assumes "heap_ok W" "\<not> active (timer_of W i)" "active t"
  shows "heap_ok ((set_timer i t W)\<lparr>timers := heap_insert \<lparr>e_at = at t, e_timer = i\<rparr> (timers W),
    activecnt := n\<rparr>)" (is "heap_ok ?W")
proof -
  have "entry_for ?W e \<longleftrightarrow> e = \<lparr>e_at = at t, e_timer = i\<rparr> \<or> entry_for W e" for e
    using assms(2,3) by (cases e) (auto simp: entry_for_def Let_def)
  moreover have "i \<notin> e_timer ` set (entries W)"
    using assms(1,2) by (auto simp: heap_ok_def entry_for_def Let_def)
  ultimately show ?thesis
    using assms(1) heap_insert_ok [of "timers W" "\<lparr>e_at = at t, e_timer = i\<rparr>"]
      arg_cong [OF heap_insert_mset [of "\<lparr>e_at = at t, e_timer = i\<rparr>" "timers W"], of set_mset]
    by (simp add: heap_ok_def)
qed

text \<open>The cell of an active timer, and the other entries.\<close>

lemma heap_ok_cell:
  assumes "heap_ok W" "active (timer_of W i)"
  shows "index_of (timers W) i < length (entries W)" "entries W ! index_of (timers W) i = \<lparr>e_at = at (timer_of W i), e_timer = i\<rparr>"
    "\<exists>M. mset (entries W) = add_mset \<lparr>e_at = at (timer_of W i), e_timer = i\<rparr> M \<and> (\<forall>e\<in>#M. e_timer e \<noteq> i)"
proof -
  have e: "\<lparr>e_at = at (timer_of W i), e_timer = i\<rparr> \<in> set (entries W)"
    using assms by (simp add: heap_ok_def entry_for_def)
  then have "i \<in> e_timer ` set (entries W)" by force
  note c = verify_heap_cell [OF conjunct1 [OF assms(1) [unfolded heap_ok_def]] this]
  have "entry_for W (entries W ! index_of (timers W) i)"
    using assms(1) nth_mem [OF c(1)] by (simp add: heap_ok_def)
  then have "entries W ! index_of (timers W) i = \<lparr>e_at = at (timer_of W i), e_timer = i\<rparr>"
    using c(2) by (cases "entries W ! index_of (timers W) i") (simp add: entry_for_def Let_def)
  then show "index_of (timers W) i < length (entries W)" "entries W ! index_of (timers W) i = \<lparr>e_at = at (timer_of W i), e_timer = i\<rparr>"
    "\<exists>M. mset (entries W) = add_mset \<lparr>e_at = at (timer_of W i), e_timer = i\<rparr> M \<and> (\<forall>e\<in>#M. e_timer e \<noteq> i)"
    using c(1,3) by simp_all
qed

lemma heap_ok_change:
  assumes "heap_ok W" "active (timer_of W i)" "verify_heap H"
    and "add_mset \<lparr>e_at = at (timer_of W i), e_timer = i\<rparr> (mset (cells H)) = N + mset (entries W)"
    and "N = (if active t then {#\<lparr>e_at = at t, e_timer = i\<rparr>#} else {#})"
  shows "heap_ok ((set_timer i t W)\<lparr>timers := H, activecnt := n\<rparr>)" (is "heap_ok ?W")
proof -
  obtain M where M: "mset (entries W) = add_mset \<lparr>e_at = at (timer_of W i), e_timer = i\<rparr> M" "\<forall>e\<in>#M. e_timer e \<noteq> i"
    using heap_ok_cell(3) [OF assms(1,2)] by blast
  then have c: "mset (cells H) = N + M" using assms(4) by simp
  have "e \<in> set (cells H) \<longleftrightarrow> entry_for ?W e" for e
  proof (cases "e_timer e = i")
    case True
    then have "e \<notin># M" using M(2) by blast
    then have "e \<in> set (cells H) \<longleftrightarrow> e \<in># N" using arg_cong [OF c, of set_mset] by auto
    also have "\<dots> \<longleftrightarrow> entry_for ?W e" using True assms(5) by (cases e) (auto simp: entry_for_def)
    finally show ?thesis .
  next
    case False
    then have "e \<notin># N" "e \<noteq> \<lparr>e_at = at (timer_of W i), e_timer = i\<rparr>" using assms(5) by auto
    then have "e \<in> set (cells H) \<longleftrightarrow> e \<in> set (entries W)"
      using arg_cong [OF c, of set_mset] arg_cong [OF M(1), of set_mset] by auto
    also have "\<dots> \<longleftrightarrow> entry_for ?W e" using assms(1) False by (simp add: heap_ok_def entry_for_def)
    finally show ?thesis .
  qed
  then show ?thesis using assms(3) by (simp add: heap_ok_def)
qed

lemma heap_ok_remove:
  assumes "heap_ok W" "active (timer_of W i)" "\<not> active t"
  shows "heap_ok ((set_timer i t W)\<lparr>timers := heap_remove (index_of (timers W) i) (timers W), activecnt := n\<rparr>)"
    "length (cells (heap_remove (index_of (timers W) i) (timers W))) + 1 = length (entries W)"
proof -
  note c = heap_ok_cell [OF assms(1,2)]
  note m = heap_remove_mset [OF c(1), unfolded c(2)]
  have "verify_heap (timers W)" using assms(1) by (simp add: heap_ok_def)
  then show "heap_ok ((set_timer i t W)\<lparr>timers := heap_remove (index_of (timers W) i) (timers W), activecnt := n\<rparr>)"
    using heap_ok_change [OF assms(1,2) heap_remove_ok [OF _ c(1)], of "{#}" t n] m assms(3) by simp
  show "length (cells (heap_remove (index_of (timers W) i) (timers W))) + 1 = length (entries W)"
    using arg_cong [OF m, of size] by simp
qed

lemma heap_ok_retime:
  assumes "heap_ok W" "active (timer_of W i)" "active t" "verify_heap H"
    "add_mset \<lparr>e_at = at (timer_of W i), e_timer = i\<rparr> (mset (cells H)) = add_mset \<lparr>e_at = at t, e_timer = i\<rparr> (mset (entries W))"
  shows "heap_ok ((set_timer i t W)\<lparr>timers := H\<rparr>)" "length (cells H) = length (entries W)"
proof -
  have "heap_ok ((set_timer i t W)\<lparr>timers := H, activecnt := activecnt W\<rparr>)"
    using assms(3,5) by (intro heap_ok_change [OF assms(1,2,4)]) auto
  then show "heap_ok ((set_timer i t W)\<lparr>timers := H\<rparr>)" by (simp add: set_timer_def)
  show "length (cells H) = length (entries W)"
    using arg_cong [OF assms(5), of size] by (simp only: size_add_mset size_mset nat.inject)
qed

lemma heap_ok_adjust:
  assumes "heap_ok W" "active (timer_of W i)" "active t" "k = index_of (timers W) i"
  shows "heap_ok ((set_timer i t W)\<lparr>timers := adjustheap k (at_cache k (at t) (timers W))\<rparr>)"
    "length (cells (adjustheap k (at_cache k (at t) (timers W)))) = length (entries W)"
proof -
  note c = heap_ok_cell [OF assms(1,2), folded assms(4)]
  have "verify_heap (timers W)" using assms(1) by (simp add: heap_ok_def)
  note r = retime_ok [OF this c(1), of "at t", unfolded c(2)]
  show "heap_ok ((set_timer i t W)\<lparr>timers := adjustheap k (at_cache k (at t) (timers W))\<rparr>)"
    "length (cells (adjustheap k (at_cache k (at t) (timers W)))) = length (entries W)"
    using heap_ok_retime [OF assms(1-3) r(1)] r(2) by simp_all
qed

lemma nth_update_any: "xs[n := y] ! k = (if k = n \<and> n < length xs then y else xs ! k)"
  by (cases "k = n"; cases "n < length xs") (simp_all add: list_update_beyond)

lemma pendings_ok_clear:
  assumes "pendings_ok W"
  shows "pendings_ok (clear_pending i W)"
  using assms unfolding pendings_ok_def clear_pending_def Let_def
  by (auto simp: nth_update_any split: if_splits) (metis option.inject)

lemma pendings_ok_feed:
  assumes "pendings_ok W"
  shows "pendings_ok (ev_feed_event i W)"
  using assms by (auto simp: pendings_ok_def ev_feed_event_def Let_def nth_append split: if_splits)

lemma clear_pending_simps [simp]:
  "timers (clear_pending i W) = timers W"
  "activecnt (clear_pending i W) = activecnt W" "mn_now (clear_pending i W) = mn_now W"
  "timer_of (clear_pending i W) = (timer_of W)(i := (timer_of W i)\<lparr>pending := False\<rparr>)"
  by (auto simp: clear_pending_def Let_def fun_eq_iff)

lemma clear_pending_pendings [simp]:
  "length (pendings (clear_pending i W)) = length (pendings W)"
  "\<not> pending (timer_of W i) \<Longrightarrow> pendings (clear_pending i W) = pendings W"
  by (simp_all add: clear_pending_def Let_def)

lemma heap_ok_clear: "heap_ok W \<Longrightarrow> heap_ok (clear_pending i W)"
  using heap_ok_frame [of W "(timer_of W i)\<lparr>pending := False\<rparr>" i]
  by (simp add: clear_pending_def Let_def)

text \<open>What a call changes of one timer, the others staying as they are.\<close>

definition only :: "nat \<Rightarrow> world \<Rightarrow> world \<Rightarrow> bool" where
  "only i W W' \<longleftrightarrow> (\<forall>j. j \<noteq> i \<longrightarrow> timer_of W' j = timer_of W j) \<and> mn_now W' = mn_now W"

lemma ev_timer_start_ok:
  assumes "heap_ok W" "pendings_ok W" "\<not> active (timer_of W i)" "0 \<le> repeat (timer_of W i)"
  shows "\<exists>W'. ev_timer_start i W = Return W' \<and> heap_ok W' \<and> pendings_ok W' \<and> 
    timer_of W' = (timer_of W)(i := (timer_of W i)\<lparr>at := at (timer_of W i) + mn_now W, active := True\<rparr>) \<and>
    activecnt W' = activecnt W + 1 \<and> length (entries W') = length (entries W) + 1 \<and> mn_now W' = mn_now W \<and>
    pendings W' = pendings W"
  using assms heap_ok_add [of W i "(timer_of W i)\<lparr>at := at (timer_of W i) + mn_now W, active := True\<rparr>" "activecnt W + 1"]
    pendings_ok_frame [of W "(timer_of W i)\<lparr>at := at (timer_of W i) + mn_now W, active := True\<rparr>" i]
    arg_cong [OF heap_insert_mset [of "\<lparr>e_at = at (timer_of W i) + mn_now W, e_timer = i\<rparr>" "timers W"], of size]
  by (simp add: ev_timer_start_def oassert_def Let_def)

lemma ev_timer_stop_ok:
  assumes "heap_ok W" "pendings_ok W"
  shows "\<exists>W'. ev_timer_stop i W = Return W' \<and> heap_ok W' \<and> pendings_ok W' \<and> mn_now W' = mn_now W \<and>
    timer_of W' = (timer_of W)(i := (timer_of W i)\<lparr>active := False, pending := False,
      at := (if active (timer_of W i) then at (timer_of W i) - mn_now W else at (timer_of W i))\<rparr>) \<and>
    activecnt W' = activecnt W - of_bool (active (timer_of W i)) \<and>
    int (length (entries W')) = int (length (entries W)) - of_bool (active (timer_of W i)) \<and>
    length (pendings W') = length (pendings W) \<and> (\<not> pending (timer_of W i) \<longrightarrow> pendings W' = pendings W)"
proof (cases "active (timer_of W i)")
  case True
  let ?t = "(timer_of W i)\<lparr>pending := False\<rparr>"
  let ?t' = "?t\<lparr>at := at ?t - mn_now W, active := False\<rparr>"
  have a: "active (timer_of (clear_pending i W) i)" "\<not> active ?t'" using True by simp_all
  note c = heap_ok_cell [OF heap_ok_clear [OF assms(1)] a(1)]
  note r = heap_ok_remove(1) [OF heap_ok_clear [OF assms(1)] a, of "activecnt W - 1"]
    heap_ok_remove(2) [OF heap_ok_clear [OF assms(1)] a]
  moreover have "pendings_ok (set_timer i ?t' (clear_pending i W))"
    using pendings_ok_frame [OF pendings_ok_clear [OF assms(2)], of _ i i] by simp
  ultimately show ?thesis using True c
    by (auto simp: ev_timer_stop_def oassert_def Let_def fun_eq_iff)
next
  case False
  then have eq: "(timer_of W i)\<lparr>active := False, pending := False\<rparr> = (timer_of W i)\<lparr>pending := False\<rparr>"
    by (cases "timer_of W i") simp
  then show ?thesis using False heap_ok_clear [OF assms(1)] pendings_ok_clear [OF assms(2)]
    by (simp add: ev_timer_stop_def Let_def eq)
qed

lemma ev_timer_again_ok:
  assumes "heap_ok W" "pendings_ok W" "0 \<le> repeat (timer_of W i)"
  shows "\<exists>W'. ev_timer_again i W = Return W' \<and> heap_ok W' \<and> pendings_ok W' \<and> mn_now W' = mn_now W \<and>
    activecnt W' - int (length (entries W')) = activecnt W - int (length (entries W)) \<and> only i W W' \<and>
    active (timer_of W' i) = (repeat (timer_of W i) \<noteq> 0) \<and>
    pending (timer_of W' i) = (pending (timer_of W i) \<and> \<not> (active (timer_of W i) \<and> repeat (timer_of W i) = 0)) \<and> 
    repeat (timer_of W' i) = repeat (timer_of W i) \<and>
    refs (timer_of W' i) = refs (timer_of W i) \<and> 
    weak (timer_of W' i) = weak (timer_of W i) \<and> unwrapped (timer_of W' i) = unwrapped (timer_of W i)"
proof (cases "active (timer_of W i)")
  case True
  let ?t = "(timer_of W i)\<lparr>at := mn_now W + repeat (timer_of W i)\<rparr>"
  show ?thesis
    using True ev_timer_stop_ok [OF assms(1,2), of i] heap_ok_adjust [OF assms(1) True, of ?t]
      pendings_ok_frame [OF assms(2), of ?t i]
    by (cases "repeat (timer_of W i) = 0") (auto simp: ev_timer_again_def Let_def only_def)
next
  case False
  let ?t = "(timer_of W i)\<lparr>at := repeat (timer_of W i)\<rparr>"
  show ?thesis
    using False assms ev_timer_start_ok [of "set_timer i ?t W" i] heap_ok_frame [OF assms(1), of ?t i]
      pendings_ok_frame [OF assms(2), of ?t i]
    by (cases "repeat (timer_of W i) = 0") (auto simp: ev_timer_again_def Let_def only_def)
qed

section \<open>Every step keeps the invariant\<close>

declare integer_value.simps [simp del]

definition loop_base :: "world \<Rightarrow> int" where
  "loop_base W = activecnt W - int (length (entries W))"

lemma set_timer_same [simp]: "set_timer i (timer_of W i) W = W"
  by (simp add: set_timer_def)

lemma timers_ok_step:
  assumes "timers_ok fs run W" "heap_ok W'" "pendings_ok W'"
    and "\<And>j. j \<noteq> i \<Longrightarrow> timer_of W' j = timer_of W j"
    and "\<And>j. j \<noteq> i \<Longrightarrow> j \<in> set fs' \<longleftrightarrow> j \<in> set fs" "\<And>j. j \<noteq> i \<Longrightarrow> run' = Some j \<longleftrightarrow> run = Some j"
    and "timer_ok (i \<in> set fs') (run' = Some i) (timer_of W' i)"
  shows "timers_ok fs' run' W'"
  unfolding timers_ok_def
proof (intro conjI allI)
  fix j show "timer_ok (j \<in> set fs') (run' = Some j) (timer_of W' j)"
    using assms by (cases "j = i") (auto simp: timers_ok_def)
qed (fact assms)+

lemmas timer_oks = timer_ok_def timer_refs_def wrap_ok_def

lemma timers_okD:
  assumes "timers_ok fs run W"
  shows "heap_ok W" "pendings_ok W"
  using assms by (auto simp: timers_ok_def)

lemma timers_ok_at:
  assumes "timers_ok fs run W"
  shows "timer_ok (i \<in> set fs) (run = Some i) (timer_of W i)"
  using assms by (auto simp: timers_ok_def)

lemma timer_new_ok:
  assumes "timers_ok [] run W" "unwrapped (timer_of W i)"
  shows "\<exists>W'. timer_new i W = Return W' \<and> timers_ok [] run W' \<and> loop_base W' = loop_base W"
proof -
  let ?t = "(ev_timer_init 0 1000 (wrap_init (timer_of W i)))\<lparr>unwrapped := False, weak := True\<rparr>"
  have r: "timer_new i W = Return (set_timer i ?t W)"
    by (simp add: timer_new_def timer_object_def wrap_wrap_def oassert_def ev_timer_init_def ev_init_def wrap_init_def)
  have "timers_ok [] run (set_timer i ?t W)"
    using assms timers_okD [OF assms(1)] timers_ok_at [OF assms(1), of i]
    by (intro timers_ok_step [OF assms(1), of _ i] heap_ok_frame pendings_ok_frame)
      (auto simp: timer_oks ev_timer_init_def ev_init_def wrap_init_def)
  with r show ?thesis by (simp add: loop_base_def)
qed

lemma timer_start_ok:
  assumes "timers_ok [] run W" "may_start h args run W i"
  shows "\<exists>W'. timer_start h clock args i W = Return W' \<and> timers_ok [] run W' \<and> loop_base W' = loop_base W \<and>
    active (timer_of W' i) \<and> at (timer_of W' i) = clock + integer_value h (arg args 0) \<and>
    repeat (timer_of W' i) = integer_value h (arg args 1)"
proof -
  let ?t = "ev_timer_init (integer_value h (arg args 0)) (integer_value h (arg args 1)) (timer_of W i)"
  let ?W = "(set_timer i ?t W)\<lparr>mn_now := clock\<rparr>"
  have t: "live W i" "\<not> active (timer_of W i)" "\<not> pending (timer_of W i)" "length args = 2"
    "keeps_kind run W i (integer_value h (arg args 1))"
    using assms(2) by (auto simp: may_start_def)
  have ok: "heap_ok ?W" "pendings_ok ?W"
    using t timers_okD [OF assms(1)] heap_ok_frame [of W ?t i] pendings_ok_frame [of W ?t i]
    by (simp_all add: ev_timer_init_def ev_init_def)
  obtain W1 where W1: "ev_timer_start i ?W = Return W1" "heap_ok W1" "pendings_ok W1"
    "timer_of W1 = (timer_of W)(i := ?t\<lparr>at := at ?t + clock, active := True\<rparr>)"
    "loop_base W1 = loop_base W"
    using ev_timer_start_ok [OF ok, of i] t
    by (auto simp: ev_timer_init_def ev_init_def keeps_kind_def loop_base_def)
  let ?t1 = "timer_of W1 i"
  have r: "timer_start h clock args i W = Return (set_timer i (?t1\<lparr>refs := refs ?t1 + 1, weak := False\<rparr>) W1)"
    using t W1(1,4)
    by (simp add: timer_start_def Let_def timer_object_def wrap_ref_def oassert_def ev_timer_init_def ev_init_def)
  have "timers_ok [] run (set_timer i (?t1\<lparr>refs := refs ?t1 + 1, weak := False\<rparr>) W1)"
    using W1 t timers_okD [OF assms(1)] timers_ok_at [OF assms(1), of i]
    by (intro timers_ok_step [OF assms(1), of _ i] heap_ok_frame pendings_ok_frame)
      (auto simp: timer_oks ev_timer_init_def ev_init_def keeps_kind_def)
  with r W1 show ?thesis by (simp add: loop_base_def ev_timer_init_def)
qed

lemma timer_stop_ok:
  assumes "timers_ok [] run W" "live W i"
  shows "\<exists>W'. timer_stop i W = Return W' \<and> timers_ok [] run W' \<and> loop_base W' = loop_base W \<and>
    \<not> active (timer_of W' i)"
proof (cases "active (timer_of W i)")
  case True
  note t = timers_okD [OF assms(1)] timers_ok_at [OF assms(1), of i]
  obtain W1 where W1: "ev_timer_stop i W = Return W1" "heap_ok W1" "pendings_ok W1"
    "timer_of W1 = (timer_of W)(i := (timer_of W i)\<lparr>active := False, pending := False, at := at (timer_of W i) - mn_now W\<rparr>)"
    "loop_base W1 = loop_base W"
    using ev_timer_stop_ok [OF t(1,2), of i] True by (auto simp: loop_base_def)
  let ?t = "timer_of W1 i"
  let ?t' = "?t\<lparr>refs := refs ?t - 1, weak := (refs ?t = 1)\<rparr>"
  have r: "timer_stop i W = Return (set_timer i ?t' W1)"
    using True assms(2) W1(1,4) t(3) wrap_unref_ok(1) [of ?t]
    by (simp add: timer_stop_def timer_object_def timer_oks)
  have "timers_ok [] run (set_timer i ?t' W1)"
    using W1 t assms(2) True
    by (intro timers_ok_step [OF assms(1), of _ i] heap_ok_frame pendings_ok_frame) (auto simp: timer_oks)
  with r W1 show ?thesis by (simp add: loop_base_def)
qed (use assms in \<open>simp add: timer_stop_def\<close>)


lemma timer_again_ok:
  assumes "timers_ok [] run W" "may_again h args run W i"
  shows "\<exists>W'. timer_again h args i W = Return W' \<and> timers_ok [] run W' \<and> loop_base W' = loop_base W \<and>
    active (timer_of W' i) = (repeat (timer_of W' i) \<noteq> 0)"
proof -
  let ?t0 = "timer_of W i"
  let ?rpt = "integer_value h (arg args 0)"
  define t where "t = (if args \<noteq> [] \<and> 0 < ?rpt then ?t0\<lparr>repeat := ?rpt\<rparr> else ?t0)"
  have W: "(if length args > 0 then let rpt = ?rpt
      in if 0 < rpt then set_timer i (?t0\<lparr>repeat := rpt\<rparr>) W else W else W) = set_timer i t W"
    by (simp add: t_def set_timer_def)
  have same: "active t = active ?t0" "pending t = pending ?t0" "refs t = refs ?t0"
    "pend_at t = pend_at ?t0" "at t = at ?t0" "weak t = weak ?t0" "unwrapped t = unwrapped ?t0"
    "repeat t = (if args \<noteq> [] \<and> 0 < ?rpt then ?rpt else repeat ?t0)"
    by (simp_all add: t_def)
  note i = timers_okD [OF assms(1)] timers_ok_at [OF assms(1), of i]
  have live: "live W i" "pending ?t0 \<Longrightarrow> active ?t0"
    and kind: "args \<noteq> [] \<and> 0 < ?rpt \<Longrightarrow> keeps_kind run W i ?rpt"
    using assms(2) by (auto simp: may_again_def)
  have ok: "heap_ok (set_timer i t W)" "pendings_ok (set_timer i t W)"
    using i same heap_ok_frame [of W t i] pendings_ok_frame [of W t i] by simp_all
  have ok0: "wrap_ok ?t0" "refs ?t0 = timer_refs False (run = Some i) ?t0" "0 \<le> repeat ?t0"
    using i(3) live by (simp_all add: timer_ok_def)
  have nonneg: "0 \<le> repeat (timer_of (set_timer i t W) i)" using ok0(3) same(8) by simp
  obtain W1 where W1: "ev_timer_again i (set_timer i t W) = Return W1" "heap_ok W1" "pendings_ok W1"
    "only i W W1" "loop_base W1 = loop_base W" "active (timer_of W1 i) = (repeat t \<noteq> 0)"
    "pending (timer_of W1 i) = (pending t \<and> \<not> (active t \<and> repeat t = 0))"
    "repeat (timer_of W1 i) = repeat t" "refs (timer_of W1 i) = refs ?t0"
    "weak (timer_of W1 i) = weak ?t0" "unwrapped (timer_of W1 i) = unwrapped ?t0"
    using ev_timer_again_ok [OF ok nonneg] same(3,6,7) by (auto simp: loop_base_def only_def)
  let ?t1 = "timer_of W1 i"
  let ?d = "of_bool (active ?t1) - of_bool (active ?t0) :: int"
  let ?t2 = "if active ?t1 = active ?t0 then ?t1
    else ?t1\<lparr>refs := refs ?t1 + ?d, weak := (refs ?t1 + ?d = 0)\<rparr>"
  have r: "timer_again h args i W = Return (set_timer i ?t2 W1)"
    using W1(9-11) ok0 live(1)
    unfolding timer_again_def Let_def W [unfolded Let_def] W1(1)
    by (auto simp: timer_object_def wrap_ref_def wrap_unref_def oassert_def timer_oks)
  have "timer_ok False (run = Some i) ?t2"
    using W1(6-11) ok0 live kind same
    by (auto simp: timer_oks keeps_kind_def split: if_splits)
  then have "timers_ok [] run (set_timer i ?t2 W1)"
    using W1
    by (intro timers_ok_step [OF assms(1), of _ i] heap_ok_frame pendings_ok_frame) (auto simp: only_def)
  with r W1 show ?thesis by (simp add: loop_base_def)
qed

lemma repeat_setter_ok:
  assumes "timers_ok [] run W" "live W i" "keeps_kind run W i (integer_value h v)"
  shows "timers_ok [] run (repeat_setter h v i W)" "loop_base (repeat_setter h v i W) = loop_base W"
  using assms timers_okD [OF assms(1)] timers_ok_at [OF assms(1), of i]
  unfolding repeat_setter_def
  by (intro timers_ok_step [OF assms(1), of _ i] heap_ok_frame pendings_ok_frame)
    (auto simp: timer_oks keeps_kind_def loop_base_def)

lemma collect_ok:
  assumes "timers_ok [] run W" "live W i" "weak (timer_of W i)" "run \<noteq> Some i"
  shows "\<exists>W1 W'. timer_object weak_callback i W = Return W1 \<and> timer_destroy i W1 = Return W' \<and>
    timers_ok [] run W' \<and> loop_base W' = loop_base W"
proof -
  note t = timers_okD [OF assms(1)] timers_ok_at [OF assms(1), of i]
  let ?t = "(timer_of W i)\<lparr>weak := False, unwrapped := True\<rparr>"
  let ?W1 = "set_timer i ?t W"
  have s: "\<not> active (timer_of W i)" "\<not> pending (timer_of W i)" "refs (timer_of W i) = 0"
    using t(3) assms(2-4) by (auto simp: timer_oks of_bool_def split: if_splits)
  have r: "timer_object weak_callback i W = Return ?W1"
    by (simp add: timer_object_def weak_callback_def oassert_def s)
  have ok: "timers_ok [] run ?W1"
    using t s assms(4)
    by (intro timers_ok_step [OF assms(1), of _ i] heap_ok_frame pendings_ok_frame) (auto simp: timer_oks)
  have "timer_destroy i ?W1 = Return ?W1"
    using s by (simp add: timer_destroy_def ev_timer_stop_def clear_pending_def)
  with r ok show ?thesis by (simp add: loop_base_def)
qed

definition due_count :: "world \<Rightarrow> nat" where
  "due_count W = size (filter_mset (\<lambda>e. e_at e < mn_now W) (mset (entries W)))"

text \<open>The entry at the top belongs to an active timer.\<close>

lemma heap_ok_first:
  assumes "heap_ok W" "heap_first (timers W) = Some e"
  shows "active (timer_of W (e_timer e))" "at (timer_of W (e_timer e)) = e_at e"
    "index_of (timers W) (e_timer e) = 0" "entries W ! 0 = e" "entries W \<noteq> []" "e \<in> set (entries W)"
proof -
  have e: "entries W \<noteq> []" "entries W ! 0 = e" using assms(2) by (auto simp: heap_first_def split: if_splits)
  then have "e \<in> set (entries W)" using nth_mem [of 0 "entries W"] by simp
  moreover have "index_of (timers W) (e_timer e) = 0"
    using assms(1) e by (auto simp: heap_ok_def verify_heap_def)
  ultimately show "active (timer_of W (e_timer e))" "at (timer_of W (e_timer e)) = e_at e"
    "index_of (timers W) (e_timer e) = 0" "entries W ! 0 = e" "entries W \<noteq> []" "e \<in> set (entries W)"
    using assms(1) e by (auto simp: heap_ok_def entry_for_def Let_def)
qed

lemma heap_ok_retime_top:
  assumes "heap_ok W" "heap_first (timers W) = Some e" "active t"
  shows "heap_ok ((set_timer (e_timer e) t W)\<lparr>timers := downheap 0 (at_cache 0 (at t) (timers W))\<rparr>)"
    "add_mset e (mset (cells (downheap 0 (at_cache 0 (at t) (timers W))))) =
       add_mset \<lparr>e_at = at t, e_timer = e_timer e\<rparr> (mset (entries W))"
    "length (cells (downheap 0 (at_cache 0 (at t) (timers W)))) = length (entries W)"
proof -
  note e = heap_ok_first [OF assms(1,2)]
  have v: "verify_heap (timers W)" using assms(1) by (simp add: heap_ok_def)
  have "hd (entries W) = e" using e(4,5) by (simp add: hd_conv_nth)
  then have m: "add_mset e (mset (cells (downheap 0 (at_cache 0 (at t) (timers W))))) =
      add_mset (e\<lparr>e_at := at t\<rparr>) (mset (entries W))"
    using retime_top_ok(2) [OF v e(5), of "at t"] by simp
  moreover have "e\<lparr>e_at := at t\<rparr> = \<lparr>e_at = at t, e_timer = e_timer e\<rparr>"
    "e = \<lparr>e_at = at (timer_of W (e_timer e)), e_timer = e_timer e\<rparr>" using e(2) by (cases e, simp)+
  ultimately show m': "add_mset e (mset (cells (downheap 0 (at_cache 0 (at t) (timers W))))) =
      add_mset \<lparr>e_at = at t, e_timer = e_timer e\<rparr> (mset (entries W))"
    and "heap_ok ((set_timer (e_timer e) t W)\<lparr>timers := downheap 0 (at_cache 0 (at t) (timers W))\<rparr>)"
    "length (cells (downheap 0 (at_cache 0 (at t) (timers W)))) = length (entries W)"
    using heap_ok_retime [OF assms(1) e(1) assms(3) retime_top_ok(1) [OF v e(5)]] by simp_all
qed

lemma reify_one_ok:
  assumes "timers_ok fs None W" "heap_first (timers W) = Some e" "e_at e < mn_now W"
  shows "\<exists>W'. reify_one e W = Return W' \<and> timers_ok (e_timer e # fs) None W' \<and> loop_base W' = loop_base W \<and>
    due_count W' < due_count W"
proof -
  let ?i = "e_timer e"
  let ?t = "timer_of W ?i"
  note i = timers_okD [OF assms(1)] timers_ok_at [OF assms(1), of ?i]
  note e = heap_ok_first [OF i(1) assms(2)]
  then have ok: "wrap_ok ?t" "refs ?t = 1" "0 \<le> repeat ?t" "live W ?i"
    "repeat ?t = 0 \<Longrightarrow> \<not> pending ?t \<and> ?i \<notin> set fs"
    using i(3) by (auto simp: timer_ok_def timer_refs_def)
  show ?thesis
  proof (cases "repeat ?t = 0")
    case True
    obtain W1 where W1: "ev_timer_stop ?i W = Return W1" "heap_ok W1" "pendings_ok W1" "mn_now W1 = mn_now W"
      "timer_of W1 = (timer_of W)(?i := ?t\<lparr>active := False, pending := False, at := at ?t - mn_now W\<rparr>)"
      "loop_base W1 = loop_base W"
      using ev_timer_stop_ok [OF i(1,2), of ?i] e(1) by (auto simp: loop_base_def)
    have es: "entries W1 = cells (heap_remove 0 (timers W))"
      using W1(1) e by (auto simp: ev_timer_stop_def Let_def oassert_def split: if_splits)
    have "timers_ok (?i # fs) None W1"
      using W1 ok True by (intro timers_ok_step [OF assms(1), of _ ?i]) (auto simp: timer_oks)
    moreover have "mset (entries W) = add_mset e (mset (entries W1))"
      using heap_remove_mset [of 0 "timers W"] e(4,5) es by simp
    then have "due_count W1 < due_count W" using assms(3) by (simp add: due_count_def W1(4))
    ultimately show ?thesis using W1 True by (simp add: reify_one_def Let_def)
  next
    case False
    define a where "a = (if at ?t + repeat ?t < mn_now W then mn_now W else at ?t + repeat ?t)"
    then have past: "\<not> a < mn_now W" by simp
    let ?W = "(set_timer ?i (?t\<lparr>at := a\<rparr>) W)\<lparr>timers := downheap 0 (at_cache 0 a (timers W))\<rparr>"
    note r = heap_ok_retime_top [OF i(1) assms(2), of "?t\<lparr>at := a\<rparr>"]
    have "reify_one e W = Return ?W"
      using False ok(3) by (simp add: reify_one_def Let_def oassert_def a_def)
    moreover have "timers_ok (?i # fs) None ?W"
      using r(1) e i(2) False ok
      by (intro timers_ok_step [OF assms(1), of _ ?i]) (auto simp: timer_oks intro: pendings_ok_frame)
    moreover have "due_count ?W < due_count W"
      using assms(3) past arg_cong [OF r(2), of "\<lambda>M. size (filter_mset (\<lambda>e. e_at e < mn_now W) M)"] e(1)
      by (simp add: due_count_def)
    ultimately show ?thesis using r(3) e(1) by (simp add: loop_base_def)
  qed
qed

lemma feed_ok:
  assumes "timers_ok (f # fs) None W"
  shows "timers_ok fs None (ev_feed_event f W)" "loop_base (ev_feed_event f W) = loop_base W"
proof -
  note i = timers_okD [OF assms] timers_ok_at [OF assms, of f]
  have h: "heap_ok (ev_feed_event f W)"
    using i(1) heap_ok_frame [of W "(timer_of W f)\<lparr>pending := True, pend_at := length (pendings W)\<rparr>" f]
    by (simp add: ev_feed_event_def Let_def)
  show "timers_ok fs None (ev_feed_event f W)"
    using h pendings_ok_feed [OF i(2), of f] i(3)
    by (intro timers_ok_step [OF assms, of _ f]) (auto simp: ev_feed_event_def Let_def timer_oks)
  show "loop_base (ev_feed_event f W) = loop_base W"
    by (simp add: ev_feed_event_def Let_def loop_base_def)
qed

lemma feeds_ok:
  "timers_ok fs None W \<Longrightarrow> timers_ok [] None (fold ev_feed_event fs W) \<and> loop_base (fold ev_feed_event fs W) = loop_base W"
  by (induction fs arbitrary: W) (auto simp: feed_ok)

lemma reify_loop_ok:
  "timers_ok fs None W \<Longrightarrow> due_count W < fuel \<Longrightarrow>
    \<exists>W' fs'. reify_loop fuel fs W = Some (Return (W', fs')) \<and> timers_ok fs' None W' \<and> loop_base W' = loop_base W"
proof (induction fuel arbitrary: fs W)
  case (Suc fuel)
  show ?case
  proof (cases "\<exists>e. heap_first (timers W) = Some e \<and> e_at e < mn_now W")
    case True
    then obtain e where e: "heap_first (timers W) = Some e" "e_at e < mn_now W" by blast
    obtain W1 where W1: "reify_one e W = Return W1" "timers_ok (e_timer e # fs) None W1"
      "loop_base W1 = loop_base W" "due_count W1 < due_count W"
      using reify_one_ok [OF Suc.prems(1) e] by blast
    then show ?thesis using Suc.IH [OF W1(2)] Suc.prems(2) e by simp
  next
    case False
    then show ?thesis using Suc.prems by (auto split: option.split)
  qed
qed simp

lemma reify_loop_inv:
  "timers_ok fs None W \<Longrightarrow> reify_loop fuel fs W = Some r \<Longrightarrow>
    \<exists>W' fs'. r = Return (W', fs') \<and> timers_ok fs' None W' \<and> loop_base W' = loop_base W"
proof (induction fuel arbitrary: fs W)
  case (Suc fuel)
  show ?case
  proof (cases "\<exists>e. heap_first (timers W) = Some e \<and> e_at e < mn_now W")
    case True
    then obtain e where e: "heap_first (timers W) = Some e" "e_at e < mn_now W" by blast
    obtain W1 where W1: "reify_one e W = Return W1" "timers_ok (e_timer e # fs) None W1"
      "loop_base W1 = loop_base W"
      using reify_one_ok [OF Suc.prems(1) e] by blast
    then show ?thesis using Suc.IH [OF W1(2)] Suc.prems(2) e by simp
  next
    case False
    then show ?thesis using Suc.prems by (auto split: option.splits)
  qed
qed simp


lemma timers_reify_ok:
  assumes "timers_ok [] None W" "due_count W < fuel"
  shows "\<exists>W'. timers_reify fuel W = Some (Return W')"
  using reify_loop_ok [OF assms] by (auto simp: timers_reify_def)

lemma timers_reify_inv:
  assumes "timers_ok [] None W" "timers_reify fuel W = Some r"
  shows "\<exists>W'. r = Return W' \<and> timers_ok [] None W' \<and> loop_base W' = loop_base W"
proof -
  obtain r0 where r0: "reify_loop fuel [] W = Some r0" "r = obind r0 (\<lambda>(W', rfeeds). Return (fold ev_feed_event rfeeds W'))"
    using assms(2) by (auto simp: timers_reify_def)
  obtain W' fs where "r0 = Return (W', fs)" "timers_ok fs None W'" "loop_base W' = loop_base W"
    using reify_loop_inv [OF assms(1) r0(1)] by blast
  then show ?thesis using r0(2) feeds_ok [of fs W'] by simp
qed

lemma pendings_okD:
  assumes "pendings_ok W" "pendings W = ps @ [p]"
  shows "(pending (timer_of W i) \<and> pend_at (timer_of W i) = k) =
     (if k = length ps then p = Some i else k < length ps \<and> ps ! k = Some i)"
proof -
  have "(k < Suc (length ps) \<and> (ps @ [p]) ! k = Some i) = (pending (timer_of W i) \<and> pend_at (timer_of W i) = k)"
    using assms unfolding pendings_ok_def by (metis length_append_singleton)
  then show ?thesis by (cases "k = length ps") (auto simp: nth_append less_Suc_eq)
qed

lemma pendings_ok_pop:
  assumes "pendings W = ps @ [p]" "pendings_ok W"
  shows "p = None \<Longrightarrow> pendings_ok (W\<lparr>pendings := ps\<rparr>)"
    and "p = Some j \<Longrightarrow> pendings_ok (set_timer j ((timer_of W j)\<lparr>pending := False\<rparr>) (W\<lparr>pendings := ps\<rparr>))"
proof -
  note d = pendings_okD [OF assms(2,1)]
  show "pendings_ok (W\<lparr>pendings := ps\<rparr>)" if "p = None"
    unfolding pendings_ok_def
  proof (intro allI)
    fix k i
    show "(k < length (pendings (W\<lparr>pendings := ps\<rparr>)) \<and> pendings (W\<lparr>pendings := ps\<rparr>) ! k = Some i) =
      (pending (timer_of (W\<lparr>pendings := ps\<rparr>) i) \<and> pend_at (timer_of (W\<lparr>pendings := ps\<rparr>) i) = k)"
      using that d [of i k] by (auto split: if_splits)
  qed
  show "pendings_ok (set_timer j ((timer_of W j)\<lparr>pending := False\<rparr>) (W\<lparr>pendings := ps\<rparr>))" if "p = Some j"
    unfolding pendings_ok_def 
  proof (intro allI)
    fix k i
    have "\<not> (k < length ps \<and> ps ! k = Some j)"
      using that d [of j k] d [of j "length ps"] by auto
    then show "(k < length (pendings (set_timer j ((timer_of W j)\<lparr>pending := False\<rparr>) (W\<lparr>pendings := ps\<rparr>))) \<and>
        pendings (set_timer j ((timer_of W j)\<lparr>pending := False\<rparr>) (W\<lparr>pendings := ps\<rparr>)) ! k = Some i) =
      (pending (timer_of (set_timer j ((timer_of W j)\<lparr>pending := False\<rparr>) (W\<lparr>pendings := ps\<rparr>)) i) \<and>
       pend_at (timer_of (set_timer j ((timer_of W j)\<lparr>pending := False\<rparr>) (W\<lparr>pendings := ps\<rparr>)) i) = k)"
      using that d [of i k] by (auto split: if_splits)
  qed
qed

lemma take_pending_ok:
  assumes "timers_ok [] None W" "pendings W \<noteq> []" "take_pending W = (run, W')"
  shows "timers_ok [] run W' \<and> loop_base W' = loop_base W \<and>
    (\<forall>i. run = Some i \<longrightarrow> active (timer_of W' i) = (repeat (timer_of W' i) \<noteq> 0))"
proof -
  note i = timers_okD [OF assms(1)]
  obtain ps p where ps: "pendings W = ps @ [p]" using assms(2) by (metis append_butlast_last_id)
  show ?thesis
  proof (cases p)
    case None
    have "timers_ok [] None (W\<lparr>pendings := ps\<rparr>)"
      using i timers_ok_at [OF assms(1)] pendings_ok_pop(1) [OF ps] None
      by (intro timers_ok_step [OF assms(1), of _ 0]) auto
    then show ?thesis using assms(3) None ps by (auto simp: take_pending_def Let_def loop_base_def)
  next
    case (Some j)
    have j: "pending (timer_of W j)" "pend_at (timer_of W j) = length ps"
      using i(2) ps Some unfolding pendings_ok_def
      by (metis length_append_singleton lessI nth_append_length)+
    let ?W = "set_timer j ((timer_of W j)\<lparr>pending := False\<rparr>) (W\<lparr>pendings := ps\<rparr>)"
    have "pendings_ok ?W" using pendings_ok_pop(2) [OF ps i(2)] Some by blast
    moreover have "heap_ok ?W" by (rule heap_ok_frame) (use i(1) in simp_all)
    ultimately have "timers_ok [] (Some j) ?W"
      using timers_ok_at [OF assms(1), of j] j
      by (intro timers_ok_step [OF assms(1), of _ j]) (auto simp: timer_oks)
    then show ?thesis using assms(3) Some ps j timers_ok_at [OF assms(1), of j]
      by (auto simp: take_pending_def Let_def loop_base_def timer_ok_def)
  qed
qed

lemma timeout_done_ok:
  assumes "timers_ok [] (Some i) W"
  shows "\<exists>W'. timeout_done i W = Return W' \<and> timers_ok [] None W' \<and> loop_base W' = loop_base W"
proof -
  let ?t = "timer_of W i"
  note t = timers_okD [OF assms(1)] timers_ok_at [OF assms(1), of i]
  let ?t' = "?t\<lparr>refs := refs ?t - 1, weak := (refs ?t = 1)\<rparr>"
  let ?W = "if repeat ?t = 0 then set_timer i ?t' W else W"
  have "wrap_ok ?t" "repeat ?t = 0 \<Longrightarrow> 0 < refs ?t" using t(3) by (auto simp: timer_ok_def timer_refs_def)
  then have "timeout_done i W = Return ?W"
    by (simp add: timeout_done_def timer_object_def wrap_unref_ok)
  moreover have "timers_ok [] None ?W"
    using t by (intro timers_ok_step [OF assms(1), of _ i])
       (auto simp: timer_oks intro!: heap_ok_frame pendings_ok_frame)
  ultimately show ?thesis by (simp add: loop_base_def)
qed

lemma running_repeat:
  assumes "timers_ok [] (Some i) W" "repeat (timer_of W i) \<noteq> 0"
  shows "timers_ok [] None W"
proof (rule timers_ok_step [OF assms(1), of _ i])
  show "timer_ok (i \<in> set []) (None = Some i) (timer_of W i)"
    using timers_ok_at [OF assms(1), of i] assms(2) by (auto simp: timer_oks)
qed (use timers_okD [OF assms(1)] in auto)

lemma timer_step_ok:
  assumes "timer_step h (run, W) (run', W')" "timers_ok [] run W"
  shows "timers_ok [] run' W' \<and> loop_base W' = loop_base W"
  using assms
proof (cases rule: timer_step.cases)
  case take
  then show ?thesis using take_pending_ok [of W run' W'] assms(2) by auto
next
  case (tick t)
  then show ?thesis using assms(2) by (auto simp: timers_ok_def loop_base_def)
next
  case (take_stop i W1)
  then have 1: "timers_ok [] (Some i) W1 \<and> loop_base W1 = loop_base W" using take_pending_ok assms(2) by blast
  have r: "repeat (timer_of W1 i) \<noteq> 0" using take_stop take_pending_ok assms(2) by blast
  have "timers_ok [] None W1" using running_repeat 1 r by blast
  moreover have "live W1 i" using timers_ok_at [of "[]" "Some i" W1 i] 1 by (auto simp: timer_ok_def)
  ultimately show ?thesis using take_stop 1 timer_stop_ok [of None W1 i] by (auto simp: on_timeout_def)
next
  case (new i)
  then show ?thesis using timer_new_ok [OF assms(2), of i] by auto
next
  case (start args i clock)
  then show ?thesis using timer_start_ok [OF assms(2), of h args i clock] by auto
next
  case (stop i)
  then show ?thesis using timer_stop_ok [OF assms(2), of i] by auto
next
  case (again args i)
  then show ?thesis using timer_again_ok [OF assms(2), of h args i] by auto
next
  case (set_repeat i v)
  then show ?thesis using repeat_setter_ok [OF assms(2), of i h v] by auto
next
  case (collect i W1)
  then show ?thesis using collect_ok [OF assms(2), of i] by auto
next
  case (reify fuel)
  then show ?thesis using timers_reify_inv [of W fuel] assms(2) by auto
next
  case (finish i)
  then show ?thesis using timeout_done_ok [of i W] assms(2) by auto
qed

lemma reachable_ok:
  assumes "reachable h W0 s" "start_world W0"
  shows "timers_ok [] (fst s) (snd s) \<and> loop_base (snd s) = activecnt W0"
  using assms
proof (induction rule: reachable.induct)
  case refl
  then show ?case
    by (simp add: start_world_def timers_ok_def heap_ok_def verify_heap_def pendings_ok_def entry_for_def timer_ok_def Let_def loop_base_def)
next
  case (step s s')
  then show ?case using timer_step_ok [of h "fst s" "snd s" "fst s'" "snd s'"] by simp
qed

section \<open>What timers_reify does\<close>

definition is_due :: "world \<Rightarrow> nat \<Rightarrow> bool" where
  "is_due W i \<longleftrightarrow> active (timer_of W i) \<and> at (timer_of W i) < mn_now W"

lemma reify_one_effect:
  assumes "timers_ok fs None W" "heap_first (timers W) = Some e" "reify_one e W = Return W'"
  shows "only (e_timer e) W W' \<and>
    active (timer_of W' (e_timer e)) = (repeat (timer_of W (e_timer e)) \<noteq> 0) \<and>
    pending (timer_of W' (e_timer e)) = pending (timer_of W (e_timer e)) \<and>
    repeat (timer_of W' (e_timer e)) = repeat (timer_of W (e_timer e)) \<and> \<not> is_due W' (e_timer e)"
proof -
  let ?t = "timer_of W (e_timer e)"
  have e: "active ?t" using heap_ok_first(1) [OF timers_okD(1) [OF assms(1)] assms(2)] .
  have p: "repeat ?t = 0 \<Longrightarrow> \<not> pending ?t"
    using timers_ok_at [OF assms(1), of "e_timer e"] e by (auto simp: timer_ok_def)
  show ?thesis
    using assms(3) ev_timer_stop_ok [OF timers_okD [OF assms(1)], of "e_timer e"] e p
    by (cases "repeat ?t = 0")
      (auto simp: reify_one_def Let_def oassert_def is_due_def only_def split: if_splits)
qed

lemma not_due_top:
  assumes "heap_ok W" "\<nexists>e. heap_first (timers W) = Some e \<and> e_at e < mn_now W"
  shows "\<not> is_due W i"
proof
  assume i: "is_due W i"
  then have "\<lparr>e_at = at (timer_of W i), e_timer = i\<rparr> \<in># heap_bag (timers W)"
    using assms(1) by (simp add: heap_ok_def entry_for_def is_due_def heap_bag_def)
  then show False using libev.nothing_due [OF _ assms(2)] assms(1) i by (force simp: heap_ok_def is_due_def)
qed

lemma reify_loop_effect:
  "timers_ok fs None W \<Longrightarrow> reify_loop fuel fs W = Some (Return (W', fs')) \<Longrightarrow>
    set fs' = set fs \<union> Collect (is_due W) \<and> mn_now W' = mn_now W \<and>
    (\<forall>i. \<not> is_due W' i \<and> pending (timer_of W' i) = pending (timer_of W i) \<and>
       repeat (timer_of W' i) = repeat (timer_of W i) \<and>
       active (timer_of W' i) = (active (timer_of W i) \<and> (is_due W i \<longrightarrow> repeat (timer_of W i) \<noteq> 0)))"
proof (induction fuel arbitrary: fs W)
  case (Suc fuel)
  show ?case
  proof (cases "\<exists>e. heap_first (timers W) = Some e \<and> e_at e < mn_now W")
    case True
    then obtain e where e: "heap_first (timers W) = Some e" "e_at e < mn_now W" by blast
    obtain W1 where W1: "reify_one e W = Return W1" "timers_ok (e_timer e # fs) None W1"
      using reify_one_ok [OF Suc.prems(1) e] by blast
    note eff = reify_one_effect [OF Suc.prems(1) e(1) W1(1)]
    have due: "is_due W (e_timer e)"
      using heap_ok_first [OF timers_okD(1) [OF Suc.prems(1)] e(1)] e(2) by (simp add: is_due_def)
    have 1: "is_due W1 i = (is_due W i \<and> i \<noteq> e_timer e)" for i
      using eff by (cases "i = e_timer e") (auto simp: is_due_def only_def)
    have "reify_loop fuel (e_timer e # fs) W1 = Some (Return (W', fs'))"
      using Suc.prems(2) e W1(1) by simp
    note IH = Suc.IH [OF W1(2) this]
    have "set fs' = set fs \<union> Collect (is_due W)" using IH 1 due by auto
    moreover have "mn_now W' = mn_now W" using IH eff by (simp add: only_def)
    moreover have "\<not> is_due W' i \<and> pending (timer_of W' i) = pending (timer_of W i) \<and>
       repeat (timer_of W' i) = repeat (timer_of W i) \<and>
       active (timer_of W' i) = (active (timer_of W i) \<and> (is_due W i \<longrightarrow> repeat (timer_of W i) \<noteq> 0))" for i
    proof -
      have act: "active (timer_of W (e_timer e))" using due by (simp add: is_due_def)
      have "\<not> is_due W' i \<and> pending (timer_of W' i) = pending (timer_of W1 i) \<and>
         repeat (timer_of W' i) = repeat (timer_of W1 i) \<and>
         active (timer_of W' i) = (active (timer_of W1 i) \<and> (is_due W1 i \<longrightarrow> repeat (timer_of W1 i) \<noteq> 0))"
        using IH by blast
      then show ?thesis using 1 [of i] eff due act
        by (cases "i = e_timer e") (simp_all add: only_def)
    qed
    ultimately show ?thesis by blast
  next
    case False
    then have "W' = W" "fs' = fs" using Suc.prems(2) by (auto split: option.splits)
    then show ?thesis using not_due_top [OF timers_okD(1) [OF Suc.prems(1)] False] by auto
  qed
qed simp

lemma feeds_effect:
  "pending (timer_of (fold ev_feed_event fs W) i) = (pending (timer_of W i) \<or> i \<in> set fs) \<and>
   active (timer_of (fold ev_feed_event fs W) i) = active (timer_of W i) \<and>
   at (timer_of (fold ev_feed_event fs W) i) = at (timer_of W i) \<and>
   mn_now (fold ev_feed_event fs W) = mn_now W"
  by (induction fs arbitrary: W) (auto simp: ev_feed_event_def Let_def)

lemma due_count_entries: "due_count W \<le> length (entries W)"
  using size_filter_mset_lesseq [of "\<lambda>e. e_at e < mn_now W" "mset (entries W)"] by (simp add: due_count_def)

section \<open>Properties\<close>


text \<open>
  Property C10: in every reachable state each permitted operation returns: no assertion of
  \<open>ObjectWrap\<close> or libev fails when a timer is made, started, stopped, restarted, collected or
  called back, and \<open>timers_reify\<close> ends after at most one turn for each entry of the heap.
\<close>

theorem timers_never_abort:
  assumes "reachable h W0 (run, W)" "start_world W0"
  shows "(unwrapped (timer_of W i) \<longrightarrow> (\<exists>W'. timer_new i W = Return W')) \<and>
    (may_start h args run W i \<longrightarrow> (\<exists>W'. timer_start h clock args i W = Return W')) \<and>
    (live W i \<longrightarrow> (\<exists>W'. timer_stop i W = Return W' \<and> \<not> active (timer_of W' i))) \<and>
    (may_again h args run W i \<longrightarrow> (\<exists>W'. timer_again h args i W = Return W')) \<and>
    (live W i \<and> weak (timer_of W i) \<and> run \<noteq> Some i \<longrightarrow> (\<exists>W1 W'.
       timer_object weak_callback i W = Return W1 \<and> timer_destroy i W1 = Return W')) \<and>
    (run = Some i \<longrightarrow> (\<exists>W'. timeout_done i W = Return W')) \<and>
    (run = None \<longrightarrow> (\<exists>W'. timers_reify (Suc (length (entries W))) W = Some (Return W')))"
proof -
  have ok: "timers_ok [] run W" using reachable_ok [OF assms] by simp
  have "timers_ok [] None W \<Longrightarrow> \<exists>W'. timers_reify (Suc (length (entries W))) W = Some (Return W')"
    by (rule timers_reify_ok) (simp_all add: due_count_entries less_Suc_eq_le)
  then show ?thesis
    using ok timer_new_ok [OF ok, of i] timer_start_ok [OF ok, of h args i clock] timer_stop_ok [OF ok, of i]
      timer_again_ok [OF ok, of h args i] collect_ok [OF ok, of i] timeout_done_ok [of i W]
    by blast
qed

text \<open>
  Property C11: \<open>timers_reify\<close> makes pending exactly the timers whose time has passed: the
  repeating ones stay active with a time that is not past, the one-shot ones are stopped and
  the others are not touched.
\<close>

theorem timers_reify_correct:
  assumes "reachable h W0 (None, W)" "start_world W0"
  shows "\<exists>W'. timers_reify (Suc (length (entries W))) W = Some (Return W') \<and>
    (\<forall>i. let t = timer_of W i; t' = timer_of W' i; due = active t \<and> at t < mn_now W
       in (pending t' \<longleftrightarrow> pending t \<or> due) \<and>
          (active t' \<longleftrightarrow> active t \<and> (due \<longrightarrow> repeat t \<noteq> 0)) \<and>
          (active t' \<longrightarrow> mn_now W \<le> at t'))"
proof -
  have ok: "timers_ok [] None W" using reachable_ok [OF assms] by simp
  obtain W1 fs where r: "reify_loop (Suc (length (entries W))) [] W = Some (Return (W1, fs))"
    using reify_loop_ok [OF ok, of "Suc (length (entries W))"] due_count_entries [of W] by (auto simp: less_Suc_eq_le)
  note e = reify_loop_effect [OF ok r]
  show ?thesis
    using r e feeds_effect [of fs W1]
    by (auto simp: timers_reify_def Let_def is_due_def simp del: reify_loop.simps)
qed

lemma one_entry:
  assumes "heap_ok W" "active (timer_of W i)"
  shows "size (filter_mset (\<lambda>e. e_timer e = i) (mset (entries W))) = 1"
proof -
  obtain M where M: "mset (entries W) = add_mset \<lparr>e_at = at (timer_of W i), e_timer = i\<rparr> M" "\<forall>e\<in>#M. e_timer e \<noteq> i"
    using heap_ok_cell(3) [OF assms] by blast
  have "filter_mset (\<lambda>e. e_timer e = i) M = {#}" using M(2) by (auto simp: filter_mset_eq_conv)
  then show ?thesis by (simp add: M(1))
qed

text \<open>
  Cancelling a one-shot timer whose event is already pending, the way
  \<open>clearTimeout\<close> does it by clearing \<open>callback\<close> and calling \<open>stop\<close>, leaks it: \<open>stop\<close> does
  nothing, the event is still delivered, and because \<open>callback\<close> is not a function the
  reference is not given back, so the collector can never take the object.
\<close>

theorem cancelled_timeout_leaks:
  assumes "reachable h W0 (None, W)" "start_world W0" "live W i"
    and "pending (timer_of W i)" "\<not> active (timer_of W i)"
  shows "timer_stop i W = Return W \<and>
    (\<forall>W1. pendings W \<noteq> [] \<and> take_pending W = (Some i, W1) \<longrightarrow>
       on_timeout None i W1 = Return W1 \<and> \<not> active (timer_of W1 i) \<and> \<not> pending (timer_of W1 i) \<and>
       refs (timer_of W1 i) = 1 \<and> \<not> weak (timer_of W1 i) \<and> timer_stop i W1 = Return W1)"
proof -
  have "timers_ok [] None W" using reachable_ok [OF assms(1,2)] by simp
  from timers_ok_at [OF this, of i] show ?thesis
    using assms(3-5)
    by (auto simp: timer_stop_def on_timeout_def take_pending_def Let_def timer_ok_def timer_refs_def wrap_ok_def
        split: option.splits)
qed

text \<open>
  \<open>start\<close> on a timer that is already active initialises a watcher that is in the
  heap: the loop counts it twice and the heap holds two entries for it; a following \<open>stop\<close>
  removes one of them, after which the collector may take the object although an entry of the
  heap still points into it.
\<close>

theorem start_active_dangles:
  assumes "reachable h W0 (None, W)" "start_world W0" "live W i" "active (timer_of W i)"
    and "length args = 2" "0 \<le> integer_value h (arg args 1)"
  shows "\<exists>W1 W2. timer_start h clock args i W = Return W1 \<and>
    activecnt W1 = activecnt W + 1 \<and> size (filter_mset (\<lambda>e. e_timer e = i) (mset (entries W1))) = 2 \<and>
    timer_stop i W1 = Return W2 \<and> \<not> active (timer_of W2 i) \<and> weak (timer_of W2 i) \<and>
    activecnt W2 = activecnt W \<and> (\<exists>e\<in>set (entries W2). e_timer e = i)"
proof -
  have ok: "timers_ok [] None W" using reachable_ok [OF assms(1,2)] by simp
  note h = timers_okD(1) [OF ok]
  let ?t = "ev_timer_init (integer_value h (arg args 0)) (integer_value h (arg args 1)) (timer_of W i)"
  let ?t1 = "?t\<lparr>at := at ?t + clock, active := True\<rparr>" and ?e = "\<lparr>e_at = at ?t + clock, e_timer = i\<rparr>"
  let ?H = "heap_insert ?e (timers W)"
  let ?W1 = "(set_timer i ?t1 (W\<lparr>mn_now := clock\<rparr>))\<lparr>timers := ?H, activecnt := activecnt W + 1\<rparr>"
  have t: "live W i" "refs (timer_of W i) = 1" "\<not> weak (timer_of W i)"
    using timers_ok_at [OF ok, of i] assms(3,4) by (auto simp: timer_oks)
  have 1: "timer_start h clock args i W = Return ?W1"
    using assms(4-6)
    by (simp add: timer_start_def Let_def ev_timer_start_def ev_timer_init_def ev_init_def oassert_def set_timer_def)
  have c: "size (filter_mset (\<lambda>e. e_timer e = i) (mset (cells ?H))) = 2"
    using one_entry [OF h assms(4)] by (simp add: heap_insert_mset)
  let ?k = "index_of ?H i"
  have k: "?k < length (cells ?H)" "cells ?H ! ?k = ?e" using heap_insert_at [of ?e "timers W"] by simp_all
  let ?t2 = "?t1\<lparr>at := at ?t, active := False, refs := 0, weak := True\<rparr>"
  let ?W2 = "(set_timer i ?t2 ?W1)\<lparr>timers := heap_remove ?k ?H, activecnt := activecnt W\<rparr>"
  have 2: "timer_stop i ?W1 = Return ?W2"
    using t k
    by (simp add: timer_stop_def ev_timer_stop_def clear_pending_def Let_def oassert_def ev_timer_init_def
        ev_init_def timer_object_def wrap_unref_def set_timer_def)
  have "mset (entries ?W2) = mset (entries W)"
    using heap_remove_mset [OF k(1), unfolded k(2)] by (simp add: heap_insert_mset)
  then have "set (entries ?W2) = set (entries W)" by (metis set_mset_mset)
  moreover have "\<lparr>e_at = at (timer_of W i), e_timer = i\<rparr> \<in> set (entries W)"
    using h assms(4) by (simp add: heap_ok_def entry_for_def)
  ultimately have e: "\<exists>e\<in>set (entries ?W2). e_timer e = i"
    by (intro bexI [of _ "\<lparr>e_at = at (timer_of W i), e_timer = i\<rparr>"]) simp_all
  show ?thesis by (intro exI [of _ ?W1] exI [of _ ?W2]) (use 1 2 c e in simp)
qed

text \<open>
  \<open>again\<close> with a positive argument in the callback of a one-shot timer starts it
  with a reference of its own, and as the timer repeats by the time the callback returns the
  reference of the one-shot event is kept: the object holds two references while it is active
  and one for ever after \<open>stop\<close>.
\<close>

theorem oneshot_again_leaks:
  assumes "reachable h W0 (Some i, W)" "start_world W0" "live W i"
    and "\<not> active (timer_of W i)" "\<not> pending (timer_of W i)" "repeat (timer_of W i) = 0"
    and "args \<noteq> []" "0 < integer_value h (arg args 0)"
  shows "\<exists>W1 W2. timer_again h args i W = Return W1 \<and> timeout_done i W1 = Return W1 \<and>
    active (timer_of W1 i) \<and> refs (timer_of W1 i) = 2 \<and>
    timer_stop i W1 = Return W2 \<and> \<not> active (timer_of W2 i) \<and> refs (timer_of W2 i) = 1 \<and>
    \<not> weak (timer_of W2 i)"
proof -
  have ok: "timers_ok [] (Some i) W" using reachable_ok [OF assms(1,2)] by simp
  note t = timers_ok_at [OF ok, of i]
  let ?rpt = "integer_value h (arg args 0)"
  let ?W0 = "set_timer i ((timer_of W i)\<lparr>repeat := ?rpt, at := ?rpt\<rparr>) W"
  have h: "heap_ok ?W0" "pendings_ok ?W0"
    using timers_okD [OF ok] assms(4) by (auto intro!: heap_ok_frame pendings_ok_frame)
  obtain W1 where W1: "ev_timer_start i ?W0 = Return W1" "heap_ok W1" "pendings_ok W1"
    "timer_of W1 i = (timer_of W i)\<lparr>repeat := ?rpt, at := ?rpt + mn_now W, active := True\<rparr>"
    using ev_timer_start_ok [OF h, of i] assms(4,8) by auto
  let ?W1 = "set_timer i ((timer_of W1 i)\<lparr>refs := 2, weak := False\<rparr>) W1"
  have t1: "live W i" "refs (timer_of W i) = 1" using t assms(3-6) by (auto simp: timer_oks)
  have 1: "timer_again h args i W = Return ?W1"
    using assms(4,7,8) W1 t1
    by (simp add: timer_again_def Let_def ev_timer_again_def timer_object_def wrap_ref_def oassert_def set_timer_def)
  have 2: "timeout_done i ?W1 = Return ?W1" using W1(4) assms(8) by (simp add: timeout_done_def)
  have h1: "heap_ok ?W1" "pendings_ok ?W1" using W1 by (auto intro: heap_ok_frame pendings_ok_frame)
  obtain W2 where W2: "ev_timer_stop i ?W1 = Return W2"
    "timer_of W2 i = (timer_of ?W1 i)\<lparr>active := False, pending := False, at := at (timer_of W1 i) - mn_now W1\<rparr>"
    using ev_timer_stop_ok [OF h1, of i] W1(4) by auto
  have 3: "timer_stop i ?W1 = Return (set_timer i ((timer_of W2 i)\<lparr>refs := 1, weak := False\<rparr>) W2)"
    using W1(4) W2 t1 by (simp add: timer_stop_def timer_object_def wrap_unref_def oassert_def)
  show ?thesis
    by (intro exI [of _ ?W1] exI [of _ "set_timer i ((timer_of W2 i)\<lparr>refs := 1, weak := False\<rparr>) W2"])
      (use 1 2 3 W1(4) W2(2) in simp)
qed

text \<open>
  \<open>Start\<close> checks its arguments: with two of them an inactive timer gets its first
  time from the moment of the call, unless the repeat is negative, which aborts the process.
\<close>

theorem timer_start_correct:
  assumes "reachable h W0 (run, W)" "start_world W0" "live W i" "\<not> active (timer_of W i)"
  shows "(length args \<noteq> 2 \<longrightarrow> timer_start h clock args i W = Throw (JsString ''Bad arguments'')) \<and>
    (length args = 2 \<and> integer_value h (arg args 1) < 0 \<longrightarrow> timer_start h clock args i W = Abort) \<and>
    (may_start h args run W i \<longrightarrow>
      (\<exists>W'. timer_start h clock args i W = Return W' \<and> active (timer_of W' i) \<and>
         at (timer_of W' i) = clock + integer_value h (arg args 0) \<and>
         repeat (timer_of W' i) = integer_value h (arg args 1) \<and>
         repeat_getter i W' = jint (integer_value h (arg args 1) div 1000)))"
proof -
  have ok: "timers_ok [] run W" using reachable_ok [OF assms(1,2)] by simp
  have "length args = 2 \<Longrightarrow> integer_value h (arg args 1) < 0 \<Longrightarrow> timer_start h clock args i W = Abort"
    by (simp add: timer_start_def Let_def ev_timer_start_def ev_timer_init_def ev_init_def oassert_def)
  moreover have "length args \<noteq> 2 \<longrightarrow> timer_start h clock args i W = Throw (JsString ''Bad arguments'')"
    by (simp add: timer_start_def)
  moreover have "\<exists>W'. timer_start h clock args i W = Return W' \<and> active (timer_of W' i) \<and>
         at (timer_of W' i) = clock + integer_value h (arg args 0) \<and>
         repeat (timer_of W' i) = integer_value h (arg args 1) \<and>
         repeat_getter i W' = jint (integer_value h (arg args 1) div 1000)" if m: "may_start h args run W i"
  proof -
    have "0 \<le> integer_value h (arg args 1)" using m by (simp add: may_start_def keeps_kind_def)
    then show ?thesis using timer_start_ok [OF ok m, of clock] by (fastforce simp: repeat_getter_def Let_def sgn_if)
  qed
  ultimately show ?thesis by blast
qed

section \<open>An example run\<close>

definition ex_jsconv :: conv where
  "ex_jsconv = \<lparr>other_to_number = \<lambda>_. NaN, other_to_string = \<lambda>_. []\<rparr>"

definition ex_blank :: timer where
  "ex_blank = \<lparr>refs = 0, weak = False, unwrapped = True, active = False, pending = False,
     pend_at = 0, at = 0, repeat = 0\<rparr>"

definition ex_timer :: "int \<Rightarrow> bool \<Rightarrow> bool \<Rightarrow> int \<Rightarrow> timer" where
  "ex_timer r act pnd a = \<lparr>refs = r, weak = (r = 0), unwrapped = False, active = act, pending = pnd,
     pend_at = 0, at = a, repeat = 0\<rparr>"

definition ex_world :: "timer \<Rightarrow> anhe list \<Rightarrow> nat option list \<Rightarrow> int \<Rightarrow> int \<Rightarrow> world" where
  "ex_world t es ps n now = \<lparr>timer_of = (\<lambda>_. ex_blank)(0 := t), timers = \<lparr>cells = es, index_of = (\<lambda>_. 0)\<rparr>,
     pendings = ps, activecnt = n, mn_now = now\<rparr>"

definition ex_start :: world where "ex_start = ex_world ex_blank [] [] 1 100"

text \<open>A timer of 10 ms is made, started and, at time 200, fired and called back.\<close>

definition ex_made :: world where
  "ex_made = ex_world ((ex_timer 0 False False 0)\<lparr>repeat := 1000\<rparr>) [] [] 1 100"

definition ex_started :: world where
  "ex_started = ex_world (ex_timer 1 True False 110) [\<lparr>e_at = 110, e_timer = 0\<rparr>] [] 2 100"

definition ex_fired :: world where
  "ex_fired = ex_world (ex_timer 1 False True (-90)) [] [Some 0] 1 200"

definition ex_called :: world where
  "ex_called = ex_world (ex_timer 1 False False (-90)) [] [] 1 200"

lemmas ex_worlds = ex_start_def ex_made_def ex_started_def ex_fired_def ex_called_def ex_world_def ex_timer_def ex_blank_def

lemma ex_values: "integer_value ex_jsconv (jint 10) = 10" "integer_value ex_jsconv (jint 0) = 0"
  by (simp_all add: jint_def integer_value.simps)

lemma ex_start_world: "start_world ex_start"
  by (simp add: start_world_def ex_worlds)

lemma fun_upd_const: "(\<lambda>a. if a = k then t else f a) = f(k := t)"
  by (auto simp: fun_eq_iff)

lemma ex_insert:
  "heap_insert e \<lparr>cells = [], index_of = (\<lambda>_. 0)\<rparr> = \<lparr>cells = [e], index_of = (\<lambda>_. 0)\<rparr>"
  by (simp add: heap_insert_def upheap_def upheap_loop.simps hparent_def put_cell_def fun_eq_iff)

lemma ex_steps:
  "timer_step ex_jsconv (None, ex_start) (None, ex_made)"
  "timer_step ex_jsconv (None, ex_made) (None, ex_started)"
  "timer_step ex_jsconv (None, ex_started) (None, ex_started\<lparr>mn_now := 200\<rparr>)"
  "timer_step ex_jsconv (None, ex_started\<lparr>mn_now := 200\<rparr>) (None, ex_fired)"
  "timer_step ex_jsconv (None, ex_fired) (Some 0, ex_called)"
proof -
  show "timer_step ex_jsconv (None, ex_start) (None, ex_made)"
    by (rule timer_step.new [of _ 0])
      (simp_all add: ex_worlds timer_new_def timer_object_def wrap_wrap_def oassert_def wrap_init_def
        ev_timer_init_def ev_init_def set_timer_def)
  show "timer_step ex_jsconv (None, ex_made) (None, ex_started)"
    by (rule timer_step.start [of _ "[jint 10, jint 0]" _ _ 0 100])
      (simp_all add: ex_worlds may_start_def keeps_kind_def timer_start_def ex_values arg_def ev_timer_init_def ev_init_def
        ev_timer_start_def timer_object_def wrap_ref_def oassert_def Let_def set_timer_def ex_insert)
  show "timer_step ex_jsconv (None, ex_started) (None, ex_started\<lparr>mn_now := 200\<rparr>)"
    by (rule timer_step.tick) (simp add: ex_worlds)
  show "timer_step ex_jsconv (None, ex_started\<lparr>mn_now := 200\<rparr>) (None, ex_fired)"
    by (rule timer_step.reify [of 2])
      (simp add: ex_worlds timers_reify_def numeral_2_eq_2 heap_first_def heap_remove_def reify_one_def ev_timer_stop_def clear_pending_def
        ev_feed_event_def oassert_def Let_def set_timer_def)
  have "take_pending ex_fired = (Some 0, ex_called)"
    by (simp add: ex_worlds take_pending_def Let_def set_timer_def)
  then show "timer_step ex_jsconv (None, ex_fired) (Some 0, ex_called)"
    using timer_step.take [of ex_fired ex_jsconv] by (simp add: ex_fired_def ex_world_def)
qed

lemma ex_reachable:
  "reachable ex_jsconv ex_start (None, ex_started)"
  "reachable ex_jsconv ex_start (None, ex_started\<lparr>mn_now := 200\<rparr>)"
  "reachable ex_jsconv ex_start (None, ex_fired)"
  "reachable ex_jsconv ex_start (Some 0, ex_called)"
  by (rule reachable.refl reachable.step ex_steps)+


theorem timers_never_abort_witness:
  "\<exists>W'. timers_reify 2 (ex_started\<lparr>mn_now := 200\<rparr>) = Some (Return W')"
  using timers_never_abort [OF ex_reachable(2) ex_start_world] by (simp add: ex_worlds numeral_2_eq_2)

theorem timers_reify_correct_witness:
  "\<exists>W'. timers_reify 2 (ex_started\<lparr>mn_now := 200\<rparr>) = Some (Return W') \<and> pending (timer_of W' 0) \<and>
    \<not> active (timer_of W' 0)"
  using timers_reify_correct [OF ex_reachable(2) ex_start_world]
  by (fastforce simp: ex_worlds numeral_2_eq_2 Let_def)

theorem cancelled_timeout_leaks_witness:
  "timer_stop 0 ex_fired = Return ex_fired \<and> take_pending ex_fired = (Some 0, ex_called) \<and>
   refs (timer_of ex_called 0) = 1"
proof -
  have "take_pending ex_fired = (Some 0, ex_called)" "pendings ex_fired \<noteq> []"
    by (simp_all add: ex_worlds take_pending_def Let_def set_timer_def)
  then show ?thesis
    using cancelled_timeout_leaks [OF ex_reachable(3) ex_start_world, of 0] by (simp add: ex_worlds)
qed

theorem start_active_dangles_witness:
  "\<exists>W1. timer_start ex_jsconv 105 [jint 10, jint 0] 0 ex_started = Return W1 \<and> activecnt W1 = 3"
  using start_active_dangles [OF ex_reachable(1) ex_start_world, of 0 "[jint 10, jint 0]" 105]
  by (fastforce simp: ex_worlds arg_def ex_values)

theorem oneshot_again_leaks_witness:
  "\<exists>W1. timer_again ex_jsconv [jint 10] 0 ex_called = Return W1 \<and> refs (timer_of W1 0) = 2"
  using oneshot_again_leaks [OF ex_reachable(4) ex_start_world, of "[jint 10]"]
  by (fastforce simp: ex_worlds arg_def ex_values)

theorem timer_start_correct_witness:
  "\<exists>W'. timer_start ex_jsconv 300 [jint 10, jint 0] 0 ex_called = Return W' \<and> at (timer_of W' 0) = 310"
  using timer_start_correct [OF ex_reachable(4) ex_start_world, of 0 "[jint 10, jint 0]" 300]
  by (fastforce simp: ex_worlds arg_def ex_values may_start_def keeps_kind_def)

end
