(* ===== verification/TimerRuns.thy ===== *)
theory TimerRuns
  imports Timers
begin

text \<open>
  One turn of the event loop for timers: the order in which \<open>timers_reify\<close> queues the events of
  \<open>Timers\<close>, and \<open>ev_invoke_pending\<close>, which calls them back while the callbacks use timers.
\<close>

section \<open>The order of the events\<close>

lemma reify_one_frame:
  assumes "timers_ok fs None W" "heap_first (timers W) = Some e" "reify_one e W = Return W'"
  shows "pendings W' = pendings W" "j \<noteq> e_timer e \<Longrightarrow> timer_of W' j = timer_of W j"
proof -
  let ?i = "e_timer e"
  note k = timers_okD [OF assms(1)]
  have "active (timer_of W ?i)" using heap_ok_first(1) [OF k(1) assms(2)] .
  then have p: "repeat (timer_of W ?i) = 0 \<Longrightarrow> \<not> pending (timer_of W ?i)"
    using timers_ok_at [OF assms(1), of ?i] by (auto simp: timer_ok_def)
  then show "pendings W' = pendings W"
    using assms(3) ev_timer_stop_ok [OF k, of ?i]
    by (cases "repeat (timer_of W ?i) = 0") (auto simp: reify_one_def Let_def oassert_def split: if_splits)
  show "j \<noteq> ?i \<Longrightarrow> timer_of W' j = timer_of W j"
    using reify_one_effect [OF assms] by (simp add: only_def)
qed

lemma reify_loop_order:
  "timers_ok fs None W \<Longrightarrow> reify_loop fuel fs W = Some (Return (W', fs')) \<Longrightarrow>
    pendings W' = pendings W \<and>
    (\<exists>ks. fs' = ks @ fs \<and> distinct ks \<and> set ks = Collect (is_due W) \<and>
       sorted_wrt (\<lambda>i j. at (timer_of W j) \<le> at (timer_of W i)) ks)"
proof (induction fuel arbitrary: fs W)
  case (Suc fuel)
  show ?case
  proof (cases "\<exists>e. heap_first (timers W) = Some e \<and> e_at e < mn_now W")
    case True
    then obtain e where e: "heap_first (timers W) = Some e" "e_at e < mn_now W" by blast
    let ?i = "e_timer e"
    obtain W1 where W1: "reify_one e W = Return W1" "timers_ok (?i # fs) None W1"
      using reify_one_ok [OF Suc.prems(1) e] by blast
    note heap = timers_okD(1) [OF Suc.prems(1)]
    note eff = reify_one_effect [OF Suc.prems(1) e(1) W1(1)]
    note frame = reify_one_frame [OF Suc.prems(1) e(1) W1(1)]
    have "reify_loop fuel (?i # fs) W1 = Some (Return (W', fs'))" using Suc.prems(2) e W1(1) by simp
    from Suc.IH [OF W1(2) this] obtain ks where
      p: "pendings W' = pendings W1" and ks: "fs' = ks @ ?i # fs" "distinct ks" "set ks = Collect (is_due W1)"
        "sorted_wrt (\<lambda>i j. at (timer_of W1 j) \<le> at (timer_of W1 i)) ks" by blast
    have due: "is_due W ?i" using heap_ok_first [OF heap e(1)] e(2) by (simp add: is_due_def)
    have 1: "is_due W1 j = (is_due W j \<and> j \<noteq> ?i)" for j
      using eff by (cases "j = ?i") (auto simp: is_due_def only_def)
    have "sorted_wrt (\<lambda>i j. at (timer_of W j) \<le> at (timer_of W i)) ks"
      using ks(4) by (rule sorted_wrt_mono_rel [rotated]) (use ks(3) 1 frame(2) in auto)
    moreover have "at (timer_of W ?i) \<le> at (timer_of W j)" if "j \<in> set ks" for j
    proof -
      have "\<lparr>e_at = at (timer_of W j), e_timer = j\<rparr> \<in># heap_bag (timers W)"
        using that ks(3) 1 heap by (simp add: heap_ok_def entry_for_def is_due_def heap_bag_def)
      then have "e_at e \<le> at (timer_of W j)"
        using libev.first_Some [OF _ e(1)] heap by (auto simp: heap_ok_def)
      then show ?thesis using heap_ok_first(2) [OF heap e(1)] by simp
    qed
    ultimately have "sorted_wrt (\<lambda>i j. at (timer_of W j) \<le> at (timer_of W i)) (ks @ [?i])"
      by (auto simp: sorted_wrt_append)
    moreover have "set (ks @ [?i]) = Collect (is_due W)" "distinct (ks @ [?i])" using ks 1 due by auto
    ultimately show ?thesis using ks(1) p frame(1) by (intro conjI exI [of _ "ks @ [?i]"]) simp_all
  next
    case False
    then have "W' = W" "fs' = fs" using Suc.prems(2) by (auto split: option.splits)
    then show ?thesis using not_due_top [OF timers_okD(1) [OF Suc.prems(1)] False] by auto
  qed
qed simp

lemma feeds_pendings:
  "distinct fs \<Longrightarrow> pendings (fold ev_feed_event fs W) = pendings W @ map Some (filter (\<lambda>i. \<not> pending (timer_of W i)) fs)"
proof (induction fs arbitrary: W)
  case (Cons f fs)
  have "filter (\<lambda>i. \<not> pending (timer_of (ev_feed_event f W) i)) fs = filter (\<lambda>i. \<not> pending (timer_of W i)) fs"
    using Cons.prems by (intro filter_cong) (auto simp: ev_feed_event_def Let_def)
  then show ?case using Cons by (auto simp: ev_feed_event_def Let_def)
qed simp

text \<open>
  Property C12: \<open>timers_reify\<close> queues one event for each timer whose time has passed and that has none
  waiting; as the queue is emptied from its end, they are called back in the order of their
  times.
\<close>

theorem timers_fire_in_order:
  assumes "reachable h W0 (None, W)" "start_world W0"
  shows "\<exists>W' ks. timers_reify (Suc (length (entries W))) W = Some (Return W') \<and>
    pendings W' = pendings W @ map Some (rev ks) \<and> distinct ks \<and>
    set ks = {i. active (timer_of W i) \<and> at (timer_of W i) < mn_now W \<and> \<not> pending (timer_of W i)} \<and>
    sorted (map (\<lambda>i. at (timer_of W i)) ks)"
proof -
  have ok: "timers_ok [] None W" using reachable_ok [OF assms] by simp
  obtain W1 fs where r: "reify_loop (Suc (length (entries W))) [] W = Some (Return (W1, fs))"
    using reify_loop_ok [OF ok, of "Suc (length (entries W))"] due_count_entries [of W] by (auto simp: less_Suc_eq_le)
  note o = reify_loop_order [OF ok r] and e = reify_loop_effect [OF ok r]
  let ?ks = "rev (filter (\<lambda>i. \<not> pending (timer_of W1 i)) fs)"
  have "timers_reify (Suc (length (entries W))) W = Some (Return (fold ev_feed_event fs W1))"
    using r by (simp add: timers_reify_def del: reify_loop.simps)
  moreover have "pendings (fold ev_feed_event fs W1) = pendings W @ map Some (rev ?ks)"
    using o by (simp add: feeds_pendings)
  moreover have "sorted (map (\<lambda>i. at (timer_of W i)) ?ks)"
    using o by (auto simp: rev_map [symmetric] sorted_wrt_rev sorted_wrt_map sorted_wrt_filter)
  moreover have "set ?ks = {i. active (timer_of W i) \<and> at (timer_of W i) < mn_now W \<and> \<not> pending (timer_of W i)}"
    using o e by (auto simp: is_due_def)
  moreover have "distinct ?ks" using o by simp
  ultimately show ?thesis by (intro exI conjI)
qed


section \<open>ev_invoke_pending\<close>

text \<open>
  The events are taken from the end of the queue, which grows and shrinks while the callbacks
  run; the result names the timers called back, in order.
\<close>

fun invoke_pending ::
  "nat \<Rightarrow> (nat \<Rightarrow> (world \<Rightarrow> world outcome) option) \<Rightarrow> world \<Rightarrow> (world \<times> nat list) outcome option" where
  "invoke_pending 0 js W = None"
| "invoke_pending (Suc fuel) js W =
     (if pendings W = [] then Some (Return (W, []))
      else case invoke_one js W of
             Return W' \<Rightarrow>
               map_option (\<lambda>r. obind r (\<lambda>(W'', called).
                   Return (W'', (case last (pendings W) of Some i \<Rightarrow> [i] | None \<Rightarrow> []) @ called)))
                 (invoke_pending fuel js W')
           | Throw x \<Rightarrow> Some (Throw x) | Abort \<Rightarrow> Some Abort | Overrun \<Rightarrow> Some Overrun)"

text \<open>A callback: any sequence of steps of the program while timer \<open>i\<close> is being called back.\<close>

definition js_run :: "conv \<Rightarrow> nat \<Rightarrow> world \<Rightarrow> world \<Rightarrow> bool" where
  "js_run h i = (\<lambda>W W'. timer_step h (Some i, W) (Some i, W'))\<^sup>*\<^sup>*"

lemma ev_timer_start_pendings: "ev_timer_start i W = Return W' \<Longrightarrow> pendings W' = pendings W"
  by (auto simp: ev_timer_start_def Let_def oassert_def split: if_splits)

lemma ev_timer_stop_pendings: "ev_timer_stop i W = Return W' \<Longrightarrow> length (pendings W') = length (pendings W)"
  by (auto simp: ev_timer_stop_def Let_def oassert_def split: if_splits)

lemma ev_timer_again_pendings: "ev_timer_again i W = Return W' \<Longrightarrow> length (pendings W') = length (pendings W)"
  using ev_timer_start_pendings ev_timer_stop_pendings
  by (fastforce simp: ev_timer_again_def Let_def split: if_splits)

lemma timer_object_pendings: "timer_object f i W = Return W' \<Longrightarrow> pendings W' = pendings W"
  by (auto simp: timer_object_def obind_eq_Return)

lemmas pendings_lengths = ev_timer_start_pendings ev_timer_stop_pendings ev_timer_again_pendings timer_object_pendings

lemma js_step_pendings:
  assumes "timer_step h (Some i, W) (Some i, W')"
  shows "length (pendings W') = length (pendings W)"
  using assms
proof (cases rule: timer_step.cases)
  case (new j)
  then show ?thesis by (auto simp: timer_new_def dest!: timer_object_pendings)
next
  case (start args j clock)
  then show ?thesis
    by (auto simp: timer_start_def Let_def obind_eq_Return split: if_splits dest!: ev_timer_start_pendings timer_object_pendings)
next
  case (stop j)
  then show ?thesis
    by (auto simp: timer_stop_def obind_eq_Return split: if_splits dest!: ev_timer_stop_pendings timer_object_pendings)
next
  case (again args j)
  then show ?thesis
    by (auto simp: timer_again_def Let_def obind_eq_Return split: if_splits dest!: ev_timer_again_pendings timer_object_pendings)
next
  case (collect j W1)
  then show ?thesis by (auto simp: timer_destroy_def dest!: ev_timer_stop_pendings timer_object_pendings)
next
  case (set_repeat j v)
  then show ?thesis by (simp add: repeat_setter_def)
next
  case (tick t)
  then show ?thesis by simp
qed

lemma js_run_pendings: "js_run h i W W' \<Longrightarrow> length (pendings W') = length (pendings W)"
  unfolding js_run_def by (induction rule: rtranclp_induct) (auto simp: js_step_pendings)

lemma js_run_reachable:
  "js_run h i W W' \<Longrightarrow> reachable h W0 (Some i, W) \<Longrightarrow> reachable h W0 (Some i, W')"
  unfolding js_run_def by (induction rule: rtranclp_induct) (auto intro: reachable.step)


text \<open>Every callback is a function that returns after using timers.\<close>

definition callbacks_ok :: "conv \<Rightarrow> world \<Rightarrow> (nat \<Rightarrow> (world \<Rightarrow> world outcome) option) \<Rightarrow> bool" where
  "callbacks_ok h W0 js \<longleftrightarrow> (\<forall>i V. reachable h W0 (Some i, V) \<longrightarrow>
     (\<exists>f V'. js i = Some f \<and> f V = Return V' \<and> js_run h i V V'))"

text \<open>No callback takes the pending event of timer \<open>i\<close> away, as \<open>stop\<close> would.\<close>

definition leaves_pending :: "(nat \<Rightarrow> (world \<Rightarrow> world outcome) option) \<Rightarrow> nat \<Rightarrow> bool" where
  "leaves_pending js i \<longleftrightarrow> (\<forall>k f V V'. js k = Some f \<and> f V = Return V' \<and> pending (timer_of V i) \<longrightarrow>
     pending (timer_of V' i))"

lemma take_pending_frame:
  assumes "pendings W \<noteq> []"
  shows "length (pendings (snd (take_pending W))) + 1 = length (pendings W)"
    "fst (take_pending W) \<noteq> Some i \<Longrightarrow> pending (timer_of (snd (take_pending W)) i) = pending (timer_of W i)"
    "fst (take_pending W) = last (pendings W)"
  using assms by (auto simp: take_pending_def Let_def split: option.split)

lemma timeout_done_frame:
  assumes "timeout_done k V = Return V'"
  shows "pendings V' = pendings V" "pending (timer_of V' i) = pending (timer_of V i)"
  using assms
  by (auto simp: timeout_done_def timer_object_def obind_eq_Return wrap_unref_def oassert_def split: if_splits)

lemma invoke_one_turn:
  assumes "reachable h W0 (None, W)" "start_world W0" "callbacks_ok h W0 js" "pendings W \<noteq> []"
  shows "\<exists>W'. invoke_one js W = Return W' \<and> reachable h W0 (None, W') \<and>
    length (pendings W') + 1 = length (pendings W) \<and>
    (\<forall>i. pending (timer_of W i) \<and> leaves_pending js i \<and> last (pendings W) \<noteq> Some i \<longrightarrow> pending (timer_of W' i))"
proof -
  obtain run W1 where t: "take_pending W = (run, W1)" by force
  have r: "reachable h W0 (run, W1)"
    using reachable.step [OF assms(1) timer_step.take [OF assms(4)]] t by simp
  note f = take_pending_frame [OF assms(4), unfolded t]
  show ?thesis
  proof (cases run)
    case None
    then show ?thesis using t r f by (auto simp: invoke_one_def)
  next
    case (Some k)
    obtain g V where g: "js k = Some g" "g W1 = Return V" "js_run h k W1 V"
      using assms(3) r unfolding callbacks_ok_def Some by blast
    have rV: "reachable h W0 (Some k, V)" using js_run_reachable [OF g(3)] r Some by simp
    then have "timers_ok [] (Some k) V" using reachable_ok [OF rV assms(2)] by simp
    then obtain V' where V': "timeout_done k V = Return V'" using timeout_done_ok by blast
    have "reachable h W0 (None, V')" by (rule reachable.step [OF rV timer_step.finish [OF V']])
    moreover have "invoke_one js W = Return V'" using t Some g V' by (simp add: invoke_one_def on_timeout_def)
    moreover have "length (pendings V') + 1 = length (pendings W)"
      using f(1) js_run_pendings [OF g(3)] timeout_done_frame(1) [OF V'] by simp
    moreover have "pending (timer_of V' i)"
      if "pending (timer_of W i)" "leaves_pending js i" "last (pendings W) \<noteq> Some i" for i
    proof -
      have "pending (timer_of W1 i)" using f(2,3) that by simp
      then have "pending (timer_of V i)" using that(2) g(1,2) unfolding leaves_pending_def by blast
      then show ?thesis using timeout_done_frame(2) [OF V'] by simp
    qed
    ultimately show ?thesis by blast
  qed
qed


theorem timers_fire_in_order_witness:
  "\<exists>W'. timers_reify 2 (ex_started\<lparr>mn_now := 200\<rparr>) = Some (Return W') \<and> pendings W' = [Some 0]"
proof -
  have l: "Suc (length (entries (ex_started\<lparr>mn_now := 200\<rparr>))) = 2" by (simp add: ex_worlds)
  obtain W' ks where k: "timers_reify 2 (ex_started\<lparr>mn_now := 200\<rparr>) = Some (Return W')"
    "pendings W' = map Some (rev ks)" "distinct ks" "set ks = {0}"
    using timers_fire_in_order [OF ex_reachable(2) ex_start_world, unfolded l] by (auto simp: ex_worlds)
  have "length ks = 1" using distinct_card [OF k(3)] by (simp add: k(4))
  then obtain x where "ks = [x]" by (auto simp: length_Suc_conv)
  then have "ks = [0]" using k(4) by simp
  then show ?thesis using k by simp
qed


end
