(* ===== verification/NodeLoop.thy ===== *)
theory NodeLoop
  imports Prelude "HOL-Library.Signed_Division"
begin

text \<open>
  The watchers \<open>src/node.cc\<close> itself keeps on the event loop: the spinner behind
  \<open>process.nextTick\<close>, the timer and idle watcher that run the garbage collector when nothing
  happens, and the poller of the thread pool. Times are milliseconds; what V8, libeio and
  JavaScript answer are arguments of the handlers.
\<close>

section \<open>State\<close>

datatype loop_watcher = Tick_spinner | Gc_idle | Gc_timer | Eio_poller

record loop =
  need_tick_cb :: bool
  running :: "loop_watcher \<Rightarrow> bool" \<comment> \<open>\<open>ev_is_active\<close>\<close>
  loop_refs :: int \<comment> \<open>\<open>activecnt\<close>\<close>
  tick_times :: "int list"
  tick_time_head :: int

definition ev_watcher_start :: "loop_watcher \<Rightarrow> loop \<Rightarrow> loop" where
  "ev_watcher_start w L =
     (if running L w then L
      else L\<lparr>running := (running L)(w := True), loop_refs := loop_refs L + 1\<rparr>)"

definition ev_watcher_stop :: "loop_watcher \<Rightarrow> loop \<Rightarrow> loop" where
  "ev_watcher_stop w L =
     (if \<not> running L w then L
      else L\<lparr>running := (running L)(w := False), loop_refs := loop_refs L - 1\<rparr>)"

definition FAST_TICK :: int where "FAST_TICK = 700"
definition GC_WAIT_TIME :: int where "GC_WAIT_TIME = 5000"
definition RPM_SAMPLES :: nat where "RPM_SAMPLES = 100"

section \<open>Garbage collection when idle\<close>

text \<open>The remainder of C takes the sign of the dividend, so the index may be negative.\<close>

definition TICK_TIME :: "int \<Rightarrow> loop \<Rightarrow> int outcome" where
  "TICK_TIME n L =
     (let k = (tick_time_head L - n) smod int RPM_SAMPLES
      in if 0 \<le> k \<and> nat k < length (tick_times L) then Return (tick_times L ! nat k) else Overrun)"

definition start_gc_timer :: "loop \<Rightarrow> loop" where
  "start_gc_timer L =
     (if \<not> running L Gc_timer
      then let L1 = ev_watcher_start Gc_timer L in L1\<lparr>loop_refs := loop_refs L1 - 1\<rparr>
      else L)"

definition stop_gc_timer :: "loop \<Rightarrow> loop" where
  "stop_gc_timer L =
     (if running L Gc_timer
      then ev_watcher_stop Gc_timer (L\<lparr>loop_refs := loop_refs L + 1\<rparr>)
      else L)"

text \<open>\<open>Idle\<close>: \<open>finished\<close> is the answer of \<open>V8::IdleNotification\<close>.\<close>

definition gc_idle :: "bool \<Rightarrow> loop \<Rightarrow> loop" where
  "gc_idle finished L = (if finished then stop_gc_timer (ev_watcher_stop Gc_idle L) else L)"

text \<open>The loop of \<open>Check\<close> on the remaining values of \<open>i\<close>: whether the collector is to start.\<close>

fun gc_wait :: "nat list \<Rightarrow> loop \<Rightarrow> bool outcome" where
  "gc_wait [] L = Return True"
| "gc_wait (i # is) L =
     obind (TICK_TIME (int i + 1) L) (\<lambda>a. obind (TICK_TIME (int i + 2) L) (\<lambda>b.
       if a - b < FAST_TICK then Return False else gc_wait is L))"

definition gc_check :: "int \<Rightarrow> loop \<Rightarrow> loop outcome" where
  "gc_check now L =
     (let L1 = L\<lparr>tick_times := (tick_times L)[nat (tick_time_head L) := now],
                 tick_time_head := (tick_time_head L + 1) smod int RPM_SAMPLES\<rparr>;
          L2 = start_gc_timer L1
      in obind (gc_wait [0..<nat (GC_WAIT_TIME div FAST_TICK)] L2)
           (\<lambda>idle. Return (if idle then ev_watcher_start Gc_idle L2 else L2)))"

definition check_status :: "int \<Rightarrow> nat \<Rightarrow> loop \<Rightarrow> loop outcome" where
  "check_status now total_heap_size L =
     (if \<not> running L Gc_idle \<and> 1024 * 1024 * 128 < total_heap_size
      then Return (ev_watcher_start Gc_idle L)
      else obind (TICK_TIME 3 L)
        (\<lambda>t. Return (if GC_WAIT_TIME - 1000 \<le> now - t then ev_watcher_start Gc_idle L else L)))"

section \<open>nextTick\<close>

definition need_tick_callback :: "loop \<Rightarrow> loop" where
  "need_tick_callback L = ev_watcher_start Tick_spinner (L\<lparr>need_tick_cb := True\<rparr>)"

text \<open>\<open>Tick\<close>: the state and whether \<open>_tickCallback\<close> is called; \<open>is_fun\<close>: it is a function.\<close>

definition tick :: "bool \<Rightarrow> loop \<Rightarrow> loop \<times> bool" where
  "tick is_fun L =
     (if \<not> need_tick_cb L then (L, False)
      else (ev_watcher_stop Tick_spinner (L\<lparr>need_tick_cb := False\<rparr>), is_fun))"

section \<open>The poller of the thread pool\<close>

text \<open>\<open>r\<close> is what \<open>eio_poll\<close> returns: \<open>-1\<close> when requests are left.\<close>

definition do_poll :: "int \<Rightarrow> loop \<Rightarrow> loop" where
  "do_poll r L = (if r \<noteq> -1 then ev_watcher_stop Eio_poller L else L)"

definition want_poll_notifier :: "int \<Rightarrow> loop \<Rightarrow> loop" where
  "want_poll_notifier r L = (if r = -1 then ev_watcher_start Eio_poller L else L)"

definition done_poll_notifier :: "int \<Rightarrow> loop \<Rightarrow> loop" where
  "done_poll_notifier r L = (if r \<noteq> -1 then ev_watcher_stop Eio_poller L else L)"

section \<open>Runs\<close>

text \<open>After \<open>Start\<close>: the poller runs, \<open>n\<close> other watchers keep the loop alive.\<close>

definition loop_start :: "int \<Rightarrow> loop" where
  "loop_start n = ev_watcher_start Eio_poller
     \<lparr>need_tick_cb = False, running = (\<lambda>_. False), loop_refs = n,
      tick_times = replicate RPM_SAMPLES 0, tick_time_head = 0\<rparr>"

inductive loop_step :: "loop \<Rightarrow> loop \<Rightarrow> bool" where
  need_tick: "loop_step L (need_tick_callback L)"
| tick: "loop_step L (fst (tick is_fun L))"
| check: "gc_check now L = Return L' \<Longrightarrow> loop_step L L'"
| idle: "running L Gc_idle \<Longrightarrow> loop_step L (gc_idle finished L)"
| status: "running L Gc_timer \<Longrightarrow> check_status now heap L = Return L' \<Longrightarrow> loop_step L L'"
| do_poll: "running L Eio_poller \<Longrightarrow> loop_step L (do_poll r L)"
| want_poll: "loop_step L (want_poll_notifier r L)"
| done_poll: "loop_step L (done_poll_notifier r L)"

inductive_cases loop_stepE [elim!]: "loop_step L L'"

inductive loop_reachable :: "int \<Rightarrow> loop \<Rightarrow> bool" for n where
  start: "loop_reachable n (loop_start n)"
| step: "loop_reachable n L \<Longrightarrow> loop_step L L' \<Longrightarrow> loop_reachable n L'"

section \<open>What the steps keep\<close>

definition loop_ok :: "int \<Rightarrow> loop \<Rightarrow> bool" where
  "loop_ok n L \<longleftrightarrow> (need_tick_cb L \<longleftrightarrow> running L Tick_spinner) \<and>
     loop_refs L = n + of_bool (running L Tick_spinner) + of_bool (running L Gc_idle) +
       of_bool (running L Eio_poller) \<and>
     length (tick_times L) = RPM_SAMPLES \<and> 0 \<le> tick_time_head L \<and> tick_time_head L < int RPM_SAMPLES"

lemma ev_watcher_simps [simp]:
  "need_tick_cb (ev_watcher_start w L) = need_tick_cb L" "need_tick_cb (ev_watcher_stop w L) = need_tick_cb L"
  "tick_times (ev_watcher_start w L) = tick_times L" "tick_times (ev_watcher_stop w L) = tick_times L"
  "tick_time_head (ev_watcher_start w L) = tick_time_head L" "tick_time_head (ev_watcher_stop w L) = tick_time_head L"
  "running (ev_watcher_start w L) = (running L)(w := True)" "running (ev_watcher_stop w L) = (running L)(w := False)"
  "loop_refs (ev_watcher_start w L) = loop_refs L + of_bool (\<not> running L w)"
  "loop_refs (ev_watcher_stop w L) = loop_refs L - of_bool (running L w)"
  by (auto simp: ev_watcher_start_def ev_watcher_stop_def fun_eq_iff)

lemma gc_timer_simps [simp]:
  "need_tick_cb (start_gc_timer L) = need_tick_cb L" "need_tick_cb (stop_gc_timer L) = need_tick_cb L"
  "tick_times (start_gc_timer L) = tick_times L" "tick_times (stop_gc_timer L) = tick_times L"
  "tick_time_head (start_gc_timer L) = tick_time_head L" "tick_time_head (stop_gc_timer L) = tick_time_head L"
  "running (start_gc_timer L) = (running L)(Gc_timer := True)"
  "running (stop_gc_timer L) = (running L)(Gc_timer := False)"
  "loop_refs (start_gc_timer L) = loop_refs L" "loop_refs (stop_gc_timer L) = loop_refs L"
  by (auto simp: start_gc_timer_def stop_gc_timer_def Let_def fun_eq_iff)

lemma head_step: "0 \<le> h \<Longrightarrow> h < 100 \<Longrightarrow> (h + 1) smod 100 = (h + 1) mod (100 :: int)"
  by (simp add: signed_modulo_int_def)

text \<open>The state in which \<open>Check\<close> looks at the last ticks.\<close>

definition checked :: "int \<Rightarrow> loop \<Rightarrow> loop" where
  "checked now L = start_gc_timer (L\<lparr>tick_times := (tick_times L)[nat (tick_time_head L) := now],
     tick_time_head := (tick_time_head L + 1) smod int RPM_SAMPLES\<rparr>)"

lemma gc_check_checked:
  "gc_check now L = obind (gc_wait [0..<7] (checked now L))
     (\<lambda>idle. Return (if idle then ev_watcher_start Gc_idle (checked now L) else checked now L))"
  unfolding gc_check_def checked_def Let_def by (simp add: GC_WAIT_TIME_def FAST_TICK_def)

lemma loop_ok_checked: "loop_ok n L \<Longrightarrow> loop_ok n (checked now L)"
  by (auto simp: loop_ok_def checked_def RPM_SAMPLES_def head_step)

lemma loop_ok_idle: "loop_ok n L \<Longrightarrow> loop_ok n (ev_watcher_start Gc_idle L)"
  by (simp add: loop_ok_def)

lemma loop_step_ok:
  assumes "loop_step L L'" "loop_ok n L"
  shows "loop_ok n L'"
  using assms(1)
proof (cases rule: loop_step.cases)
  case (check now)
  with assms(2) show ?thesis using check loop_ok_checked [of n L now] loop_ok_idle [of n "checked now L"]
    by (auto simp: gc_check_checked obind_eq_Return)
next
  case (status now heap)
  with assms(2) show ?thesis using status loop_ok_idle [of n L]
    by (auto simp: check_status_def obind_eq_Return split: if_splits)
qed (use assms(2) in \<open>auto simp: loop_ok_def need_tick_callback_def tick_def gc_idle_def do_poll_def want_poll_notifier_def
    done_poll_notifier_def\<close>)

lemma loop_reachable_ok: "loop_reachable n L \<Longrightarrow> loop_ok n L"
proof (induction rule: loop_reachable.induct)
  case start
  then show ?case by (simp add: loop_ok_def loop_start_def RPM_SAMPLES_def)
qed (rule loop_step_ok)

lemma TICK_TIME_value:
  assumes "loop_ok n L" "1 \<le> k" "k \<le> 99"
  shows "TICK_TIME (int k) L =
    (if int k \<le> tick_time_head L then Return (tick_times L ! nat (tick_time_head L - int k)) else Overrun)"
proof -
  have b: "0 \<le> tick_time_head L" "tick_time_head L < 100" "length (tick_times L) = 100"
    using assms(1) by (simp_all add: loop_ok_def RPM_SAMPLES_def)
  have "(tick_time_head L - int k) smod 100 = tick_time_head L - int k"
    using b assms(2,3) by (simp add: signed_modulo_int_def sgn_if abs_if)
  moreover have "nat (tick_time_head L - int k) < 100" using b by linarith
  ultimately show ?thesis using b by (simp add: TICK_TIME_def RPM_SAMPLES_def Let_def)
qed

text \<open>The gap between ticks \<open>i\<close> and \<open>i + 1\<close> back from the head.\<close>

definition slow_gap :: "loop \<Rightarrow> nat \<Rightarrow> bool" where
  "slow_gap L i \<longleftrightarrow> FAST_TICK \<le>
     tick_times L ! nat (tick_time_head L - int i - 1) - tick_times L ! nat (tick_time_head L - int i - 2)"

lemma gc_wait_Cons:
  assumes "loop_ok n L" "i \<le> 90"
  shows "gc_wait (i # is) L =
    (if int i + 2 \<le> tick_time_head L then (if slow_gap L i then gc_wait is L else Return False) else Overrun)"
  using TICK_TIME_value [OF assms(1), of "i + 1"] TICK_TIME_value [OF assms(1), of "i + 2"] assms(2)
  by (auto simp: slow_gap_def algebra_simps)

lemma gc_wait_upt:
  assumes "loop_ok n L" "m \<le> 90"
  shows "k \<le> m \<Longrightarrow> (gc_wait [k..<m] L = Return True \<longleftrightarrow> (\<forall>i\<in>{k..<m}. int i + 2 \<le> tick_time_head L \<and> slow_gap L i)) \<and>
    (gc_wait [k..<m] L = Overrun \<longleftrightarrow> (\<exists>j\<in>{k..<m}. tick_time_head L < int j + 2 \<and> (\<forall>i\<in>{k..<j}. slow_gap L i))) \<and>
    gc_wait [k..<m] L \<in> {Return True, Return False, Overrun}"
proof (induction "m - k" arbitrary: k)
  case (Suc d)
  then have k: "[k..<m] = k # [Suc k..<m]" "k \<le> 90" "Suc k \<le> m" "d = m - Suc k"
    using assms(2) by (auto simp: upt_conv_Cons)
  have split: "{k..<m} = insert k {Suc k..<m}" using k(3) by auto
  have inner: "(\<forall>i\<in>{k..<j}. slow_gap L i) \<longleftrightarrow> slow_gap L k \<and> (\<forall>i\<in>{Suc k..<j}. slow_gap L i)" if "j \<in> {Suc k..<m}" for j
    using that by (auto simp: Suc_le_eq le_less)
  show ?case
    unfolding k(1) gc_wait_Cons [OF assms(1) k(2)] split
    using Suc.hyps(1) [OF k(4) k(3)] inner by auto
qed simp

section \<open>Properties\<close>


text \<open>
  What \<open>Check\<close> does in a reachable state, by the head \<open>h\<close> of the ring after
  storing the time. From eight on it starts the timer, and the idle watcher exactly when the last seven
  gaps between ticks are all 0.7 s or more. Below eight the index of \<open>TICK_TIME\<close> becomes
  negative, because the remainder of C does, and the handler reads before the array as soon as
  the gaps that are there are all slow; in particular its first call always does.
\<close>

theorem gc_check_correct:
  assumes "loop_reachable n L"
  shows "let C = checked now L; h = tick_time_head C in
    (8 \<le> h \<longrightarrow> (\<exists>L'. gc_check now L = Return L' \<and> running L' Gc_timer \<and>
       (running L' Gc_idle \<longleftrightarrow> running L Gc_idle \<or> (\<forall>i<7. slow_gap C i)))) \<and>
    (h < 8 \<longrightarrow> (gc_check now L = Overrun \<longleftrightarrow> (\<forall>i. int i + 2 \<le> h \<longrightarrow> slow_gap C i))) \<and>
    gc_check now (loop_start n) = Overrun"
proof -
  let ?C = "checked now L"
  let ?h = "tick_time_head ?C"
  note ok = loop_ok_checked [OF loop_reachable_ok [OF assms], of now]
  have b: "0 \<le> ?h" using ok by (simp add: loop_ok_def)
  note w = gc_wait_upt [OF ok, of 7 0, simplified]
  have run: "running ?C Gc_timer" "running ?C Gc_idle = running L Gc_idle"
    by (simp_all add: checked_def)
  have big: "\<exists>L'. gc_check now L = Return L' \<and> running L' Gc_timer \<and>
       (running L' Gc_idle \<longleftrightarrow> running L Gc_idle \<or> (\<forall>i<7. slow_gap ?C i))" if h: "8 \<le> ?h"
  proof -
    have "(gc_wait [0..<7] ?C = Return True) = (\<forall>i<7. slow_gap ?C i)" "gc_wait [0..<7] ?C \<noteq> Overrun"
      using w h by auto
    moreover have "gc_wait [0..<7] ?C = Return True \<or> gc_wait [0..<7] ?C = Return False"
      using w calculation(2) by auto
    ultimately show ?thesis using run by (auto simp: gc_check_checked)
  qed
  have small: "gc_check now L = Overrun \<longleftrightarrow> (\<forall>i. int i + 2 \<le> ?h \<longrightarrow> slow_gap ?C i)" if h: "?h < 8"
  proof -
    have "gc_check now L = Overrun \<longleftrightarrow> gc_wait [0..<7] ?C = Overrun"
      by (auto simp: gc_check_checked obind_eq_Overrun)
    also have "\<dots> \<longleftrightarrow> (\<exists>j<7. ?h < int j + 2 \<and> (\<forall>i<j. slow_gap ?C i))" using w by (auto simp: Ball_def)
    also have "\<dots> \<longleftrightarrow> (\<forall>i. int i + 2 \<le> ?h \<longrightarrow> slow_gap ?C i)"
    proof
      assume "\<exists>j<7. ?h < int j + 2 \<and> (\<forall>i<j. slow_gap ?C i)"
      then show "\<forall>i. int i + 2 \<le> ?h \<longrightarrow> slow_gap ?C i" by force
    next
      assume "\<forall>i. int i + 2 \<le> ?h \<longrightarrow> slow_gap ?C i"
      then show "\<exists>j<7. ?h < int j + 2 \<and> (\<forall>i<j. slow_gap ?C i)"
        using h b by (intro exI [of _ "nat (?h - 1)"]) auto
    qed
    finally show ?thesis .
  qed
  have start: "gc_check now (loop_start n) = Overrun"
  proof -
    have "loop_ok n (checked now (loop_start n))"
      by (rule loop_ok_checked) (rule loop_reachable_ok [OF loop_reachable.start])
    from gc_wait_Cons [OF this, of 0 "[1..<7]"] show ?thesis
      by (simp add: gc_check_checked upt_conv_Cons) (simp add: checked_def loop_start_def RPM_SAMPLES_def signed_modulo_int_def)
  qed
  show ?thesis unfolding Let_def using big small start by blast
qed

text \<open>
  \<open>CheckStatus\<close> starts the idle watcher when the heap is larger than 128 MB or
  when the third tick back is at least 4 s ago; with fewer than three ticks in the ring it
  reads before the array unless the heap is that large.
\<close>

theorem check_status_correct:
  assumes "loop_reachable n L"
  shows "let big = 1024 * 1024 * 128 < heap; h = tick_time_head L in
    (\<not> running L Gc_idle \<and> big \<longrightarrow> check_status now heap L = Return (ev_watcher_start Gc_idle L)) \<and>
    (running L Gc_idle \<or> \<not> big \<longrightarrow>
       (h < 3 \<longrightarrow> check_status now heap L = Overrun) \<and>
       (3 \<le> h \<longrightarrow> (\<exists>L'. check_status now heap L = Return L' \<and>
          (running L' Gc_idle \<longleftrightarrow> running L Gc_idle \<or> 4000 \<le> now - tick_times L ! nat (h - 3)))))"
  using TICK_TIME_value [OF loop_reachable_ok [OF assms], of 3]
  by (auto simp: check_status_def Let_def GC_WAIT_TIME_def)


theorem gc_check_correct_witness:
  "gc_check 1000 (loop_start 2) = Overrun \<and> tick_time_head (checked 1000 (loop_start 2)) = 1"
  using gc_check_correct [OF loop_reachable.start, of 1000 2]
  by (simp add: checked_def loop_start_def RPM_SAMPLES_def signed_modulo_int_def Let_def)

theorem check_status_correct_witness:
  "check_status 1000 0 (loop_start 0) = Overrun"
  using check_status_correct [OF loop_reachable.start, of 0 0 1000]
  by (simp add: loop_start_def Let_def)

end
