(* ===== verification/NodeProcess.thy ===== *)
theory NodeProcess
  imports Encoding
begin

text \<open>
  The methods of \<open>process\<close> in \<open>src/node.cc\<close>: \<open>Umask\<close>, \<open>SetGid\<close>, \<open>SetUid\<close>, \<open>Kill\<close>, \<open>Chdir\<close>,
  \<open>Binding\<close>, \<open>DLOpen\<close> and the property handlers of \<open>process.env\<close>. System calls are
  arguments; what they do to the process (the file mode mask, the environment) is modelled
  where the code depends on it.
\<close>

text \<open>A value stored in an \<open>int\<close> of 32 bits.\<close>

definition wrap32 :: "int \<Rightarrow> int" where "wrap32 i = signed_take_bit 31 i"

lemma wrap32_small: "int32_range i \<Longrightarrow> wrap32 i = i"
  by (simp add: wrap32_def int32_range_def signed_take_bit_int_eq_self)

lemma wrap32_mod: "k \<le> 32 \<Longrightarrow> wrap32 i mod 2 ^ k = i mod 2 ^ k"
  unfolding wrap32_def take_bit_eq_mod [symmetric]
proof (rule bit_eqI)
  fix n assume "k \<le> 32"
  then show "bit (take_bit k (signed_take_bit 31 i)) n = bit (take_bit k i) n"
    by (cases "n = 31") (auto simp: bit_simps min_def)
qed

section \<open>umask\<close>

text \<open>The system call: only the nine permission bits count.\<close>

definition umask_sys :: "int \<Rightarrow> nat \<Rightarrow> nat \<times> nat" where
  "umask_sys m cmask = (cmask, nat (m mod 512))"

fun octal_loop :: "u8 list \<Rightarrow> int \<Rightarrow> int option" where
  "octal_loop [] oct = Some oct"
| "octal_loop (c # cs) oct =
     (if 0x37 < c \<or> c < 0x30 then None
      else octal_loop cs (wrap32 (wrap32 (oct * 8) + (int (unat c) - 0x30))))"

text \<open>The result with the mask afterwards.\<close>

definition umask_js :: "conv \<Rightarrow> js_value list \<Rightarrow> nat \<Rightarrow> js_value outcome \<times> nat" where
  "umask_js h args cmask =
     (if length args < 1 \<or> arg args 0 = JUndefined
      then let (old, m1) = umask_sys 0 cmask; (_, m2) = umask_sys (int old) m1
           in (Return (jint (int old)), m2)
      else if \<not> is_int32 (arg args 0) \<and> \<not> is_string (arg args 0)
      then (Throw (JsTypeError ''argument must be an integer or octal string.''), cmask)
      else case (if is_int32 (arg args 0) then Some (wrap32 (int (uint32_value h (arg args 0))))
                 else octal_loop (utf8_value (to_string h (arg args 0))) 0) of
             None \<Rightarrow> (Throw (JsTypeError ''invalid octal string''), cmask)
           | Some oct \<Rightarrow> (let (old, m) = umask_sys oct cmask in (Return (jint (int old)), m)))"

section \<open>kill, chdir, setuid and setgid\<close>

text \<open>System calls return 0 or an error number.\<close>

definition kill_js :: "conv \<Rightarrow> (int \<Rightarrow> int \<Rightarrow> int) \<Rightarrow> js_value list \<Rightarrow> unit outcome" where
  "kill_js h kill args =
     (if length args \<noteq> 2 then Throw (JsError ''Bad argument.'')
      else let pid = wrap32 (integer_value h (arg args 0)); sig = int32_value h (arg args 1);
               r = kill pid sig
      in if r \<noteq> 0 then Throw (JsErrno r ''kill'' None) else Return ())"

definition chdir_js :: "conv \<Rightarrow> (u8 list \<Rightarrow> int) \<Rightarrow> (int \<Rightarrow> string) \<Rightarrow> js_value list \<Rightarrow> unit outcome" where
  "chdir_js h chdir strerror args =
     (if length args \<noteq> 1 \<or> \<not> is_string (arg args 0) then Throw (JsError ''Bad argument.'')
      else let r = chdir (until_nul (utf8_value (to_string h (arg args 0))))
      in if r \<noteq> 0 then Throw (JsError (strerror r)) else Return ())"

text \<open>
  \<open>getgrnam_r\<close> and \<open>getpwnam_r\<close> give an error number and perhaps an entry, of which the code
  takes the id; they do not set \<open>errno\<close>, whose value before the call is \<open>stale\<close>.
\<close>

definition set_gid ::
  "conv \<Rightarrow> (u8 list \<Rightarrow> int \<times> int option) \<Rightarrow> (int \<Rightarrow> int) \<Rightarrow> int \<Rightarrow> js_value list \<Rightarrow> unit outcome" where
  "set_gid h getgrnam setgid stale args =
     (if length args < 1 then Throw (JsError ''setgid requires 1 argument'')
      else obind
        (if is_number (arg args 0) then Return (int32_value h (arg args 0))
         else if is_string (arg args 0)
         then (case getgrnam (until_nul (utf8_value (to_string h (arg args 0)))) of
                 (err, grp) \<Rightarrow>
                   (if err \<noteq> 0 \<or> grp = None then Throw (JsErrno stale ''getgrnam_r'' None)
                    else Return (the grp)))
         else Throw (JsError ''setgid argument must be a number or a string''))
        (\<lambda>gid. let r = setgid gid in if r \<noteq> 0 then Throw (JsErrno r ''setgid'' None) else Return ()))"

definition set_uid ::
  "conv \<Rightarrow> (u8 list \<Rightarrow> int \<times> int option) \<Rightarrow> (int \<Rightarrow> int) \<Rightarrow> int \<Rightarrow> js_value list \<Rightarrow> unit outcome" where
  "set_uid h getpwnam setuid stale args =
     (if length args < 1 then Throw (JsError ''setuid requires 1 argument'')
      else obind
        (if is_number (arg args 0) then Return (int32_value h (arg args 0))
         else if is_string (arg args 0)
         then (case getpwnam (until_nul (utf8_value (to_string h (arg args 0)))) of
                 (err, pwd) \<Rightarrow>
                   (if err \<noteq> 0 \<or> pwd = None then Throw (JsErrno stale ''getpwnam_r'' None)
                    else Return (the pwd)))
         else Throw (JsError ''setuid argument must be a number or a string''))
        (\<lambda>uid. let r = setuid uid in if r \<noteq> 0 then Throw (JsErrno r ''setuid'' None) else Return ()))"

section \<open>The binding cache\<close>

text \<open>Objects are numbers; \<open>fresh\<close> is the next one \<open>Object::New\<close> makes.\<close>

record bindings =
  cache :: "js_string \<Rightarrow> nat option"
  fresh :: nat

definition binding_js ::
  "conv \<Rightarrow> (u8 list \<Rightarrow> bool) \<Rightarrow> js_value \<Rightarrow> bindings \<Rightarrow> nat outcome \<times> bindings" where
  "binding_js h builtin v B =
     (let module = to_string h v; name = until_nul (utf8_value module);
          make = (Return (fresh B), B\<lparr>cache := (cache B)(module \<mapsto> fresh B), fresh := fresh B + 1\<rparr>)
      in case cache B module of
           Some exports \<Rightarrow> (Return exports, B)
         | None \<Rightarrow>
             if builtin name then make
             else if name = cstr ''constants'' then make
             else if name = cstr ''io_watcher'' then make
             else if name = cstr ''timer'' then make
             else if name = cstr ''natives'' then make
             else (Throw (JsError ''No such module''), B))"

section \<open>Loading a shared object\<close>

definition after_last :: "u8 \<Rightarrow> u8 list \<Rightarrow> u8 list" where
  "after_last c s = (if c \<in> set s then rev (takeWhile (\<lambda>x. x \<noteq> c) (rev s)) else s)"

definition before_last :: "u8 \<Rightarrow> u8 list \<Rightarrow> u8 list" where
  "before_last c s = (if c \<in> set s then rev (tl (dropWhile (\<lambda>x. x \<noteq> c) (rev s))) else s)"

text \<open>
  The name of the symbol to look for, in its block of \<open>slen + sizeof("_module") + 1\<close> bytes.
  The second \<open>memcpy\<close> takes one byte more than the literal has; \<open>beyond\<close> is that byte.
\<close>

definition dl_symbol :: "u8 \<Rightarrow> u8 list \<Rightarrow> u8 list outcome" where
  "dl_symbol beyond filename =
     (let sym = before_last 0x2E (after_last 0x2F filename); slen = length sym;
          literal = cstr ''_module'' @ [0]
      in obind (of_mem (poke (replicate (slen + length literal + 1) 0) 0 sym))
           (\<lambda>symstr. of_mem (poke symstr slen (literal @ [beyond]))))"

text \<open>
  \<open>dlsym\<close> gives the version of the module structure it finds; the result is which function
  is called to register the module.
\<close>

datatype registered = Nothing | Module_function "u8 list" | Init_function

definition dl_open ::
  "conv \<Rightarrow> u8 \<Rightarrow> (u8 list \<Rightarrow> bool) \<Rightarrow> (u8 list \<Rightarrow> int option) \<Rightarrow> bool \<Rightarrow> string \<Rightarrow> int \<Rightarrow> js_value list
     \<Rightarrow> registered outcome" where
  "dl_open h beyond dlopen dlsym has_init dlerror NODE_MODULE_VERSION args =
     (if length args < 2 then Return Nothing
      else let filename = until_nul (utf8_value (to_string h (arg args 0)))
      in if \<not> dlopen filename then Throw (JsError dlerror)
      else obind (dl_symbol beyond filename)
        (\<lambda>symstr. let s = until_nul symstr
           in case dlsym s of
                None \<Rightarrow>
                  (if \<not> has_init then Throw (JsError ''No module symbol found in module.'')
                   else Return Init_function)
              | Some version \<Rightarrow>
                  (if version \<noteq> NODE_MODULE_VERSION
                   then Throw (JsError ''Module version mismatch, refusing to load.'')
                   else Return (Module_function s))))"

section \<open>process.env\<close>

text \<open>
  \<open>environ\<close> is the list of its entries \<open>NAME=value\<close>; \<open>getenv\<close>, \<open>setenv\<close> and \<open>unsetenv\<close> as the
  C library documents them: a name that is empty or holds \<open>=\<close> is refused.
\<close>

definition names :: "u8 list \<Rightarrow> u8 list \<Rightarrow> bool" where
  "names k e \<longleftrightarrow> take (length k + 1) e = k @ [0x3D]"

definition getenv :: "u8 list \<Rightarrow> u8 list list \<Rightarrow> u8 list option" where
  "getenv k env =
     (if k = [] then None else map_option (drop (length k + 1)) (find (names k) env))"

fun put_entry :: "u8 list \<Rightarrow> u8 list \<Rightarrow> u8 list list \<Rightarrow> u8 list list" where
  "put_entry k v [] = [k @ [0x3D] @ v]"
| "put_entry k v (e # es) = (if names k e then (k @ [0x3D] @ v) # es else e # put_entry k v es)"

definition env_name :: "u8 list \<Rightarrow> bool" where
  "env_name k \<longleftrightarrow> k \<noteq> [] \<and> 0x3D \<notin> set k"

definition setenv :: "u8 list \<Rightarrow> u8 list \<Rightarrow> u8 list list \<Rightarrow> u8 list list" where
  "setenv k v env = (if env_name k then put_entry k v env else env)"

definition unsetenv :: "u8 list \<Rightarrow> u8 list list \<Rightarrow> u8 list list" where
  "unsetenv k env = (if env_name k then filter (\<lambda>e. \<not> names k e) env else env)"

definition c_string :: "js_string \<Rightarrow> u8 list" where
  "c_string s = until_nul (utf8_value s)"

definition env_getter :: "js_string \<Rightarrow> u8 list list \<Rightarrow> js_value" where
  "env_getter property env =
     (case getenv (c_string property) env of Some v \<Rightarrow> JString (utf8_decode v) | None \<Rightarrow> JUndefined)"

definition env_setter :: "conv \<Rightarrow> js_string \<Rightarrow> js_value \<Rightarrow> u8 list list \<Rightarrow> js_value \<times> u8 list list" where
  "env_setter h property v env =
     (v, setenv (c_string property) (c_string (to_string h v)) env)"

text \<open>\<open>EnvQuery\<close>: \<open>None\<close> is the empty handle; the attributes are \<open>v8::None\<close>, which is 0.\<close>

definition env_query :: "js_string \<Rightarrow> u8 list list \<Rightarrow> int option" where
  "env_query property env = (if getenv (c_string property) env \<noteq> None then Some 0 else None)"

definition env_deleter :: "js_string \<Rightarrow> u8 list list \<Rightarrow> bool \<times> u8 list list" where
  "env_deleter property env =
     (if getenv (c_string property) env \<noteq> None then (True, unsetenv (c_string property) env)
      else (False, env))"

definition env_enumerator :: "u8 list list \<Rightarrow> js_string list" where
  "env_enumerator env = map (\<lambda>var. utf8_decode (takeWhile (\<lambda>c. c \<noteq> 0x3D) var)) env"

section \<open>The environment as an interface\<close>

text \<open>What \<open>process.env\<close> relies on: the three functions behave as one finite map on valid names.\<close>

locale environment =
  fixes get :: "'k \<Rightarrow> 'e \<Rightarrow> 'v option"
    and put :: "'k \<Rightarrow> 'v \<Rightarrow> 'e \<Rightarrow> 'e"
    and del :: "'k \<Rightarrow> 'e \<Rightarrow> 'e"
    and valid :: "'k \<Rightarrow> bool"
  assumes get_put: "valid k \<Longrightarrow> valid k' \<Longrightarrow> get k' (put k v e) = (if k' = k then Some v else get k' e)"
    and get_del: "valid k \<Longrightarrow> valid k' \<Longrightarrow> get k' (del k e) = (if k' = k then None else get k' e)"
    and put_invalid: "\<not> valid k \<Longrightarrow> put k v e = e"
begin

text \<open>A run of assignments and deletions (\<open>None\<close>) acts on each name by its last one.\<close>

fun run_ops :: "('k \<times> 'v option) list \<Rightarrow> 'e \<Rightarrow> 'e" where
  "run_ops [] e = e"
| "run_ops ((k, Some v) # ops) e = run_ops ops (put k v e)"
| "run_ops ((k, None) # ops) e = run_ops ops (del k e)"

lemma get_run:
  "(\<forall>k\<in>fst ` set ops. valid k) \<Longrightarrow> valid k' \<Longrightarrow>
     get k' (run_ops ops e) = (case map_of (rev ops) k' of Some r \<Rightarrow> r | None \<Rightarrow> get k' e)"
proof (induction ops e rule: run_ops.induct)
  case (2 k v ops e)
  then show ?case by (auto simp: get_put map_add_def split: option.splits)
next
  case (3 k ops e)
  then show ?case by (auto simp: get_del map_add_def split: option.splits)
qed simp

end

lemma names_iff: "names k e \<longleftrightarrow> (\<exists>v. e = k @ [0x3D] @ v)"
proof
  assume "names k e"
  then have "e = (k @ [0x3D]) @ drop (length k + 1) e" unfolding names_def by (metis append_take_drop_id)
  then show "\<exists>v. e = k @ [0x3D] @ v" by auto
qed (auto simp: names_def)

lemma names_entry [simp]: "names k (k @ 0x3D # v)"
  by (auto simp: names_iff)

lemma names_key: "env_name k \<Longrightarrow> names k e \<Longrightarrow> takeWhile (\<lambda>c. c \<noteq> 0x3D) e = k"
  by (auto simp: names_iff env_name_def takeWhile_append)

lemma names_unique: "env_name k \<Longrightarrow> env_name k' \<Longrightarrow> names k e \<Longrightarrow> names k' e \<Longrightarrow> k' = k"
  using names_key by blast

lemma find_put:
  assumes "env_name k" "env_name k'"
  shows "find (names k') (put_entry k v env) = (if k' = k then Some (k @ [0x3D] @ v) else find (names k') env)"
proof (cases "k' = k")
  case True
  then show ?thesis by (induction env) auto
next
  case False
  then have "\<not> names k' e" if "names k e" for e using names_unique [OF assms that] by blast
  then show ?thesis using False by (induction env) auto
qed

lemma find_del:
  assumes "env_name k" "env_name k'"
  shows "find (names k') (filter (\<lambda>e. \<not> names k e) env) = (if k' = k then None else find (names k') env)"
proof (cases "k' = k")
  case True
  then show ?thesis by (induction env) auto
next
  case False
  then have "\<not> names k' e" if "names k e" for e using names_unique [OF assms that] by blast
  then show ?thesis using False by (induction env) auto
qed

interpretation env: environment getenv setenv unsetenv env_name
proof unfold_locales
  fix k k' v e assume k: "env_name k" "env_name k'"
  then have "k \<noteq> []" "k' \<noteq> []" by (simp_all add: env_name_def)
  then show "getenv k' (setenv k v e) = (if k' = k then Some v else getenv k' e)"
    and "getenv k' (unsetenv k e) = (if k' = k then None else getenv k' e)"
    using k by (simp_all add: getenv_def setenv_def unsetenv_def find_put find_del)
qed (simp add: setenv_def)

section \<open>ASCII characters in UTF-8\<close>

lemma high_byte: "bit b 7 \<Longrightarrow> \<not> (b :: u8) \<le> 0x7f"
proof
  assume "bit b 7" "b \<le> 0x7f"
  then have "unat b < 2 ^ 7" by (simp add: word_le_nat_alt)
  then have "\<not> bit (unat b) 7" by (simp add: bit_iff_odd)
  with \<open>bit b 7\<close> show False by (simp add: bit_unsigned_iff flip: bit_nat_iff)
qed

lemma ucast_low: "unat (c :: u32) < 2 ^ 8 \<Longrightarrow> ucast (ucast c :: u8) = c"
  by (rule u32_eqI, drule bits_below) (simp add: all_less_32 bit_simps)

lemma ucast_up: "ucast (ucast (b :: u8) :: u32) = b"
  by (rule u8_eqI) (simp add: all_less_8 bit_simps)

lemma ascii_in_encode:
  assumes "b \<le> (0x7f :: u8)"
  shows "b \<in> set (utf8_encode c) \<longleftrightarrow> c = ucast b"
proof (cases "c \<le> 0x7f")
  case True
  then have "unat c < 2 ^ 8" by (simp add: word_le_nat_alt)
  then have "ucast (ucast c :: u8) = c" by (rule ucast_low)
  then show ?thesis using True ucast_up [of b] by (auto simp: utf8_encode_def)
next
  case False
  have "(ucast b :: u32) \<le> 0x7f"
    using assms by (simp add: word_le_nat_alt unsigned_ucast_eq take_bit_nat_eq_self)
  then have "c \<noteq> ucast b" using False by blast
  moreover have "\<forall>x\<in>set (utf8_encode c). bit x 7"
    using False by (auto simp: utf8_encode_def bit_simps utf8_mask_def)
  ultimately show ?thesis using assms high_byte by blast
qed

lemma bit_u8_less: "bit (b::u8) n \<Longrightarrow> n < 8"
  using bit_u8_beyond [of n b] by (auto simp: not_less [symmetric])

lemma ascii_in_bytes:
  assumes "b \<le> (0x7f :: u8)"
  shows "b \<in> set (utf8_bytes s) \<longleftrightarrow> ucast b \<in> set s"
proof -
  have "(ucast c :: u32) = ucast b \<longleftrightarrow> c = ucast b" for c :: u16
  proof
    assume "(ucast c :: u32) = ucast b"
    then have "(ucast (ucast c :: u32) :: u16) = ucast (ucast b :: u32)" by simp
    moreover have "(ucast (ucast c :: u32) :: u16) = c" by (rule bit_word_eqI) (auto simp: bit_simps)
    moreover have "(ucast (ucast b :: u32) :: u16) = ucast b" by (rule bit_word_eqI) (auto simp: bit_simps)
    ultimately show "c = ucast b" by simp
  next
    assume "c = ucast b"
    then show "(ucast c :: u32) = ucast b" by (auto intro!: bit_word_eqI simp: bit_simps dest!: bit_u8_less)
  qed
  then show ?thesis using ascii_in_encode [OF assms] by (auto simp: utf8_bytes_def)
qed

definition js_name :: "js_string \<Rightarrow> bool" where
  "js_name p \<longleftrightarrow> p \<noteq> [] \<and> 0 \<notin> set p \<and> 0x3D \<notin> set p"

lemma c_string_bytes: "0 \<notin> set s \<Longrightarrow> c_string s = utf8_bytes s"
  using ascii_in_bytes [of 0 s] by (auto simp: c_string_def utf8_value_def until_nul_def takeWhile_eq_all_conv)

lemma utf8_bytes_empty: "utf8_bytes s = [] \<longleftrightarrow> s = []"
  by (cases s) (simp_all add: utf8_bytes_Cons utf8_bytes_Nil)

lemma env_name_c_string: "0 \<notin> set p \<Longrightarrow> env_name (c_string p) \<longleftrightarrow> js_name p"
  using ascii_in_bytes [of "0x3D" p] by (simp add: c_string_bytes env_name_def js_name_def utf8_bytes_empty)

lemma c_string_inj: "0 \<notin> set p \<Longrightarrow> 0 \<notin> set q \<Longrightarrow> c_string p = c_string q \<longleftrightarrow> p = q"
  by (metis c_string_bytes utf8_decode_bytes)

lemma env_deleter_unsetenv: "snd (env_deleter p e) = unsetenv (c_string p) e"
proof -
  have "filter (\<lambda>x. \<not> names k x) e = e" if "find (names k) e = None" for k
    using that by (simp add: find_None_iff filter_id_conv)
  then show ?thesis by (auto simp: env_deleter_def getenv_def unsetenv_def env_name_def)
qed

text \<open>Assignments and deletions by JavaScript.\<close>

fun env_run :: "conv \<Rightarrow> (js_string \<times> js_string option) list \<Rightarrow> u8 list list \<Rightarrow> u8 list list" where
  "env_run h [] e = e"
| "env_run h ((p, Some v) # ops) e = env_run h ops (snd (env_setter h p (JString v) e))"
| "env_run h ((p, None) # ops) e = env_run h ops (snd (env_deleter p e))"

lemma env_run_run:
  "env_run h ops e = env.run_ops (map (\<lambda>(p, v). (c_string p, map_option c_string v)) ops) e"
  by (induction h ops e rule: env_run.induct) (simp_all add: env_setter_def env_deleter_unsetenv)

definition no_nul :: "js_string option \<Rightarrow> bool" where
  "no_nul v \<longleftrightarrow> (case v of Some s \<Rightarrow> 0 \<notin> set s | None \<Rightarrow> True)"

lemma map_of_c_string:
  assumes "\<forall>(q, v)\<in>set ops. js_name q" "js_name p"
  shows "map_of (map (\<lambda>(p, v). (c_string p, map_option c_string v)) ops) (c_string p) =
    map_option (map_option c_string) (map_of ops p)"
  using assms
proof (induction ops)
  case (Cons x ops)
  obtain q v where x: "x = (q, v)" by (cases x)
  have "c_string p = c_string q \<longleftrightarrow> p = q" using Cons.prems x by (intro c_string_inj) (auto simp: js_name_def)
  then show ?case using Cons x by auto
qed simp

lemma env_query_enumerated:
  assumes "js_name p" "env_query p e \<noteq> None"
  shows "p \<in> set (env_enumerator e)"
proof -
  have n: "env_name (c_string p)" using env_name_c_string assms(1) by (simp add: js_name_def)
  obtain x where "x \<in> set e" "names (c_string p) x"
    using assms(2) by (auto simp: env_query_def getenv_def find_None_iff simp del: not_None_eq split: if_splits)
  then have "takeWhile (\<lambda>c. c \<noteq> 0x3D) x = c_string p" "x \<in> set e" using names_key n by blast+
  moreover have "utf8_decode (c_string p) = p"
    using assms(1) by (simp add: c_string_bytes utf8_decode_bytes js_name_def)
  ultimately show ?thesis by (force simp: env_enumerator_def)
qed

text \<open>
  \<open>process.env\<close> after any assignments and deletions of proper names: each name
  reads as the last value assigned to it, or undefined once deleted, and as before when it was
  not touched; the query handler says the same, a name with a value is enumerated, and a name
  that the C library refuses (empty or with \<open>=\<close>) is dropped without an error.
\<close>

theorem env_last_write:
  assumes "\<forall>(q, v)\<in>set ops. js_name q \<and> no_nul v" "js_name p"
  shows "(let e' = env_run h ops e in
    env_getter p e' = (case map_of (rev ops) p of
        Some (Some v) \<Rightarrow> JString v | Some None \<Rightarrow> JUndefined | None \<Rightarrow> env_getter p e) \<and>
    (env_query p e' \<noteq> None \<longleftrightarrow> env_getter p e' \<noteq> JUndefined) \<and>
    (env_query p e' \<noteq> None \<longrightarrow> p \<in> set (env_enumerator e'))) \<and>
    (0 \<notin> set q \<and> \<not> js_name q \<longrightarrow> env_setter h q v e = (v, e))"
proof -
  let ?ops = "map (\<lambda>(p, v). (c_string p, map_option c_string v)) ops"
  have valid: "\<forall>k\<in>fst ` set ?ops. env_name k" "env_name (c_string p)"
    using assms env_name_c_string by (fastforce simp: js_name_def)+
  have "\<forall>(q, v)\<in>set (rev ops). js_name q" using assms(1) by auto
  then have m: "map_of (map (\<lambda>(p, v). (c_string p, map_option c_string v)) (rev ops)) (c_string p) =
      map_option (map_option c_string) (map_of (rev ops) p)"
    using assms(2) by (rule map_of_c_string)
  have g: "getenv (c_string p) (env_run h ops e) =
      (case map_of (rev ops) p of Some r \<Rightarrow> map_option c_string r | None \<Rightarrow> getenv (c_string p) e)"
    unfolding env_run_run using env.get_run [OF valid, of e] m
    by (auto simp: rev_map split: option.splits)
  have "map_of (rev ops) p = Some (Some v) \<Longrightarrow> utf8_decode (c_string v) = v" for v
  proof -
    assume "map_of (rev ops) p = Some (Some v)"
    then have "(p, Some v) \<in> set ops" by (metis map_of_SomeD set_rev)
    then have "0 \<notin> set v" using assms(1) by (auto simp: no_nul_def)
    then show "utf8_decode (c_string v) = v" by (simp add: c_string_bytes utf8_decode_bytes)
  qed
  then have "env_getter p (env_run h ops e) = (case map_of (rev ops) p of
        Some (Some v) \<Rightarrow> JString v | Some None \<Rightarrow> JUndefined | None \<Rightarrow> env_getter p e)"
    using g by (auto simp: env_getter_def split: option.splits)
  moreover have "env_query p (env_run h ops e) \<noteq> None \<longleftrightarrow> env_getter p (env_run h ops e) \<noteq> JUndefined"
    by (auto simp: env_query_def env_getter_def split: option.splits)
  moreover have "0 \<notin> set q \<and> \<not> js_name q \<longrightarrow> env_setter h q v e = (v, e)"
    using env_name_c_string [of q] by (auto simp: env_setter_def setenv_def)
  ultimately show ?thesis using env_query_enumerated [OF assms(2)] by (simp add: Let_def)
qed

section \<open>umask\<close>

text \<open>The value of a list of octal digits.\<close>

definition octal_value :: "nat list \<Rightarrow> int" where
  "octal_value ds = foldl (\<lambda>a d. a * 8 + int d) 0 ds"

definition octal_string :: "nat list \<Rightarrow> js_string" where
  "octal_string ds = map (\<lambda>d. of_nat (0x30 + d)) ds"

lemma octal_byte: "d < 8 \<Longrightarrow> utf8_encode (ucast (of_nat (48 + d) :: u16)) = [of_nat (48 + d)]"
  by (subgoal_tac "d \<in> {0,1,2,3,4,5,6,7}") (auto simp: utf8_encode_def)

lemma octal_loop_value:
  assumes "\<forall>d\<in>set ds. d < 8" "k mod 512 = k' mod 512"
  shows "\<exists>r. octal_loop (map (\<lambda>d. of_nat (48 + d)) ds) k = Some r \<and>
    r mod 512 = foldl (\<lambda>a d. a * 8 + int d) k' ds mod 512"
  using assms
proof (induction ds arbitrary: k k')
  case (Cons d ds)
  have d: "unat (of_nat (48 + d) :: u8) = 48 + d" using Cons.prems(1)
    unfolding unsigned_of_nat by (simp add: take_bit_nat_eq_self)
  then have ok: "\<not> (0x37 < (of_nat (48 + d) :: u8) \<or> (of_nat (48 + d) :: u8) < 0x30)"
    using Cons.prems(1) by (simp add: word_less_nat_alt)
  have m: "wrap32 x mod 512 = x mod 512" for x using wrap32_mod [of 9 x] by simp
  have "wrap32 (wrap32 (k * 8) + int d) mod 512 = (wrap32 (k * 8) + int d) mod 512" by (rule m)
  also have "\<dots> = (k * 8 + int d) mod 512" by (rule mod_add_cong [OF m refl])
  also have "\<dots> = (k' * 8 + int d) mod 512"
    by (rule mod_add_cong [OF mod_mult_cong [OF Cons.prems(2) refl] refl])
  finally show ?case
    using Cons.IH [of "wrap32 (wrap32 (k * 8) + int d)" "k' * 8 + int d"] Cons.prems(1) ok d by simp
qed simp


lemma octal_utf8: "\<forall>d\<in>set ds. d < 8 \<Longrightarrow> utf8_value (octal_string ds) = map (\<lambda>d. of_nat (48 + d)) ds"
  unfolding utf8_value_def octal_string_def utf8_bytes_def
  by (induction ds) (simp_all add: octal_byte del: of_nat_add)

text \<open>
  \<open>umask\<close> with a string of octal digits of any length sets the mask to its
  value, of which the nine permission bits count even when the \<open>int\<close> wraps around, and
  returns the old one; a number does the same, no argument only reads the mask, and any other
  value or character raises a TypeError and leaves the mask alone.
\<close>

theorem umask_correct:
  assumes "m < 512"
  shows "((\<forall>d\<in>set ds. d < 8) \<longrightarrow>
      umask_js h [JString (octal_string ds)] m = (Return (jint (int m)), nat (octal_value ds mod 512))) \<and>
    (is_int32 v \<and> args \<noteq> [] \<and> arg args 0 = v \<longrightarrow>
      umask_js h args m = (Return (jint (int m)), nat (int32_value h v mod 512))) \<and>
    umask_js h [] m = (Return (jint (int m)), m) \<and>
    (s @ [c] @ t = utf8_value str \<and> (c < 0x30 \<or> 0x37 < c) \<longrightarrow>
      umask_js h [JString str] m = (Throw (JsTypeError ''invalid octal string''), m)) \<and>
    (args \<noteq> [] \<and> arg args 0 \<noteq> JUndefined \<and> \<not> is_int32 (arg args 0) \<and> \<not> is_string (arg args 0) \<longrightarrow>
      umask_js h args m = (Throw (JsTypeError ''argument must be an integer or octal string.''), m))"
proof (intro conjI impI)
  assume d: "\<forall>d\<in>set ds. d < 8"
  obtain r where "octal_loop (map (\<lambda>d. of_nat (48 + d)) ds) 0 = Some r" "r mod 512 = octal_value ds mod 512"
    using octal_loop_value [OF d, of 0 0] by (auto simp: octal_value_def)
  then show "umask_js h [JString (octal_string ds)] m = (Return (jint (int m)), nat (octal_value ds mod 512))"
    by (simp add: umask_js_def octal_utf8 [OF d] umask_sys_def del: of_nat_add)
next
  assume v: "is_int32 v \<and> args \<noteq> [] \<and> arg args 0 = v"
  then obtain x where x: "v = JNumber x" by (cases v) auto
  have "(r - 4294967296) mod 512 = r mod 512" for r :: int
    using mod_mult_self2 [of r 512 "-8388608"] by simp
  then have "int (uint32_value h v) mod 512 = int32_value h v mod 512"
    by (simp add: uint32_value_def int32_value_def double_to_int32_def Let_def)
  then have "wrap32 (int (uint32_value h v)) mod 512 = int32_value h v mod 512"
    using wrap32_mod [of 9 "int (uint32_value h v)"] by simp
  then show "umask_js h args m = (Return (jint (int m)), nat (int32_value h v mod 512))"
    using v x by (simp add: umask_js_def umask_sys_def)
next
  show "umask_js h [] m = (Return (jint (int m)), m)"
    using assms by (simp add: umask_js_def umask_sys_def)
next
  assume c: "s @ [c] @ t = utf8_value str \<and> (c < 0x30 \<or> 0x37 < c)"
  then have bad: "c < 0x30 \<or> 0x37 < c" by blast
  have "octal_loop (s @ [c] @ t) k = None" for k using bad by (induction s arbitrary: k) auto
  then show "umask_js h [JString str] m = (Throw (JsTypeError ''invalid octal string''), m)"
    using c by (simp add: umask_js_def)
qed (simp add: umask_js_def)

section \<open>kill\<close>

text \<open>
  \<open>kill\<close> passes a process number in the 32-bit range on as it is and reports the
  error of the system call; a number outside that range is cut to 32 bits, so that a number of
  the form \<open>2^32 * k + p\<close> signals process \<open>p\<close>, with \<open>p = 0\<close> the own process group and \<open>p = -1\<close>
  every process.
\<close>

theorem kill_target:
  assumes "int32_range p" "int32_range sig" "- (2 ^ 31) < k" "k < 2 ^ 31 - 1"
  shows "kill_js h kill [jint (2 ^ 32 * k + p), jint sig] = kill_js h kill [jint p, jint sig] \<and>
    (kill p sig = 0 \<longrightarrow> kill_js h kill [jint p, jint sig] = Return ()) \<and>
    (kill p sig \<noteq> 0 \<longrightarrow> kill_js h kill [jint p, jint sig] = Throw (JsErrno (kill p sig) ''kill'' None))"
proof -
  have p: "- (2 ^ 31) \<le> p" "p < 2 ^ 31" using assms(1) by (auto simp: int32_range_def)
  have i: "integer_value h (jint (2 ^ 32 * k + p)) = 2 ^ 32 * k + p" "integer_value h (jint p) = p"
    using p assms(3,4) by (auto simp: jint_def Let_def)
  have "take_bit 32 (2 ^ 32 * k + p) = take_bit 32 p" by (simp add: take_bit_eq_mod)
  then have "wrap32 (2 ^ 32 * k + p) = wrap32 p"
    unfolding wrap32_def by (simp add: signed_take_bit_eq_iff_take_bit_eq)
  moreover have "wrap32 p = p" using assms(1) by (rule wrap32_small)
  ultimately show ?thesis using i assms(2) by (simp add: kill_js_def Let_def del: integer_value.simps)
qed

section \<open>Loading modules\<close>

lemma after_last_append: "c \<notin> set b \<Longrightarrow> after_last c (a @ c # b) = b"
proof -
  assume "c \<notin> set b"
  then have "takeWhile (\<lambda>x. x \<noteq> c) (rev b @ c # rev a) = rev b"
    by (subst takeWhile_append2) auto
  then show ?thesis by (simp add: after_last_def)
qed

lemma before_last_append: "c \<notin> set b \<Longrightarrow> before_last c (a @ c # b) = a"
proof -
  assume "c \<notin> set b"
  then have "dropWhile (\<lambda>x. x \<noteq> c) (rev b @ c # rev a) = c # rev a"
    by (subst dropWhile_append2) auto
  then show ?thesis by (simp add: before_last_def)
qed

lemma dl_symbol_block:
  assumes "before_last 0x2E (after_last 0x2F f) = base" "0 \<notin> set base"
  shows "\<exists>b. dl_symbol beyond f = Return b \<and> length b = length base + 9 \<and>
    until_nul b = base @ cstr ''_module''"
proof -
  have m: "length (cstr ''_module'') = 7" "\<forall>x\<in>set (cstr ''_module''). x \<noteq> 0" by (simp_all add: cstr_def)
  have p: "poke (replicate (length base + length (cstr ''_module'' @ [0]) + 1) 0) 0 base = Some (base @ replicate 9 0)"
    using m(1) by (cases "base = []") (simp_all add: poke_def drop_replicate)
  have "poke (base @ replicate 9 0) (length base) (cstr ''_module'' @ [0, beyond]) =
      Some (base @ cstr ''_module'' @ [0, beyond])"
    using m(1) by (simp add: poke_def)
  then have "dl_symbol beyond f = Return (base @ cstr ''_module'' @ [0, beyond])"
    unfolding dl_symbol_def Let_def assms(1) p by (simp add: of_mem_def)
  moreover have "until_nul (base @ cstr ''_module'' @ 0 # [beyond]) = base @ cstr ''_module''"
    unfolding until_nul_def append_assoc [symmetric]
    using assms(2) m(2) by (subst takeWhile_append2) auto
  ultimately show ?thesis using m(1) by simp
qed

text \<open>
  The symbol that \<open>dlopen\<close> looks for is the file name without directory and last
  extension, followed by \<open>_module\<close>; the block made for it is filled exactly, and what the
  second copy reads behind the literal does not change the symbol.
\<close>

theorem dl_symbol_correct:
  assumes "0x2F \<notin> set base" "0x2F \<notin> set ext" "0x2E \<notin> set ext" "0 \<notin> set base"
  shows "(\<exists>b. dl_symbol beyond (dir @ [0x2F] @ base @ [0x2E] @ ext) = Return b \<and>
      length b = length base + 9 \<and> until_nul b = base @ cstr ''_module'') \<and>
    (0x2E \<notin> set base \<longrightarrow> (\<exists>b. dl_symbol beyond base = Return b \<and> until_nul b = base @ cstr ''_module''))"
proof -
  have "after_last 0x2F (dir @ 0x2F # base @ 0x2E # ext) = base @ 0x2E # ext"
    using assms(1,2) by (intro after_last_append) auto
  then have 1: "before_last 0x2E (after_last 0x2F (dir @ [0x2F] @ base @ [0x2E] @ ext)) = base"
    using before_last_append [OF assms(3)] by simp
  have 2: "0x2E \<notin> set base \<Longrightarrow> before_last 0x2E (after_last 0x2F base) = base"
    using assms(1) by (simp add: after_last_def before_last_def)
  show ?thesis using dl_symbol_block [OF 1 assms(4)] dl_symbol_block [OF 2 assms(4)] by blast
qed

text \<open>
  \<open>process.binding\<close> gives the same object for a name every time, makes a new
  object for a name it has not seen, and throws, with nothing changed, for an unknown one.
\<close>

theorem binding_cached:
  assumes "\<forall>m k. cache B m = Some k \<longrightarrow> k < fresh B"
  shows "case binding_js h builtin v B of
      (Return k, B') \<Rightarrow>
        binding_js h builtin v B' = (Return k, B') \<and> (\<forall>m k. cache B' m = Some k \<longrightarrow> k < fresh B') \<and>
        (\<forall>w. to_string h w \<noteq> to_string h v \<and> cache B (to_string h w) \<noteq> Some k \<longrightarrow>
           fst (binding_js h builtin w B') \<noteq> Return k)
    | (r, B') \<Rightarrow> r = Throw (JsError ''No such module'') \<and> B' = B \<and> cache B (to_string h v) = None"
  using assms by (auto simp: binding_js_def Let_def split: option.split intro: less_SucI)


definition ex_proc_conv :: conv where
  "ex_proc_conv = \<lparr>other_to_number = \<lambda>_. NaN, other_to_string = \<lambda>_. []\<rparr>"

theorem env_last_write_witness:
  "env_getter [0x41] (env_run ex_proc_conv [([0x41], Some [0x62]), ([0x42], None), ([0x41], Some [0x63])] []) = JString [0x63]"
  using env_last_write [of "[([0x41], Some [0x62]), ([0x42], None), ([0x41], Some [0x63])]" "[0x41]" ex_proc_conv "[]"]
  by (simp add: js_name_def no_nul_def Let_def)

theorem umask_correct_witness:
  "umask_js ex_proc_conv [JString (octal_string [0, 7, 7])] 18 = (Return (jint 18), 63)"
  using umask_correct [of 18 "[0, 7, 7]"] by (simp add: octal_value_def)

theorem kill_target_witness:
  "kill_js ex_proc_conv (\<lambda>p s. if p = 0 then 0 else 3) [jint (2 ^ 32), jint 15] = Return ()"
  using kill_target [of 0 15 1 ex_proc_conv "\<lambda>p s. if p = 0 then 0 else 3"] by simp

theorem dl_symbol_correct_witness:
  "\<exists>b. dl_symbol 0xFF (cstr ''/lib/a.node'') = Return b \<and> until_nul b = cstr ''a_module''"
  using dl_symbol_correct [of "cstr ''a''" "cstr ''node''" "0xFF" "cstr ''/lib''"]
  by (auto simp: cstr_def)

theorem binding_cached_witness:
  "let B = \<lparr>cache = (\<lambda>_. None), fresh = 7\<rparr>; B' = \<lparr>cache = [[0x61] \<mapsto> 7], fresh = 8\<rparr>
   in binding_js ex_proc_conv (\<lambda>_. True) (JString [0x61]) B = (Return 7, B') \<and>
      binding_js ex_proc_conv (\<lambda>_. True) (JString [0x61]) B' = (Return 7, B')"
proof -
  have 1: "binding_js ex_proc_conv (\<lambda>_. True) (JString [0x61]) \<lparr>cache = (\<lambda>_. None), fresh = 7\<rparr> =
      (Return 7, \<lparr>cache = [[0x61] \<mapsto> 7], fresh = 8\<rparr>)"
    by (simp add: binding_js_def Let_def)
  then show ?thesis
    using binding_cached [of "\<lparr>cache = (\<lambda>_. None), fresh = 7\<rparr>" ex_proc_conv "\<lambda>_. True" "JString [0x61]"]
    by simp
qed

end
