(* ===== verification/NodeMain.thy ===== *)
theory NodeMain
  imports NodeProcess
begin

text \<open>
  Starting up and failing in \<open>src/node.cc\<close>: the command line (\<open>ParseArgs\<close>, \<open>ParseDebugOpt\<close>,
  the arguments handed to V8 and to \<open>process.argv\<close>), the version of OpenSSL cut out of its
  text, and what happens to an exception nobody caught (\<open>FatalException\<close>,
  \<open>DisplayExceptionLine\<close>).
\<close>

section \<open>C strings\<close>

abbreviation code :: "char \<Rightarrow> nat" where "code c \<equiv> of_char c"

definition is_digit :: "char \<Rightarrow> bool" where
  "is_digit c \<longleftrightarrow> 48 \<le> code c \<and> code c \<le> 57"

text \<open>\<open>strstr(s, p) == s\<close>.\<close>

definition starts_with :: "string \<Rightarrow> string \<Rightarrow> bool" where
  "starts_with p s \<longleftrightarrow> take (length p) s = p"

text \<open>\<open>1 + strchr(s, c)\<close>.\<close>

definition after_first :: "char \<Rightarrow> string \<Rightarrow> string" where
  "after_first c s = tl (dropWhile (\<lambda>x. x \<noteq> c) s)"

text \<open>\<open>atoi\<close>, by way of a \<open>long\<close> that saturates, as the C libraries have it.\<close>

fun digits_value :: "string \<Rightarrow> int \<Rightarrow> int" where
  "digits_value (c # cs) n = (if is_digit c then digits_value cs (n * 10 + int (code c) - 48) else n)"
| "digits_value [] n = n"

definition atoi :: "string \<Rightarrow> int" where
  "atoi s =
     (let s1 = dropWhile (\<lambda>c. code c = 32 \<or> 9 \<le> code c \<and> code c \<le> 13) s;
          n = (case s1 of
                 c # r \<Rightarrow> (if c = CHR ''-'' then - digits_value r 0
                           else if c = CHR ''+'' then digits_value r 0 else digits_value s1 0)
               | [] \<Rightarrow> 0)
      in wrap32 (max (- (2 ^ 63)) (min (2 ^ 63 - 1) n)))"

section \<open>The command line\<close>

record options =
  use_debug_agent :: bool
  debug_wait_connect :: bool
  debug_port :: int
  max_stack_size :: int
  eval_string :: "string option"
  option_end_index :: nat

definition no_options :: options where
  "no_options = \<lparr>use_debug_agent = False, debug_wait_connect = False, debug_port = 5858,
     max_stack_size = 0, eval_string = None, option_end_index = 0\<rparr>"

datatype printed = Usage | Version | Build_variables | Bad_debug_option bool | Eval_requires_argument

datatype 'a run = Going 'a | Exit int "printed list"

fun rbind :: "'a run \<Rightarrow> ('a \<Rightarrow> 'b run) \<Rightarrow> 'b run" where
  "rbind (Going x) f = f x"
| "rbind (Exit c p) f = Exit c p"

definition parse_debug_opt :: "string \<Rightarrow> options \<Rightarrow> options run" where
  "parse_debug_opt a q0 =
     (let q = q0\<lparr>use_debug_agent := True\<rparr>;
          check = (\<lambda>p r. if p \<and> 1024 < debug_port r \<and> debug_port r < 65536 then Going r
                         else Exit 1 [Bad_debug_option p, Usage])
      in if a = ''--debug-brk'' then Going (q\<lparr>debug_wait_connect := True\<rparr>)
         else if a = ''--debug'' then Going q
         else if starts_with ''--debug-brk='' a
         then check True (q\<lparr>debug_wait_connect := True, debug_port := atoi (after_first (CHR ''='') a)\<rparr>)
         else if starts_with ''--debug='' a
         then check True (q\<lparr>debug_port := atoi (after_first (CHR ''='') a)\<rparr>)
         else check False q)"

text \<open>The loop of \<open>ParseArgs\<close> on the arguments from \<open>i\<close>, which it returns as it leaves them.\<close>

fun parse_from :: "nat \<Rightarrow> string list \<Rightarrow> options \<Rightarrow> (string list \<times> options) run" where
  "parse_from i [] q = Going ([], q\<lparr>option_end_index := i\<rparr>)"
| "parse_from i (a # as) q =
     (let keep = (\<lambda>b r. rbind (parse_from (Suc i) as r) (\<lambda>(v, q'). Going (b # v, q')))
      in if starts_with ''--debug'' a then rbind (parse_debug_opt a q) (keep '''')
         else if a = ''--version'' \<or> a = ''-v'' then Exit 0 [Version]
         else if a = ''--vars'' then Exit 0 [Build_variables]
         else if starts_with ''--max-stack-size='' a
         then keep '''' (q\<lparr>max_stack_size := atoi (after_first (CHR ''='') a)\<rparr>)
         else if a = ''--help'' \<or> a = ''-h'' then Exit 0 [Usage]
         else if a = ''--eval'' \<or> a = ''-e''
         then (case as of
                 [] \<Rightarrow> Exit 1 [Eval_requires_argument]
               | s # as' \<Rightarrow>
                   rbind (parse_from (Suc (Suc i)) as' (q\<lparr>eval_string := Some s\<rparr>))
                     (\<lambda>(v, q'). Going ('''' # s # v, q')))
         else if a = ''--v8-options'' then keep ''--help'' q
         else if a = [] \<or> hd a \<noteq> CHR ''-'' then Going (a # as, q\<lparr>option_end_index := i\<rparr>)
         else keep a q)"

definition parse_args :: "string list \<Rightarrow> (string list \<times> options) run" where
  "parse_args argv =
     (case argv of
        [] \<Rightarrow> Going ([], no_options\<lparr>option_end_index := 1\<rparr>)
      | prog # args \<Rightarrow> rbind (parse_from 1 args no_options) (\<lambda>(v, q'). Going (prog # v, q')))"

text \<open>The arguments \<open>Start\<close> hands to V8 and those \<open>Load\<close> puts into \<open>process.argv\<close>.\<close>

definition v8_args :: "string list \<Rightarrow> options \<Rightarrow> string list" where
  "v8_args argv q =
     take (option_end_index q) argv @
       (if debug_wait_connect q then [''--expose_debug_as'', ''v8debug''] else [])"

definition process_argv :: "string list \<Rightarrow> options \<Rightarrow> string list" where
  "process_argv argv q = argv ! 0 # drop (option_end_index q) argv"

section \<open>The version of OpenSSL\<close>

text \<open>
  The two indices; \<open>j\<close> is not set when the text has no digit, and the copy from it is
  undefined.
\<close>

fun skip_to :: "(char \<Rightarrow> bool) \<Rightarrow> string \<Rightarrow> nat \<Rightarrow> nat" where
  "skip_to P (c # cs) i = (if P c then i else skip_to P cs (Suc i))"
| "skip_to P [] i = i"

definition openssl_version :: "string \<Rightarrow> string outcome" where
  "openssl_version text =
     (let l = length text; i = skip_to is_digit text 0
      in if i = l then Overrun
         else let j = skip_to (\<lambda>c. c = CHR '' '') (drop (i + 1) text) (i + 1)
              in Return (take (j - i) (drop i text)))"

section \<open>Uncaught exceptions\<close>

text \<open>
  \<open>uncaught_exception_counter\<close> is the state. \<open>listeners\<close> and \<open>emit\<close> are the properties of
  \<open>process\<close>, \<open>ret\<close> what calling the first one gives; \<open>call_emit\<close> is what the call of the
  second does to the counter and the process.
\<close>

datatype 'a process = Running 'a | Exited int

definition fatal_exception ::
  "js_value \<Rightarrow> js_value \<Rightarrow> js_value \<Rightarrow> (int \<Rightarrow> int process outcome) \<Rightarrow> int \<Rightarrow> int process outcome" where
  "fatal_exception listeners ret emit call_emit counter =
     (if 0 < counter then Return (Exited 1)
      else oassert (is_function listeners) (oassert (is_array ret)
        (case ret of
           JArray ls \<Rightarrow>
             (if ls = [] then Return (Exited 1)
              else oassert (is_function emit)
                (obind (call_emit (counter + 1))
                   (\<lambda>p. case p of Running c \<Rightarrow> Return (Running (c - 1)) | Exited e \<Rightarrow> Return (Exited e))))
         | _ \<Rightarrow> Abort)))"

text \<open>
  What \<open>DisplayExceptionLine\<close> prints for a message: the file and line, the text from the
  offset and the underline. The text is a C string, of which \<open>sourceline_string + offset\<close> may
  skip more than there is.
\<close>

record message =
  m_script :: "u8 list"
  m_line :: int
  m_source :: "u8 list"
  m_start :: int
  m_end :: int

definition display_exception_line :: "message \<Rightarrow> (u8 list \<times> int \<times> u8 list \<times> u8 list) outcome" where
  "display_exception_line m =
     (let offset = (if m_line m = 1 then 62 else 0); text = until_nul (m_source m);
          underline = replicate (nat (m_start m - offset)) 0x20 @ replicate (nat (m_end m - m_start m)) 0x5E
      in if length text < nat offset then Overrun
         else Return (until_nul (m_script m), m_line m, drop (nat offset) text, underline))"

section \<open>What parsing the command line leaves\<close>

definition node_option :: "string \<Rightarrow> bool" where
  "node_option a \<longleftrightarrow> starts_with ''--debug'' a \<or> starts_with ''--max-stack-size='' a \<or>
     a \<in> {''--version'', ''-v'', ''--vars'', ''--help'', ''-h'', ''--eval'', ''-e'', ''--v8-options''}"

text \<open>What the loop leaves at a position before the end of the options.\<close>

definition left_at :: "string list \<Rightarrow> string list \<Rightarrow> nat \<Rightarrow> bool" where
  "left_at old new j \<longleftrightarrow> new ! j = '''' \<or> new ! j = ''--help'' \<or>
     (new ! j = old ! j \<and> \<not> node_option (old ! j) \<and> hd (old ! j) = CHR ''-'') \<or>
     (0 < j \<and> old ! (j - 1) \<in> {''--eval'', ''-e''} \<and> new ! j = old ! j)"

definition good_port :: "options \<Rightarrow> bool" where
  "good_port q \<longleftrightarrow> 1024 < debug_port q \<and> debug_port q < 65536"

lemma rbind_Going [simp]: "rbind m f = Going y \<longleftrightarrow> (\<exists>x. m = Going x \<and> f x = Going y)"
  by (cases m) auto

lemma rbind_Exit [simp]: "rbind m f = Exit c p \<longleftrightarrow> m = Exit c p \<or> (\<exists>x. m = Going x \<and> f x = Exit c p)"
  by (cases m) auto

lemma parse_debug_opt_port: "parse_debug_opt a q = Going q' \<Longrightarrow> good_port q \<Longrightarrow> good_port q'"
  by (auto simp: parse_debug_opt_def good_port_def Let_def split: if_splits)

lemma left_at_Cons:
  "left_at (a # old) (b # new) (Suc j) \<longleftrightarrow> left_at old new j \<or>
     (j = 0 \<and> a \<in> {''--eval'', ''-e''} \<and> new ! 0 = old ! 0)"
  by (cases j) (auto simp: left_at_def)

definition parsed :: "nat \<Rightarrow> string list \<Rightarrow> options \<Rightarrow> string list \<Rightarrow> options \<Rightarrow> bool" where
  "parsed i as q v q' \<longleftrightarrow> (let e = option_end_index q' in
     length v = length as \<and> i \<le> e \<and> e \<le> i + length as \<and> drop (e - i) v = drop (e - i) as \<and>
     (e < i + length as \<longrightarrow> as ! (e - i) = [] \<or> hd (as ! (e - i)) \<noteq> CHR ''-'') \<and>
     (\<forall>j<e - i. left_at as v j) \<and> (good_port q \<longrightarrow> good_port q'))"

lemma parsed_Cons:
  assumes "parsed (Suc i) as q v q'" "left_at (a # as) (b # v) 0" "good_port q0 \<Longrightarrow> good_port q"
  shows "parsed i (a # as) q0 (b # v) q'"
proof -
  define n where "n = option_end_index q' - Suc i"
  have e: "option_end_index q' = Suc i + n" using assms(1) by (simp add: parsed_def Let_def n_def)
  have "\<forall>j<n. left_at (a # as) (b # v) (Suc j)" using assms(1) e by (simp add: parsed_def left_at_Cons Let_def)
  then have "\<forall>j<Suc n. left_at (a # as) (b # v) j" using assms(2) by (simp add: All_less_Suc2)
  then show ?thesis using assms e by (auto simp: parsed_def Let_def)
qed

lemma parsed_eval:
  assumes "parsed (Suc (Suc i)) as (q\<lparr>eval_string := Some s\<rparr>) v q'" "a \<in> {''--eval'', ''-e''}"
  shows "parsed i (a # s # as) q ('''' # s # v) q'"
proof -
  define n where "n = option_end_index q' - Suc (Suc i)"
  have "Suc (Suc i) \<le> option_end_index q'" using assms(1) by (simp add: parsed_def Let_def)
  then have e: "option_end_index q' = Suc (Suc i) + n" unfolding n_def by linarith
  have "\<forall>j<n. left_at (a # s # as) ('''' # s # v) (Suc (Suc j))"
    using assms(1) e by (simp add: parsed_def left_at_Cons Let_def)
  moreover have "left_at (a # s # as) ('''' # s # v) 0" "left_at (a # s # as) ('''' # s # v) (Suc 0)"
    using assms(2) by (simp_all add: left_at_def)
  ultimately have "\<forall>j<Suc (Suc n). left_at (a # s # as) ('''' # s # v) j" by (simp add: All_less_Suc2)
  then show ?thesis using assms e by (auto simp: parsed_def Let_def good_port_def)
qed

lemma parse_from_parsed: "parse_from i as q = Going (v, q') \<Longrightarrow> parsed i as q v q'"
proof (induction as arbitrary: i q v q' rule: length_induct)
  case (1 as)
  note IH = 1(1) and going = 1(2)
  show ?case
  proof (cases as)
    case Nil
    then show ?thesis using going by (auto simp: parsed_def good_port_def)
  next
    case (Cons a bs)
    have IH1: "parse_from (Suc i) bs q1 = Going (v1, q2) \<Longrightarrow> parsed (Suc i) bs q1 v1 q2" for q1 v1 q2
      using IH Cons by simp
    have step: "parsed i as q v q'"
      if "parse_from (Suc i) bs q1 = Going (v1, q')" "v = b # v1" "left_at as v 0" "good_port q \<Longrightarrow> good_port q1" for q1 v1 b
      using parsed_Cons [OF IH1 [OF that(1)], of a b q] that Cons by simp
    consider (debug) "starts_with ''--debug'' a"
      | (exits) "a \<in> {''--version'', ''-v'', ''--vars'', ''--help'', ''-h''}" "\<not> starts_with ''--debug'' a"
      | (stack) "starts_with ''--max-stack-size='' a" "\<not> starts_with ''--debug'' a"
          "a \<notin> {''--version'', ''-v'', ''--vars'', ''--help'', ''-h''}"
      | (evals) "a \<in> {''--eval'', ''-e''}"
      | (v8) "a = ''--v8-options''"
      | (stop) "a = [] \<or> hd a \<noteq> CHR ''-''" "\<not> node_option a"
      | (other) "a \<noteq> []" "hd a = CHR ''-''" "\<not> node_option a"
      by (auto simp: node_option_def)
    then show ?thesis
    proof cases
      case debug
      then obtain q1 v1 where q1: "parse_debug_opt a q = Going q1" "parse_from (Suc i) bs q1 = Going (v1, q')" "v = '''' # v1"
        using going Cons by (auto simp: Let_def)
      show ?thesis using q1 parse_debug_opt_port [OF q1(1)] by (intro step [OF q1(2,3)]) (auto simp: left_at_def)
    next
      case exits
      then show ?thesis using going Cons by (auto simp: Let_def starts_with_def)
    next
      case stack
      then obtain q1 v1 where "parse_from (Suc i) bs q1 = Going (v1, q')" "v = '''' # v1"
        "good_port q \<Longrightarrow> good_port q1"
        using going Cons by (auto simp: Let_def good_port_def)
      then show ?thesis by (intro step) (auto simp: left_at_def)
    next
      case evals
      then obtain s cs v1 where c: "bs = s # cs" "v = '''' # s # v1"
        "parse_from (Suc (Suc i)) cs (q\<lparr>eval_string := Some s\<rparr>) = Going (v1, q')"
        using going Cons by (auto simp: Let_def starts_with_def split: list.splits)
      have "length cs < length as" using c Cons by simp
      then have "parsed (Suc (Suc i)) cs (q\<lparr>eval_string := Some s\<rparr>) v1 q'" using IH c(3) by blast
      then show ?thesis using parsed_eval evals c Cons by simp
    next
      case v8
      then obtain v1 where "parse_from (Suc i) bs q = Going (v1, q')" "v = ''--help'' # v1"
        using going Cons by (auto simp: Let_def starts_with_def)
      then show ?thesis by (intro step) (auto simp: left_at_def)
    next
      case stop
      then have "v = as" "q' = q\<lparr>option_end_index := i\<rparr>"
        using going Cons by (auto simp: Let_def node_option_def)
      then show ?thesis using stop Cons by (simp add: parsed_def good_port_def)
    next
      case other
      then obtain v1 where "parse_from (Suc i) bs q = Going (v1, q')" "v = a # v1"
        using going Cons by (auto simp: Let_def node_option_def)
      then show ?thesis using other Cons by (intro step) (auto simp: left_at_def)
    qed
  qed
qed

section \<open>Properties\<close>

text \<open>
  When \<open>ParseArgs\<close> does not end the process it leaves the program name, the
  script and everything after it as they were, so \<open>process.argv\<close> is the program name followed
  by the arguments from the first one that is not an option; before that one every entry is
  blanked, turned into \<open>--help\<close> for V8, an option that is not node's, or the text after
  \<open>--eval\<close>, so V8 never sees an option of node; and the debug port is one the check allows.
\<close>

theorem parse_args_correct:
  assumes "parse_args (prog # args) = Going (v, q)"
  shows "let argv = prog # args; e = option_end_index q in
    length v = length argv \<and> 1 \<le> e \<and> e \<le> length argv \<and> v ! 0 = prog \<and>
    process_argv v q = prog # drop e argv \<and>
    (e < length argv \<longrightarrow> argv ! e = [] \<or> hd (argv ! e) \<noteq> CHR ''-'') \<and>
    (\<forall>j. 0 < j \<and> j < e \<longrightarrow> v ! j = '''' \<or> v ! j = ''--help'' \<or>
       (v ! j = argv ! j \<and> \<not> node_option (argv ! j)) \<or>
       (1 < j \<and> argv ! (j - 1) \<in> {''--eval'', ''-e''} \<and> v ! j = argv ! j)) \<and>
    1024 < debug_port q \<and> debug_port q < 65536"
proof -
  obtain w where w: "parse_from 1 args no_options = Going (w, q)" "v = prog # w"
    using assms by (auto simp: parse_args_def)
  note p = parse_from_parsed [OF w(1)]
  define n where "n = option_end_index q - 1"
  have "1 \<le> option_end_index q" using p by (simp add: parsed_def Let_def)
  then have e: "option_end_index q = Suc n" unfolding n_def by linarith
  have "good_port no_options" by (simp add: good_port_def no_options_def)
  then have port: "good_port q" using p by (simp add: parsed_def Let_def)
  have left: "left_at args w j" if "j < n" for j using p that e by (simp add: parsed_def Let_def)
  have "v ! j = '''' \<or> v ! j = ''--help'' \<or>
       (v ! j = (prog # args) ! j \<and> \<not> node_option ((prog # args) ! j)) \<or>
       (1 < j \<and> (prog # args) ! (j - 1) \<in> {''--eval'', ''-e''} \<and> v ! j = (prog # args) ! j)"
    if j: "0 < j" "j < Suc n" for j
  proof -
    obtain k where k: "j = Suc k" using j(1) by (cases j) auto
    then have "left_at args w k" using left j(2) by simp
    then show ?thesis using w(2) k by (cases k) (auto simp: left_at_def)
  qed
  then show ?thesis
    using p w(2) e port by (simp add: parsed_def process_argv_def good_port_def Let_def)
qed

theorem parse_args_correct_witness:
  "\<exists>v q. parse_args [''node'', ''-e'', ''1'', ''--debug=1025'', ''a.js'', ''-v''] = Going (v, q) \<and>
     process_argv v q = [''node'', ''a.js'', ''-v''] \<and> debug_port q = 1025"
proof -
  have "parse_args [''node'', ''-e'', ''1'', ''--debug=1025'', ''a.js'', ''-v''] =
      Going ([''node'', '''', ''1'', '''', ''a.js'', ''-v''],
        no_options\<lparr>eval_string := Some ''1'', use_debug_agent := True, debug_port := 1025, option_end_index := 4\<rparr>)"
    by (simp add: parse_args_def parse_debug_opt_def starts_with_def after_first_def atoi_def is_digit_def
        wrap32_def signed_take_bit_int_eq_self no_options_def Let_def)
  from this parse_args_correct [OF this] show ?thesis by (simp add: Let_def)
qed

lemma skip_to_append: "\<forall>c\<in>set xs. \<not> P c \<Longrightarrow> skip_to P (xs @ ys) i = skip_to P ys (i + length xs)"
  by (induction xs arbitrary: i) auto

text \<open>
  The version is the part of OpenSSL's text from its first digit up to the next
  space or the end; on a text without a digit the copy uses an index that was never set.
\<close>

theorem openssl_version_correct:
  assumes "\<forall>c\<in>set pre. \<not> is_digit c" "is_digit d" "CHR '' '' \<notin> set mid"
  shows "openssl_version (pre @ d # mid) = Return (d # mid) \<and>
    openssl_version (pre @ d # mid @ CHR '' '' # rest) = Return (d # mid) \<and>
    openssl_version pre = Overrun"
proof -
  have m: "\<forall>c\<in>set mid. \<not> c = CHR '' ''" using assms(3) by auto
  have i: "skip_to is_digit (pre @ d # ys) 0 = length pre" for ys
    using skip_to_append [OF assms(1), of "d # ys" 0] assms(2) by simp
  have n: "skip_to is_digit pre 0 = length pre" using skip_to_append [OF assms(1), of "[]" 0] by simp
  show ?thesis
    using skip_to_append [OF m, of "[]" "length pre + 1"] skip_to_append [OF m, of "CHR '' '' # rest" "length pre + 1"]
    by (simp add: openssl_version_def Let_def i n)
qed

theorem openssl_version_correct_witness:
  "openssl_version ''OpenSSL 0.9.8o 01 Jun'' = Return ''0.9.8o''"
  using openssl_version_correct [of "''OpenSSL ''" "CHR ''0''" "''.9.8o''" "''01 Jun''"] by (simp add: is_digit_def)

text \<open>
  An exception nobody caught ends the process with status 1 when the process has
  no listener for it, and when it is raised while another one is being handled; otherwise the
  listeners are called and the counter is back at 0 afterwards.
\<close>

theorem fatal_exception_correct:
  assumes "is_function listeners" "is_function emit"
  shows "fatal_exception listeners (JArray []) emit call 0 = Return (Exited 1) \<and>
    (fatal_exception listeners (JArray (l # ls)) emit
       (fatal_exception listeners ret emit call) 0 = Return (Exited 1)) \<and>
    ((\<forall>c. call c = Return (Running c)) \<longrightarrow>
       fatal_exception listeners (JArray (l # ls)) emit call 0 = Return (Running 0))"
  using assms by (simp add: fatal_exception_def oassert_def)

theorem fatal_exception_correct_witness:
  "fatal_exception (JFunction 0) (JArray [JFunction 1]) (JFunction 2) (\<lambda>c. Return (Running c)) 0 =
     Return (Running 0)"
  using fatal_exception_correct [of "JFunction 0" "JFunction 2" "\<lambda>c. Return (Running c)" "JFunction 1" "[]"]
  by simp

text \<open>
  \<open>DisplayExceptionLine\<close> prints the source line and puts a caret under each column
  from the start to the end the message gives. On the first line it leaves out the 62
  characters of the module wrapper, and reads past the end of a line that is shorter.
\<close>

theorem display_exception_line_correct:
  assumes "0 \<le> m_start m" "m_start m \<le> m_end m"
  shows "(m_line m = 1 \<and> length (until_nul (m_source m)) < 62 \<longrightarrow> display_exception_line m = Overrun) \<and>
    (m_line m \<noteq> 1 \<longrightarrow> (\<exists>u. display_exception_line m =
        Return (until_nul (m_script m), m_line m, until_nul (m_source m), u) \<and>
        length u = nat (m_end m) \<and> (\<forall>k<nat (m_end m). u ! k = 0x5E \<longleftrightarrow> nat (m_start m) \<le> k))) \<and>
    (m_line m = 1 \<and> 62 \<le> m_start m \<and> 62 \<le> length (until_nul (m_source m)) \<longrightarrow>
      (\<exists>u. display_exception_line m =
        Return (until_nul (m_script m), 1, drop 62 (until_nul (m_source m)), u) \<and>
        (\<forall>k<nat (m_end m) - 62. u ! k = 0x5E \<longleftrightarrow> nat (m_start m) \<le> k + 62)))"
  using assms by (auto simp: display_exception_line_def Let_def nth_append)

theorem display_exception_line_correct_witness:
  "display_exception_line \<lparr>m_script = [], m_line = 1, m_source = [0x78], m_start = 0, m_end = 1\<rparr> = Overrun"
  using display_exception_line_correct [of "\<lparr>m_script = [], m_line = 1, m_source = [0x78], m_start = 0, m_end = 1\<rparr>"]
  by (simp add: until_nul_def)

end
