(* ===== verification/CryptoCodec.thy ===== *)
theory CryptoCodec
  imports Encoding
begin

text \<open>
  The pure parts of \<open>src/node_crypto.cc\<close>: \<open>HexEncode\<close> and \<open>HexDecode\<close>, the search for an
  incomplete UTF-8 character at the end of a piece (\<open>LengthWithoutIncompleteUtf8\<close>), and the
  removal of the padding of a last block (\<open>local_EVP_DecryptFinal_ex\<close>).
\<close>

section \<open>Hexadecimal digits\<close>

text \<open>\<open>%02x\<close> of a byte.\<close>

definition hex_digit :: "u8 \<Rightarrow> u8" where
  "hex_digit n = (if n < 10 then 0x30 + n else 0x61 + (n - 10))"

definition hex_encode :: "u8 list \<Rightarrow> u8 list" where
  "hex_encode bs = concat (map (\<lambda>b. [hex_digit (drop_bit 4 b), hex_digit (b AND 0x0F)]) bs)"

text \<open>The macro on \<open>int\<close>s, of which only the low byte is stored.\<close>

definition hex2i :: "u8 \<Rightarrow> u8" where
  "hex2i c = (if c \<le> 0x39 then c - 0x30 else if c \<le> 0x5A then c - 0x41 + 10 else c - 0x61 + 10)"

fun hex_decode :: "u8 list \<Rightarrow> u8 list" where
  "hex_decode (a # b # r) = (push_bit 4 (hex2i a) OR hex2i b) # hex_decode r"
| "hex_decode _ = []"

lemma u8_nibble_cases:
  assumes "(n :: u8) < 16"
  shows "n \<in> {0, 1, 2, 3, 4, 5, 6, 7, 8, 9, 10, 11, 12, 13, 14, 15}"
proof -
  have "unat n < 16" using assms by (simp add: word_less_nat_alt)
  then have "unat n \<in> {0, 1, 2, 3, 4, 5, 6, 7, 8, 9, 10, 11, 12, 13, 14, 15}"
    unfolding insert_iff empty_iff by presburger
  then show ?thesis by (auto simp: word_unat_eq_iff)
qed

lemma hex2i_digit: "n < 16 \<Longrightarrow> hex2i (hex_digit n) = n"
  by (drule u8_nibble_cases) (auto simp: hex_digit_def hex2i_def)

lemma nibbles_below: "drop_bit 4 (b :: u8) < 16" "(b :: u8) AND 0x0F < 16"
proof -
  have "unat b < 2 ^ LENGTH(8)" by (rule unsigned_less)
  then have "unat (drop_bit 4 b) < 16" by (simp add: drop_bit_eq_div unat_div)
  then show "drop_bit 4 b < 16" by (simp add: word_less_nat_alt)
  have "b AND 0x0F \<le> 0x0F" by (rule word_and_le1)
  then show "b AND 0x0F < 16" by (rule le_less_trans) simp
qed

lemma nibbles_join: "push_bit 4 (drop_bit 4 b) OR (b AND 0x0F) = (b :: u8)"
  by (rule u8_eqI) (simp add: all_less_8 bit_simps)

lemma hex_encode_Cons: "hex_encode (b # bs) = hex_digit (drop_bit 4 b) # hex_digit (b AND 0x0F) # hex_encode bs"
  by (simp add: hex_encode_def)

lemma hex_decode_encode_append: "hex_decode (hex_encode bs @ rest) = bs @ hex_decode rest"
proof (induction bs)
  case (Cons b bs)
  then show ?case by (simp add: hex_encode_Cons hex2i_digit nibbles_below nibbles_join)
qed (simp add: hex_encode_def)

lemma length_hex_encode: "length (hex_encode bs) = 2 * length bs"
  by (induction bs) (simp_all add: hex_encode_def)

lemma length_hex_decode: "length (hex_decode bs) = length bs div 2"
  by (induction bs rule: hex_decode.induct) auto

lemma hex_decode_append: "even (length xs) \<Longrightarrow> hex_decode (xs @ ys) = hex_decode xs @ hex_decode ys"
  by (induction xs rule: hex_decode.induct) auto

section \<open>Incomplete characters\<close>

text \<open>The loop from \<open>answer\<close> downwards, having seen \<open>seen\<close> bytes inside a character.\<close>

fun utf8_end_loop :: "u8 list \<Rightarrow> nat \<Rightarrow> int \<Rightarrow> int" where
  "utf8_end_loop buffer 0 seen = 0"
| "utf8_end_loop buffer (Suc n) seen =
     (let answer = int (Suc n); c = buffer ! n
      in if c AND 0x80 = 0x00 then answer
         else if c AND 0xC0 = 0x80 then utf8_end_loop buffer n (seen + 1)
         else if c AND 0xE0 = 0xC0 then (if 1 \<le> seen then answer + 2 else answer - 1)
         else if c AND 0xF0 = 0xE0 then (if 2 \<le> seen then answer + 3 else answer - 1)
         else if c AND 0xF8 = 0xF0 then (if 3 \<le> seen then answer + 4 else answer - 1)
         else answer)"

definition length_without_incomplete_utf8 :: "u8 list \<Rightarrow> int" where
  "length_without_incomplete_utf8 buffer = utf8_end_loop buffer (length buffer) 0"

text \<open>The bytes that follow the first byte of a character, by that byte; \<open>0\<close> for any other.\<close>

definition following :: "u8 \<Rightarrow> nat" where
  "following c = (if c AND 0xE0 = 0xC0 then 1 else if c AND 0xF0 = 0xE0 then 2
     else if c AND 0xF8 = 0xF0 then 3 else 0)"

lemma utf8_end_loop_inside:
  "\<forall>c\<in>set cs. c AND 0xC0 = 0x80 \<Longrightarrow> utf8_end_loop (p @ cs @ r) (length p + length cs) k =
    utf8_end_loop (p @ cs @ r) (length p) (k + int (length cs))"
proof (induction cs arbitrary: k r rule: rev_induct)
  case (snoc c cs)
  have "c AND 0x80 \<noteq> 0"
  proof
    assume "c AND 0x80 = 0"
    then have "\<not> bit (c AND 0x80) 7" by simp
    moreover have "bit (c AND 0xC0) 7" using snoc.prems by simp
    ultimately show False by (simp add: bit_simps)
  qed
  then have "utf8_end_loop (p @ (cs @ [c]) @ r) (length p + length (cs @ [c])) k =
      utf8_end_loop (p @ (cs @ [c]) @ r) (length p + length cs) (k + 1)"
    using snoc.prems by (simp add: nth_append Let_def)
  then show ?case using snoc.IH [of "[c] @ r" "k + 1"] snoc.prems by (simp add: algebra_simps)
qed simp

lemma following_lead:
  assumes "0 < following c"
  shows "c AND 0x80 \<noteq> 0" "c AND 0xC0 \<noteq> 0x80"
proof -
  have "bit c 7 \<and> bit c 6" if "c AND m = r" "bit r 7" "bit r 6" for m r :: u8
    using that by (auto simp: bit_and_iff)
  from this [of "0xE0" "0xC0"] this [of "0xF0" "0xE0"] this [of "0xF8" "0xF0"] have "bit c 7 \<and> bit c 6"
    using assms by (auto simp: following_def split: if_splits)
  then have b: "bit (c AND 0x80) 7" "bit (c AND 0xC0) 6" by (simp_all add: bit_simps)
  show "c AND 0x80 \<noteq> 0" using b(1) by auto
  show "c AND 0xC0 \<noteq> 0x80"
  proof
    assume "c AND 0xC0 = 0x80"
    then have "bit (0x80 :: u8) 6" using b(2) by simp
    then show False by simp
  qed
qed

lemma utf8_end_lead:
  assumes "0 < following c" "\<forall>x\<in>set cs. x AND 0xC0 = 0x80"
  shows "length_without_incomplete_utf8 (p @ c # cs) =
    (if following c \<le> length cs then int (length p + 1 + following c) + 1 else int (length p))"
proof -
  have l: "length (p @ c # cs) = length (p @ [c]) + length cs" by simp
  have "length_without_incomplete_utf8 (p @ c # cs) = utf8_end_loop (p @ c # cs) (length (p @ [c])) (int (length cs))"
    unfolding length_without_incomplete_utf8_def l
    using utf8_end_loop_inside [OF assms(2), of "p @ [c]" "[]" 0] by simp
  then show ?thesis
    using following_lead [OF assms(1)] assms(1)
    by (auto simp: following_def nth_append Let_def split: if_splits)
qed

section \<open>The padding of the last block\<close>

text \<open>The part of \<open>EVP_CIPHER_CTX\<close> the function reads, and its constants.\<close>

record evp_last =
  block_size :: nat
  no_padding :: bool
  buf_len :: nat
  final_used :: bool
  final_block :: "u8 list"

definition EVP_MAX_BLOCK_LENGTH :: nat where "EVP_MAX_BLOCK_LENGTH = 32"

text \<open>The loop over the last \<open>i\<close> bytes before \<open>b\<close>, each of which has to be \<open>n\<close>.\<close>

fun pad_loop :: "u8 list \<Rightarrow> nat \<Rightarrow> u8 \<Rightarrow> nat \<Rightarrow> bool" where
  "pad_loop final b n 0 = True"
| "pad_loop final b n (Suc i) = (if final ! (b - 1) \<noteq> n then False else pad_loop final (b - 1) n i)"

text \<open>The value returned and the bytes stored at \<open>out\<close>.\<close>

definition local_decrypt_final :: "evp_last \<Rightarrow> int \<times> u8 list" where
  "local_decrypt_final c =
     (let b = block_size c
      in if no_padding c then (if buf_len c \<noteq> 0 then (0, []) else (1, []))
         else if 1 < b then
           (if buf_len c \<noteq> 0 \<or> \<not> final_used c then (0, [])
            else if EVP_MAX_BLOCK_LENGTH < b then (0, [])
            else let n = final_block c ! (b - 1)
            in if b < unat n then (0, [])
               else if \<not> pad_loop (final_block c) b n (unat n) then (0, [])
               else (1, take (b - unat n) (final_block c)))
         else (1, []))"

lemma pad_loop_iff:
  "i \<le> b \<Longrightarrow> b \<le> length final \<Longrightarrow> pad_loop final b n i \<longleftrightarrow> take i (drop (b - i) final) = replicate i n"
proof (induction i arbitrary: b)
  case (Suc i)
  then obtain b' where b: "b = Suc b'" by (cases b) auto
  have "take (Suc i) (drop (b - Suc i) final) = take i (drop (b' - i) final) @ [final ! b']"
    using Suc.prems b by (simp add: take_Suc_conv_app_nth)
  moreover have "replicate (Suc i) n = replicate i n @ [n]" by (simp add: replicate_append_same)
  ultimately show ?case using Suc b by auto
qed simp

section \<open>Properties\<close>

text \<open>
  \<open>HexDecode\<close> inverts \<open>HexEncode\<close>, which makes two digits of every byte; it drops an odd digit
  at the end, and it takes upper case digits as well.
\<close>

theorem hex_roundtrip:
  shows "hex_decode (hex_encode bs) = bs \<and> length (hex_encode bs) = 2 * length bs \<and>
    hex_decode (hex_encode bs @ [c]) = bs \<and>
    hex_decode (map (\<lambda>c. if 0x61 \<le> c then c - 0x20 else c) (hex_encode bs)) = bs"
proof -
  have u: "hex2i (if 0x61 \<le> hex_digit n then hex_digit n - 0x20 else hex_digit n) = n" if "n < 16" for n
    using u8_nibble_cases [OF that] by (auto simp: hex_digit_def hex2i_def)
  have "hex_decode (map (\<lambda>c. if 0x61 \<le> c then c - 0x20 else c) (hex_encode bs)) = bs"
    by (induction bs) (simp_all add: hex_encode_Cons u nibbles_below nibbles_join, simp add: hex_encode_def)
  then show ?thesis
    using hex_decode_encode_append [of bs "[]"] hex_decode_encode_append [of bs "[c]"]
    by (simp add: length_hex_encode)
qed

text \<open>
  The last character of a piece that starts with byte \<open>c\<close> of a character of \<open>following c\<close>
  more bytes: when some of them are missing, the length without that character is found;
  but when they are there, the length returned is one more than the piece has up to the
  end of the character. A piece that ends in ASCII is kept whole.
\<close>

theorem utf8_end_off_by_one:
  assumes "\<forall>x\<in>set cs. x AND 0xC0 = 0x80"
  shows "(0 < following c \<and> length cs < following c \<longrightarrow>
      length_without_incomplete_utf8 (p @ c # cs) = int (length p)) \<and>
    (0 < following c \<and> length cs = following c \<longrightarrow>
      length_without_incomplete_utf8 (p @ c # cs) = int (length (p @ c # cs)) + 1) \<and>
    (a AND 0x80 = 0 \<longrightarrow> length_without_incomplete_utf8 (p @ [a]) = int (length (p @ [a])))"
proof (intro conjI impI)
  assume "a AND 0x80 = 0"
  then show "length_without_incomplete_utf8 (p @ [a]) = int (length (p @ [a]))"
    by (simp add: length_without_incomplete_utf8_def)
qed (use utf8_end_lead [OF _ assms, of c p] in auto)

theorem utf8_end_off_by_one_witness:
  "length_without_incomplete_utf8 [0x41, 0xC3, 0xA9] = 4 \<and> length_without_incomplete_utf8 [0x41, 0xC3] = 1"
proof -
  have f: "following 0xC3 = 1" by (simp add: following_def)
  show ?thesis
    using utf8_end_off_by_one [of "[0xA9]" "0xC3" "[0x41]"] utf8_end_off_by_one [of "[]" "0xC3" "[0x41]"]
    by (simp add: f)
qed

text \<open>
  Property C40: with padding, the last block is accepted exactly when its last byte \<open>n\<close> is at most the block
  size and its last \<open>n\<close> bytes are all \<open>n\<close>, and the bytes before them are the result; so a
  padded block gives the data back, and, unlike OpenSSL's own function, a block that ends in
  0 is accepted as it is.
\<close>

theorem decrypt_final_correct:
  assumes "\<not> no_padding c" "1 < block_size c" "block_size c \<le> 32" "buf_len c = 0" "final_used c"
    and "length (final_block c) = block_size c"
  shows "local_decrypt_final c =
     (let b = block_size c; n = unat (last (final_block c))
      in if n \<le> b \<and> drop (b - n) (final_block c) = replicate n (last (final_block c))
         then (1, take (b - n) (final_block c)) else (0, [])) \<and>
    (final_block c = data @ replicate k (of_nat k) \<and> 0 < k \<longrightarrow> local_decrypt_final c = (1, data)) \<and>
    (last (final_block c) = 0 \<longrightarrow> local_decrypt_final c = (1, final_block c))"
proof -
  let ?f = "final_block c" and ?b = "block_size c"
  have ne: "?f \<noteq> []" using assms(2,6) by auto
  then have l: "?f ! (?b - Suc 0) = last ?f" using assms(6) by (simp add: last_conv_nth)
  have p: "n \<le> ?b \<Longrightarrow> pad_loop ?f ?b x n \<longleftrightarrow> drop (?b - n) ?f = replicate n x" for n x
    using pad_loop_iff [of n ?b ?f x] assms(6) by simp
  have main: "local_decrypt_final c = (let b = ?b; n = unat (last ?f)
      in if n \<le> b \<and> drop (b - n) ?f = replicate n (last ?f) then (1, take (b - n) ?f) else (0, []))"
    using assms p [of "unat (last ?f)" "last ?f"]
    by (auto simp: local_decrypt_final_def Let_def l EVP_MAX_BLOCK_LENGTH_def not_less)
  moreover have "local_decrypt_final c = (1, data)" if d: "?f = data @ replicate k (of_nat k)" "0 < k"
  proof -
    have k: "k \<le> 32" "length data + k = ?b" using d assms(3,6) by simp_all
    have "last ?f = of_nat k" using d by (simp add: last_replicate)
    moreover have "unat (of_nat k :: u8) = k" using k(1) by (simp add: unsigned_of_nat take_bit_nat_eq_self)
    moreover have "?b - k = length data" using k(2) by simp
    ultimately show ?thesis using main k(2) by (simp add: d(1))
  qed
  moreover have "local_decrypt_final c = (1, ?f)" if "last ?f = 0"
    using main that assms(6) by simp
  ultimately show ?thesis by blast
qed

theorem decrypt_final_correct_witness:
  "local_decrypt_final \<lparr>block_size = 4, no_padding = False, buf_len = 0, final_used = True, final_block = [7, 8, 2, 2]\<rparr>
   = (1, [7, 8])"
proof -
  let ?c = "\<lparr>block_size = 4, no_padding = False, buf_len = 0, final_used = True, final_block = [7, 8, 2, 2]\<rparr>"
  have "final_block ?c = [7, 8] @ replicate 2 (of_nat 2)" by (simp add: numeral_2_eq_2)
  then show ?thesis using decrypt_final_correct [of ?c "[7, 8]" 2] by simp
qed

end
