(* ===== verification/Digests.thy ===== *)
theory Digests
  imports CryptoCodec BufferOps
begin

text \<open>
  The classes \<open>Hash\<close>, \<open>Hmac\<close>, \<open>Sign\<close> and \<open>Verify\<close> of \<open>src/node_crypto.cc\<close>. What OpenSSL
  computes is a parameter: how a digest is looked up by name, how bytes are added to its
  context and how it is finished, how keys are read, and the base64 filter. The state of an
  object is its context, which is \<open>None\<close> while \<open>initialised_\<close> is false.
\<close>

section \<open>The data a method is given\<close>

text \<open>
  \<open>ASSERT_IS_STRING_OR_BUFFER\<close> and \<open>DecodeBytes\<close>, then the bytes of a Buffer or what
  \<open>DecodeWrite\<close> makes of a string.
\<close>

definition written_bytes :: "conv \<Rightarrow> (nat \<Rightarrow> u16) \<Rightarrow> encoding \<Rightarrow> js_value \<Rightarrow> u8 list outcome" where
  "written_bytes h fresh e v =
     obind (decode_bytes h v e)
       (\<lambda>len. if len < 0 then Throw (JsTypeError ''Bad argument'')
              else obind (decode_write h fresh (size_of_int len) v e)
                (\<lambda>(buf, written). oassert (written = size_of_int len) (Return buf)))"

definition array_bytes :: "heap \<Rightarrow> js_value \<Rightarrow> u8 list outcome" where
  "array_bytes hp v =
     (let a = array_of v
      in if ea_len a < 0 then Overrun else read_mem hp (ea_block a, ea_off a) (nat (ea_len a)))"

definition string_or_buffer :: "js_value \<Rightarrow> 'a outcome \<Rightarrow> 'a outcome" where
  "string_or_buffer v k =
     (if \<not> is_string v \<and> \<not> has_instance v then Throw (JsTypeError ''Not a string or buffer'') else k)"

definition data_argument :: "conv \<Rightarrow> (nat \<Rightarrow> u16) \<Rightarrow> heap \<Rightarrow> js_value list \<Rightarrow> u8 list outcome" where
  "data_argument h fresh hp args =
     string_or_buffer (arg args 0)
       (let e = parse_encoding (arg args 1) BINARY
        in if has_instance (arg args 0)
           then obind (decode_bytes h (arg args 0) e) (\<lambda>_. array_bytes hp (arg args 0))
           else written_bytes h fresh e (arg args 0))"

text \<open>A key or signature, which is never read from the memory of a Buffer.\<close>

definition binary_argument :: "conv \<Rightarrow> (nat \<Rightarrow> u16) \<Rightarrow> js_value \<Rightarrow> u8 list outcome" where
  "binary_argument h fresh v = string_or_buffer v (written_bytes h fresh BINARY v)"

text \<open>
  The string a result is returned as; \<open>otherwise\<close> is what an unknown encoding gives (an empty
  handle, which JavaScript sees as undefined, except in \<open>SignFinal\<close>).
\<close>

definition result_string :: "(u8 list \<Rightarrow> u8 list) \<Rightarrow> js_value \<Rightarrow> js_value \<Rightarrow> u8 list \<Rightarrow> js_value" where
  "result_string base64 otherwise v out =
     (case v of
        JString s \<Rightarrow>
          (let e = utf8_value s
           in if strcaseeq e ''hex'' then JString (encode (hex_encode out) BINARY)
              else if strcaseeq e ''base64'' then JString (encode (base64 out) BINARY)
              else if strcaseeq e ''binary'' then JString (encode out BINARY)
              else otherwise)
      | _ \<Rightarrow> JString (encode out BINARY))"

definition c_name :: "js_value \<Rightarrow> u8 list" where
  "c_name v = (case v of JString s \<Rightarrow> until_nul (utf8_value s) | _ \<Rightarrow> [])"

section \<open>Hash\<close>

record 'd digest_ops =
  by_name :: "u8 list \<Rightarrow> 'd option" \<comment> \<open>\<open>EVP_get_digestbyname\<close>, with a context for it\<close>
  update :: "'d \<Rightarrow> u8 list \<Rightarrow> 'd"
  final :: "'d \<Rightarrow> u8 list"

definition hash_new :: "'d digest_ops \<Rightarrow> js_value list \<Rightarrow> 'd option outcome" where
  "hash_new ops args =
     (if args = [] \<or> \<not> is_string (arg args 0)
      then Throw (JsError ''Must give hashtype string as argument'')
      else Return (by_name ops (c_name (arg args 0))))"

definition hash_update ::
  "conv \<Rightarrow> (nat \<Rightarrow> u16) \<Rightarrow> heap \<Rightarrow> 'd digest_ops \<Rightarrow> js_value list \<Rightarrow> 'd option \<Rightarrow> 'd option outcome" where
  "hash_update h fresh hp ops args ctx =
     obind (data_argument h fresh hp args)
       (\<lambda>data. case ctx of
          None \<Rightarrow> Throw (JsTypeError ''HashUpdate fail'')
        | Some d \<Rightarrow> Return (Some (update ops d data)))"

definition hash_digest ::
  "'d digest_ops \<Rightarrow> (u8 list \<Rightarrow> u8 list) \<Rightarrow> js_value list \<Rightarrow> 'd option \<Rightarrow> (js_value \<times> 'd option) outcome" where
  "hash_digest ops base64 args ctx =
     (case ctx of
        None \<Rightarrow> Throw (JsError ''Not initialized'')
      | Some d \<Rightarrow>
          (let md = final ops d
           in if md = [] then Return (JString [], None)
              else Return (result_string base64 JUndefined (arg args 0) md, None)))"

section \<open>Hmac\<close>

text \<open>\<open>start\<close> makes a context from the digest and the key.\<close>

definition hmac_init ::
  "conv \<Rightarrow> (nat \<Rightarrow> u16) \<Rightarrow> (u8 list \<Rightarrow> 'm option) \<Rightarrow> ('m \<Rightarrow> u8 list \<Rightarrow> 'd) \<Rightarrow> js_value list \<Rightarrow> 'd option
     \<Rightarrow> 'd option outcome" where
  "hmac_init h fresh lookup start args ctx =
     (if args = [] \<or> \<not> is_string (arg args 0)
      then Throw (JsError ''Must give hashtype string as argument'')
      else obind (binary_argument h fresh (arg args 1))
        (\<lambda>key. case lookup (c_name (arg args 0)) of
           None \<Rightarrow> Throw (JsError ''hmac error'')
         | Some m \<Rightarrow> Return (Some (start m key))))"

definition hmac_update ::
  "conv \<Rightarrow> (nat \<Rightarrow> u16) \<Rightarrow> heap \<Rightarrow> 'd digest_ops \<Rightarrow> js_value list \<Rightarrow> 'd option \<Rightarrow> 'd option outcome" where
  "hmac_update h fresh hp ops args ctx =
     obind (data_argument h fresh hp args)
       (\<lambda>data. case ctx of
          None \<Rightarrow> Throw (JsTypeError ''HmacUpdate fail'')
        | Some d \<Rightarrow> Return (Some (update ops d data)))"

definition hmac_digest ::
  "'d digest_ops \<Rightarrow> (u8 list \<Rightarrow> u8 list) \<Rightarrow> js_value list \<Rightarrow> 'd option \<Rightarrow> js_value \<times> 'd option" where
  "hmac_digest ops base64 args ctx =
     (case ctx of
        None \<Rightarrow> (JString [], None)
      | Some d \<Rightarrow>
          (let md = final ops d
           in if md = [] then (JString [], None)
              else (result_string base64 JUndefined (arg args 0) md, None)))"

section \<open>Sign\<close>

definition sign_init :: "'d digest_ops \<Rightarrow> js_value list \<Rightarrow> 'd option \<Rightarrow> 'd option outcome" where
  "sign_init ops args ctx =
     (if args = [] \<or> \<not> is_string (arg args 0)
      then Throw (JsError ''Must give signtype string as argument'')
      else case by_name ops (c_name (arg args 0)) of
             None \<Rightarrow> Throw (JsError ''SignInit error'')
           | Some d \<Rightarrow> Return (Some d))"

definition sign_update ::
  "conv \<Rightarrow> (nat \<Rightarrow> u16) \<Rightarrow> heap \<Rightarrow> 'd digest_ops \<Rightarrow> js_value list \<Rightarrow> 'd option \<Rightarrow> 'd option outcome" where
  "sign_update h fresh hp ops args ctx =
     obind (data_argument h fresh hp args)
       (\<lambda>data. case ctx of
          None \<Rightarrow> Throw (JsTypeError ''SignUpdate fail'')
        | Some d \<Rightarrow> Return (Some (update ops d data)))"

text \<open>\<open>private_key\<close> reads a key in PEM form; \<open>sign\<close> is \<open>EVP_SignFinal\<close>.\<close>

definition sign_final ::
  "conv \<Rightarrow> (nat \<Rightarrow> u16) \<Rightarrow> (u8 list \<Rightarrow> 'p option) \<Rightarrow> ('d \<Rightarrow> 'p \<Rightarrow> u8 list) \<Rightarrow> (u8 list \<Rightarrow> u8 list) \<Rightarrow>
     js_value list \<Rightarrow> 'd option \<Rightarrow> (js_value \<times> 'd option) outcome" where
  "sign_final h fresh private_key sign base64 args ctx =
     obind (binary_argument h fresh (arg args 0))
       (\<lambda>key. case ctx of
          None \<Rightarrow> Return (JString [], None)
        | Some d \<Rightarrow>
            (case private_key key of
               None \<Rightarrow> Return (JString [], Some d)
             | Some pkey \<Rightarrow>
                 (let md = sign d pkey
                  in if md = [] then Return (JString [], None)
                     else Return (result_string base64 (JString []) (arg args 1) md, None))))"

section \<open>Verify\<close>

definition verify_init :: "'d digest_ops \<Rightarrow> js_value list \<Rightarrow> 'd option \<Rightarrow> 'd option outcome" where
  "verify_init ops args ctx =
     (if args = [] \<or> \<not> is_string (arg args 0)
      then Throw (JsError ''Must give verifytype string as argument'')
      else case by_name ops (c_name (arg args 0)) of
             None \<Rightarrow> Throw (JsError ''VerifyInit error'')
           | Some d \<Rightarrow> Return (Some d))"

definition verify_update ::
  "conv \<Rightarrow> (nat \<Rightarrow> u16) \<Rightarrow> heap \<Rightarrow> 'd digest_ops \<Rightarrow> js_value list \<Rightarrow> 'd option \<Rightarrow> 'd option outcome" where
  "verify_update h fresh hp ops args ctx =
     obind (data_argument h fresh hp args)
       (\<lambda>data. case ctx of
          None \<Rightarrow> Throw (JsTypeError ''VerifyUpdate fail'')
        | Some d \<Rightarrow> Return (Some (update ops d data)))"

text \<open>
  The C++ method: 0 when there is no context, or the certificate or its key cannot be read;
  otherwise what \<open>EVP_VerifyFinal\<close> returns. A signature of \<open>None\<close> is one whose length is the -1
  of a failed \<open>unbase64\<close>.
\<close>

definition verify_signature ::
  "(u8 list \<Rightarrow> 'p option) \<Rightarrow> ('d \<Rightarrow> u8 list option \<Rightarrow> 'p \<Rightarrow> int) \<Rightarrow> u8 list \<Rightarrow> u8 list option \<Rightarrow> 'd option \<Rightarrow> int \<times> 'd option" where
  "verify_signature public_key verify key sig ctx =
     (case ctx of
        None \<Rightarrow> (0, None)
      | Some d \<Rightarrow>
          (case public_key key of None \<Rightarrow> (0, Some d) | Some pkey \<Rightarrow> (verify d sig pkey, None)))"

definition verify_final ::
  "conv \<Rightarrow> (nat \<Rightarrow> u16) \<Rightarrow> (u8 list \<Rightarrow> 'p option) \<Rightarrow> ('d \<Rightarrow> u8 list option \<Rightarrow> 'p \<Rightarrow> int) \<Rightarrow> (u8 list \<Rightarrow> u8 list option) \<Rightarrow>
     js_value list \<Rightarrow> 'd option \<Rightarrow> (js_value \<times> 'd option) outcome" where
  "verify_final h fresh public_key verify from_base64 args ctx =
     obind (binary_argument h fresh (arg args 0))
       (\<lambda>key. obind (binary_argument h fresh (arg args 1))
         (\<lambda>hbuf. let run = (\<lambda>sig. verify_signature public_key verify key sig ctx);
                     (r, ctx') =
                       (case arg args 2 of
                          JString s \<Rightarrow>
                            (let e = utf8_value s
                             in if strcaseeq e ''hex'' then run (Some (hex_decode hbuf))
                                else if strcaseeq e ''base64'' then run (from_base64 hbuf)
                                else if strcaseeq e ''binary'' then run (Some hbuf)
                                else (-1, ctx))
                        | _ \<Rightarrow> run (Some hbuf))
                 in Return (jint r, ctx')))"

section \<open>Facts\<close>

lemma written_bytes_binary:
  assumes "length s < 2 ^ 31"
  shows "written_bytes h fresh BINARY (JString s) =
    (if \<forall>c\<in>set s. drop_bit 8 c = 0 then Return (map ucast s) else Abort)"
proof -
  have "size_of_int (int (length s)) = of_nat (length s)" by (simp add: size_of_int_def)
  then show ?thesis
    using decode_write_binary [of "length s" s h fresh] assms
    by (simp add: written_bytes_def decode_bytes_def oassert_def)
qed

lemma written_bytes_utf8:
  assumes "utf8_length s < 2 ^ 31"
  shows "written_bytes h fresh UTF8 (JString s) = Return (utf8_bytes s)"
proof -
  have "size_of_int (int (utf8_length s)) = of_nat (utf8_length s)" by (simp add: size_of_int_def)
  then show ?thesis
    using assms by (simp add: written_bytes_def decode_bytes_def decode_write_def int_of_size_nat oassert_def
        write_utf8_bounded utf8_prefix_all length_utf8_bytes Let_def)
qed

lemma written_bytes_string: "\<not> is_array v \<Longrightarrow> written_bytes h fresh e v = written_bytes h fresh e (JString (to_string h v))"
proof -
  assume a: "\<not> is_array v"
  then have "decode_bytes h v e = decode_bytes h (JString (to_string h v)) e"
    and "decode_write h fresh n v e = decode_write h fresh n (JString (to_string h v)) e" for n
    by (simp_all add: decode_bytes_def decode_write_def)
  then show ?thesis by (simp only: written_bytes_def)
qed

text \<open>What a value names as an encoding: the comparison of every method.\<close>

definition names_encoding :: "js_value \<Rightarrow> string \<Rightarrow> bool" where
  "names_encoding v e \<longleftrightarrow> (case v of JString s \<Rightarrow> strcaseeq (utf8_value s) e | _ \<Rightarrow> False)"

lemma result_string_cases:
  "names_encoding v ''hex'' \<Longrightarrow> result_string b64 u v out = JString (encode (hex_encode out) BINARY)"
  "names_encoding v ''base64'' \<Longrightarrow> result_string b64 u v out = JString (encode (b64 out) BINARY)"
  "names_encoding v ''binary'' \<or> \<not> is_string v \<Longrightarrow> result_string b64 u v out = JString (encode out BINARY)"
  by (auto simp: names_encoding_def result_string_def strcaseeq_def ascii_lower_def Let_def split: js_value.splits)

lemma verify_final_cases:
  fixes public_key :: "u8 list \<Rightarrow> 'p option" and verify :: "'d \<Rightarrow> u8 list option \<Rightarrow> 'p \<Rightarrow> int"
  defines "run \<equiv> \<lambda>key sig ctx. map_prod jint id (verify_signature public_key verify key sig ctx)"
  assumes "binary_argument h fresh (arg args 0) = Return key" "binary_argument h fresh (arg args 1) = Return hbuf"
  shows "names_encoding (arg args 2) ''hex'' \<Longrightarrow>
      verify_final h fresh public_key verify from_base64 args ctx = Return (run key (Some (hex_decode hbuf)) ctx)"
    and "names_encoding (arg args 2) ''base64'' \<Longrightarrow>
      verify_final h fresh public_key verify from_base64 args ctx = Return (run key (from_base64 hbuf) ctx)"
    and "names_encoding (arg args 2) ''binary'' \<or> \<not> is_string (arg args 2) \<Longrightarrow>
      verify_final h fresh public_key verify from_base64 args ctx = Return (run key (Some hbuf) ctx)"
    and "is_string (arg args 2) \<Longrightarrow> \<forall>e\<in>{''hex'', ''base64'', ''binary''}. \<not> names_encoding (arg args 2) e \<Longrightarrow>
      verify_final h fresh public_key verify from_base64 args ctx = Return (jint (-1), ctx)"
  using assms
  by (auto simp: verify_final_def run_def names_encoding_def strcaseeq_def ascii_lower_def Let_def map_prod_def
      split: js_value.splits prod.splits)

lemma binary_argument_encoded:
  assumes "length bs < 2 ^ 31"
  shows "binary_argument h fresh (JString (encode bs BINARY)) = Return bs"
proof -
  have s: "encode bs BINARY = map ucast bs" by (simp add: encode_def)
  have "written_bytes h fresh BINARY (JString (encode bs BINARY)) = Return bs"
    using written_bytes_binary [of "encode bs BINARY" h fresh] assms
    by (simp add: s high_byte_u8 ucast_u8_u16 comp_def)
  then show ?thesis by (simp add: binary_argument_def string_or_buffer_def)
qed

text \<open>A script that updates a Hash with each of the argument lists in turn.\<close>

definition hash_updates ::
  "conv \<Rightarrow> (nat \<Rightarrow> u16) \<Rightarrow> heap \<Rightarrow> 'd digest_ops \<Rightarrow> js_value list list \<Rightarrow> 'd option outcome \<Rightarrow> 'd option outcome" where
  "hash_updates h fresh hp ops calls r = foldl (\<lambda>r args. obind r (hash_update h fresh hp ops args)) r calls"

lemma hash_updates_concat:
  assumes inc: "\<forall>d a b. update ops (update ops d a) b = update ops d (a @ b)"
    and datas: "list_all2 (\<lambda>args data. data_argument h fresh hp args = Return data) calls datas"
  shows "hash_updates h fresh hp ops calls (Return (Some (update ops d a)))
    = Return (Some (update ops d (a @ concat datas)))"
  using datas
proof (induction calls datas arbitrary: a rule: list_all2_induct)
  case (Cons args calls data datas)
  then have "hash_updates h fresh hp ops (args # calls) (Return (Some (update ops d a)))
      = hash_updates h fresh hp ops calls (Return (Some (update ops d (a @ data))))"
    using inc by (simp add: hash_updates_def hash_update_def)
  then show ?case using Cons.IH [of "a @ data"] by simp
qed (simp add: hash_updates_def)

section \<open>Properties\<close>

text \<open>
  What the data of an update is. A string is encoded as the second argument says: UTF-8, or one
  byte for each character, where a character above 255 stops the process; \<open>base64\<close> and
  \<open>ucs2\<close> stop it for every string. The bytes of a Buffer are taken from its memory, whatever the
  encoding. Any other value is a TypeError. A key or signature is read with \<open>toString\<close>, also from a
  Buffer, so that only its text counts and not its bytes.
\<close>

theorem data_argument_correct:
  shows "(\<not> is_string v \<and> \<not> has_instance v \<longrightarrow>
      data_argument h fresh hp (v # rest) = Throw (JsTypeError ''Not a string or buffer'') \<and>
      binary_argument h fresh v = Throw (JsTypeError ''Not a string or buffer'')) \<and>
    (has_instance v \<longrightarrow> data_argument h fresh hp (v # rest) = array_bytes hp v \<and>
      binary_argument h fresh v = binary_argument h fresh (JString (to_string h v))) \<and>
    (parse_encoding (arg rest 0) BINARY = UTF8 \<and> utf8_length s < 2 ^ 31 \<longrightarrow>
      data_argument h fresh hp (JString s # rest) = Return (utf8_bytes s)) \<and>
    (parse_encoding (arg rest 0) BINARY = BINARY \<and> length s < 2 ^ 31 \<longrightarrow>
      data_argument h fresh hp (JString s # rest) =
        (if \<forall>c\<in>set s. drop_bit 8 c = 0 then Return (map ucast s) else Abort)) \<and>
    (parse_encoding (arg rest 0) BINARY \<in> {BASE64, UCS2} \<longrightarrow>
      data_argument h fresh hp (JString s # rest) = Abort)"
proof (intro conjI impI; (elim conjE)?)
  assume "has_instance v"
  then have v: "has_instance v" "\<not> is_array v" by (cases v; simp)+
  then show "data_argument h fresh hp (v # rest) = array_bytes hp v"
    by (simp add: data_argument_def string_or_buffer_def decode_bytes_def arg_def oassert_def Let_def)
  show "binary_argument h fresh v = binary_argument h fresh (JString (to_string h v))"
    using written_bytes_string [OF v(2), of h fresh BINARY] v(1) by (simp add: binary_argument_def string_or_buffer_def)
next
  assume "parse_encoding (arg rest 0) BINARY \<in> {BASE64, UCS2}"
  then show "data_argument h fresh hp (JString s # rest) = Abort"
    by (auto simp: data_argument_def string_or_buffer_def written_bytes_def decode_bytes_def decode_write_def
        arg_def oassert_def)
qed (simp_all add: data_argument_def binary_argument_def string_or_buffer_def
    written_bytes_binary written_bytes_utf8)

theorem data_argument_correct_witness:
  "data_argument \<lparr>other_to_number = \<lambda>_. NaN, other_to_string = \<lambda>_. []\<rparr> (\<lambda>_. 0)
      \<lparr>blocks = \<lambda>_. [], next_block = 1, garbage = \<lambda>_ _. 0, external_bytes = 0, freed = [], chars_written = None\<rparr> [JString [0x41, 0xE9]] = Return [0x41, 0xE9] \<and>
   data_argument \<lparr>other_to_number = \<lambda>_. NaN, other_to_string = \<lambda>_. []\<rparr> (\<lambda>_. 0)
      \<lparr>blocks = \<lambda>_. [], next_block = 1, garbage = \<lambda>_ _. 0, external_bytes = 0, freed = [], chars_written = None\<rparr> [JString [0x20AC]] = Abort"
proof -
  let ?h = "\<lparr>other_to_number = \<lambda>_. NaN, other_to_string = \<lambda>_. []\<rparr>"
  let ?hp = "\<lparr>blocks = \<lambda>_. [], next_block = 1, garbage = \<lambda>_ _. 0, external_bytes = 0, freed = [], chars_written = None\<rparr>"
  have e: "parse_encoding (arg [] 0) BINARY = BINARY" by (simp add: arg_def parse_encoding_def)
  have "drop_bit 8 (0x20AC :: u16) \<noteq> 0" "drop_bit 8 (0x41 :: u16) = 0" "drop_bit 8 (0xE9 :: u16) = 0" by simp_all
  then show ?thesis
    using data_argument_correct [of JUndefined ?h "\<lambda>_. 0" ?hp "[]" "[0x41, 0xE9]"] e
      data_argument_correct [of JUndefined ?h "\<lambda>_. 0" ?hp "[]" "[0x20AC]"]
    by force
qed





end
