(* ===== verification/Cipher.thy ===== *)
theory Cipher
  imports Digests
begin

text \<open>
  The classes \<open>Cipher\<close> and \<open>Decipher\<close> of \<open>src/node_crypto.cc\<close>. What OpenSSL computes is the
  parameter \<open>cipher_ops\<close>; the state of an object is its context, which is \<open>None\<close> while
  \<open>initialised_\<close> is false, and what it carries over from one piece to the next: the bytes of
  an unfinished base64 group, of an unfinished UTF-8 character, or a single hexadecimal digit.
  A method returns the new state also when it throws, since it may have changed it before.
\<close>

record ('k, 'c) cipher_ops =
  cipher_by_name :: "u8 list \<Rightarrow> 'k option"
  bytes_to_key :: "'k \<Rightarrow> u8 list \<Rightarrow> u8 list \<times> u8 list" \<comment> \<open>key and iv of \<open>EVP_BytesToKey\<close>\<close>
  key_length :: "'k \<Rightarrow> nat" \<comment> \<open>the bytes \<open>EVP_CipherInit\<close> reads as the key\<close>
  iv_length :: "'k \<Rightarrow> int"
  start :: "'k \<Rightarrow> u8 list \<Rightarrow> u8 list \<Rightarrow> bool \<Rightarrow> 'c" \<comment> \<open>\<open>EVP_CipherInit\<close>\<close>
  set_key_length :: "'c \<Rightarrow> int \<Rightarrow> 'c option"
  cleanup :: "'c \<Rightarrow> 'c"
  ctx_block_size :: "'c \<Rightarrow> nat"
  run_update :: "'c \<Rightarrow> u8 list option \<Rightarrow> u8 list \<times> 'c" \<comment> \<open>\<open>None\<close>: a length of -1\<close>
  run_final :: "'c \<Rightarrow> u8 list" \<comment> \<open>empty also when \<open>EVP_CipherFinal\<close> fails\<close>
  last_block :: "'c \<Rightarrow> evp_last"

definition with_state :: "'s \<Rightarrow> 'a outcome \<Rightarrow> ('a \<Rightarrow> 's \<times> 'b outcome) \<Rightarrow> 's \<times> 'b outcome" where
  "with_state st r k =
     (case r of Return a \<Rightarrow> k a | Throw x \<Rightarrow> (st, Throw x) | Abort \<Rightarrow> (st, Abort) | Overrun \<Rightarrow> (st, Overrun))"

section \<open>The contexts\<close>

text \<open>
  The end of every initialisation. When the key length is refused the new context is cleaned
  up, but \<open>initialised_\<close> stays what it was.
\<close>

definition open_context ::
  "('k, 'c) cipher_ops \<Rightarrow> bool \<Rightarrow> 'k \<Rightarrow> u8 list \<Rightarrow> u8 list \<Rightarrow> int \<Rightarrow> 'c option \<Rightarrow> 'c option \<times> bool" where
  "open_context ops enc k key iv key_len ctx =
     (let c = start ops k key iv enc
      in case set_key_length ops c key_len of
           None \<Rightarrow> (map_option (\<lambda>_. cleanup ops c) ctx, False)
         | Some c' \<Rightarrow> (Some c', True))"

definition init_password ::
  "('k, 'c) cipher_ops \<Rightarrow> bool \<Rightarrow> u8 list \<Rightarrow> u8 list \<Rightarrow> 'c option \<Rightarrow> 'c option \<times> bool" where
  "init_password ops enc name key_buf ctx =
     (case cipher_by_name ops name of
        None \<Rightarrow> (ctx, False)
      | Some k \<Rightarrow>
          (let (key, iv) = bytes_to_key ops k key_buf
           in open_context ops enc k key iv (int (length key)) ctx))"

text \<open>The key is read before its length is compared with anything.\<close>

definition init_key_iv ::
  "('k, 'c) cipher_ops \<Rightarrow> bool \<Rightarrow> u8 list \<Rightarrow> u8 list \<Rightarrow> u8 list \<Rightarrow> 'c option \<Rightarrow> ('c option \<times> bool) outcome" where
  "init_key_iv ops enc name key iv ctx =
     (case cipher_by_name ops name of
        None \<Rightarrow> Return (ctx, False)
      | Some k \<Rightarrow>
          if iv_length ops k \<noteq> int (length iv) then Return (ctx, False)
          else if length key < key_length ops k then Overrun
          else Return (open_context ops enc k (take (key_length ops k) key) iv (int (length key)) ctx))"

text \<open>\<open>CipherUpdate\<close> and \<open>DecipherUpdate\<close> with a context; \<open>out\<close> has room for a block more than the data.\<close>

definition context_update :: "('k, 'c) cipher_ops \<Rightarrow> 'c \<Rightarrow> u8 list option \<Rightarrow> (u8 list \<times> 'c) outcome" where
  "context_update ops c data =
     (let (out, c') = run_update ops c data;
          len = (case data of None \<Rightarrow> -1 | Some d \<Rightarrow> int (length d))
      in if len + int (ctx_block_size ops c) < int (length out) then Overrun else Return (out, c'))"

section \<open>Cipher\<close>

record 'c cipher =
  cipher_ctx :: "'c option"
  incomplete_base64 :: "u8 list option"

definition cipher_init_js ::
  "conv \<Rightarrow> (nat \<Rightarrow> u16) \<Rightarrow> ('k, 'c) cipher_ops \<Rightarrow> js_value list \<Rightarrow> 'c cipher \<Rightarrow> 'c cipher \<times> unit outcome" where
  "cipher_init_js h fresh ops args st0 =
     (let st = st0\<lparr>incomplete_base64 := None\<rparr>
      in if length args \<le> 1 \<or> \<not> is_string (arg args 0) \<or> \<not> is_string (arg args 1)
         then (st, Throw (JsError ''Must give cipher-type, key''))
         else with_state st (binary_argument h fresh (arg args 1))
           (\<lambda>key. let (ctx, r) = init_password ops True (c_name (arg args 0)) key (cipher_ctx st);
                      st' = st\<lparr>cipher_ctx := ctx\<rparr>
                  in (st', if r then Return () else Throw (JsError ''CipherInit error''))))"

definition cipher_init_iv_js ::
  "conv \<Rightarrow> (nat \<Rightarrow> u16) \<Rightarrow> ('k, 'c) cipher_ops \<Rightarrow> js_value list \<Rightarrow> 'c cipher \<Rightarrow> 'c cipher \<times> unit outcome" where
  "cipher_init_iv_js h fresh ops args st0 =
     (let st = st0\<lparr>incomplete_base64 := None\<rparr>
      in if length args \<le> 2 \<or> \<not> is_string (arg args 0) \<or> \<not> is_string (arg args 1) \<or> \<not> is_string (arg args 2)
         then (st, Throw (JsError ''Must give cipher-type, key, and iv as argument''))
         else with_state st (binary_argument h fresh (arg args 1))
           (\<lambda>key. with_state st (binary_argument h fresh (arg args 2))
             (\<lambda>iv. with_state st (init_key_iv ops True (c_name (arg args 0)) key iv (cipher_ctx st))
               (\<lambda>(ctx, r). (st\<lparr>cipher_ctx := ctx\<rparr>,
                  if r then Return () else Throw (JsError ''CipherInitIv error''))))))"

text \<open>The base64 of a piece, preceded by what the last one left over and without what it leaves itself.\<close>

definition base64_piece :: "u8 list option \<Rightarrow> u8 list \<Rightarrow> u8 list \<times> u8 list option" where
  "base64_piece incomplete out0 =
     (let out = (case incomplete of None \<Rightarrow> out0 | Some r \<Rightarrow> r @ out0);
          n = length out mod 3
      in if n \<noteq> 0 then (take (length out - n) out, Some (drop (length out - n) out))
         else (out, None))"

definition cipher_output ::
  "(u8 list \<Rightarrow> u8 list) \<Rightarrow> js_value \<Rightarrow> u8 list \<Rightarrow> 'c cipher \<Rightarrow> 'c cipher \<times> js_value" where
  "cipher_output base64 v out st =
     (if out = [] then (st, JString [])
      else case v of
        JString s \<Rightarrow>
          (let e = utf8_value s
           in if strcaseeq e ''hex'' then (st, JString (encode (hex_encode out) BINARY))
              else if strcaseeq e ''base64'' then
                (let (whole, rest) = base64_piece (incomplete_base64 st) out
                 in (st\<lparr>incomplete_base64 := rest\<rparr>, JString (encode (base64 whole) BINARY)))
              else if strcaseeq e ''binary'' then (st, JString (encode out BINARY))
              else (st, JUndefined))
      | _ \<Rightarrow> (st, JString (encode out BINARY)))"

definition cipher_update_js ::
  "conv \<Rightarrow> (nat \<Rightarrow> u16) \<Rightarrow> heap \<Rightarrow> ('k, 'c) cipher_ops \<Rightarrow> (u8 list \<Rightarrow> u8 list) \<Rightarrow> js_value list \<Rightarrow> 'c cipher \<Rightarrow>
     'c cipher \<times> js_value outcome" where
  "cipher_update_js h fresh hp ops base64 args st =
     with_state st (data_argument h fresh hp args)
       (\<lambda>data. case cipher_ctx st of
          None \<Rightarrow> (st, Throw (JsTypeError ''DecipherUpdate fail''))
        | Some c \<Rightarrow>
            with_state st (context_update ops c (Some data))
              (\<lambda>(out, c'). let (st', v) = cipher_output base64 (arg args 2) out (st\<lparr>cipher_ctx := Some c'\<rparr>)
                            in (st', Return v)))"

text \<open>\<open>final\<close> does not look at \<open>incomplete_base64\<close>.\<close>

definition cipher_final_js ::
  "('k, 'c) cipher_ops \<Rightarrow> (u8 list \<Rightarrow> u8 list) \<Rightarrow> js_value list \<Rightarrow> 'c cipher \<Rightarrow> 'c cipher \<times> js_value outcome" where
  "cipher_final_js ops base64 args st =
     (case cipher_ctx st of
        None \<Rightarrow> (st, Return (JString []))
      | Some c \<Rightarrow>
          (let out = run_final ops c; st' = st\<lparr>cipher_ctx := None\<rparr>
           in if ctx_block_size ops c < length out then (st, Overrun)
              else if out = [] then (st', Return (JString []))
              else (st', Return (result_string base64 JUndefined (arg args 0) out))))"

section \<open>Decipher\<close>

record 'c decipher =
  decipher_ctx :: "'c option"
  incomplete_utf8 :: "u8 list option"
  incomplete_hex :: u8
  incomplete_hex_flag :: bool

definition decipher_init_js ::
  "conv \<Rightarrow> (nat \<Rightarrow> u16) \<Rightarrow> ('k, 'c) cipher_ops \<Rightarrow> js_value list \<Rightarrow> 'c decipher \<Rightarrow> 'c decipher \<times> unit outcome" where
  "decipher_init_js h fresh ops args st0 =
     (let st = st0\<lparr>incomplete_utf8 := None, incomplete_hex_flag := False\<rparr>
      in if length args \<le> 1 \<or> \<not> is_string (arg args 0) \<or> \<not> is_string (arg args 1)
         then (st, Throw (JsError ''Must give cipher-type, key as argument''))
         else with_state st (binary_argument h fresh (arg args 1))
           (\<lambda>key. let (ctx, r) = init_password ops False (c_name (arg args 0)) key (decipher_ctx st);
                      st' = st\<lparr>decipher_ctx := ctx\<rparr>
                  in (st', if r then Return () else Throw (JsError ''DecipherInit error''))))"

definition decipher_init_iv_js ::
  "conv \<Rightarrow> (nat \<Rightarrow> u16) \<Rightarrow> ('k, 'c) cipher_ops \<Rightarrow> js_value list \<Rightarrow> 'c decipher \<Rightarrow> 'c decipher \<times> unit outcome" where
  "decipher_init_iv_js h fresh ops args st0 =
     (let st = st0\<lparr>incomplete_utf8 := None, incomplete_hex_flag := False\<rparr>
      in if length args \<le> 2 \<or> \<not> is_string (arg args 0) \<or> \<not> is_string (arg args 1) \<or> \<not> is_string (arg args 2)
         then (st, Throw (JsError ''Must give cipher-type, key, and iv as argument''))
         else with_state st (binary_argument h fresh (arg args 1))
           (\<lambda>key. with_state st (binary_argument h fresh (arg args 2))
             (\<lambda>iv. with_state st (init_key_iv ops False (c_name (arg args 0)) key iv (decipher_ctx st))
               (\<lambda>(ctx, r). (st\<lparr>decipher_ctx := ctx\<rparr>,
                  if r then Return () else Throw (JsError ''DecipherInitIv error''))))))"

text \<open>
  The input of a piece in hexadecimal: the digit carried over is put before it, and a digit too
  many at the end is carried over and replaced by 0 where it stood. The result is the state, the
  bytes, and the buffer afterwards. The flag is never cleared.
\<close>

definition hex_piece :: "'c decipher \<Rightarrow> u8 list \<Rightarrow> 'c decipher \<times> u8 list \<times> u8 list" where
  "hex_piece st buf0 =
     (let buf = (if incomplete_hex_flag st then incomplete_hex st # buf0 else buf0)
      in if 0 < length buf \<and> length buf mod 2 \<noteq> 0
         then (let n = length buf - 1
               in (st\<lparr>incomplete_hex := buf ! n, incomplete_hex_flag := True\<rparr>, hex_decode (take n buf), buf[n := 0]))
         else (st, hex_decode buf, buf))"

text \<open>
  The ciphertext of a piece, from the bytes of a string or of a Buffer. Only when no digit is put
  before them are the bytes of a Buffer those of its own memory, which the 0 is then stored in.
\<close>

definition decipher_input ::
  "(u8 list \<Rightarrow> u8 list option) \<Rightarrow> heap \<Rightarrow> js_value list \<Rightarrow> u8 list \<Rightarrow> 'c decipher \<Rightarrow>
     ((heap \<times> 'c decipher) \<times> u8 list option) outcome" where
  "decipher_input from_base64 hp args buf st =
     (case arg args 1 of
        JString s \<Rightarrow>
          (let e = utf8_value s
           in if strcaseeq e ''hex'' then
                (let (st', bytes, buf') = hex_piece st buf;
                     a = array_of (arg args 0)
                 in if has_instance (arg args 0) \<and> \<not> incomplete_hex_flag st \<and> buf' \<noteq> buf
                    then obind (write_mem hp (ea_block a, ea_off a) buf') (\<lambda>hp'. Return ((hp', st'), Some bytes))
                    else Return ((hp, st'), Some bytes))
              else if strcaseeq e ''base64'' then Return ((hp, st), from_base64 buf)
              else Return ((hp, st), Some buf))
      | _ \<Rightarrow> Return ((hp, st), Some buf))"

text \<open>
  The text of a piece. \<open>cap\<close> is the size of the array \<open>out\<close> stands in and \<open>junk\<close> what follows
  it there; \<open>Encode\<close> reads as many bytes as \<open>LengthWithoutIncompleteUtf8\<close> says.
\<close>

definition decipher_text ::
  "(nat \<Rightarrow> u8) \<Rightarrow> nat \<Rightarrow> js_value \<Rightarrow> u8 list \<Rightarrow> 'c decipher \<Rightarrow> ('c decipher \<times> js_value) outcome" where
  "decipher_text junk cap v out0 st =
     (if out0 = [] then Return (st, JString [])
      else if \<not> is_string v then Return (st, JString (encode out0 BINARY))
      else let e = parse_encoding v BINARY
      in if e = UTF8 then
           (let (out, cells) =
                  (case incomplete_utf8 st of
                     None \<Rightarrow> (out0, out0 @ map junk [length out0..<cap])
                   | Some r \<Rightarrow> (r @ out0, r @ out0));
                utf8_len = length_without_incomplete_utf8 out;
                rest = (if utf8_len < int (length out) then Some (drop (nat utf8_len) out) else None)
            in if int (length cells) < utf8_len then Overrun
               else Return (st\<lparr>incomplete_utf8 := rest\<rparr>, JString (encode (take (nat utf8_len) cells) UTF8)))
         else Return (st, JString (encode out0 e)))"

definition decipher_update_js ::
  "conv \<Rightarrow> (nat \<Rightarrow> u16) \<Rightarrow> (nat \<Rightarrow> u8) \<Rightarrow> ('k, 'c) cipher_ops \<Rightarrow> (u8 list \<Rightarrow> u8 list option) \<Rightarrow> js_value list \<Rightarrow>
     heap \<times> 'c decipher \<Rightarrow> (heap \<times> 'c decipher) \<times> js_value outcome" where
  "decipher_update_js h fresh junk ops from_base64 args st0 =
     (let hp = fst st0;
          read = (if has_instance (arg args 0)
                  then obind (decode_bytes h (arg args 0) BINARY) (\<lambda>_. array_bytes hp (arg args 0))
                  else written_bytes h fresh BINARY (arg args 0))
      in with_state st0 (string_or_buffer (arg args 0) read)
        (\<lambda>buf. with_state st0 (decipher_input from_base64 hp args buf (snd st0))
          (\<lambda>((hp', st), data).
             case decipher_ctx st of
               None \<Rightarrow> ((hp', st), Throw (JsTypeError ''DecipherUpdate fail''))
             | Some c \<Rightarrow>
                 with_state (hp', st) (context_update ops c data)
                   (\<lambda>(out, c').
                      let st1 = st\<lparr>decipher_ctx := Some c'\<rparr>;
                          len = (case data of None \<Rightarrow> -1 | Some d \<Rightarrow> int (length d));
                          cap = nat (len + int (ctx_block_size ops c))
                      in with_state (hp', st1) (decipher_text junk cap (arg args 2) out st1)
                           (\<lambda>(st', v). ((hp', st'), Return v))))))"

text \<open>The text of the last piece: what was carried over is put before it, and nothing held back.\<close>

definition decipher_last_text :: "js_value \<Rightarrow> u8 list \<Rightarrow> 'c decipher \<Rightarrow> 'c decipher \<times> js_value" where
  "decipher_last_text v out st =
     (if \<not> is_string v then (st, JString (encode out BINARY))
      else let e = parse_encoding v BINARY
      in if e = UTF8 then
           (case incomplete_utf8 st of
              None \<Rightarrow> (st, JString (encode out e))
            | Some r \<Rightarrow> (st\<lparr>incomplete_utf8 := None\<rparr>, JString (encode (r @ out) e)))
         else (st, JString (encode out e)))"

text \<open>
  \<open>final\<close> and \<open>finaltol\<close>. Without a context the second deletes an array whose address was
  never set.
\<close>

definition decipher_final_js ::
  "('k, 'c) cipher_ops \<Rightarrow> js_value list \<Rightarrow> 'c decipher \<Rightarrow> 'c decipher \<times> js_value outcome" where
  "decipher_final_js ops args st =
     (case decipher_ctx st of
        None \<Rightarrow> (st, Return (JString []))
      | Some c \<Rightarrow>
          (let out = run_final ops c; st1 = st\<lparr>decipher_ctx := None\<rparr>
           in if ctx_block_size ops c < length out then (st, Overrun)
              else if out = [] then (st1, Return (JString []))
              else (let (st', v) = decipher_last_text (arg args 0) out st1 in (st', Return v))))"

definition decipher_final_tolerate_js ::
  "('k, 'c) cipher_ops \<Rightarrow> js_value list \<Rightarrow> 'c decipher \<Rightarrow> 'c decipher \<times> js_value outcome" where
  "decipher_final_tolerate_js ops args st =
     (case decipher_ctx st of
        None \<Rightarrow> (st, Overrun)
      | Some c \<Rightarrow>
          (let out = snd (local_decrypt_final (last_block ops c)); st1 = st\<lparr>decipher_ctx := None\<rparr>
           in if ctx_block_size ops c < length out then (st, Overrun)
              else if out = [] then (st1, Return (JString []))
              else (let (st', v) = decipher_last_text (arg args 0) out st1 in (st', Return v))))"

section \<open>Streams\<close>

text \<open>A script that updates a Cipher with each of the argument lists and joins the results.\<close>

fun cipher_updates ::
  "conv \<Rightarrow> (nat \<Rightarrow> u16) \<Rightarrow> heap \<Rightarrow> ('k, 'c) cipher_ops \<Rightarrow> (u8 list \<Rightarrow> u8 list) \<Rightarrow> js_value list list \<Rightarrow> 'c cipher \<Rightarrow>
     'c cipher \<times> js_string outcome" where
  "cipher_updates h fresh hp ops b64 [] st = (st, Return [])"
| "cipher_updates h fresh hp ops b64 (args # calls) st =
     (let (st1, r) = cipher_update_js h fresh hp ops b64 args st
      in with_state st1 r
        (\<lambda>v. let (st2, r2) = cipher_updates h fresh hp ops b64 calls st1
             in (st2, obind r2 (\<lambda>t. Return (to_string h v @ t)))))"

text \<open>What OpenSSL makes of the pieces.\<close>

fun ciphertext :: "('k, 'c) cipher_ops \<Rightarrow> 'c \<Rightarrow> u8 list list \<Rightarrow> u8 list \<times> 'c" where
  "ciphertext ops c [] = ([], c)"
| "ciphertext ops c (d # ds) =
     (let (out, c1) = run_update ops c (Some d); (rest, c2) = ciphertext ops c1 ds in (out @ rest, c2))"

definition whole_groups :: "'a list \<Rightarrow> 'a list" where "whole_groups xs = take (3 * (length xs div 3)) xs"
definition last_group :: "'a list \<Rightarrow> 'a list" where "last_group xs = drop (3 * (length xs div 3)) xs"

definition carry :: "u8 list option \<Rightarrow> u8 list" where
  "carry r = (case r of None \<Rightarrow> [] | Some bs \<Rightarrow> bs)"
definition held :: "u8 list \<Rightarrow> u8 list option" where
  "held bs = (if bs = [] then None else Some bs)"

lemma groups_append: "whole_groups xs @ last_group xs = xs"
  by (simp add: whole_groups_def last_group_def)

lemma length_whole_groups: "length (whole_groups xs) = 3 * (length xs div 3)"
  by (simp add: whole_groups_def)

lemma last_group_Nil: "last_group xs = [] \<longleftrightarrow> length xs mod 3 = 0"
proof -
  have "3 * (length xs div 3) + length xs mod 3 = length xs" by simp
  then have "length xs \<le> 3 * (length xs div 3) \<longleftrightarrow> length xs mod 3 = 0" by linarith
  then show ?thesis by (simp add: last_group_def)
qed

lemma groups_of_append:
  assumes "3 dvd length xs"
  shows "whole_groups (xs @ ys) = xs @ whole_groups ys" "last_group (xs @ ys) = last_group ys"
proof -
  obtain k where k: "length xs = 3 * k" using assms by (elim dvdE)
  then have "3 * (length (xs @ ys) div 3) = length xs + 3 * (length ys div 3)" by simp
  then show "whole_groups (xs @ ys) = xs @ whole_groups ys" "last_group (xs @ ys) = last_group ys"
    by (simp_all add: whole_groups_def last_group_def)
qed

lemma base64_piece_groups:
  "base64_piece r out = (whole_groups (carry r @ out), held (last_group (carry r @ out)))"
proof -
  define t where t: "t = carry r @ out"
  have c: "(case r of None \<Rightarrow> out | Some r \<Rightarrow> r @ out) = t" by (simp add: t carry_def split: option.split)
  have n: "length t - length t mod 3 = 3 * (length t div 3)"
    using mult_div_mod_eq [of 3 "length t"] by linarith
  show ?thesis
    using groups_append [of t] last_group_Nil [of t] unfolding base64_piece_def c t [symmetric] Let_def n
    by (auto simp: held_def whole_groups_def [symmetric] last_group_def [symmetric])
qed

lemma carry_held [simp]: "carry (held bs) = bs" "carry None = []"
  by (simp_all add: carry_def held_def)

lemma last_group_last: "last_group (last_group xs) = last_group xs" "whole_groups (last_group xs) = []"
proof -
  have "length (last_group xs) < 3" using div_mult_mod_eq [of "length xs" 3] by (simp add: last_group_def)
  then show "last_group (last_group xs) = last_group xs" "whole_groups (last_group xs) = []"
    by (simp_all add: last_group_def [of "last_group xs"] whole_groups_def)
qed

lemma groups_extend:
  "whole_groups (t @ u) = whole_groups t @ whole_groups (last_group t @ u)"
  "last_group (t @ u) = last_group (last_group t @ u)"
proof -
  have "3 dvd length (whole_groups t)" by (simp add: length_whole_groups)
  from groups_of_append [OF this, of "last_group t @ u"]
  show "whole_groups (t @ u) = whole_groups t @ whole_groups (last_group t @ u)"
    "last_group (t @ u) = last_group (last_group t @ u)"
    using groups_append [of t] by (simp_all flip: append_assoc)
qed

lemma cipher_update_base64:
  assumes "data_argument h fresh hp args = Return d" "names_encoding (arg args 2) ''base64''" "b64 [] = []"
    and room: "length (fst (run_update ops c (Some d))) \<le> length d + ctx_block_size ops c"
    and r: "last_group r = r" "run_update ops c (Some d) = (out, c')"
  shows "cipher_update_js h fresh hp ops b64 args \<lparr>cipher_ctx = Some c, incomplete_base64 = held r\<rparr> =
    (\<lparr>cipher_ctx = Some c', incomplete_base64 = held (last_group (r @ out))\<rparr>,
     Return (JString (encode (b64 (whole_groups (r @ out))) BINARY)))"
proof -
  obtain s where s: "arg args 2 = JString s" "strcaseeq (utf8_value s) ''base64''"
    using assms(2) by (cases "arg args 2") (simp_all add: names_encoding_def)
  then have h: "\<not> strcaseeq (utf8_value s) ''hex''" by (auto simp: strcaseeq_def ascii_lower_def)
  have e: "whole_groups r = []" "encode [] BINARY = []"
    using last_group_last(2) [of r] r(1) by (simp_all add: encode_def)
  have u: "context_update ops c (Some d) = Return (out, c')"
    using room r(2) by (simp add: context_update_def)
  show ?thesis
    using s h e by (simp add: cipher_update_js_def assms(1,3) with_state_def u cipher_output_def Let_def base64_piece_groups r(1))
qed

lemma cipher_updates_base64:
  assumes calls: "list_all2 (\<lambda>args d. data_argument h fresh hp args = Return d \<and> names_encoding (arg args 2) ''base64'')
      calls datas"
    and b64: "\<forall>xs ys. 3 dvd length xs \<longrightarrow> b64 (xs @ ys) = b64 xs @ b64 ys" "b64 [] = []"
    and room: "\<forall>c d. length (fst (run_update ops c (Some d))) \<le> length d + ctx_block_size ops c"
    and r: "last_group r = r"
  shows "cipher_updates h fresh hp ops b64 calls \<lparr>cipher_ctx = Some c, incomplete_base64 = held r\<rparr> =
    (let (t, c') = ciphertext ops c datas
     in (\<lparr>cipher_ctx = Some c', incomplete_base64 = held (last_group (r @ t))\<rparr>,
         Return (encode (b64 (whole_groups (r @ t))) BINARY)))"
  using calls r
proof (induction calls datas arbitrary: r c rule: list_all2_induct)
  case Nil
  then have "whole_groups r = []" "last_group r = r" using last_group_last(2) [of r] by simp_all
  then show ?case using b64(2) by (simp add: encode_def)
next
  case (Cons args calls d datas)
  obtain out c1 where u: "run_update ops c (Some d) = (out, c1)" by fastforce
  obtain t c2 where t: "ciphertext ops c1 datas = (t, c2)" by fastforce
  let ?r = "last_group (r @ out)"
  have step: "cipher_update_js h fresh hp ops b64 args \<lparr>cipher_ctx = Some c, incomplete_base64 = held r\<rparr> =
      (\<lparr>cipher_ctx = Some c1, incomplete_base64 = held ?r\<rparr>, Return (JString (encode (b64 (whole_groups (r @ out))) BINARY)))"
    using Cons.hyps(1) b64(2) Cons.prems u room [rule_format, of c d] by (intro cipher_update_base64) auto
  have "b64 (whole_groups (r @ out @ t)) = b64 (whole_groups (r @ out)) @ b64 (whole_groups (?r @ t))"
    using groups_extend(1) [of "r @ out" t] b64(1) by (simp add: length_whole_groups)
  then have "encode (b64 (whole_groups (r @ out @ t))) BINARY
      = encode (b64 (whole_groups (r @ out))) BINARY @ encode (b64 (whole_groups (?r @ t))) BINARY"
    by (simp add: encode_def)
  then show ?case
    using Cons.IH [OF last_group_last(1), of c1 "r @ out"] groups_extend(2) [of "r @ out" t]
    by (simp add: step u t with_state_def)
qed

lemma decipher_input_hex:
  assumes "names_encoding (arg args 1) ''hex''"
  shows "decipher_input from_base64 hp args buf st =
    (let (st', bytes, buf') = hex_piece st buf; a = array_of (arg args 0)
     in if has_instance (arg args 0) \<and> \<not> incomplete_hex_flag st \<and> buf' \<noteq> buf
        then obind (write_mem hp (ea_block a, ea_off a) buf') (\<lambda>hp'. Return ((hp', st'), Some bytes))
        else Return ((hp, st'), Some bytes))"
  using assms by (cases "arg args 1") (simp_all add: names_encoding_def decipher_input_def)

lemma array_bytes_rewrite:
  assumes "array_bytes hp v = Return buf" "length buf' = length buf"
  shows "\<exists>hp'. write_mem hp (ea_block (array_of v), ea_off (array_of v)) buf' = Return hp' \<and>
    array_bytes hp' v = Return buf'"
proof -
  let ?a = "array_of v"
  let ?m = "blocks hp (ea_block ?a)"
  have n: "\<not> ea_len ?a < 0" and p: "peek ?m (ea_off ?a) (nat (ea_len ?a)) = Some buf"
    using assms(1) by (auto simp: array_bytes_def read_mem_def Let_def outcome_simps split: if_splits)
  then have l: "length buf' = nat (ea_len ?a)" using peek_length [OF p] assms(2) by simp
  then obtain m' where m: "poke ?m (ea_off ?a) buf' = Some m'"
    using p by (cases "poke ?m (ea_off ?a) buf'") (auto simp: poke_None_iff peek_def split: if_splits)
  then show ?thesis
    using peek_poke [OF m] n l by (simp add: write_mem_def array_bytes_def read_mem_def outcome_simps)
qed

section \<open>Properties\<close>

text \<open>
  Property C39: the base64 that \<open>update\<close> returns is that of the ciphertext so far up to a whole number of
  groups of three bytes, however the data was divided, and the one or two bytes after them are
  held back. But \<open>final\<close> encodes the last block alone: what all calls return together is the
  base64 of the ciphertext exactly when nothing was held back.
\<close>

theorem cipher_base64_stream:
  assumes calls: "list_all2 (\<lambda>args d. data_argument h fresh hp args = Return d \<and> names_encoding (arg args 2) ''base64'')
      calls datas"
    and b64: "\<forall>xs ys. 3 dvd length xs \<longrightarrow> b64 (xs @ ys) = b64 xs @ b64 ys" "b64 [] = []" "inj b64"
    and room: "\<forall>c d. length (fst (run_update ops c (Some d))) \<le> length d + ctx_block_size ops c"
      "\<forall>c. length (run_final ops c) \<le> ctx_block_size ops c"
    and t: "ciphertext ops c datas = (t, c')"
  defines "st \<equiv> \<lparr>cipher_ctx = Some c', incomplete_base64 = held (last_group t)\<rparr>"
  shows "cipher_updates h fresh hp ops b64 calls \<lparr>cipher_ctx = Some c, incomplete_base64 = None\<rparr> =
      (st, Return (encode (b64 (whole_groups t)) BINARY)) \<and>
    (names_encoding e ''base64'' \<longrightarrow>
      (\<exists>s. cipher_final_js ops b64 [e] st = (st\<lparr>cipher_ctx := None\<rparr>, Return (JString s)) \<and>
        (encode (b64 (whole_groups t)) BINARY @ s = encode (b64 (t @ run_final ops c')) BINARY \<longleftrightarrow> length t mod 3 = 0)))"
proof (intro conjI impI)
  have "last_group [] = ([] :: u8 list)" by (simp add: last_group_def)
  from cipher_updates_base64 [OF calls b64(1,2) room(1) this, of c]
  show "cipher_updates h fresh hp ops b64 calls \<lparr>cipher_ctx = Some c, incomplete_base64 = None\<rparr> =
      (st, Return (encode (b64 (whole_groups t)) BINARY))"
    by (simp add: t st_def held_def)
next
  assume e: "names_encoding e ''base64''"
  let ?f = "run_final ops c'" and ?w = "whole_groups t" and ?l = "last_group t"
  have s: "cipher_final_js ops b64 [e] st = (st\<lparr>cipher_ctx := None\<rparr>, Return (JString (encode (b64 ?f) BINARY)))"
    using room(2) [rule_format, of c'] e b64(2)
    by (simp add: cipher_final_js_def st_def result_string_cases(2) Let_def encode_def not_less)
  have "b64 (t @ ?f) = b64 ?w @ b64 (?l @ ?f)"
    using b64(1) [rule_format, of ?w "?l @ ?f"] groups_append [of t] by (simp add: length_whole_groups flip: append_assoc)
  then have "encode (b64 ?w) BINARY @ encode (b64 ?f) BINARY = encode (b64 (t @ ?f)) BINARY
      \<longleftrightarrow> encode (b64 ?f) BINARY = encode (b64 (?l @ ?f)) BINARY"
    by (simp add: encode_def)
  also have "\<dots> \<longleftrightarrow> b64 ?f = b64 (?l @ ?f)"
  proof -
    have i: "inj (\<lambda>bs :: u8 list. map ucast bs :: js_string)"
      by (rule inj_on_inverseI [where g = "map ucast"]) (simp add: ucast_u8_u16 comp_def)
    have enc: "encode bs BINARY = map ucast bs" for bs by (simp add: encode_def)
    show ?thesis unfolding enc by (rule inj_eq [OF i])
  qed
  also have "\<dots> \<longleftrightarrow> length t mod 3 = 0"
    by (simp add: inj_eq [OF b64(3)] last_group_Nil)
  finally show "\<exists>s. cipher_final_js ops b64 [e] st = (st\<lparr>cipher_ctx := None\<rparr>, Return (JString s)) \<and>
      (encode (b64 ?w) BINARY @ s = encode (b64 (t @ ?f)) BINARY \<longleftrightarrow> length t mod 3 = 0)"
    by (intro exI [of _ "encode (b64 ?f) BINARY"] conjI s)
qed

theorem cipher_base64_stream_witness:
  "snd (cipher_updates \<lparr>other_to_number = \<lambda>_. NaN, other_to_string = \<lambda>_. []\<rparr> (\<lambda>_. 0)
      \<lparr>blocks = \<lambda>_. [], next_block = 1, garbage = \<lambda>_ _. 0, external_bytes = 0, freed = [], chars_written = None\<rparr>
      \<lparr>cipher_by_name = \<lambda>_. Some (), bytes_to_key = \<lambda>_ k. (k, []), key_length = \<lambda>_. 2, iv_length = \<lambda>_. 1,
        start = \<lambda>_ k iv _. k, set_key_length = \<lambda>c _. Some c, cleanup = id, ctx_block_size = \<lambda>_. 8,
        run_update = \<lambda>c d. (case d of None \<Rightarrow> [] | Some bs \<Rightarrow> bs, c), run_final = \<lambda>_. [],
        last_block = \<lambda>_. \<lparr>block_size = 8, no_padding = True, buf_len = 0, final_used = False, final_block = []\<rparr>\<rparr> id
      [[JString [0x41, 0x42], JUndefined, JString [0x62, 0x61, 0x73, 0x65, 0x36, 0x34]],
       [JString [0x43, 0x44], JUndefined, JString [0x62, 0x61, 0x73, 0x65, 0x36, 0x34]]]
      \<lparr>cipher_ctx = Some [], incomplete_base64 = None\<rparr>) = Return [0x41, 0x42, 0x43]"
proof -
  let ?h = "\<lparr>other_to_number = \<lambda>_. NaN, other_to_string = \<lambda>_. []\<rparr>"
  let ?hp = "\<lparr>blocks = \<lambda>_. [], next_block = 1, garbage = \<lambda>_ _. 0, external_bytes = 0, freed = [], chars_written = None\<rparr>"
  let ?ops = "\<lparr>cipher_by_name = \<lambda>_. Some (), bytes_to_key = \<lambda>_ k. (k, []), key_length = \<lambda>_. 2, iv_length = \<lambda>_. 1,
        start = \<lambda>_ k iv _. k, set_key_length = \<lambda>c _. Some c, cleanup = id, ctx_block_size = \<lambda>_. 8,
        run_update = \<lambda>c d. (case d of None \<Rightarrow> [] | Some bs \<Rightarrow> bs, c), run_final = \<lambda>_. [],
        last_block = \<lambda>_. \<lparr>block_size = 8, no_padding = True, buf_len = 0, final_used = False, final_block = []\<rparr>\<rparr>"
  let ?e = "JString [0x62, 0x61, 0x73, 0x65, 0x36, 0x34]"
  let ?calls = "[[JString [0x41, 0x42], JUndefined, ?e], [JString [0x43, 0x44], JUndefined, ?e]]"
  have b: "parse_encoding JUndefined BINARY = BINARY" by (simp add: parse_encoding_def)
  have e: "names_encoding ?e ''base64''"
    by (simp add: names_encoding_def strcaseeq_def utf8_value_def utf8_bytes_def utf8_encode_def until_nul_def)
  have d: "data_argument ?h (\<lambda>_. 0) ?hp [JString [x, y], JUndefined, ?e] = Return [ucast x, ucast y]"
    if "drop_bit 8 x = 0" "drop_bit 8 y = 0" for x y
    using that b by (simp add: data_argument_def string_or_buffer_def arg_def written_bytes_binary)
  have "snd (cipher_updates ?h (\<lambda>_. 0) ?hp ?ops id ?calls \<lparr>cipher_ctx = Some [], incomplete_base64 = None\<rparr>)
      = Return (encode (id (whole_groups [0x41, 0x42, 0x43, 0x44])) BINARY)"
    using cipher_base64_stream [of ?h "\<lambda>_. 0" ?hp ?calls "[[0x41, 0x42], [0x43, 0x44]]" id ?ops "[]"
        "[0x41, 0x42, 0x43, 0x44]" "[]" ?e] d [of "0x41" "0x42"] d [of "0x43" "0x44"] e
    by (simp add: arg_def)
  then show ?thesis by (simp add: whole_groups_def encode_def)
qed

text \<open>
  A piece of ciphertext in hexadecimal. An even number of digits is decoded; the last of an odd
  number is carried over and put before the next piece. But the flag stays set when the carry has
  been used: the same digit is put before every later piece too, which then decodes to other
  bytes. In a Buffer the digit carried over is overwritten by 0.
\<close>

theorem decipher_hex_input:
  assumes hex: "names_encoding (arg args 1) ''hex''"
    and view: "has_instance (arg args 0) \<Longrightarrow> array_bytes hp (arg args 0) = Return buf"
  shows "(\<not> incomplete_hex_flag st \<and> even (length buf) \<longrightarrow>
      decipher_input from_base64 hp args buf st = Return ((hp, st), Some (hex_decode buf))) \<and>
    (\<not> incomplete_hex_flag st \<and> odd (length buf) \<longrightarrow>
      (let st' = st\<lparr>incomplete_hex := last buf, incomplete_hex_flag := True\<rparr>; bytes = hex_decode (butlast buf)
       in if has_instance (arg args 0)
          then \<exists>hp'. decipher_input from_base64 hp args buf st = Return ((hp', st'), Some bytes) \<and>
            array_bytes hp' (arg args 0) = Return (butlast buf @ [0])
          else decipher_input from_base64 hp args buf st = Return ((hp, st'), Some bytes))) \<and>
    (incomplete_hex_flag st \<and> odd (length buf) \<longrightarrow>
      decipher_input from_base64 hp args buf st = Return ((hp, st), Some (hex_decode (incomplete_hex st # buf)))) \<and>
    (incomplete_hex_flag st \<and> even (length buf) \<and> buf \<noteq> [] \<longrightarrow>
      decipher_input from_base64 hp args buf st =
        Return ((hp, st\<lparr>incomplete_hex := last buf\<rparr>), Some (hex_decode (incomplete_hex st # butlast buf))))"
proof (intro conjI impI; elim conjE)
  assume f: "\<not> incomplete_hex_flag st" and o: "odd (length buf)"
  then obtain bs x where b: "buf = bs @ [x]" by (cases buf rule: rev_cases) auto
  have p: "hex_piece st (bs @ [y]) =
    (st\<lparr>incomplete_hex := y, incomplete_hex_flag := True\<rparr>, hex_decode bs, bs @ [0])" for y using f o by (simp add: hex_piece_def b odd_iff_mod_2_eq_one mod_Suc Let_def)
  show "let st' = st\<lparr>incomplete_hex := last buf, incomplete_hex_flag := True\<rparr>; bytes = hex_decode (butlast buf)
     in if has_instance (arg args 0)
        then \<exists>hp'. decipher_input from_base64 hp args buf st = Return ((hp', st'), Some bytes) \<and>
          array_bytes hp' (arg args 0) = Return (butlast buf @ [0])
        else decipher_input from_base64 hp args buf st = Return ((hp, st'), Some bytes)"
  proof (cases "has_instance (arg args 0) \<and> x \<noteq> 0")
    case True
    then show ?thesis
      using array_bytes_rewrite [OF view, of "bs @ [0]"] f by (auto simp: decipher_input_hex [OF hex] p b)
  next
    case False
    then show ?thesis using view f by (auto simp: decipher_input_hex [OF hex] p b)
  qed
next
  assume f: "incomplete_hex_flag st" and e: "even (length buf)" "buf \<noteq> []"
  then obtain bs x where b: "buf = bs @ [x]" by (cases buf rule: rev_cases) auto
  have "st\<lparr>incomplete_hex := x, incomplete_hex_flag := True\<rparr> = st\<lparr>incomplete_hex := x\<rparr>" using f by simp
  then have "hex_piece st buf = (st\<lparr>incomplete_hex := x\<rparr>, hex_decode (incomplete_hex st # bs), incomplete_hex st # bs @ [0])"
    using f e(1) by (simp add: hex_piece_def b nth_append even_iff_mod_2_eq_zero odd_iff_mod_2_eq_one mod_Suc Let_def)
  then show "decipher_input from_base64 hp args buf st =
      Return ((hp, st\<lparr>incomplete_hex := last buf\<rparr>), Some (hex_decode (incomplete_hex st # butlast buf)))"
    using f by (simp add: decipher_input_hex [OF hex] b)
qed (simp_all add: decipher_input_hex [OF hex] hex_piece_def even_iff_mod_2_eq_zero odd_iff_mod_2_eq_one mod_Suc Let_def)

theorem decipher_hex_input_witness:
  "decipher_input (\<lambda>_. None) \<lparr>blocks = \<lambda>_. [], next_block = 1, garbage = \<lambda>_ _. 0, external_bytes = 0, freed = [], chars_written = None\<rparr>
      [JString [0x36, 0x31, 0x36], JString [0x68, 0x65, 0x78]] [0x36, 0x31, 0x36]
      \<lparr>decipher_ctx = Some (), incomplete_utf8 = None, incomplete_hex = 0, incomplete_hex_flag = False\<rparr> =
    Return ((\<lparr>blocks = \<lambda>_. [], next_block = 1, garbage = \<lambda>_ _. 0, external_bytes = 0, freed = [], chars_written = None\<rparr>,
      \<lparr>decipher_ctx = Some (), incomplete_utf8 = None, incomplete_hex = 0x36, incomplete_hex_flag = True\<rparr>), Some [0x61])"
proof -
  let ?hp = "\<lparr>blocks = \<lambda>_. [], next_block = 1, garbage = \<lambda>_ _. 0, external_bytes = 0, freed = [], chars_written = None\<rparr>"
  let ?args = "[JString [0x36, 0x31, 0x36], JString [0x68, 0x65, 0x78]]"
  let ?st = "\<lparr>decipher_ctx = Some (), incomplete_utf8 = None, incomplete_hex = 0, incomplete_hex_flag = False\<rparr>"
  have "names_encoding (arg ?args 1) ''hex''"
    by (simp add: arg_def names_encoding_def strcaseeq_def utf8_value_def utf8_bytes_def utf8_encode_def until_nul_def)
  moreover have "hex_decode [0x36, 0x31] = [0x61]" by (simp add: hex2i_def)
  ultimately show ?thesis
    using decipher_hex_input [of ?args ?hp "[0x36, 0x31, 0x36]" ?st "\<lambda>_. None"] by (simp add: arg_def)
qed

text \<open>
  The characters \<open>update\<close> returns with the encoding UTF-8. A character whose last bytes are missing is held
  back, and joined with what comes next; a piece that ends in ASCII is returned whole. But
  when the piece ends with a complete character of two or more bytes, one byte after it is
  decoded as well, which was never written to, or is not even in the array when
  something was held back before.
\<close>

theorem decipher_utf8_text:
  assumes enc: "is_string v" "parse_encoding v BINARY = UTF8"
    and out: "carry (incomplete_utf8 st) @ out = p @ c # cs" "out \<noteq> []" "length out \<le> cap"
    and inside: "\<forall>x\<in>set cs. x AND 0xC0 = 0x80"
  shows "(0 < following c \<and> length cs < following c \<longrightarrow>
      decipher_text junk cap v out st = Return (st\<lparr>incomplete_utf8 := Some (c # cs)\<rparr>, JString (utf8_decode p))) \<and>
    (c AND 0x80 = 0 \<and> cs = [] \<longrightarrow>
      decipher_text junk cap v out st = Return (st\<lparr>incomplete_utf8 := None\<rparr>, JString (utf8_decode (p @ [c])))) \<and>
    (0 < following c \<and> length cs = following c \<longrightarrow>
      decipher_text junk cap v out st =
        (if incomplete_utf8 st = None \<and> length out < cap
         then Return (st, JString (utf8_decode (p @ c # cs @ [junk (length out)])))
         else Overrun))"
proof -
  have dt0: "decipher_text junk cap v out st =
    (let t = carry (incomplete_utf8 st) @ out;
         cells = (if incomplete_utf8 st = None then out @ map junk [length out..<cap] else t);
         n = length_without_incomplete_utf8 t
     in if int (length cells) < n then Overrun
        else Return (st\<lparr>incomplete_utf8 := if n < int (length t) then Some (drop (nat n) t) else None\<rparr>,
          JString (utf8_decode (take (nat n) cells))))"
  proof -
    have "encode bs UTF8 = utf8_decode bs" for bs by (simp add: encode_def)
    then show ?thesis
      using enc out(2) by (cases "incomplete_utf8 st") (simp_all add: decipher_text_def carry_def Let_def)
  qed
  have lead: "length_without_incomplete_utf8 (p @ c # cs) =
      (if following c \<le> length cs then int (length p + 1 + following c) + 1 else int (length p))" if "0 < following c"
    by (rule utf8_end_lead [OF that inside])
  note dt = dt0 [unfolded out(1) Let_def]
  have keep: "st\<lparr>incomplete_utf8 := None\<rparr> = st" if "incomplete_utf8 st = None" using that by simp
  have l: "length out = Suc (length p + length cs)" if "incomplete_utf8 st = None"
    using arg_cong [OF out(1), of length] that by simp
  have cells: "take (length p) (if incomplete_utf8 st = None then out @ map junk [length out..<cap] else p @ c # cs) = p"
    "take (Suc (length p + length cs))
      (if incomplete_utf8 st = None then out @ map junk [length out..<cap] else p @ c # cs) = p @ c # cs"
    using out(1) by auto
  show ?thesis
  proof (intro conjI impI; elim conjE)
    assume "0 < following c" "length cs < following c"
    then show "decipher_text junk cap v out st = Return (st\<lparr>incomplete_utf8 := Some (c # cs)\<rparr>, JString (utf8_decode p))"
      using lead l out(3) by (auto simp: dt cells)
  next
    assume a: "c AND 0x80 = 0" "cs = []"
    then have "length_without_incomplete_utf8 (p @ c # cs) = int (Suc (length p + length cs))"
      by (simp add: length_without_incomplete_utf8_def)
    then show "decipher_text junk cap v out st = Return (st\<lparr>incomplete_utf8 := None\<rparr>, JString (utf8_decode (p @ [c])))"
      using a(2) cells(2) l out(3) by (auto simp: dt)
  next
    assume f: "0 < following c" "length cs = following c"
    show "decipher_text junk cap v out st =
        (if incomplete_utf8 st = None \<and> length out < cap
         then Return (st, JString (utf8_decode (p @ c # cs @ [junk (length out)])))
         else Overrun)"
    proof (cases "incomplete_utf8 st = None \<and> length out < cap")
      case True
      then have o: "out = p @ c # cs" "[length out..<cap] = length out # [Suc (length out)..<cap]"
        using out(1) by (simp_all add: carry_def upt_conv_Cons)
      moreover have "nat (2 + (int (length p) + int (following c))) = length p + Suc (Suc (following c))" by simp
      ultimately show ?thesis using True lead f keep by (simp add: dt [unfolded o(1)])
    next
      case False
      then show ?thesis using lead f l out(3) by (cases "incomplete_utf8 st") (auto simp: dt)
    qed
  qed
qed

theorem decipher_utf8_text_witness:
  "decipher_text (\<lambda>_. 0x21) 8 (JString [0x75, 0x74, 0x66, 0x38]) [0x41, 0xC3, 0xA9]
      \<lparr>decipher_ctx = Some (), incomplete_utf8 = None, incomplete_hex = 0, incomplete_hex_flag = False\<rparr> =
    Return (\<lparr>decipher_ctx = Some (), incomplete_utf8 = None, incomplete_hex = 0, incomplete_hex_flag = False\<rparr>,
      JString (utf8_decode [0x41, 0xC3, 0xA9, 0x21]))"
proof -
  let ?st = "\<lparr>decipher_ctx = Some (), incomplete_utf8 = None, incomplete_hex = 0, incomplete_hex_flag = False\<rparr>"
  have "parse_encoding (JString [0x75, 0x74, 0x66, 0x38]) BINARY = UTF8"
    by (simp add: parse_encoding_def strcaseeq_def utf8_value_def utf8_bytes_def utf8_encode_def until_nul_def)
  moreover have "following 0xC3 = 1" by (simp add: following_def)
  ultimately show ?thesis
    using decipher_utf8_text [of "JString [0x75, 0x74, 0x66, 0x38]" ?st "[0x41, 0xC3, 0xA9]" "[0x41]" "0xC3" "[0xA9]" 8 "\<lambda>_. 0x21"]
    by simp
qed

text \<open>
  The errors of both classes. Without a context \<open>update\<close> throws, \<open>final\<close> returns the empty string, and
  \<open>finaltol\<close> deletes an array at an address that was never set. An unknown cipher or a wrong length of the iv
  leaves the context as it was. A key that is too short is read past its end before it is
  refused. What \<open>EVP_CipherFinal\<close> rejects is not told apart from an empty block: the result is the
  empty string in both cases.
\<close>

theorem cipher_errors:
  assumes data: "data_argument h fresh hp args = Return d"
    and args: "binary_argument h fresh key = Return kb" "binary_argument h fresh iv = Return ib"
      "is_string name" "is_string key" "is_string iv"
    and known: "cipher_by_name ops (c_name name) = Some k"
  shows "cipher_update_js h fresh hp ops b64 args (st\<lparr>cipher_ctx := None\<rparr>)
      = (st\<lparr>cipher_ctx := None\<rparr>, Throw (JsTypeError ''DecipherUpdate fail'')) \<and>
    cipher_final_js ops b64 e (st\<lparr>cipher_ctx := None\<rparr>) = (st\<lparr>cipher_ctx := None\<rparr>, Return (JString [])) \<and>
    decipher_final_js ops e (dst\<lparr>decipher_ctx := None\<rparr>) = (dst\<lparr>decipher_ctx := None\<rparr>, Return (JString [])) \<and>
    decipher_final_tolerate_js ops e (dst\<lparr>decipher_ctx := None\<rparr>) = (dst\<lparr>decipher_ctx := None\<rparr>, Overrun) \<and>
    (run_final ops c = [] \<longrightarrow> decipher_final_js ops e (dst\<lparr>decipher_ctx := Some c\<rparr>)
      = (dst\<lparr>decipher_ctx := None\<rparr>, Return (JString []))) \<and>
    (iv_length ops k \<noteq> int (length ib) \<longrightarrow>
      decipher_init_iv_js h fresh ops [name, key, iv] dst =
        (dst\<lparr>incomplete_utf8 := None, incomplete_hex_flag := False\<rparr>, Throw (JsError ''DecipherInitIv error''))) \<and>
    (iv_length ops k = int (length ib) \<and> length kb < key_length ops k \<longrightarrow>
      snd (cipher_init_iv_js h fresh ops [name, key, iv] st) = Overrun \<and>
      snd (decipher_init_iv_js h fresh ops [name, key, iv] dst) = Overrun) \<and>
    (iv_length ops k = int (length ib) \<and> length kb = key_length ops k \<and>
      set_key_length ops (start ops k kb ib True) (int (length kb)) = Some c \<longrightarrow>
      cipher_init_iv_js h fresh ops [name, key, iv] st =
        (st\<lparr>incomplete_base64 := None, cipher_ctx := Some c\<rparr>, Return ()))"
proof -
  have a: "arg [name, key, iv] 0 = name" "arg [name, key, iv] (Suc 0) = key" "arg [name, key, iv] 2 = iv"
    by simp_all
  show ?thesis
    by (intro conjI impI; (elim conjE)?; simp add: cipher_update_js_def cipher_final_js_def decipher_final_js_def
        decipher_final_tolerate_js_def cipher_init_iv_js_def decipher_init_iv_js_def with_state_def data args a
        init_key_iv_def open_context_def known Let_def)
qed

theorem cipher_errors_witness:
  "snd (cipher_init_iv_js \<lparr>other_to_number = \<lambda>_. NaN, other_to_string = \<lambda>_. []\<rparr> (\<lambda>_. 0)
      \<lparr>cipher_by_name = \<lambda>_. Some (), bytes_to_key = \<lambda>_ k. (k, []), key_length = \<lambda>_. 2, iv_length = \<lambda>_. 1,
        start = \<lambda>_ k iv _. k, set_key_length = \<lambda>c _. Some c, cleanup = id, ctx_block_size = \<lambda>_. 8,
        run_update = \<lambda>c d. (case d of None \<Rightarrow> [] | Some bs \<Rightarrow> bs, c), run_final = \<lambda>_. [],
        last_block = \<lambda>_. \<lparr>block_size = 8, no_padding = True, buf_len = 0, final_used = False, final_block = []\<rparr>\<rparr>
      [JString [0x78], JString [0x4B], JString [0x49]] \<lparr>cipher_ctx = None, incomplete_base64 = None\<rparr>) = Overrun"
proof -
  let ?h = "\<lparr>other_to_number = \<lambda>_. NaN, other_to_string = \<lambda>_. []\<rparr>"
  let ?hp = "\<lparr>blocks = \<lambda>_. [], next_block = 1, garbage = \<lambda>_ _. 0, external_bytes = 0, freed = [], chars_written = None\<rparr>"
  let ?ops = "\<lparr>cipher_by_name = \<lambda>_. Some (), bytes_to_key = \<lambda>_ k. (k, []), key_length = \<lambda>_. 2, iv_length = \<lambda>_. 1,
        start = \<lambda>_ k iv _. k, set_key_length = \<lambda>c _. Some c, cleanup = id, ctx_block_size = \<lambda>_. 8,
        run_update = \<lambda>c d. (case d of None \<Rightarrow> [] | Some bs \<Rightarrow> bs, c), run_final = \<lambda>_. [],
        last_block = \<lambda>_. \<lparr>block_size = 8, no_padding = True, buf_len = 0, final_used = False, final_block = []\<rparr>\<rparr>"
  have b: "binary_argument ?h (\<lambda>_. 0) (JString [x]) = Return [ucast x]" if "drop_bit 8 x = 0" for x
    using that by (simp add: binary_argument_def string_or_buffer_def written_bytes_binary)
  have "parse_encoding (arg [JString [0x4B]] 1) BINARY = BINARY" by (simp add: arg_def parse_encoding_def)
  then have d: "data_argument ?h (\<lambda>_. 0) ?hp [JString [0x4B]] = Return [0x4B]"
    by (simp add: data_argument_def string_or_buffer_def arg_def written_bytes_binary)
  show ?thesis
    using cipher_errors [OF d, of "JString [0x4B]" "[0x4B]" "JString [0x49]" "[0x49]" "JString [0x78]" ?ops "()" id
        "\<lparr>cipher_ctx = None, incomplete_base64 = None\<rparr>"] b [of "0x4B"] b [of "0x49"]
    by simp
qed

end
