(* ===== verification/HttpParser.thy ===== *)
theory HttpParser
  imports Prelude
begin

text \<open>
  The incremental HTTP parser of \<open>deps/http_parser/http_parser.c\<close>, in the strict mode it is
  built in. A \<open>run\<close> is the state of one call of \<open>http_parser_execute\<close>: the parser object, the
  local copies of its state, the marks, which are positions in the data, and the callbacks made
  so far. \<open>answer\<close> gives what a callback returns, from the callbacks made before it.
\<close>

section \<open>Tables\<close>

abbreviation byte :: "char \<Rightarrow> u8" where "byte c \<equiv> of_char c"

definition CR :: u8 where "CR = 0x0D"
definition LF :: u8 where "LF = 0x0A"
definition LOWER :: "u8 \<Rightarrow> u8" where "LOWER c = c OR 0x20"

text \<open>The tables have 256 entries, of which the first 128 are given; the others are 0.\<close>

definition tokens :: "u8 list" where
  "tokens = [
    0, 0, 0, 0, 0, 0, 0, 0, 0, 0, 0, 0, 0, 0, 0, 0,
    0, 0, 0, 0, 0, 0, 0, 0, 0, 0, 0, 0, 0, 0, 0, 0,
    32, 33, 34, 35, 36, 37, 38, 39, 0, 0, 42, 43, 0, 45, 46, 47,
    48, 49, 50, 51, 52, 53, 54, 55, 56, 57, 0, 0, 0, 0, 0, 0,
    0, 97, 98, 99, 100, 101, 102, 103, 104, 105, 106, 107, 108, 109, 110, 111,
    112, 113, 114, 115, 116, 117, 118, 119, 120, 121, 122, 0, 0, 0, 94, 95,
    96, 97, 98, 99, 100, 101, 102, 103, 104, 105, 106, 107, 108, 109, 110, 111,
    112, 113, 114, 115, 116, 117, 118, 119, 120, 121, 122, 0, 124, 125, 126, 0]"

definition TOKEN :: "u8 \<Rightarrow> u8" where
  "TOKEN c = (if unat c < 128 then tokens ! unat c else 0)"

definition unhex_table :: "int list" where
  "unhex_table = [
    -1, -1, -1, -1, -1, -1, -1, -1, -1, -1, -1, -1, -1, -1, -1, -1,
    -1, -1, -1, -1, -1, -1, -1, -1, -1, -1, -1, -1, -1, -1, -1, -1,
    -1, -1, -1, -1, -1, -1, -1, -1, -1, -1, -1, -1, -1, -1, -1, -1,
    0, 1, 2, 3, 4, 5, 6, 7, 8, 9, -1, -1, -1, -1, -1, -1,
    -1, 10, 11, 12, 13, 14, 15, -1, -1, -1, -1, -1, -1, -1, -1, -1,
    -1, -1, -1, -1, -1, -1, -1, -1, -1, -1, -1, -1, -1, -1, -1, -1,
    -1, 10, 11, 12, 13, 14, 15, -1, -1, -1, -1, -1, -1, -1, -1, -1,
    -1, -1, -1, -1, -1, -1, -1, -1, -1, -1, -1, -1, -1, -1, -1, -1]"

definition unhex :: "u8 \<Rightarrow> int" where
  "unhex c = (if unat c < 128 then unhex_table ! unat c else 0)"

definition url_chars :: "nat list" where
  "url_chars = [
    0, 0, 0, 0, 0, 0, 0, 0, 0, 0, 0, 0, 0, 0, 0, 0,
    0, 0, 0, 0, 0, 0, 0, 0, 0, 0, 0, 0, 0, 0, 0, 0,
    0, 1, 1, 0, 1, 1, 1, 1, 1, 1, 1, 1, 1, 1, 1, 1,
    1, 1, 1, 1, 1, 1, 1, 1, 1, 1, 1, 1, 1, 1, 1, 0,
    1, 1, 1, 1, 1, 1, 1, 1, 1, 1, 1, 1, 1, 1, 1, 1,
    1, 1, 1, 1, 1, 1, 1, 1, 1, 1, 1, 1, 1, 1, 1, 1,
    1, 1, 1, 1, 1, 1, 1, 1, 1, 1, 1, 1, 1, 1, 1, 1,
    1, 1, 1, 1, 1, 1, 1, 1, 1, 1, 1, 1, 1, 1, 1, 0]"

definition normal_url_char :: "u8 \<Rightarrow> bool" where
  "normal_url_char c = (if unat c < 128 then url_chars ! unat c \<noteq> 0 else False)"

definition digit :: "u8 \<Rightarrow> bool" where "digit c \<longleftrightarrow> byte CHR ''0'' \<le> c \<and> c \<le> byte CHR ''9''"
definition letter :: "u8 \<Rightarrow> bool" where "letter c \<longleftrightarrow> byte CHR ''a'' \<le> LOWER c \<and> LOWER c \<le> byte CHR ''z''"
definition digit_value :: "u8 \<Rightarrow> nat" where "digit_value c = unat (c - byte CHR ''0'')"

definition wrap64 :: "int \<Rightarrow> int" where "wrap64 i = (i + 2 ^ 63) mod 2 ^ 64 - 2 ^ 63"

section \<open>Types\<close>

datatype http_type = HTTP_REQUEST | HTTP_RESPONSE | HTTP_BOTH

datatype http_method =
    HTTP_DELETE | HTTP_GET | HTTP_HEAD | HTTP_POST | HTTP_PUT | HTTP_CONNECT
  | HTTP_OPTIONS | HTTP_TRACE | HTTP_COPY | HTTP_LOCK | HTTP_MKCOL | HTTP_MOVE
  | HTTP_PROPFIND | HTTP_PROPPATCH | HTTP_UNLOCK | HTTP_REPORT | HTTP_MKACTIVITY | HTTP_CHECKOUT
  | HTTP_MERGE | HTTP_MSEARCH | HTTP_NOTIFY | HTTP_SUBSCRIBE | HTTP_UNSUBSCRIBE

fun method_string :: "http_method \<Rightarrow> string" where
  "method_string HTTP_DELETE = ''DELETE''"
| "method_string HTTP_GET = ''GET''"
| "method_string HTTP_HEAD = ''HEAD''"
| "method_string HTTP_POST = ''POST''"
| "method_string HTTP_PUT = ''PUT''"
| "method_string HTTP_CONNECT = ''CONNECT''"
| "method_string HTTP_OPTIONS = ''OPTIONS''"
| "method_string HTTP_TRACE = ''TRACE''"
| "method_string HTTP_COPY = ''COPY''"
| "method_string HTTP_LOCK = ''LOCK''"
| "method_string HTTP_MKCOL = ''MKCOL''"
| "method_string HTTP_MOVE = ''MOVE''"
| "method_string HTTP_PROPFIND = ''PROPFIND''"
| "method_string HTTP_PROPPATCH = ''PROPPATCH''"
| "method_string HTTP_UNLOCK = ''UNLOCK''"
| "method_string HTTP_REPORT = ''REPORT''"
| "method_string HTTP_MKACTIVITY = ''MKACTIVITY''"
| "method_string HTTP_CHECKOUT = ''CHECKOUT''"
| "method_string HTTP_MERGE = ''MERGE''"
| "method_string HTTP_MSEARCH = ''M-SEARCH''"
| "method_string HTTP_NOTIFY = ''NOTIFY''"
| "method_string HTTP_SUBSCRIBE = ''SUBSCRIBE''"
| "method_string HTTP_UNSUBSCRIBE = ''UNSUBSCRIBE''"

datatype state =
    s_dead | s_start_req_or_res | s_res_or_resp_H | s_start_res | s_res_H
  | s_res_HT | s_res_HTT | s_res_HTTP | s_res_first_http_major | s_res_http_major
  | s_res_first_http_minor | s_res_http_minor | s_res_first_status_code | s_res_status_code | s_res_status
  | s_res_line_almost_done | s_start_req | s_req_method | s_req_spaces_before_url | s_req_schema
  | s_req_schema_slash | s_req_schema_slash_slash | s_req_host | s_req_port | s_req_path
  | s_req_query_string_start | s_req_query_string | s_req_fragment_start | s_req_fragment | s_req_http_start
  | s_req_http_H | s_req_http_HT | s_req_http_HTT | s_req_http_HTTP | s_req_first_http_major
  | s_req_http_major | s_req_first_http_minor | s_req_http_minor | s_req_line_almost_done | s_header_field_start
  | s_header_field | s_header_value_start | s_header_value | s_header_almost_done | s_headers_almost_done
  | s_chunk_size_start | s_chunk_size | s_chunk_size_almost_done | s_chunk_parameters | s_chunk_data
  | s_chunk_data_almost_done | s_chunk_data_done | s_body_identity | s_body_identity_eof

datatype header_state =
    h_general | h_C | h_CO | h_CON | h_matching_connection
  | h_matching_proxy_connection | h_matching_content_length | h_matching_transfer_encoding | h_matching_upgrade | h_connection
  | h_content_length | h_transfer_encoding | h_upgrade | h_matching_transfer_encoding_chunked | h_matching_connection_keep_alive
  | h_matching_connection_close | h_transfer_encoding_chunked | h_connection_keep_alive | h_connection_close

datatype flag = F_CHUNKED | F_CONNECTION_KEEP_ALIVE | F_CONNECTION_CLOSE | F_TRAILING | F_UPGRADE | F_SKIPBODY

text \<open>What a parser knows of the message, and the whole object with the state kept between calls.\<close>

record http_fields =
  ptype :: http_type
  flags :: "flag set"
  content_length :: int \<comment> \<open>64 bits, signed\<close>
  http_major :: nat
  http_minor :: nat
  status_code :: nat
  req_method :: http_method
  upgrade :: bool

record parser =
  msg :: http_fields
  pstate :: state
  pheader_state :: header_state
  pindex :: nat \<comment> \<open>8 bits\<close>
  pnread :: nat \<comment> \<open>32 bits\<close>

datatype field = Header_field | Header_value | Fragment | Query_string | Path | Url | Body

text \<open>A callback with data has the position of the data and its length.\<close>

datatype event = Data field nat nat | Message_begin | Headers_complete http_fields | Message_complete

type_synonym answers = "event list \<Rightarrow> event \<Rightarrow> int"

record run =
  par :: http_fields
  saved :: state \<comment> \<open>\<open>parser->state\<close>\<close>
  state :: state
  hstate :: header_state
  index :: nat
  nread :: nat
  marks :: "field \<Rightarrow> nat option"
  pos :: nat
  events :: "event list"

text \<open>
  How the code for one byte ends: with the next byte, by \<open>return p - data\<close>, at \<open>error\<close>, at a failed
  assertion, or having read past the end of a string.
\<close>

datatype step = Go run | Leave run | Fail run | Assertion | Read_past

fun sbind :: "step \<Rightarrow> (run \<Rightarrow> step) \<Rightarrow> step" where
  "sbind (Go r) k = k r"
| "sbind s k = s"

definition HTTP_MAX_HEADER_SIZE :: nat where "HTTP_MAX_HEADER_SIZE = 80 * 1024"

definition parsing_header :: "run \<Rightarrow> bool" where
  "parsing_header r \<longleftrightarrow>
     state r \<notin> {s_chunk_size_start, s_chunk_size, s_chunk_size_almost_done, s_chunk_parameters, s_chunk_data,
       s_chunk_data_almost_done, s_chunk_data_done, s_body_identity, s_body_identity_eof} \<and>
     F_TRAILING \<notin> flags (par r)"

definition should_keep_alive :: "http_fields \<Rightarrow> bool" where
  "should_keep_alive P =
     (if 0 < http_major P \<and> 0 < http_minor P then F_CONNECTION_CLOSE \<notin> flags P
      else F_CONNECTION_KEEP_ALIVE \<in> flags P)"

definition new_message :: "http_fields \<Rightarrow> state" where
  "new_message P =
     (if should_keep_alive P then if ptype P = HTTP_REQUEST then s_start_req else s_start_res else s_dead)"

section \<open>The macros\<close>

definition emit :: "answers \<Rightarrow> event \<Rightarrow> run \<Rightarrow> step" where
  "emit answer e r =
     (let r' = r\<lparr>events := events r @ [e]\<rparr> in if answer (events r) e \<noteq> 0 then Leave r' else Go r')"

definition mark :: "field \<Rightarrow> run \<Rightarrow> run" where
  "mark f r = r\<lparr>marks := (marks r)(f := Some (pos r))\<rparr>"

definition callback_noclear :: "answers \<Rightarrow> field \<Rightarrow> run \<Rightarrow> step" where
  "callback_noclear answer f r =
     (case marks r f of None \<Rightarrow> Go r | Some m \<Rightarrow> emit answer (Data f m (pos r - m)) r)"

definition callback :: "answers \<Rightarrow> field \<Rightarrow> run \<Rightarrow> step" where
  "callback answer f r =
     sbind (callback_noclear answer f r) (\<lambda>r. Go (r\<lparr>marks := (marks r)(f := None)\<rparr>))"

definition goto :: "state \<Rightarrow> run \<Rightarrow> step" where
  "goto s r = Go (r\<lparr>state := s\<rparr>)"

definition set_par :: "(http_fields \<Rightarrow> http_fields) \<Rightarrow> run \<Rightarrow> run" where
  "set_par f r = r\<lparr>par := f (par r)\<rparr>"

definition strict_check :: "bool \<Rightarrow> run \<Rightarrow> (run \<Rightarrow> step) \<Rightarrow> step" where
  "strict_check bad r k = (if bad then Fail r else k r)"

section \<open>Status line\<close>

definition start_message :: "answers \<Rightarrow> run \<Rightarrow> (run \<Rightarrow> step) \<Rightarrow> step" where
  "start_message answer r k =
     sbind (emit answer Message_begin (set_par (\<lambda>P. P\<lparr>flags := {}, content_length := -1\<rparr>) r)) k"

definition set_method :: "http_method \<Rightarrow> run \<Rightarrow> run" where
  "set_method m r = set_par (\<lambda>P. P\<lparr>req_method := m\<rparr>) r"

text \<open>The code at the label \<open>start_req_method_assign\<close>.\<close>

definition method_assign :: "u8 \<Rightarrow> run \<Rightarrow> step" where
  "method_assign ch r0 =
     (let r = (set_method HTTP_DELETE r0)\<lparr>index := 1\<rparr>; go = (\<lambda>m. goto s_req_method (set_method m r))
      in if ch = byte CHR ''C'' then go HTTP_CONNECT
         else if ch = byte CHR ''D'' then go HTTP_DELETE
         else if ch = byte CHR ''G'' then go HTTP_GET
         else if ch = byte CHR ''H'' then go HTTP_HEAD
         else if ch = byte CHR ''L'' then go HTTP_LOCK
         else if ch = byte CHR ''M'' then go HTTP_MKCOL
         else if ch = byte CHR ''N'' then go HTTP_NOTIFY
         else if ch = byte CHR ''O'' then go HTTP_OPTIONS
         else if ch = byte CHR ''P'' then go HTTP_POST
         else if ch = byte CHR ''R'' then go HTTP_REPORT
         else if ch = byte CHR ''S'' then go HTTP_SUBSCRIBE
         else if ch = byte CHR ''T'' then go HTTP_TRACE
         else if ch = byte CHR ''U'' then go HTTP_UNLOCK
         else Fail r)"

definition start_req_or_res :: "answers \<Rightarrow> u8 \<Rightarrow> run \<Rightarrow> step" where
  "start_req_or_res answer ch r =
     (if ch = CR \<or> ch = LF then Go r
      else start_message answer r
        (\<lambda>r. if ch = byte CHR ''H'' then goto s_res_or_resp_H r
              else method_assign ch (set_par (\<lambda>P. P\<lparr>ptype := HTTP_REQUEST\<rparr>) r)))"

definition res_or_resp_H :: "u8 \<Rightarrow> run \<Rightarrow> step" where
  "res_or_resp_H ch r =
     (if ch = byte CHR ''T'' then goto s_res_HT (set_par (\<lambda>P. P\<lparr>ptype := HTTP_RESPONSE\<rparr>) r)
      else if ch \<noteq> byte CHR ''E'' then Fail r
      else goto s_req_method ((set_par (\<lambda>P. P\<lparr>ptype := HTTP_REQUEST, req_method := HTTP_HEAD\<rparr>) r)\<lparr>index := 2\<rparr>))"

definition start_res :: "answers \<Rightarrow> u8 \<Rightarrow> run \<Rightarrow> step" where
  "start_res answer ch r =
     start_message answer r
       (\<lambda>r. if ch = byte CHR ''H'' then goto s_res_H r
             else if ch = CR \<or> ch = LF then Go r
             else Fail r)"

definition expect :: "char \<Rightarrow> state \<Rightarrow> u8 \<Rightarrow> run \<Rightarrow> step" where
  "expect c next ch r = strict_check (ch \<noteq> byte c) r (goto next)"

text \<open>The first digit of a number, a later one (at most 999), and what ends the number.\<close>

definition first_major :: "state \<Rightarrow> u8 \<Rightarrow> run \<Rightarrow> step" where
  "first_major next ch r =
     (if ch < byte CHR ''1'' \<or> byte CHR ''9'' < ch then Fail r
      else goto next (set_par (\<lambda>P. P\<lparr>http_major := digit_value ch\<rparr>) r))"

definition major_digit :: "state \<Rightarrow> u8 \<Rightarrow> run \<Rightarrow> step" where
  "major_digit next ch r =
     (if ch = byte CHR ''.'' then goto next r
      else if \<not> digit ch then Fail r
      else let r' = set_par (\<lambda>P. P\<lparr>http_major := http_major P * 10 + digit_value ch\<rparr>) r
           in if 999 < http_major (par r') then Fail r' else Go r')"

definition first_minor :: "state \<Rightarrow> u8 \<Rightarrow> run \<Rightarrow> step" where
  "first_minor next ch r =
     (if \<not> digit ch then Fail r else goto next (set_par (\<lambda>P. P\<lparr>http_minor := digit_value ch\<rparr>) r))"

definition minor_digit :: "u8 \<Rightarrow> run \<Rightarrow> step" where
  "minor_digit ch r =
     (if \<not> digit ch then Fail r
      else let r' = set_par (\<lambda>P. P\<lparr>http_minor := http_minor P * 10 + digit_value ch\<rparr>) r
           in if 999 < http_minor (par r') then Fail r' else Go r')"

definition res_http_minor :: "u8 \<Rightarrow> run \<Rightarrow> step" where
  "res_http_minor ch r = (if ch = byte CHR '' '' then goto s_res_first_status_code r else minor_digit ch r)"

definition res_first_status_code :: "u8 \<Rightarrow> run \<Rightarrow> step" where
  "res_first_status_code ch r =
     (if \<not> digit ch then if ch = byte CHR '' '' then Go r else Fail r
      else goto s_res_status_code (set_par (\<lambda>P. P\<lparr>status_code := digit_value ch\<rparr>) r))"

definition res_status_code :: "u8 \<Rightarrow> run \<Rightarrow> step" where
  "res_status_code ch r =
     (if \<not> digit ch then
        if ch = byte CHR '' '' then goto s_res_status r
        else if ch = CR then goto s_res_line_almost_done r
        else if ch = LF then goto s_header_field_start r
        else Fail r
      else let r' = set_par (\<lambda>P. P\<lparr>status_code := status_code P * 10 + digit_value ch\<rparr>) r
           in if 999 < status_code (par r') then Fail r' else Go r')"

definition res_status :: "u8 \<Rightarrow> run \<Rightarrow> step" where
  "res_status ch r =
     (if ch = CR then goto s_res_line_almost_done r
      else if ch = LF then goto s_header_field_start r
      else Go r)"

section \<open>Request line\<close>

definition start_req :: "answers \<Rightarrow> u8 \<Rightarrow> run \<Rightarrow> step" where
  "start_req answer ch r =
     (if ch = CR \<or> ch = LF then Go r
      else start_message answer r
        (\<lambda>r. if ch < byte CHR ''A'' \<or> byte CHR ''Z'' < ch then Fail r else method_assign ch r))"

text \<open>\<open>matcher[index]\<close>: the terminating 0 of the string is its last character that may be read.\<close>

definition matcher :: "http_method \<Rightarrow> nat \<Rightarrow> u8 option" where
  "matcher m i =
     (let s = method_string m
      in if i < length s then Some (byte (s ! i)) else if i = length s then Some 0 else None)"

definition method_char :: "u8 \<Rightarrow> run \<Rightarrow> step" where
  "method_char ch r =
     (if ch = 0 then Fail r
      else case matcher (req_method (par r)) (index r) of
        None \<Rightarrow> Read_past
      | Some x \<Rightarrow>
          (let m = req_method (par r); i = index r;
               next = (\<lambda>r. Go (r\<lparr>index := index r + 1\<rparr>)); turn = (\<lambda>m. next (set_method m r))
           in if ch = byte CHR '' '' \<and> x = 0 then next (r\<lparr>state := s_req_spaces_before_url\<rparr>)
              else if ch = x then next r
              else if m = HTTP_CONNECT then
                if i = 1 \<and> ch = byte CHR ''H'' then turn HTTP_CHECKOUT
                else if i = 2 \<and> ch = byte CHR ''P'' then turn HTTP_COPY
                else next r
              else if m = HTTP_MKCOL then
                if i = 1 \<and> ch = byte CHR ''O'' then turn HTTP_MOVE
                else if i = 1 \<and> ch = byte CHR ''E'' then turn HTTP_MERGE
                else if i = 1 \<and> ch = byte CHR ''-'' then turn HTTP_MSEARCH
                else if i = 2 \<and> ch = byte CHR ''A'' then turn HTTP_MKACTIVITY
                else next r
              else if i = 1 \<and> m = HTTP_POST \<and> ch = byte CHR ''R'' then turn HTTP_PROPFIND
              else if i = 1 \<and> m = HTTP_POST \<and> ch = byte CHR ''U'' then turn HTTP_PUT
              else if i = 2 \<and> m = HTTP_UNLOCK \<and> ch = byte CHR ''S'' then turn HTTP_UNSUBSCRIBE
              else if i = 4 \<and> m = HTTP_PROPFIND \<and> ch = byte CHR ''P'' then turn HTTP_PROPPATCH
              else Fail r))"

definition req_spaces_before_url :: "u8 \<Rightarrow> run \<Rightarrow> step" where
  "req_spaces_before_url ch r =
     (if ch = byte CHR '' '' then Go r
      else if ch = byte CHR ''/'' \<or> ch = byte CHR ''*'' then goto s_req_path (mark Path (mark Url r))
      else if letter ch then goto s_req_schema (mark Url r)
      else Fail r)"

definition req_schema :: "u8 \<Rightarrow> run \<Rightarrow> step" where
  "req_schema ch r =
     (if letter ch then Go r
      else if ch = byte CHR '':'' then goto s_req_schema_slash r
      else if ch = byte CHR ''.'' then goto s_req_host r
      else if digit ch then goto s_req_host r
      else Fail r)"

text \<open>A space after the URL, and a line end, which makes it a request of HTTP 0.9.\<close>

definition end_url :: "answers \<Rightarrow> field list \<Rightarrow> run \<Rightarrow> step" where
  "end_url answer fs r = fold (\<lambda>f s. sbind s (callback answer f)) fs (Go r)"

definition end_url_space :: "answers \<Rightarrow> field list \<Rightarrow> run \<Rightarrow> step" where
  "end_url_space answer fs r = sbind (end_url answer fs r) (goto s_req_http_start)"

definition end_url_09 :: "answers \<Rightarrow> field list \<Rightarrow> state \<Rightarrow> run \<Rightarrow> step" where
  "end_url_09 answer fs next r =
     sbind (end_url answer fs r) (\<lambda>r. goto next (set_par (\<lambda>P. P\<lparr>http_major := 0, http_minor := 9\<rparr>) r))"

definition req_host :: "answers \<Rightarrow> u8 \<Rightarrow> run \<Rightarrow> step" where
  "req_host answer ch r =
     (if letter ch then Go r
      else if digit ch \<or> ch = byte CHR ''.'' \<or> ch = byte CHR ''-'' then Go r
      else if ch = byte CHR '':'' then goto s_req_port r
      else if ch = byte CHR ''/'' then goto s_req_path (mark Path r)
      else if ch = byte CHR '' '' then end_url_space answer [Url] r
      else Fail r)"

definition req_port :: "answers \<Rightarrow> u8 \<Rightarrow> run \<Rightarrow> step" where
  "req_port answer ch r =
     (if digit ch then Go r
      else if ch = byte CHR ''/'' then goto s_req_path (mark Path r)
      else if ch = byte CHR '' '' then end_url_space answer [Url] r
      else Fail r)"

definition req_path :: "answers \<Rightarrow> u8 \<Rightarrow> run \<Rightarrow> step" where
  "req_path answer ch r =
     (if normal_url_char ch then Go r
      else if ch = byte CHR '' '' then end_url_space answer [Url, Path] r
      else if ch = CR then end_url_09 answer [Url, Path] s_req_line_almost_done r
      else if ch = LF then end_url_09 answer [Url, Path] s_header_field_start r
      else if ch = byte CHR ''?'' then sbind (callback answer Path r) (goto s_req_query_string_start)
      else if ch = byte CHR ''#'' then sbind (callback answer Path r) (goto s_req_fragment_start)
      else Fail r)"

definition req_query_string_start :: "answers \<Rightarrow> u8 \<Rightarrow> run \<Rightarrow> step" where
  "req_query_string_start answer ch r =
     (if normal_url_char ch then goto s_req_query_string (mark Query_string r)
      else if ch = byte CHR ''?'' then Go r
      else if ch = byte CHR '' '' then end_url_space answer [Url] r
      else if ch = CR then end_url_09 answer [Url] s_req_line_almost_done r
      else if ch = LF then end_url_09 answer [Url] s_header_field_start r
      else if ch = byte CHR ''#'' then goto s_req_fragment_start r
      else Fail r)"

definition req_query_string :: "answers \<Rightarrow> u8 \<Rightarrow> run \<Rightarrow> step" where
  "req_query_string answer ch r =
     (if normal_url_char ch then Go r
      else if ch = byte CHR ''?'' then Go r
      else if ch = byte CHR '' '' then end_url_space answer [Url, Query_string] r
      else if ch = CR then end_url_09 answer [Url, Query_string] s_req_line_almost_done r
      else if ch = LF then end_url_09 answer [Url, Query_string] s_header_field_start r
      else if ch = byte CHR ''#'' then sbind (callback answer Query_string r) (goto s_req_fragment_start)
      else Fail r)"

definition req_fragment_start :: "answers \<Rightarrow> u8 \<Rightarrow> run \<Rightarrow> step" where
  "req_fragment_start answer ch r =
     (if normal_url_char ch then goto s_req_fragment (mark Fragment r)
      else if ch = byte CHR '' '' then end_url_space answer [Url] r
      else if ch = CR then end_url_09 answer [Url] s_req_line_almost_done r
      else if ch = LF then end_url_09 answer [Url] s_header_field_start r
      else if ch = byte CHR ''?'' then goto s_req_fragment (mark Fragment r)
      else if ch = byte CHR ''#'' then Go r
      else Fail r)"

definition req_fragment :: "answers \<Rightarrow> u8 \<Rightarrow> run \<Rightarrow> step" where
  "req_fragment answer ch r =
     (if normal_url_char ch then Go r
      else if ch = byte CHR '' '' then end_url_space answer [Url, Fragment] r
      else if ch = CR then end_url_09 answer [Url, Fragment] s_req_line_almost_done r
      else if ch = LF then end_url_09 answer [Url, Fragment] s_header_field_start r
      else if ch = byte CHR ''?'' \<or> ch = byte CHR ''#'' then Go r
      else Fail r)"

definition req_http_start :: "u8 \<Rightarrow> run \<Rightarrow> step" where
  "req_http_start ch r =
     (if ch = byte CHR ''H'' then goto s_req_http_H r else if ch = byte CHR '' '' then Go r else Fail r)"

definition req_http_minor :: "u8 \<Rightarrow> run \<Rightarrow> step" where
  "req_http_minor ch r =
     (if ch = CR then goto s_req_line_almost_done r
      else if ch = LF then goto s_header_field_start r
      else minor_digit ch r)"

definition req_line_almost_done :: "u8 \<Rightarrow> run \<Rightarrow> step" where
  "req_line_almost_done ch r = (if ch \<noteq> LF then Fail r else goto s_header_field_start r)"

section \<open>Headers\<close>

text \<open>
  A step in the comparison with a string of which \<open>index + 1\<close> characters are already known to
  agree: \<open>target\<close> is the state when the last one agrees.
\<close>

definition match_next :: "string \<Rightarrow> header_state \<Rightarrow> u8 \<Rightarrow> run \<Rightarrow> step" where
  "match_next s target c r =
     (let i = index r + 1
      in Go (r\<lparr>index := i,
           hstate := if length s < i \<or> c \<noteq> (if i < length s then byte (s ! i) else 0) then h_general
                     else if i = length s - 1 then target
                     else hstate r\<rparr>))"

definition set_hstate :: "header_state \<Rightarrow> run \<Rightarrow> run" where
  "set_hstate h r = r\<lparr>hstate := h\<rparr>"

definition field_char :: "u8 \<Rightarrow> u8 \<Rightarrow> run \<Rightarrow> step" where
  "field_char ch c r =
     (case hstate r of
        h_general \<Rightarrow> Go r
      | h_C \<Rightarrow> Go (r\<lparr>index := index r + 1, hstate := if c = byte CHR ''o'' then h_CO else h_general\<rparr>)
      | h_CO \<Rightarrow> Go (r\<lparr>index := index r + 1, hstate := if c = byte CHR ''n'' then h_CON else h_general\<rparr>)
      | h_CON \<Rightarrow> Go (r\<lparr>index := index r + 1,
          hstate := if c = byte CHR ''n'' then h_matching_connection
                    else if c = byte CHR ''t'' then h_matching_content_length else h_general\<rparr>)
      | h_matching_connection \<Rightarrow> match_next ''connection'' h_connection c r
      | h_matching_proxy_connection \<Rightarrow> match_next ''proxy-connection'' h_connection c r
      | h_matching_content_length \<Rightarrow> match_next ''content-length'' h_content_length c r
      | h_matching_transfer_encoding \<Rightarrow> match_next ''transfer-encoding'' h_transfer_encoding c r
      | h_matching_upgrade \<Rightarrow> match_next ''upgrade'' h_upgrade c r
      | h_connection \<Rightarrow> Go (if ch \<noteq> byte CHR '' '' then set_hstate h_general r else r)
      | h_content_length \<Rightarrow> Go (if ch \<noteq> byte CHR '' '' then set_hstate h_general r else r)
      | h_transfer_encoding \<Rightarrow> Go (if ch \<noteq> byte CHR '' '' then set_hstate h_general r else r)
      | h_upgrade \<Rightarrow> Go (if ch \<noteq> byte CHR '' '' then set_hstate h_general r else r)
      | _ \<Rightarrow> Assertion)"

definition header_field :: "answers \<Rightarrow> u8 \<Rightarrow> run \<Rightarrow> step" where
  "header_field answer ch r =
     (let c = TOKEN ch
      in if c \<noteq> 0 then field_char ch c r
         else if ch = byte CHR '':'' then sbind (callback answer Header_field r) (goto s_header_value_start)
         else if ch = CR then callback answer Header_field (r\<lparr>state := s_header_almost_done\<rparr>)
         else if ch = LF then sbind (callback answer Header_field r) (goto s_header_field_start)
         else Fail r)"

definition header_value_start :: "answers \<Rightarrow> u8 \<Rightarrow> run \<Rightarrow> step" where
  "header_value_start answer ch r0 =
     (if ch = byte CHR '' '' then Go r0
      else let r = (mark Header_value r0)\<lparr>state := s_header_value, index := 0\<rparr>; c = LOWER ch
      in if ch = CR then
           sbind (callback answer Header_value r) (\<lambda>r. goto s_header_almost_done (set_hstate h_general r))
         else if ch = LF then sbind (callback answer Header_value r) (goto s_header_field_start)
         else case hstate r of
           h_upgrade \<Rightarrow> Go (set_hstate h_general (set_par (\<lambda>P. P\<lparr>flags := insert F_UPGRADE (flags P)\<rparr>) r))
         | h_transfer_encoding \<Rightarrow>
             Go (set_hstate (if c = byte CHR ''c'' then h_matching_transfer_encoding_chunked else h_general) r)
         | h_content_length \<Rightarrow>
             if \<not> digit ch then Fail r
             else Go (set_par (\<lambda>P. P\<lparr>content_length := int (digit_value ch)\<rparr>) r)
         | h_connection \<Rightarrow>
             Go (set_hstate (if c = byte CHR ''k'' then h_matching_connection_keep_alive
                             else if c = byte CHR ''c'' then h_matching_connection_close else h_general) r)
         | _ \<Rightarrow> Go (set_hstate h_general r))"

definition header_almost_done :: "u8 \<Rightarrow> run \<Rightarrow> step" where
  "header_almost_done ch r =
     strict_check (ch \<noteq> LF) r
       (\<lambda>r. let add = (\<lambda>f. set_par (\<lambda>P. P\<lparr>flags := insert f (flags P)\<rparr>)); r' = r\<lparr>state := s_header_field_start\<rparr>
             in Go (case hstate r of
                  h_connection_keep_alive \<Rightarrow> add F_CONNECTION_KEEP_ALIVE r'
                | h_connection_close \<Rightarrow> add F_CONNECTION_CLOSE r'
                | h_transfer_encoding_chunked \<Rightarrow> add F_CHUNKED r'
                | _ \<Rightarrow> r'))"

definition value_char :: "u8 \<Rightarrow> u8 \<Rightarrow> run \<Rightarrow> step" where
  "value_char ch c r =
     (case hstate r of
        h_general \<Rightarrow> Go r
      | h_connection \<Rightarrow> Assertion
      | h_transfer_encoding \<Rightarrow> Assertion
      | h_content_length \<Rightarrow>
          if ch = byte CHR '' '' then Go r
          else if \<not> digit ch then Fail r
          else Go (set_par (\<lambda>P. P\<lparr>content_length := wrap64 (wrap64 (content_length P * 10) + int (digit_value ch))\<rparr>) r)
      | h_matching_transfer_encoding_chunked \<Rightarrow> match_next ''chunked'' h_transfer_encoding_chunked c r
      | h_matching_connection_keep_alive \<Rightarrow> match_next ''keep-alive'' h_connection_keep_alive c r
      | h_matching_connection_close \<Rightarrow> match_next ''close'' h_connection_close c r
      | h_transfer_encoding_chunked \<Rightarrow> Go (if ch \<noteq> byte CHR '' '' then set_hstate h_general r else r)
      | h_connection_keep_alive \<Rightarrow> Go (if ch \<noteq> byte CHR '' '' then set_hstate h_general r else r)
      | h_connection_close \<Rightarrow> Go (if ch \<noteq> byte CHR '' '' then set_hstate h_general r else r)
      | _ \<Rightarrow> Go (set_hstate h_general r))"

definition header_value :: "answers \<Rightarrow> u8 \<Rightarrow> run \<Rightarrow> step" where
  "header_value answer ch r =
     (if ch = CR then sbind (callback answer Header_value r) (goto s_header_almost_done)
      else if ch = LF then sbind (callback answer Header_value r) (header_almost_done ch)
      else value_char ch (LOWER ch) r)"

text \<open>The end of a message, and what follows the headers of one.\<close>

definition complete :: "answers \<Rightarrow> run \<Rightarrow> step" where
  "complete answer r = sbind (emit answer Message_complete r) (\<lambda>r. goto (new_message (par r)) r)"

definition after_headers :: "answers \<Rightarrow> run \<Rightarrow> step" where
  "after_headers answer r =
     (let P = par r
      in if upgrade P then sbind (emit answer Message_complete r) Leave
         else if F_SKIPBODY \<in> flags P then complete answer r
         else if F_CHUNKED \<in> flags P then goto s_chunk_size_start r
         else if content_length P = 0 then complete answer r
         else if 0 < content_length P then goto s_body_identity r
         else if ptype P = HTTP_REQUEST \<or> should_keep_alive P then complete answer r
         else goto s_body_identity_eof r)"

definition headers_almost_done :: "answers \<Rightarrow> u8 \<Rightarrow> run \<Rightarrow> step" where
  "headers_almost_done answer ch r0 =
     strict_check (ch \<noteq> LF) r0
       (\<lambda>r0. if F_TRAILING \<in> flags (par r0) then complete answer r0
         else let r1 = r0\<lparr>nread := 0\<rparr>;
                  r = (if F_UPGRADE \<in> flags (par r1) \<or> req_method (par r1) = HTTP_CONNECT
                       then set_par (\<lambda>P. P\<lparr>upgrade := True\<rparr>) r1 else r1);
                  e = Headers_complete (par r); a = answer (events r) e;
                  r' = r\<lparr>events := events r @ [e]\<rparr>
         in if a = 0 then after_headers answer r'
            else if a = 1 then after_headers answer (set_par (\<lambda>P. P\<lparr>flags := insert F_SKIPBODY (flags P)\<rparr>) r')
            else Leave (r'\<lparr>saved := state r'\<rparr>))"

definition header_field_start :: "answers \<Rightarrow> u8 \<Rightarrow> run \<Rightarrow> step" where
  "header_field_start answer ch r =
     (if ch = CR then goto s_headers_almost_done r
      else if ch = LF then headers_almost_done answer ch (r\<lparr>state := s_headers_almost_done\<rparr>)
      else let c = TOKEN ch
      in if c = 0 then Fail r
         else Go ((mark Header_field r)\<lparr>index := 0, state := s_header_field,
                hstate := if c = byte CHR ''c'' then h_C
                          else if c = byte CHR ''p'' then h_matching_proxy_connection
                          else if c = byte CHR ''t'' then h_matching_transfer_encoding
                          else if c = byte CHR ''u'' then h_matching_upgrade
                          else h_general\<rparr>))"

section \<open>Bodies\<close>

text \<open>\<open>on_body\<close>, whose result is not looked at; \<open>p\<close> is then on the last byte of the data.\<close>

definition body_data :: "nat \<Rightarrow> run \<Rightarrow> run" where
  "body_data n r = r\<lparr>events := events r @ [Data Body (pos r) n], pos := pos r + n - 1\<rparr>"

definition body_identity :: "answers \<Rightarrow> nat \<Rightarrow> run \<Rightarrow> step" where
  "body_identity answer avail r =
     (let to_read = min (int avail) (content_length (par r))
      in if 0 < to_read then
           (let r' = set_par (\<lambda>P. P\<lparr>content_length := content_length P - to_read\<rparr>) (body_data (nat to_read) r)
            in if content_length (par r') = 0 then complete answer r' else Go r')
         else Go r)"

definition body_identity_eof :: "nat \<Rightarrow> run \<Rightarrow> step" where
  "body_identity_eof avail r = (if 0 < avail then Go (body_data avail r) else Go r)"

definition chunked :: "run \<Rightarrow> step \<Rightarrow> step" where
  "chunked r s = (if F_CHUNKED \<in> flags (par r) then s else Assertion)"

definition chunk_size_start :: "u8 \<Rightarrow> run \<Rightarrow> step" where
  "chunk_size_start ch r =
     chunked r
       (let c = unhex ch
        in if c = -1 then Fail r else goto s_chunk_size (set_par (\<lambda>P. P\<lparr>content_length := c\<rparr>) r))"

definition chunk_size :: "u8 \<Rightarrow> run \<Rightarrow> step" where
  "chunk_size ch r =
     chunked r
       (let c = unhex ch
        in if ch = CR then goto s_chunk_size_almost_done r
           else if c = -1 then
             if ch = byte CHR '';'' \<or> ch = byte CHR '' '' then goto s_chunk_parameters r else Fail r
           else Go (set_par (\<lambda>P. P\<lparr>content_length := wrap64 (wrap64 (content_length P * 16) + c)\<rparr>) r))"

definition chunk_parameters :: "u8 \<Rightarrow> run \<Rightarrow> step" where
  "chunk_parameters ch r = chunked r (if ch = CR then goto s_chunk_size_almost_done r else Go r)"

definition chunk_size_almost_done :: "u8 \<Rightarrow> run \<Rightarrow> step" where
  "chunk_size_almost_done ch r =
     chunked r
       (strict_check (ch \<noteq> LF) r
         (\<lambda>r. if content_length (par r) = 0
               then goto s_header_field_start (set_par (\<lambda>P. P\<lparr>flags := insert F_TRAILING (flags P)\<rparr>) r)
               else goto s_chunk_data r))"

definition chunk_data :: "nat \<Rightarrow> run \<Rightarrow> step" where
  "chunk_data avail r =
     chunked r
       (let to_read = min (int avail) (content_length (par r));
            r1 = (if 0 < to_read then body_data (nat to_read) r else r);
            r2 = (if to_read = content_length (par r1) then r1\<lparr>state := s_chunk_data_almost_done\<rparr> else r1)
        in Go (set_par (\<lambda>P. P\<lparr>content_length := content_length P - to_read\<rparr>) r2))"

section \<open>The loop\<close>

definition step_state :: "answers \<Rightarrow> u8 \<Rightarrow> nat \<Rightarrow> run \<Rightarrow> step" where
  "step_state answer ch avail r =
     (case state r of
        s_dead \<Rightarrow> Fail r
      | s_start_req_or_res \<Rightarrow> start_req_or_res answer ch r
      | s_res_or_resp_H \<Rightarrow> res_or_resp_H ch r
      | s_start_res \<Rightarrow> start_res answer ch r
      | s_res_H \<Rightarrow> expect CHR ''T'' s_res_HT ch r
      | s_res_HT \<Rightarrow> expect CHR ''T'' s_res_HTT ch r
      | s_res_HTT \<Rightarrow> expect CHR ''P'' s_res_HTTP ch r
      | s_res_HTTP \<Rightarrow> expect CHR ''/'' s_res_first_http_major ch r
      | s_res_first_http_major \<Rightarrow> first_major s_res_http_major ch r
      | s_res_http_major \<Rightarrow> major_digit s_res_first_http_minor ch r
      | s_res_first_http_minor \<Rightarrow> first_minor s_res_http_minor ch r
      | s_res_http_minor \<Rightarrow> res_http_minor ch r
      | s_res_first_status_code \<Rightarrow> res_first_status_code ch r
      | s_res_status_code \<Rightarrow> res_status_code ch r
      | s_res_status \<Rightarrow> res_status ch r
      | s_res_line_almost_done \<Rightarrow> strict_check (ch \<noteq> LF) r (goto s_header_field_start)
      | s_start_req \<Rightarrow> start_req answer ch r
      | s_req_method \<Rightarrow> method_char ch r
      | s_req_spaces_before_url \<Rightarrow> req_spaces_before_url ch r
      | s_req_schema \<Rightarrow> req_schema ch r
      | s_req_schema_slash \<Rightarrow> expect CHR ''/'' s_req_schema_slash_slash ch r
      | s_req_schema_slash_slash \<Rightarrow> expect CHR ''/'' s_req_host ch r
      | s_req_host \<Rightarrow> req_host answer ch r
      | s_req_port \<Rightarrow> req_port answer ch r
      | s_req_path \<Rightarrow> req_path answer ch r
      | s_req_query_string_start \<Rightarrow> req_query_string_start answer ch r
      | s_req_query_string \<Rightarrow> req_query_string answer ch r
      | s_req_fragment_start \<Rightarrow> req_fragment_start answer ch r
      | s_req_fragment \<Rightarrow> req_fragment answer ch r
      | s_req_http_start \<Rightarrow> req_http_start ch r
      | s_req_http_H \<Rightarrow> expect CHR ''T'' s_req_http_HT ch r
      | s_req_http_HT \<Rightarrow> expect CHR ''T'' s_req_http_HTT ch r
      | s_req_http_HTT \<Rightarrow> expect CHR ''P'' s_req_http_HTTP ch r
      | s_req_http_HTTP \<Rightarrow> expect CHR ''/'' s_req_first_http_major ch r
      | s_req_first_http_major \<Rightarrow> first_major s_req_http_major ch r
      | s_req_http_major \<Rightarrow> major_digit s_req_first_http_minor ch r
      | s_req_first_http_minor \<Rightarrow> first_minor s_req_http_minor ch r
      | s_req_http_minor \<Rightarrow> req_http_minor ch r
      | s_req_line_almost_done \<Rightarrow> req_line_almost_done ch r
      | s_header_field_start \<Rightarrow> header_field_start answer ch r
      | s_header_field \<Rightarrow> header_field answer ch r
      | s_header_value_start \<Rightarrow> header_value_start answer ch r
      | s_header_value \<Rightarrow> header_value answer ch r
      | s_header_almost_done \<Rightarrow> header_almost_done ch r
      | s_headers_almost_done \<Rightarrow> headers_almost_done answer ch r
      | s_body_identity \<Rightarrow> body_identity answer avail r
      | s_body_identity_eof \<Rightarrow> body_identity_eof avail r
      | s_chunk_size_start \<Rightarrow> chunk_size_start ch r
      | s_chunk_size \<Rightarrow> chunk_size ch r
      | s_chunk_parameters \<Rightarrow> chunk_parameters ch r
      | s_chunk_size_almost_done \<Rightarrow> chunk_size_almost_done ch r
      | s_chunk_data \<Rightarrow> chunk_data avail r
      | s_chunk_data_almost_done \<Rightarrow> chunked r (expect (CHR 0x0D) s_chunk_data_done ch r)
      | s_chunk_data_done \<Rightarrow> chunked r (strict_check (ch \<noteq> LF) r (goto s_chunk_size_start)))"

definition parse_byte :: "answers \<Rightarrow> u8 \<Rightarrow> nat \<Rightarrow> run \<Rightarrow> step" where
  "parse_byte answer ch avail r =
     (if parsing_header r then
        (let r' = r\<lparr>nread := nread r + 1\<rparr>
         in if HTTP_MAX_HEADER_SIZE < nread r' then Fail r' else step_state answer ch avail r')
      else step_state answer ch avail r)"

text \<open>The loop, over the bytes from \<open>p\<close> on.\<close>

fun exec_loop :: "answers \<Rightarrow> u8 list \<Rightarrow> run \<Rightarrow> step" where
  "exec_loop answer [] r = Go r"
| "exec_loop answer (ch # rest) r =
     (case parse_byte answer ch (Suc (length rest)) r of
        Go r' \<Rightarrow> exec_loop answer (drop (pos r' - pos r) rest) (r'\<lparr>pos := Suc (pos r')\<rparr>)
      | s \<Rightarrow> s)"

definition url_states :: "state set" where
  "url_states = {s_req_path, s_req_schema, s_req_schema_slash, s_req_schema_slash_slash, s_req_port,
     s_req_query_string_start, s_req_query_string, s_req_host, s_req_fragment_start, s_req_fragment}"

text \<open>The marks a call starts with: the field that the last one ended in the middle of.\<close>

fun in_field :: "field \<Rightarrow> state \<Rightarrow> bool" where
  "in_field Header_field s \<longleftrightarrow> s = s_header_field"
| "in_field Header_value s \<longleftrightarrow> s = s_header_value"
| "in_field Fragment s \<longleftrightarrow> s = s_req_fragment"
| "in_field Query_string s \<longleftrightarrow> s = s_req_query_string"
| "in_field Path s \<longleftrightarrow> s = s_req_path"
| "in_field Url s \<longleftrightarrow> s \<in> url_states"
| "in_field Body s \<longleftrightarrow> False"

definition enter :: "parser \<Rightarrow> nat \<Rightarrow> event list \<Rightarrow> run" where
  "enter P p es =
     \<lparr>par = msg P, saved = pstate P, state = pstate P, hstate = pheader_state P, index = pindex P, nread = pnread P,
      marks = \<lambda>f. if in_field f (pstate P) then Some p else None, pos = p, events = es\<rparr>"

text \<open>The callbacks at the end of the data, and the state that is stored for the next call.\<close>

definition flush :: "answers \<Rightarrow> run \<Rightarrow> step" where
  "flush answer r =
     fold (\<lambda>f s. sbind s (callback_noclear answer f))
       [Header_field, Header_value, Fragment, Query_string, Path, Url] (Go r)"

definition store_state :: "run \<Rightarrow> parser" where
  "store_state r = \<lparr>msg = par r, pstate = state r, pheader_state = hstate r, pindex = index r mod 2 ^ 8,
     pnread = nread r mod 2 ^ 32\<rparr>"

text \<open>
  The result of a call: the parser, the number returned, and the callbacks made, in which the
  positions count from \<open>p\<close>, the first byte of the data.
\<close>

definition execute_data :: "answers \<Rightarrow> parser \<Rightarrow> u8 list \<Rightarrow> nat \<Rightarrow> event list \<Rightarrow> (parser \<times> nat \<times> event list) outcome" where
  "execute_data answer P data p es =
     (case sbind (exec_loop answer data (enter P p es)) (flush answer) of
        Go r \<Rightarrow> Return (store_state r, length data, events r)
      | Leave r \<Rightarrow> Return (P\<lparr>msg := par r, pstate := saved r\<rparr>, pos r - p, events r)
      | Fail r \<Rightarrow> Return (P\<lparr>msg := par r, pstate := s_dead\<rparr>, pos r - p, events r)
      | Assertion \<Rightarrow> Abort
      | Read_past \<Rightarrow> Overrun)"

definition execute :: "answers \<Rightarrow> parser \<Rightarrow> u8 list \<Rightarrow> nat \<Rightarrow> event list \<Rightarrow> (parser \<times> nat \<times> event list) outcome" where
  "execute answer P data p es =
     (if data = [] then
        (if pstate P = s_body_identity_eof then Return (P, 0, es @ [Message_complete])
         else if pstate P \<in> {s_dead, s_start_req_or_res, s_start_res, s_start_req} then Return (P, 0, es)
         else Return (P, 1, es))
      else execute_data answer P data p es)"

definition init_parser :: "http_type \<Rightarrow> parser \<Rightarrow> parser" where
  "init_parser t P = P\<lparr>msg := (msg P)\<lparr>ptype := t, upgrade := False, flags := {}, req_method := HTTP_DELETE\<rparr>,
     pstate := (if t = HTTP_REQUEST then s_start_req else if t = HTTP_RESPONSE then s_start_res else s_start_req_or_res),
     pnread := 0\<rparr>"

end
