(* ===== verification/HttpSafety.thy ===== *)
theory HttpSafety
  imports HttpParser
begin

text \<open>
  What holds whenever the parser is between two bytes: the marks are set for exactly the fields the
  state is in, the flags and the position in a comparison fit the state, so that no assertion
  fails, and every callback is given data inside the bytes passed to the call.
\<close>

section \<open>Weakest preconditions of a step\<close>

text \<open>\<open>Q\<close> holds where the step goes on, \<open>L\<close> where the call is left, and no assertion fails.\<close>

definition wp :: "(run \<Rightarrow> bool) \<Rightarrow> (run \<Rightarrow> bool) \<Rightarrow> step \<Rightarrow> bool" where
  "wp Q L s = (case s of Go r \<Rightarrow> Q r | Leave r \<Rightarrow> L r | Fail r \<Rightarrow> L r | Assertion \<Rightarrow> False | Read_past \<Rightarrow> True)"

named_theorems wps

lemma wp_step [simp]:
  "wp Q L (Go r) = Q r" "wp Q L (Leave r) = L r" "wp Q L (Fail r) = L r" "wp Q L Assertion = False" "wp Q L Read_past"
  by (simp_all add: wp_def)

lemma wp_sbind [wps]: "wp Q L (sbind s k) = wp (\<lambda>r. wp Q L (k r)) L s"
  by (cases s) simp_all

lemma wp_goto [wps]: "wp Q L (goto s r) = Q (r\<lparr>state := s\<rparr>)"
  by (simp add: goto_def)

lemma wp_strict [wps]: "wp Q L (strict_check b r k) = (if b then L r else wp Q L (k r))"
  by (simp add: strict_check_def)

lemma wp_if [wps]: "wp Q L (if b then s else t) = (if b then wp Q L s else wp Q L t)"
  by simp

lemma wp_emit [wps]:
  "wp Q L (emit answer e r) =
    (let r' = r\<lparr>events := events r @ [e]\<rparr> in if answer (events r) e \<noteq> 0 then L r' else Q r')"
  by (simp add: emit_def Let_def)

lemma wp_mono: "wp Q L s \<Longrightarrow> (\<And>r. Q r \<Longrightarrow> Q' r) \<Longrightarrow> (\<And>r. L r \<Longrightarrow> L' r) \<Longrightarrow> wp Q' L' s"
  by (cases s) simp_all

section \<open>The invariant\<close>

definition chunk_states :: "state set" where
  "chunk_states = {s_chunk_size_start, s_chunk_size, s_chunk_size_almost_done, s_chunk_parameters, s_chunk_data,
     s_chunk_data_almost_done, s_chunk_data_done}"

text \<open>How far a comparison with a header name or value can have come.\<close>

fun name_ok :: "header_state \<Rightarrow> nat \<Rightarrow> bool" where
  "name_ok h_C i \<longleftrightarrow> i = 0"
| "name_ok h_CO i \<longleftrightarrow> i = 1"
| "name_ok h_CON i \<longleftrightarrow> i = 2"
| "name_ok h_matching_connection i \<longleftrightarrow> i < 9"
| "name_ok h_matching_proxy_connection i \<longleftrightarrow> i < 15"
| "name_ok h_matching_content_length i \<longleftrightarrow> i < 13"
| "name_ok h_matching_transfer_encoding i \<longleftrightarrow> i < 16"
| "name_ok h_matching_upgrade i \<longleftrightarrow> i < 6"
| "name_ok h i \<longleftrightarrow> h \<in> {h_general, h_connection, h_content_length, h_transfer_encoding, h_upgrade}"

fun value_ok :: "header_state \<Rightarrow> nat \<Rightarrow> bool" where
  "value_ok h_matching_transfer_encoding_chunked i \<longleftrightarrow> i < 6"
| "value_ok h_matching_connection_keep_alive i \<longleftrightarrow> i < 9"
| "value_ok h_matching_connection_close i \<longleftrightarrow> i < 4"
| "value_ok h i \<longleftrightarrow> h \<notin> {h_connection, h_transfer_encoding}"

definition core_ok :: "run \<Rightarrow> bool" where
  "core_ok r \<longleftrightarrow> nread r \<le> HTTP_MAX_HEADER_SIZE \<and> index r < 256 \<and>
     (state r \<in> chunk_states \<longrightarrow> F_CHUNKED \<in> flags (par r)) \<and>
     (state r = s_req_method \<longrightarrow> index r \<le> length (method_string (req_method (par r))) + 1) \<and>
     (state r = s_header_field \<longrightarrow> name_ok (hstate r) (index r)) \<and>
     (state r = s_header_value \<longrightarrow> value_ok (hstate r) (index r))"

definition marks_ok :: "run \<Rightarrow> bool" where
  "marks_ok r \<longleftrightarrow> (\<forall>f. marks r f \<noteq> None \<longleftrightarrow> in_field f (state r))"

text \<open>The positions, in a call with the bytes from \<open>p\<close> to \<open>q\<close> and a step that began at \<open>l\<close>.\<close>

definition spans_ok :: "nat \<Rightarrow> nat \<Rightarrow> nat \<Rightarrow> run \<Rightarrow> bool" where
  "spans_ok p l q r \<longleftrightarrow> p \<le> l \<and> l \<le> pos r \<and> pos r < q \<and> (\<forall>f m. marks r f = Some m \<longrightarrow> p \<le> m \<and> m \<le> pos r)"

definition event_in :: "nat \<Rightarrow> nat \<Rightarrow> event \<Rightarrow> bool" where
  "event_in p q e \<longleftrightarrow> (case e of Data f m n \<Rightarrow> p \<le> m \<and> m + n \<le> q | _ \<Rightarrow> True)"

definition events_ok :: "nat \<Rightarrow> nat \<Rightarrow> event list \<Rightarrow> run \<Rightarrow> bool" where
  "events_ok p q es r \<longleftrightarrow> (\<exists>new. events r = es @ new \<and> (\<forall>e\<in>set new. event_in p q e))"

lemma events_ok_add: "events_ok p q es r \<Longrightarrow> event_in p q e \<Longrightarrow> events_ok p q es (r\<lparr>events := events r @ [e]\<rparr>)"
  by (auto simp: events_ok_def)

definition left_ok :: "nat \<Rightarrow> nat \<Rightarrow> nat \<Rightarrow> event list \<Rightarrow> run \<Rightarrow> bool" where
  "left_ok p l q es r \<longleftrightarrow> spans_ok p l q r \<and> events_ok p q es r"

text \<open>Between two bytes.\<close>

definition run_ok :: "nat \<Rightarrow> nat \<Rightarrow> event list \<Rightarrow> run \<Rightarrow> bool" where
  "run_ok p q es r \<longleftrightarrow> core_ok r \<and> marks_ok r \<and> p \<le> pos r \<and> pos r \<le> q \<and>
     (\<forall>f m. marks r f = Some m \<longrightarrow> p \<le> m \<and> m \<le> pos r) \<and> events_ok p q es r"

section \<open>Every step keeps it\<close>

text \<open>The core first: it does not depend on marks, positions and callbacks.\<close>

lemma core_frame [simp]:
  "core_ok (r\<lparr>marks := m\<rparr>) = core_ok r" "core_ok (r\<lparr>events := es\<rparr>) = core_ok r" "core_ok (r\<lparr>pos := p\<rparr>) = core_ok r"
  by (simp_all add: core_ok_def)

lemma wp_emitI:
  assumes "\<And>es. Q (r\<lparr>events := es\<rparr>)" "\<And>es. L (r\<lparr>events := es\<rparr>)"
  shows "wp Q L (emit answer e r)"
  using assms by (simp add: wps)

lemma wp_callbackI:
  assumes "\<And>es. Q (r\<lparr>events := es, marks := (marks r)(f := None)\<rparr>)" "\<And>es. L (r\<lparr>events := es\<rparr>)"
  shows "wp Q L (callback answer f r)"
proof -
  have "Q (r\<lparr>marks := (marks r)(f := None)\<rparr>)"
    using assms(1) [of "events r"] by simp
  then show ?thesis
    using assms by (simp add: callback_def callback_noclear_def wps split: option.split)
qed

lemmas http_defs = start_message_def set_method_def method_assign_def start_req_or_res_def res_or_resp_H_def
  start_res_def expect_def first_major_def major_digit_def first_minor_def minor_digit_def res_http_minor_def
  res_first_status_code_def res_status_code_def res_status_def start_req_def method_char_def
  req_spaces_before_url_def req_schema_def end_url_def end_url_space_def end_url_09_def req_host_def req_port_def
  req_path_def req_query_string_start_def req_query_string_def req_fragment_start_def req_fragment_def
  req_http_start_def req_http_minor_def req_line_almost_done_def match_next_def set_hstate_def field_char_def
  header_field_def header_value_start_def header_almost_done_def value_char_def header_value_def complete_def
  after_headers_def headers_almost_done_def header_field_start_def body_data_def body_identity_def
  body_identity_eof_def chunked_def chunk_size_start_def chunk_size_def chunk_parameters_def
  chunk_size_almost_done_def chunk_data_def set_par_def mark_def new_message_def

abbreviation keeps_core :: "step \<Rightarrow> bool" where "keeps_core s \<equiv> wp core_ok (\<lambda>_. True) s"

lemma method_length: "length (method_string m) \<le> 11"
  by (cases m) simp_all

lemma core_goto:
  assumes "core_ok r" "s \<notin> chunk_states" "s \<noteq> s_req_method" "s \<noteq> s_header_field" "s \<noteq> s_header_value"
  shows "core_ok (r\<lparr>state := s\<rparr>)"
  using assms by (simp add: core_ok_def)

lemma core_par:
  assumes "core_ok r" "flags (f (par r)) = flags (par r)" "req_method (f (par r)) = req_method (par r)"
  shows "core_ok (set_par f r)"
  using assms by (simp add: core_ok_def set_par_def)

lemma set_par_frame [simp]:
  "state (set_par f r) = state r" "hstate (set_par f r) = hstate r" "index (set_par f r) = index r"
  "nread (set_par f r) = nread r" "marks (set_par f r) = marks r" "pos (set_par f r) = pos r"
  "events (set_par f r) = events r" "par (set_par f r) = f (par r)"
  by (simp_all add: set_par_def)

lemma core_start_message:
  assumes "core_ok r" "state r \<notin> chunk_states" "\<And>r'. core_ok r' \<Longrightarrow> state r' = state r \<Longrightarrow> keeps_core (k r')"
  shows "keeps_core (start_message answer r k)"
  unfolding start_message_def wp_sbind
  by (rule wp_emitI; (rule assms)?) (use assms(1,2) in \<open>simp_all add: core_ok_def set_par_def\<close>)

lemma core_method_assign: "core_ok r \<Longrightarrow> state r \<notin> chunk_states \<Longrightarrow> keeps_core (method_assign ch r)"
  by (simp add: method_assign_def wps set_method_def set_par_def core_ok_def Let_def chunk_states_def)

lemma core_method_char:
  assumes "core_ok r" "state r = s_req_method"
  shows "keeps_core (method_char ch r)"
proof (cases "matcher (req_method (par r)) (index r)")
  case None
  then show ?thesis by (simp add: method_char_def)
next
  case (Some x)
  then have "index r \<le> length (method_string (req_method (par r)))"
    by (auto simp: matcher_def Let_def split: if_splits)
  moreover from this have l: "req_method (par r) = HTTP_MKCOL \<Longrightarrow> index r \<le> Suc (Suc (Suc (Suc (Suc 0))))" "req_method (par r) = HTTP_CONNECT \<Longrightarrow> index r \<le> Suc (Suc (Suc (Suc (Suc (Suc (Suc 0))))))"
    by auto
  ultimately show ?thesis
    using assms method_length [of "req_method (par r)"] Some l
    by (simp add: method_char_def wps set_method_def set_par_def core_ok_def Let_def chunk_states_def)
qed

lemma core_field_char:
  assumes "core_ok r" "state r = s_header_field"
  shows "keeps_core (field_char ch c r)"
  using assms
  by (cases "hstate r") (simp_all add: field_char_def wps core_ok_def chunk_states_def match_next_def set_hstate_def Let_def)

lemma core_value_char:
  assumes "core_ok r" "state r = s_header_value"
  shows "keeps_core (value_char ch c r)"
  using assms
  by (cases "hstate r")
    (simp_all add: value_char_def wps core_ok_def chunk_states_def match_next_def set_hstate_def set_par_def Let_def)


lemma core_end_url:
  assumes "\<And>es m. keeps_core (k (r\<lparr>events := es, marks := m\<rparr>))" "length fs \<le> 2"
  shows "keeps_core (sbind (end_url answer fs r) k)"
proof -
  have e: "r'\<lparr>events := es, marks := m\<rparr>\<lparr>events := es', marks := m'\<rparr> = r'\<lparr>events := es', marks := m'\<rparr>" for r' :: run and es es' m m'
    by simp
  consider "fs = []" | a where "fs = [a]" | a b where "fs = [a, b]"
    using assms(2) by (cases fs; cases "tl fs") (auto simp: length_Suc_conv)
  then show ?thesis
  proof cases
    case 1
    then show ?thesis using assms(1) [of "marks r" "events r"] by (simp add: end_url_def)
  next
    case 2
    then show ?thesis unfolding end_url_def
      by (simp add: wp_sbind) (rule wp_callbackI; use assms(1) in simp)
  next
    case 3
    then show ?thesis unfolding end_url_def
      by (simp add: wp_sbind) (rule wp_callbackI; (rule wp_callbackI)?; use assms(1) in simp)
  qed
qed

lemma core_end_url_space: "core_ok r \<Longrightarrow> length fs \<le> 2 \<Longrightarrow> keeps_core (end_url_space answer fs r)"
  unfolding end_url_space_def by (rule core_end_url) (simp_all add: wps core_goto chunk_states_def)

lemma core_end_url_09:
  "core_ok r \<Longrightarrow> length fs \<le> 2 \<Longrightarrow> s \<in> {s_req_line_almost_done, s_header_field_start} \<Longrightarrow> keeps_core (end_url_09 answer fs s r)"
  unfolding end_url_09_def by (rule core_end_url) (auto simp: wps core_ok_def set_par_def chunk_states_def)

lemma core_mark [simp]: "core_ok (mark f r) = core_ok r"
  by (simp add: mark_def)

lemma core_request_line:
  assumes "core_ok r" "state r \<notin> chunk_states" "state r \<noteq> s_req_method" "state r \<noteq> s_header_field" "state r \<noteq> s_header_value"
  shows "keeps_core (req_spaces_before_url ch r)" "keeps_core (req_schema ch r)" "keeps_core (req_host answer ch r)"
    "keeps_core (req_port answer ch r)" "keeps_core (req_path answer ch r)" "keeps_core (req_query_string_start answer ch r)"
    "keeps_core (req_query_string answer ch r)" "keeps_core (req_fragment_start answer ch r)"
    "keeps_core (req_fragment answer ch r)" "keeps_core (req_http_start ch r)" "keeps_core (req_http_minor ch r)"
    "keeps_core (req_line_almost_done ch r)"
  using assms(1)
  by (auto simp: req_spaces_before_url_def req_schema_def req_host_def req_port_def req_path_def req_query_string_start_def
      req_query_string_def req_fragment_start_def req_fragment_def req_http_start_def req_http_minor_def
      req_line_almost_done_def minor_digit_def wps Let_def chunk_states_def
      intro!: core_goto core_end_url_space core_end_url_09 wp_callbackI core_par)

lemma core_version:
  assumes "core_ok r" "s \<notin> chunk_states" "s \<noteq> s_req_method" "s \<noteq> s_header_field" "s \<noteq> s_header_value"
  shows "keeps_core (first_major s ch r)" "keeps_core (major_digit s ch r)" "keeps_core (first_minor s ch r)"
    "keeps_core (expect c s ch r)" "keeps_core (strict_check b r (goto s))"
  using assms
  by (auto simp: first_major_def major_digit_def first_minor_def expect_def wps Let_def chunk_states_def
      intro!: core_goto core_par)

lemma core_status:
  assumes "core_ok r"
  shows "keeps_core (res_http_minor ch r)" "keeps_core (res_first_status_code ch r)" "keeps_core (res_status_code ch r)"
    "keeps_core (res_status ch r)"
  using assms
  by (auto simp: res_http_minor_def res_first_status_code_def res_status_code_def res_status_def minor_digit_def wps
      Let_def chunk_states_def intro!: core_goto core_par)

lemma core_starts:
  assumes "core_ok r" "state r \<notin> chunk_states"
  shows "state r \<in> {s_start_req_or_res, s_start_req, s_start_res} \<Longrightarrow> keeps_core (start_req_or_res answer ch r)"
    "keeps_core (start_req answer ch r)"
    "keeps_core (start_res answer ch r)"
  using assms
  by (auto simp: start_req_or_res_def start_req_def start_res_def wps chunk_states_def
      intro!: core_start_message core_method_assign core_goto core_par)


lemma core_res_or_resp_H: "core_ok r \<Longrightarrow> state r \<notin> chunk_states \<Longrightarrow> keeps_core (res_or_resp_H ch r)"
  by (simp add: res_or_resp_H_def wps core_ok_def set_par_def chunk_states_def)

lemma core_header_field_state:
  "core_ok r \<Longrightarrow> state r = s_header_field \<Longrightarrow> keeps_core (header_field answer ch r)"
  by (auto simp: header_field_def wps Let_def chunk_states_def intro!: core_field_char wp_callbackI core_goto)

lemma core_hstate:
  assumes "core_ok r" "state r = s_header_value \<Longrightarrow> value_ok h (index r)" "state r \<noteq> s_header_field"
  shows "core_ok (set_hstate h r)"
  using assms by (simp add: core_ok_def set_hstate_def)

lemma core_header_value_start:
  assumes "core_ok r" "state r = s_header_value_start"
  shows "keeps_core (header_value_start answer ch r)"
proof -
  define r' where "r' = (mark Header_value r)\<lparr>state := s_header_value, index := 0\<rparr>"
  have "nread r' \<le> HTTP_MAX_HEADER_SIZE" "state r' = s_header_value" "index r' = 0"
    using assms(1) by (simp_all add: r'_def core_ok_def mark_def)
  then have u: "core_ok (f r')"
    if "nread (f r') = nread r'" "index (f r') = 0" "state (f r') \<in> {s_header_almost_done, s_header_field_start}
      \<or> state (f r') = s_header_value \<and> value_ok (hstate (f r')) 0" for f
    using that by (auto simp: core_ok_def chunk_states_def)
  have "keeps_core (sbind (callback answer Header_value r') (\<lambda>r. goto s_header_almost_done (set_hstate h_general r)))"
    "keeps_core (sbind (callback answer Header_value r') (goto s_header_field_start))"
    unfolding wp_sbind by (rule wp_callbackI; simp add: wp_goto set_hstate_def; rule u; simp add: \<open>index r' = 0\<close>)+
  moreover have "keeps_core (Go (set_hstate h r'))" if "value_ok h 0" for h
    using that u [of "set_hstate h"] \<open>index r' = 0\<close> \<open>state r' = s_header_value\<close> by (simp add: set_hstate_def)
  moreover have "keeps_core (Go (set_hstate h (set_par f r')))" if "value_ok h 0" for h f
    using that u [of "\<lambda>r. set_hstate h (set_par f r)"] \<open>index r' = 0\<close> \<open>state r' = s_header_value\<close> by (simp add: set_hstate_def)
  moreover have "keeps_core (Go (set_par f r'))" if "hstate r' = h_content_length" for f
    using that u [of "set_par f"] \<open>index r' = 0\<close> \<open>state r' = s_header_value\<close> by simp
  ultimately show ?thesis
    using assms(1) unfolding header_value_start_def r'_def [symmetric] Let_def
    by (cases "hstate r'") simp_all
qed

lemma core_header_almost_done:
  assumes "core_ok r" "state r \<notin> chunk_states"
  shows "keeps_core (header_almost_done ch r)"
  using assms
  by (cases "hstate r") (simp_all add: header_almost_done_def wps core_ok_def set_par_def chunk_states_def Let_def)

lemma core_header_value:
  assumes "core_ok r" "state r = s_header_value"
  shows "keeps_core (header_value answer ch r)"
  using assms
  by (auto simp: header_value_def wps chunk_states_def intro!: wp_callbackI core_value_char core_goto core_header_almost_done)

lemma new_message_range: "new_message P \<in> {s_start_req, s_start_res, s_dead}"
  by (simp add: new_message_def)

lemma core_complete:
  assumes "core_ok r"
  shows "keeps_core (complete answer r)"
  unfolding complete_def wp_sbind wp_goto
proof (rule wp_emitI)
  fix es
  have s: "new_message P \<notin> chunk_states" "new_message P \<noteq> s_req_method" "new_message P \<noteq> s_header_field"
    "new_message P \<noteq> s_header_value" for P
    using new_message_range [of P] by (auto simp: chunk_states_def)
  show "core_ok (r\<lparr>events := es, state := new_message (par (r\<lparr>events := es\<rparr>))\<rparr>)"
    by (rule core_goto) (simp_all add: assms s)
qed simp

lemma core_goto_chunk:
  "core_ok r \<Longrightarrow> F_CHUNKED \<in> flags (par r) \<Longrightarrow> s \<in> chunk_states \<Longrightarrow> core_ok (r\<lparr>state := s\<rparr>)"
  by (auto simp: core_ok_def chunk_states_def)

lemma core_after_headers:
  assumes "core_ok r"
  shows "keeps_core (after_headers answer r)"
proof -
  have "keeps_core (sbind (emit answer Message_complete r) Leave)"
    unfolding wp_sbind by (rule wp_emitI) simp_all
  moreover have "keeps_core (goto s_chunk_size_start r)" if "F_CHUNKED \<in> flags (par r)"
    using core_goto_chunk [OF assms that] by (simp add: wps chunk_states_def)
  ultimately show ?thesis
    using assms by (simp add: after_headers_def Let_def core_complete wp_goto core_goto chunk_states_def)
qed

lemma core_headers_almost_done:
  assumes "core_ok r" "state r = s_headers_almost_done"
  shows "keeps_core (headers_almost_done answer ch r)"
  using assms
  by (auto simp: headers_almost_done_def wps Let_def intro!: core_complete core_after_headers)
    (auto simp: core_ok_def set_par_def chunk_states_def)

lemma core_header_field_start:
  assumes "core_ok r" "state r = s_header_field_start"
  shows "keeps_core (header_field_start answer ch r)"
proof -
  have "keeps_core (headers_almost_done answer ch (r\<lparr>state := s_headers_almost_done\<rparr>))" for ch
    by (rule core_headers_almost_done) (simp_all add: assms(1) core_goto chunk_states_def)
  then show ?thesis
    using assms by (simp add: header_field_start_def Let_def wps core_goto chunk_states_def) (simp add: core_ok_def mark_def chunk_states_def)
qed

lemma core_body_data [simp]: "core_ok (body_data n r) = core_ok r"
  by (simp add: body_data_def core_ok_def)

lemma core_bodies:
  assumes "core_ok r"
  shows "keeps_core (body_identity answer avail r)" "keeps_core (body_identity_eof avail r)"
    "state r \<in> chunk_states \<Longrightarrow> keeps_core (chunk_size_start ch r)"
    "state r \<in> chunk_states \<Longrightarrow> keeps_core (chunk_size ch r)"
    "state r \<in> chunk_states \<Longrightarrow> keeps_core (chunk_parameters ch r)"
    "state r \<in> chunk_states \<Longrightarrow> keeps_core (chunk_size_almost_done ch r)"
    "state r \<in> chunk_states \<Longrightarrow> keeps_core (chunk_data avail r)"
    "state r \<in> chunk_states \<Longrightarrow> s \<in> chunk_states \<Longrightarrow> keeps_core (chunked r (expect c s ch r))"
    "state r \<in> chunk_states \<Longrightarrow> s \<in> chunk_states \<Longrightarrow> keeps_core (chunked r (strict_check b r (goto s)))"
proof -
  have f: "F_CHUNKED \<in> flags (par r)" if "state r \<in> chunk_states" using assms that by (simp add: core_ok_def)
  have g: "core_ok (r'\<lparr>state := s\<rparr>)" if "core_ok r'" "F_CHUNKED \<in> flags (par r')" "s \<in> chunk_states" for s r'
    using that by (auto simp: core_ok_def chunk_states_def)
  show "keeps_core (body_identity answer avail r)" "keeps_core (body_identity_eof avail r)"
    using assms by (auto simp: body_identity_def body_identity_eof_def wps Let_def intro!: core_complete core_par)
  show "state r \<in> chunk_states \<Longrightarrow> keeps_core (chunk_size_start ch r)"
    "state r \<in> chunk_states \<Longrightarrow> keeps_core (chunk_size ch r)"
    "state r \<in> chunk_states \<Longrightarrow> keeps_core (chunk_parameters ch r)"
    "state r \<in> chunk_states \<Longrightarrow> keeps_core (chunk_size_almost_done ch r)"
    "state r \<in> chunk_states \<Longrightarrow> s \<in> chunk_states \<Longrightarrow> keeps_core (chunked r (expect c s ch r))"
    "state r \<in> chunk_states \<Longrightarrow> s \<in> chunk_states \<Longrightarrow> keeps_core (chunked r (strict_check b r (goto s)))"
    using assms f
    by (auto simp: chunked_def chunk_size_start_def chunk_size_def chunk_parameters_def chunk_size_almost_done_def
        expect_def wps Let_def core_ok_def chunk_states_def set_par_def)
  show "state r \<in> chunk_states \<Longrightarrow> keeps_core (chunk_data avail r)"
    using assms f
    by (auto simp: chunked_def chunk_data_def wps Let_def body_data_def core_ok_def chunk_states_def set_par_def)
qed

lemma core_step:
  assumes "core_ok r"
  shows "keeps_core (step_state answer ch avail r)"
  using assms
  by (cases "state r") (simp_all add: step_state_def wps chunk_states_def core_starts core_res_or_resp_H core_version core_status core_goto
    core_request_line core_method_char core_header_field_start core_header_field_state core_header_value_start
    core_header_value core_header_almost_done core_headers_almost_done core_bodies)

section \<open>Marks\<close>

abbreviation keeps_marks :: "step \<Rightarrow> bool" where "keeps_marks s \<equiv> wp marks_ok (\<lambda>_. True) s"

definition fields_in :: "state \<Rightarrow> field set" where "fields_in s = {f. in_field f s}"

lemma fields_in_simps [simp]:
  "fields_in s_header_field = {Header_field}" "fields_in s_header_value = {Header_value}"
  "fields_in s_req_fragment = {Fragment, Url}" "fields_in s_req_query_string = {Query_string, Url}"
  "fields_in s_req_path = {Path, Url}"
  "s \<in> url_states - {s_req_fragment, s_req_query_string, s_req_path} \<Longrightarrow> fields_in s = {Url}"
  "s \<notin> url_states \<union> {s_header_field, s_header_value} \<Longrightarrow> fields_in s = {}"
proof -
  have e: "fields_in s = {f. (f = Header_field \<and> s = s_header_field) \<or> (f = Header_value \<and> s = s_header_value) \<or>
      (f = Fragment \<and> s = s_req_fragment) \<or> (f = Query_string \<and> s = s_req_query_string) \<or>
      (f = Path \<and> s = s_req_path) \<or> (f = Url \<and> s \<in> url_states)}" for s
  proof (rule set_eqI)
    fix f show "f \<in> fields_in s \<longleftrightarrow> f \<in> {f. (f = Header_field \<and> s = s_header_field) \<or> (f = Header_value \<and> s = s_header_value) \<or>
      (f = Fragment \<and> s = s_req_fragment) \<or> (f = Query_string \<and> s = s_req_query_string) \<or>
      (f = Path \<and> s = s_req_path) \<or> (f = Url \<and> s \<in> url_states)}"
      by (cases f) (simp_all add: fields_in_def)
  qed
  show "fields_in s_header_field = {Header_field}" "fields_in s_header_value = {Header_value}"
    "fields_in s_req_fragment = {Fragment, Url}" "fields_in s_req_query_string = {Query_string, Url}"
    "fields_in s_req_path = {Path, Url}"
    by (auto simp: e url_states_def)
  show "s \<in> url_states - {s_req_fragment, s_req_query_string, s_req_path} \<Longrightarrow> fields_in s = {Url}"
    "s \<notin> url_states \<union> {s_header_field, s_header_value} \<Longrightarrow> fields_in s = {}"
    by (auto simp: e url_states_def)
qed

lemma marks_ok_dom: "marks_ok r \<longleftrightarrow> dom (marks r) = fields_in (state r)"
  by (auto simp: marks_ok_def fields_in_def dom_def)

lemma marks_frame [simp]:
  "marks_ok (r\<lparr>par := P\<rparr>) = marks_ok r" "marks_ok (r\<lparr>hstate := h\<rparr>) = marks_ok r" "marks_ok (r\<lparr>index := i\<rparr>) = marks_ok r"
  "marks_ok (r\<lparr>nread := i\<rparr>) = marks_ok r" "marks_ok (r\<lparr>pos := i\<rparr>) = marks_ok r" "marks_ok (r\<lparr>events := es\<rparr>) = marks_ok r"
  "marks_ok (set_par g r) = marks_ok r" "marks_ok (set_hstate h r) = marks_ok r" "marks_ok (body_data n r) = marks_ok r"
  "marks_ok (set_method m r) = marks_ok r"
  by (simp_all add: marks_ok_def set_par_def set_hstate_def body_data_def set_method_def)

lemma marks_goto:
  assumes "marks_ok r" "fields_in s = fields_in (state r)"
  shows "marks_ok (r\<lparr>state := s\<rparr>)"
  using assms by (simp add: marks_ok_dom)

lemma dom_mark [simp]: "dom (marks (mark f r)) = insert f (dom (marks r))" "state (mark f r) = state r"
  by (simp_all add: mark_def)

lemma wp_end_url:
  assumes "\<And>es. Q (r\<lparr>events := es, marks := \<lambda>f. if f \<in> set fs then None else marks r f\<rparr>)" "length fs \<le> 2"
  shows "wp Q (\<lambda>_. True) (end_url answer fs r)"
proof -
  consider "fs = []" | a where "fs = [a]" | a b where "fs = [a, b]"
    using assms(2) by (cases fs; cases "tl fs") (auto simp: length_Suc_conv)
  then show ?thesis
  proof cases
    case 1
    then show ?thesis using assms(1) [of "events r"] by (simp add: end_url_def)
  next
    case 2
    then have "(\<lambda>f. if f \<in> set fs then None else marks r f) = (marks r)(a := None)" by auto
    then show ?thesis using 2 assms(1) unfolding end_url_def by (simp add: wp_callbackI)
  next
    case 3
    then have m: "(\<lambda>f. if f \<in> set fs then None else marks r f) = (marks r)(a := None, b := None)" by auto
    have "Q (r\<lparr>events := es, marks := (marks r)(a := None, b := None)\<rparr>)" for es
      using assms(1) [of es] unfolding m .
    then show ?thesis
      unfolding end_url_def 3 by (simp add: wp_sbind) (rule wp_callbackI; (rule wp_callbackI)?; simp)
  qed
qed

lemma marks_end_url:
  assumes "dom (marks r) \<subseteq> set fs" "length fs \<le> 2"
  shows "keeps_marks (end_url_space answer fs r)"
    "s \<in> {s_req_line_almost_done, s_header_field_start} \<Longrightarrow> keeps_marks (end_url_09 answer fs s r)"
proof -
  have "(\<lambda>f. if f \<in> set fs then None else marks r f) = (\<lambda>_. None)"
    by (rule ext) (use assms(1) in auto)
  then show "keeps_marks (end_url_space answer fs r)"
    "s \<in> {s_req_line_almost_done, s_header_field_start} \<Longrightarrow> keeps_marks (end_url_09 answer fs s r)"
    unfolding end_url_space_def end_url_09_def wp_sbind wp_goto
    by (auto intro!: wp_end_url simp: assms(2) marks_ok_dom url_states_def set_par_def)
qed

lemma marks_callback_goto:
  assumes "dom (marks r) - {f} = fields_in s"
  shows "keeps_marks (sbind (callback answer f r) (goto s))"
  unfolding wp_sbind wp_goto by (rule wp_callbackI) (simp_all add: marks_ok_dom assms)

lemma marks_request_line:
  assumes "marks_ok r"
  shows "state r = s_req_spaces_before_url \<Longrightarrow> keeps_marks (req_spaces_before_url ch r)"
    "state r = s_req_schema \<Longrightarrow> keeps_marks (req_schema ch r)"
    "state r = s_req_host \<Longrightarrow> keeps_marks (req_host answer ch r)"
    "state r = s_req_port \<Longrightarrow> keeps_marks (req_port answer ch r)"
    "state r = s_req_path \<Longrightarrow> keeps_marks (req_path answer ch r)"
    "state r = s_req_query_string_start \<Longrightarrow> keeps_marks (req_query_string_start answer ch r)"
    "state r = s_req_query_string \<Longrightarrow> keeps_marks (req_query_string answer ch r)"
    "state r = s_req_fragment_start \<Longrightarrow> keeps_marks (req_fragment_start answer ch r)"
    "state r = s_req_fragment \<Longrightarrow> keeps_marks (req_fragment answer ch r)"
  using assms
  by (simp_all add: req_spaces_before_url_def req_schema_def req_host_def req_port_def req_path_def
      req_query_string_start_def req_query_string_def req_fragment_start_def req_fragment_def wp_goto marks_ok_dom
      url_states_def marks_end_url marks_callback_goto insert_commute)


text \<open>The states in no field, between which most of the code moves.\<close>

definition quiet :: "state \<Rightarrow> bool" where "quiet s \<longleftrightarrow> s \<notin> url_states \<union> {s_header_field, s_header_value}"

lemma fields_in_quiet [simp]: "quiet s \<Longrightarrow> fields_in s = {}"
  by (simp add: quiet_def)

lemma quiet_simps [simp]:
  "quiet s_dead" "quiet s_start_req" "quiet s_start_res" "quiet s_res_or_resp_H" "quiet s_req_method"
  "quiet s_res_H" "quiet s_res_HT" "quiet s_res_HTT" "quiet s_res_HTTP" "quiet s_res_first_http_major" "quiet s_res_http_major"
  "quiet s_res_first_http_minor" "quiet s_res_http_minor" "quiet s_res_first_status_code" "quiet s_res_status_code"
  "quiet s_res_status" "quiet s_res_line_almost_done" "quiet s_req_http_start" "quiet s_req_http_H" "quiet s_req_http_HT"
  "quiet s_req_http_HTT" "quiet s_req_http_HTTP" "quiet s_req_first_http_major" "quiet s_req_http_major"
  "quiet s_req_first_http_minor" "quiet s_req_http_minor" "quiet s_req_line_almost_done" "quiet s_header_field_start"
  "quiet s_header_value_start" "quiet s_header_almost_done" "quiet s_headers_almost_done" "quiet s_body_identity"
  "quiet s_body_identity_eof" "quiet s_start_req_or_res" "s \<in> chunk_states \<Longrightarrow> quiet s" "quiet (new_message P)"
  "quiet s_req_spaces_before_url"
  by (auto simp: quiet_def url_states_def chunk_states_def new_message_def)

lemma marks_quiet: "marks_ok r \<Longrightarrow> quiet (state r) \<Longrightarrow> quiet s \<Longrightarrow> marks_ok (r\<lparr>state := s\<rparr>)"
  by (rule marks_goto) simp_all

lemma marks_start_message:
  assumes "marks_ok r" "\<And>r'. marks_ok r' \<Longrightarrow> state r' = state r \<Longrightarrow> keeps_marks (k r')"
  shows "keeps_marks (start_message answer r k)"
  unfolding start_message_def wp_sbind
  by (rule wp_emitI) (use assms in simp_all)

lemma marks_method:
  assumes "marks_ok r" "quiet (state r)"
  shows "keeps_marks (method_assign ch r)" "state r = s_req_method \<Longrightarrow> keeps_marks (method_char ch r)"
proof -
  have g: "marks_ok (r'\<lparr>state := s\<rparr>)" if "quiet s" "marks r' = marks r" for r' s
    using assms that by (simp add: marks_ok_dom)
  show "keeps_marks (method_assign ch r)"
    by (simp add: method_assign_def wp_goto wp_if Let_def g set_method_def)
  show "state r = s_req_method \<Longrightarrow> keeps_marks (method_char ch r)"
    using assms g by (simp add: method_char_def Let_def wp_if split: option.split)
qed

lemma marks_starts:
  assumes "marks_ok r" "quiet (state r)"
  shows "keeps_marks (start_req_or_res answer ch r)" "keeps_marks (start_req answer ch r)"
    "keeps_marks (start_res answer ch r)" "keeps_marks (res_or_resp_H ch r)"
  using assms
  by (auto simp: start_req_or_res_def start_req_def start_res_def res_or_resp_H_def wp_goto
      intro!: marks_start_message marks_method marks_quiet)

lemma marks_version:
  assumes "marks_ok r" "quiet (state r)" "quiet s"
  shows "keeps_marks (first_major s ch r)" "keeps_marks (major_digit s ch r)" "keeps_marks (first_minor s ch r)"
    "keeps_marks (expect c s ch r)" "keeps_marks (strict_check b r (goto s))" "keeps_marks (minor_digit ch r)"
    "keeps_marks (goto s r)"
  using assms
  by (auto simp: first_major_def major_digit_def first_minor_def expect_def minor_digit_def wp_strict wp_goto wp_if Let_def
      intro!: marks_quiet)

lemma marks_status:
  assumes "marks_ok r" "quiet (state r)"
  shows "keeps_marks (res_http_minor ch r)" "keeps_marks (res_first_status_code ch r)" "keeps_marks (res_status_code ch r)"
    "keeps_marks (res_status ch r)" "keeps_marks (req_http_start ch r)" "keeps_marks (req_http_minor ch r)"
    "keeps_marks (req_line_almost_done ch r)"
  using assms
  by (auto simp: res_http_minor_def res_first_status_code_def res_status_code_def res_status_def req_http_start_def
      req_http_minor_def req_line_almost_done_def wp_goto wp_if Let_def intro!: marks_quiet marks_version(6))

lemma marks_header_field:
  assumes "marks_ok r" "state r = s_header_field" "core_ok r"
  shows "keeps_marks (header_field answer ch r)"
proof -
  have "name_ok (hstate r) (index r)" using assms by (simp add: core_ok_def)
  then have "keeps_marks (field_char ch c r)" for c
    using assms(1) by (cases "hstate r") (simp_all add: field_char_def match_next_def Let_def)
  moreover have "keeps_marks (callback answer Header_field (r\<lparr>state := s_header_almost_done\<rparr>))"
    by (rule wp_callbackI) (use assms in \<open>simp_all add: marks_ok_dom\<close>)
  ultimately show ?thesis
    using assms by (simp add: header_field_def Let_def marks_callback_goto marks_ok_dom)
qed

lemma marks_header_almost_done:
  assumes "marks_ok r" "quiet (state r)"
  shows "keeps_marks (header_almost_done ch r)"
  using assms by (cases "hstate r") (simp_all add: header_almost_done_def wp_strict Let_def marks_ok_dom)

lemma marks_header_value_start:
  assumes "marks_ok r" "state r = s_header_value_start"
  shows "keeps_marks (header_value_start answer ch r)"
proof -
  define r' where "r' = (mark Header_value r)\<lparr>state := s_header_value, index := 0\<rparr>"
  have d: "dom (marks r') = {Header_value}" and m: "marks_ok r'"
    using assms by (simp_all add: r'_def marks_ok_dom)
  have "keeps_marks (sbind (callback answer Header_value r') (\<lambda>r. goto s_header_almost_done (set_hstate h_general r)))"
    unfolding wp_sbind wp_goto by (rule wp_callbackI) (simp_all add: set_hstate_def marks_ok_dom d)
  then show ?thesis
    using assms(1) m d unfolding header_value_start_def r'_def [symmetric] Let_def
    by (cases "hstate r'") (simp_all add: marks_callback_goto)
qed

lemma marks_header_value:
  assumes "marks_ok r" "state r = s_header_value" "core_ok r"
  shows "keeps_marks (header_value answer ch r)"
proof -
  have "value_ok (hstate r) (index r)" using assms by (simp add: core_ok_def)
  then have "keeps_marks (value_char ch c r)" for c
    using assms(1) by (cases "hstate r") (simp_all add: value_char_def match_next_def Let_def)
  moreover have "keeps_marks (sbind (callback answer Header_value r) (header_almost_done ch))" for ch
    unfolding wp_sbind
  proof (rule wp_callbackI)
    fix es
    have "dom ((marks r)(Header_value := None)) = {}" using assms by (simp add: marks_ok_dom)
    then show "keeps_marks (header_almost_done ch (r\<lparr>events := es, marks := (marks r)(Header_value := None)\<rparr>))"
      by (cases "hstate r") (simp_all add: header_almost_done_def wp_strict Let_def marks_ok_dom)
  qed simp
  ultimately show ?thesis
    using assms by (simp add: header_value_def marks_callback_goto marks_ok_dom)
qed

lemma marks_complete: "marks_ok r \<Longrightarrow> quiet (state r) \<Longrightarrow> keeps_marks (complete answer r)"
  unfolding complete_def wp_sbind wp_goto by (rule wp_emitI) (simp_all add: marks_ok_dom)

lemma marks_headers_almost_done:
  assumes "marks_ok r" "quiet (state r)"
  shows "keeps_marks (headers_almost_done answer ch r)"
proof -
  have "keeps_marks (after_headers answer r')" if "marks_ok r'" "quiet (state r')" for r'
  proof -
    have "keeps_marks (sbind (emit answer Message_complete r') Leave)"
      unfolding wp_sbind by (rule wp_emitI) simp_all
    then show ?thesis
      using that by (simp add: after_headers_def Let_def marks_complete wp_goto marks_quiet chunk_states_def)
  qed
  then show ?thesis
    using assms by (simp add: headers_almost_done_def wp_strict Let_def marks_complete)
qed

lemma marks_header_field_start:
  assumes "marks_ok r" "state r = s_header_field_start"
  shows "keeps_marks (header_field_start answer ch r)"
proof -
  have "keeps_marks (headers_almost_done answer ch (r\<lparr>state := s_headers_almost_done\<rparr>))" for ch
    by (rule marks_headers_almost_done) (use assms in \<open>simp_all add: marks_quiet\<close>)
  then show ?thesis
    using assms by (simp add: header_field_start_def Let_def wp_goto marks_quiet) (simp add: marks_ok_dom)
qed

lemma marks_bodies:
  assumes "marks_ok r" "quiet (state r)"
  shows "keeps_marks (body_identity answer avail r)" "keeps_marks (body_identity_eof avail r)"
    "F_CHUNKED \<in> flags (par r) \<Longrightarrow> keeps_marks (chunk_size_start ch r)"
    "F_CHUNKED \<in> flags (par r) \<Longrightarrow> keeps_marks (chunk_size ch r)"
    "F_CHUNKED \<in> flags (par r) \<Longrightarrow> keeps_marks (chunk_parameters ch r)"
    "F_CHUNKED \<in> flags (par r) \<Longrightarrow> keeps_marks (chunk_size_almost_done ch r)"
    "F_CHUNKED \<in> flags (par r) \<Longrightarrow> keeps_marks (chunk_data avail r)"
    "F_CHUNKED \<in> flags (par r) \<Longrightarrow> keeps_marks s \<Longrightarrow> keeps_marks (chunked r s)"
proof -
  have g: "marks_ok (r'\<lparr>state := s\<rparr>)" if "quiet s" "marks r' = marks r" for r' s
    using assms that by (simp add: marks_ok_dom)
  have b: "marks (body_data n r) = marks r" "state (body_data n r) = state r" for n by (simp_all add: body_data_def)
  show "keeps_marks (body_identity answer avail r)" "keeps_marks (body_identity_eof avail r)"
    using assms b by (auto simp: body_identity_def body_identity_eof_def Let_def intro!: marks_complete)
  show "F_CHUNKED \<in> flags (par r) \<Longrightarrow> keeps_marks (chunk_size_start ch r)"
    "F_CHUNKED \<in> flags (par r) \<Longrightarrow> keeps_marks (chunk_size ch r)"
    "F_CHUNKED \<in> flags (par r) \<Longrightarrow> keeps_marks (chunk_parameters ch r)"
    "F_CHUNKED \<in> flags (par r) \<Longrightarrow> keeps_marks (chunk_size_almost_done ch r)"
    "F_CHUNKED \<in> flags (par r) \<Longrightarrow> keeps_marks (chunk_data avail r)"
    "F_CHUNKED \<in> flags (par r) \<Longrightarrow> keeps_marks s \<Longrightarrow> keeps_marks (chunked r s)"
    using assms(1)
    by (simp_all add: chunked_def chunk_size_start_def chunk_size_def chunk_parameters_def chunk_size_almost_done_def
        chunk_data_def wp_if wp_strict wp_goto Let_def g b chunk_states_def)
qed

lemma marks_schema:
  assumes "marks_ok r" "fields_in s = fields_in (state r)"
  shows "keeps_marks (expect c s ch r)"
  using marks_goto [OF assms] by (simp add: expect_def wp_strict wp_goto)

lemma marks_step:
  assumes "marks_ok r" "core_ok r"
  shows "keeps_marks (step_state answer ch avail r)"
  using assms
  by (cases "state r") (simp_all add: step_state_def marks_starts marks_version marks_status marks_method
    marks_request_line marks_header_field_start marks_header_field marks_header_value_start
    marks_header_value marks_header_almost_done marks_headers_almost_done marks_bodies marks_schema url_states_def
    core_ok_def chunk_states_def)

section \<open>Positions and callbacks\<close>

abbreviation keeps_left :: "nat \<Rightarrow> nat \<Rightarrow> nat \<Rightarrow> event list \<Rightarrow> step \<Rightarrow> bool" where
  "keeps_left p l q es s \<equiv> wp (left_ok p l q es) (left_ok p l q es) s"

lemma left_frame [simp]:
  "left_ok p l q es (r\<lparr>par := P\<rparr>) = left_ok p l q es r" "left_ok p l q es (r\<lparr>state := s\<rparr>) = left_ok p l q es r"
  "left_ok p l q es (r\<lparr>hstate := h\<rparr>) = left_ok p l q es r" "left_ok p l q es (r\<lparr>index := i\<rparr>) = left_ok p l q es r"
  "left_ok p l q es (r\<lparr>nread := i\<rparr>) = left_ok p l q es r" "left_ok p l q es (r\<lparr>saved := s\<rparr>) = left_ok p l q es r" "left_ok p l q es (set_par g r) = left_ok p l q es r"
  "left_ok p l q es (set_hstate h r) = left_ok p l q es r" "left_ok p l q es (set_method m r) = left_ok p l q es r"
  by (simp_all add: left_ok_def spans_ok_def events_ok_def set_par_def set_hstate_def set_method_def)

lemma left_mark [simp]: "left_ok p l q es r \<Longrightarrow> left_ok p l q es (mark f r)"
  by (auto simp: left_ok_def spans_ok_def events_ok_def mark_def)

lemma left_unmark [simp]: "left_ok p l q es r \<Longrightarrow> left_ok p l q es (r\<lparr>marks := (marks r)(f := None)\<rparr>)"
  by (auto simp: left_ok_def spans_ok_def events_ok_def)

lemma left_event:
  assumes "left_ok p l q es r" "event_in p q e"
  shows "left_ok p l q es (r\<lparr>events := events r @ [e]\<rparr>)"
  using assms events_ok_add [of p q es r e] by (auto simp: left_ok_def spans_ok_def)

lemma left_emit: "left_ok p l q es r \<Longrightarrow> event_in p q e \<Longrightarrow> keeps_left p l q es (emit answer e r)"
  using left_event by (simp add: wp_emit Let_def)

lemma left_sbind:
  "keeps_left p l q es s \<Longrightarrow> (\<And>r. left_ok p l q es r \<Longrightarrow> keeps_left p l q es (k r)) \<Longrightarrow> keeps_left p l q es (sbind s k)"
  unfolding wp_sbind by (rule wp_mono)

lemma left_noclear:
  assumes "left_ok p l q es r"
  shows "keeps_left p l q es (callback_noclear answer f r)"
proof (cases "marks r f")
  case (Some m)
  then have "event_in p q (Data f m (pos r - m))"
    using assms by (auto simp: event_in_def left_ok_def spans_ok_def)
  then show ?thesis using Some left_emit [OF assms] by (simp add: callback_noclear_def)
qed (simp add: callback_noclear_def assms)

lemma left_callback: "left_ok p l q es r \<Longrightarrow> keeps_left p l q es (callback answer f r)"
  unfolding callback_def by (rule left_sbind) (simp_all add: left_noclear)

lemma left_goto: "left_ok p l q es r \<Longrightarrow> keeps_left p l q es (goto s r)"
  by (simp add: wp_goto)

lemma left_end_url:
  assumes "left_ok p l q es r"
  shows "keeps_left p l q es (end_url_space answer fs r)" "keeps_left p l q es (end_url_09 answer fs s r)"
proof -
  have "keeps_left p l q es (fold (\<lambda>f s. sbind s (callback answer f)) fs t)" if "keeps_left p l q es t" for t
    using that by (induction fs arbitrary: t) (simp_all add: left_sbind left_callback)
  from this [of "Go r"] show "keeps_left p l q es (end_url_space answer fs r)" "keeps_left p l q es (end_url_09 answer fs s r)"
    unfolding end_url_space_def end_url_09_def end_url_def
    by (rule left_sbind; use assms in \<open>simp add: wp_goto\<close>)+
qed

lemma left_notes [simp]: "event_in p q Message_begin" "event_in p q Message_complete" "event_in p q (Headers_complete P)"
  by (simp_all add: event_in_def)

lemma left_start_message:
  assumes "left_ok p l q es r" "\<And>r'. left_ok p l q es r' \<Longrightarrow> keeps_left p l q es (k r')"
  shows "keeps_left p l q es (start_message answer r k)"
  unfolding start_message_def by (rule left_sbind; (rule left_emit)?) (simp_all add: assms)

lemma left_body_data:
  assumes "left_ok p l q es r" "0 < n" "pos r + n \<le> q"
  shows "left_ok p l q es (body_data n r)"
proof -
  have "p \<le> pos r" using assms(1) by (simp add: left_ok_def spans_ok_def)
  then have e: "event_in p q (Data Body (pos r) n)" using assms(3) by (simp add: event_in_def)
  then show ?thesis
    using left_event [OF assms(1) e] assms(2,3)
    by (fastforce simp: left_ok_def spans_ok_def events_ok_def body_data_def)
qed

lemma left_complete: "left_ok p l q es r \<Longrightarrow> keeps_left p l q es (complete answer r)"
  unfolding complete_def by (rule left_sbind) (simp_all add: left_emit wp_goto)

lemma left_headers_almost_done:
  assumes "left_ok p l q es r"
  shows "keeps_left p l q es (headers_almost_done answer ch r)"
proof -
  have "keeps_left p l q es (after_headers answer r')" if "left_ok p l q es r'" for r'
  proof -
    have "keeps_left p l q es (sbind (emit answer Message_complete r') Leave)"
      by (rule left_sbind) (simp_all add: left_emit that)
    then show ?thesis using that by (simp add: after_headers_def Let_def left_complete wp_goto)
  qed
  then show ?thesis
    using assms left_event [OF assms] by (simp add: headers_almost_done_def wp_strict Let_def left_complete set_par_def left_ok_def spans_ok_def events_ok_def)
qed

lemmas http_line_defs = res_or_resp_H_def expect_def first_major_def major_digit_def first_minor_def minor_digit_def
  res_http_minor_def res_first_status_code_def res_status_code_def res_status_def req_spaces_before_url_def
  req_schema_def req_host_def req_port_def req_path_def req_query_string_start_def req_query_string_def
  req_fragment_start_def req_fragment_def req_http_start_def req_http_minor_def req_line_almost_done_def
  chunk_size_start_def chunk_size_def chunk_parameters_def chunk_size_almost_done_def

lemma left_step:
  assumes "left_ok p l q es r" "pos r + avail = q" "core_ok r"
  shows "keeps_left p l q es (step_state answer ch avail r)"
proof -
  have "keeps_left p l q es (match_next s t c r)" for s t c using assms(1) by (simp add: match_next_def Let_def)
  then have fc: "keeps_left p l q es (field_char ch c r)" if "state r = s_header_field" for c
    using that assms(1,3) by (cases "hstate r") (simp_all add: field_char_def core_ok_def)
  have vc: "keeps_left p l q es (value_char ch c r)" if "state r = s_header_value" for c
    using that assms(1,3) by (cases "hstate r") (simp_all add: value_char_def core_ok_def match_next_def Let_def)
  have ad: "keeps_left p l q es (header_almost_done ch r')" if "left_ok p l q es r'" for r'
    using that by (cases "hstate r'") (simp_all add: header_almost_done_def wp_strict Let_def)
  have hf: "keeps_left p l q es (header_field answer ch r)" if "state r = s_header_field"
    using assms(1) fc [OF that] by (auto simp: header_field_def Let_def intro!: left_sbind left_callback left_goto)
  have hv: "keeps_left p l q es (header_value answer ch r)" if "state r = s_header_value"
    using assms(1) vc [OF that] ad by (auto simp: header_value_def intro!: left_sbind left_callback left_goto)
  define r' where "r' = (mark Header_value r)\<lparr>state := s_header_value, index := 0\<rparr>"
  have r': "left_ok p l q es r'" using assms(1) by (simp add: r'_def)
  then have hs: "keeps_left p l q es (header_value_start answer ch r)"
    using assms(1) unfolding header_value_start_def r'_def [symmetric] Let_def
    by (cases "hstate r'") (auto intro!: left_sbind left_callback left_goto)
  have bodies: "keeps_left p l q es (body_identity answer avail r)" "keeps_left p l q es (body_identity_eof avail r)"
    "F_CHUNKED \<in> flags (par r) \<Longrightarrow> keeps_left p l q es (chunk_data avail r)"
    using assms(1,2) left_body_data [OF assms(1)]
    by (auto simp: body_identity_def body_identity_eof_def chunk_data_def chunked_def Let_def intro!: left_complete)
  have chunk: "state r \<in> chunk_states \<Longrightarrow> F_CHUNKED \<in> flags (par r)"
    using assms(3) by (simp add: core_ok_def)
  have assign: "keeps_left p l q es (method_assign ch r')" if "left_ok p l q es r'" for r'
    using that by (simp add: method_assign_def Let_def wp_goto)
  have starts: "keeps_left p l q es (start_req_or_res answer ch r)" "keeps_left p l q es (start_req answer ch r)"
    "keeps_left p l q es (start_res answer ch r)"
    using assms(1) by (auto simp: start_req_or_res_def start_req_def start_res_def intro!: left_start_message left_goto assign)
  have "keeps_left p l q es (method_char ch r)"
    using assms(1) by (simp add: method_char_def Let_def wp_if split: option.split)
  moreover have "keeps_left p l q es (header_field_start answer ch r)"
    using assms(1) by (simp add: header_field_start_def Let_def wp_goto left_headers_almost_done)
  ultimately show ?thesis
    using assms(1) chunk
    by (cases "state r") (auto simp: step_state_def http_line_defs wp_goto wp_strict Let_def chunk_states_def chunked_def
      intro!: hf hv hs ad bodies starts left_headers_almost_done left_end_url left_sbind left_callback left_goto)
qed

section \<open>The whole call\<close>

lemma wp_conj: "wp Q L s \<Longrightarrow> wp Q' L' s \<Longrightarrow> wp (\<lambda>r. Q r \<and> Q' r) (\<lambda>r. L r \<and> L' r) s"
  by (cases s) simp_all

lemma step_ok:
  assumes "run_ok p q es r" "pos r + avail = q" "0 < avail"
  shows "wp (\<lambda>r'. run_ok p q es (r'\<lparr>pos := Suc (pos r')\<rparr>) \<and> pos r \<le> pos r' \<and> pos r' < q \<and> (\<forall>f m. marks r' f = Some m \<longrightarrow> m \<le> pos r')) (left_ok p (pos r) q es)
    (parse_byte answer ch avail r)"
proof -
  let ?W = "wp (\<lambda>r'. run_ok p q es (r'\<lparr>pos := Suc (pos r')\<rparr>) \<and> pos r \<le> pos r' \<and> pos r' < q \<and> (\<forall>f m. marks r' f = Some m \<longrightarrow> m \<le> pos r')) (left_ok p (pos r) q es)"
  have main: "?W (step_state answer ch avail r1)"
    if "core_ok r1" "marks_ok r1" "left_ok p (pos r) q es r1" "pos r1 = pos r" for r1
  proof -
    have "wp (\<lambda>r'. (core_ok r' \<and> marks_ok r') \<and> left_ok p (pos r) q es r') (\<lambda>r'. (True \<and> True) \<and> left_ok p (pos r) q es r')
        (step_state answer ch avail r1)"
      using that assms(2) by (intro wp_conj core_step marks_step left_step) simp_all
    then show ?thesis
      by (rule wp_mono) (auto simp: run_ok_def left_ok_def spans_ok_def events_ok_def intro: le_SucI)
  qed
  have r: "core_ok r" "marks_ok r" "left_ok p (pos r) q es r"
    using assms by (auto simp: run_ok_def left_ok_def spans_ok_def)
  show ?thesis
  proof (cases "parsing_header r")
    case True
    have "core_ok (r\<lparr>nread := nread r + 1\<rparr>)" if "nread r + 1 \<le> HTTP_MAX_HEADER_SIZE"
      using r(1) that by (simp add: core_ok_def)
    then show ?thesis
      using True r main [of "r\<lparr>nread := nread r + 1\<rparr>"] by (auto simp: parse_byte_def Let_def)
  next
    case False
    then show ?thesis using main [OF r] by (simp add: parse_byte_def)
  qed
qed

lemma exec_loop_ok:
  "run_ok p q es r \<Longrightarrow> pos r + length rest = q \<Longrightarrow>
   wp (\<lambda>r'. run_ok p q es r' \<and> pos r' = q) (left_ok p p q es) (exec_loop answer rest r)"
proof (induction answer rest r rule: exec_loop.induct)
  case (2 answer ch rest r)
  have w: "wp (\<lambda>r'. run_ok p q es (r'\<lparr>pos := Suc (pos r')\<rparr>) \<and> pos r \<le> pos r' \<and> pos r' < q \<and>
        (\<forall>f m. marks r' f = Some m \<longrightarrow> m \<le> pos r')) (left_ok p (pos r) q es)
      (parse_byte answer ch (Suc (length rest)) r)"
    using 2 by (intro step_ok) simp_all
  have p: "p \<le> pos r" using 2 by (simp add: run_ok_def)
  show ?case
  proof (cases "parse_byte answer ch (Suc (length rest)) r")
    case (Go r')
    then show ?thesis using w 2(1) [OF Go] 2(3) by auto
  next
    case (Leave r')
    then show ?thesis using w p by (auto simp: left_ok_def spans_ok_def)
  next
    case (Fail r')
    then show ?thesis using w p by (auto simp: left_ok_def spans_ok_def)
  qed (use w in simp_all)
qed simp

text \<open>The state of the parser between two calls.\<close>

definition parser_ok :: "parser \<Rightarrow> bool" where
  "parser_ok P \<longleftrightarrow> core_ok (enter P 0 [])"

lemma flush_ok:
  assumes "run_ok p q es r" "pos r = q"
  shows "wp (\<lambda>r'. events_ok p q es r' \<and> (\<exists>es'. r' = r\<lparr>events := es'\<rparr>)) (\<lambda>r'. events_ok p q es r' \<and> (\<exists>es'. r' = r\<lparr>events := es'\<rparr>))
    (flush answer r)"
proof -
  let ?Q = "\<lambda>r'. events_ok p q es r' \<and> (\<exists>es'. r' = r\<lparr>events := es'\<rparr>)"
  have one: "wp ?Q ?Q (callback_noclear answer f r')" if q: "?Q r'" for f r'
  proof (cases "marks r' f")
    case (Some m)
    then have "marks r f = Some m" "pos r' = pos r" using q by auto
    then have "p \<le> m" "m \<le> pos r'" "pos r' = q" using assms by (auto simp: run_ok_def)
    then have "event_in p q (Data f m (pos r' - m))" by (simp add: event_in_def)
    then have "?Q (r'\<lparr>events := events r' @ [Data f m (pos r' - m)]\<rparr>)"
      using q events_ok_add by auto
    then show ?thesis using Some by (simp add: callback_noclear_def wp_emit Let_def)
  qed (use q in \<open>simp add: callback_noclear_def\<close>)
  have all: "wp ?Q ?Q (fold (\<lambda>f s. sbind s (callback_noclear answer f)) fs t)" if "wp ?Q ?Q t" for fs t
    using that
  proof (induction fs arbitrary: t)
    case (Cons f fs)
    have "wp ?Q ?Q (sbind t (callback_noclear answer f))"
      unfolding wp_sbind by (rule wp_mono [OF Cons.prems one]) simp_all
    then show ?case using Cons.IH by simp
  qed simp
  have "?Q r" using assms by (auto simp: run_ok_def intro: exI [of _ "events r"])
  then show ?thesis unfolding flush_def by (intro all) simp
qed

lemma enter_ok: "parser_ok P \<Longrightarrow> p \<le> q \<Longrightarrow> run_ok p q es (enter P p es)"
  by (auto simp: run_ok_def parser_ok_def enter_def core_ok_def marks_ok_def events_ok_def split: if_splits)

lemma core_store: "core_ok r \<Longrightarrow> parser_ok (store_state r)"
proof -
  assume c: "core_ok r"
  have "HTTP_MAX_HEADER_SIZE < 2 ^ 32" by (simp add: HTTP_MAX_HEADER_SIZE_def)
  then have "nread r mod 2 ^ 32 = nread r" "index r mod 2 ^ 8 = index r" using c by (simp_all add: core_ok_def)
  then show ?thesis using c by (simp add: parser_ok_def store_state_def enter_def core_ok_def)
qed

lemma flush_steady:
  assumes "\<And>es f m n. answer es (Data f m n) = 0"
  shows "\<exists>r'. flush answer r = Go r'"
proof -
  have one: "\<exists>r'. callback_noclear answer f r = Go r'" for f r
    by (simp add: callback_noclear_def emit_def assms Let_def split: option.split)
  have "\<exists>r'. fold (\<lambda>f s. sbind s (callback_noclear answer f)) fs (Go r) = Go r'" for fs r
  proof (induction fs arbitrary: r)
    case (Cons f fs)
    obtain r' where "callback_noclear answer f r = Go r'" using one by blast
    then show ?case using Cons by simp
  qed simp
  then show ?thesis unfolding flush_def by blast
qed

lemma execute_data_ok:
  fixes data p
  assumes "parser_ok P"
  defines "q \<equiv> p + length data"
  shows "wp (\<lambda>r. events_ok p q es r \<and> core_ok r) (\<lambda>r. events_ok p q es r \<and> pos r \<le> q)
    (sbind (exec_loop answer data (enter P p es)) (flush answer))"
  unfolding wp_sbind
proof (rule wp_mono [OF exec_loop_ok [of p q es "enter P p es" data answer]])
  show "run_ok p q es (enter P p es)" by (rule enter_ok) (simp_all add: assms)
  show "pos (enter P p es) + length data = q" by (simp add: enter_def q_def)
next
  fix r assume r: "run_ok p q es r \<and> pos r = q"
  show "wp (\<lambda>r. events_ok p q es r \<and> core_ok r) (\<lambda>r. events_ok p q es r \<and> pos r \<le> q) (flush answer r)"
    by (rule wp_mono [OF flush_ok]) (use r in \<open>auto simp: run_ok_def\<close>)
next
  fix r assume "left_ok p p q es r"
  then show "events_ok p q es r \<and> pos r \<le> q" by (simp add: left_ok_def spans_ok_def)
qed

section \<open>Properties\<close>


text \<open>An object as it may be before \<open>http_parser_init\<close>, and what evaluates a call.\<close>

definition idle_parser :: parser where
  "idle_parser = \<lparr>msg = \<lparr>ptype = HTTP_BOTH, flags = {}, content_length = 0, http_major = 0, http_minor = 0,
     status_code = 0, req_method = HTTP_DELETE, upgrade = False\<rparr>,
     pstate = s_dead, pheader_state = h_general, pindex = 0, pnread = 0\<rparr>"

lemmas run_simps = execute_def execute_data_def enter_def init_parser_def idle_parser_def parse_byte_def parsing_header_def
  Let_def HTTP_MAX_HEADER_SIZE_def step_state_def http_defs CR_def LF_def emit_def goto_def callback_def
  callback_noclear_def strict_check_def matcher_def digit_def letter_def LOWER_def TOKEN_def normal_url_char_def
  url_chars_def tokens_def url_states_def flush_def store_state_def unhex_def unhex_table_def digit_value_def
  should_keep_alive_def wrap64_def

lemma new_parser_ok: "parser_ok (init_parser t idle_parser)"
  by (simp add: parser_ok_def core_ok_def enter_def init_parser_def idle_parser_def chunk_states_def HTTP_MAX_HEADER_SIZE_def)


end
