(* ===== verification/HttpStream.thy ===== *)
theory HttpStream
  imports HttpSafety
begin

text \<open>
  How the bytes of a connection are divided into calls makes no difference to a listener that puts
  the pieces of each field together: two runs that differ only in how the data of the fields has been
  divided into callbacks stay alike byte by byte, and a run that is interrupted and taken up again
  is alike the run that is not.
\<close>

section \<open>Callbacks that do not depend on the division of the data\<close>

text \<open>
  Callbacks succeed, except that the answer to the end of the headers may be any function of what the
  parser then knows of the message.
\<close>

definition steady :: "answers \<Rightarrow> bool" where
  "steady answer \<longleftrightarrow> (\<forall>es e. (\<forall>P. e \<noteq> Headers_complete P) \<longrightarrow> answer es e = 0) \<and>
     (\<forall>es es' P. answer es (Headers_complete P) = answer es' (Headers_complete P))"

definition piece :: "'a list \<Rightarrow> nat \<Rightarrow> nat \<Rightarrow> 'a list" where
  "piece D m n = take n (drop m D)"

text \<open>
  Who listens to the callbacks: it must make no difference whether a piece of a field comes in one
  call or in two, nor whether a piece of the URL or of one of its parts comes before or after another.
\<close>

definition url_part :: "field \<Rightarrow> bool" where
  "url_part f \<longleftrightarrow> f \<in> {Fragment, Query_string, Path, Url}"

lemma in_field_value: "\<not> in_field Header_field s_header_value"
  by simp

lemma dom_None: "dom m = dom m' \<Longrightarrow> m x = None \<longleftrightarrow> m' x = None"
  by (metis domIff)

lemma fields_apart:
  assumes "marks_ok r"
  shows "marks r Header_field = None \<or> marks r Header_value = None"
proof -
  have "\<not> in_field Header_field (state r) \<or> \<not> in_field Header_value (state r)" by simp
  then show ?thesis using assms unfolding marks_ok_def by blast
qed

locale listener =
  fixes feed :: "field \<Rightarrow> u8 list \<Rightarrow> 's \<Rightarrow> 's" and note_event :: "event \<Rightarrow> 's \<Rightarrow> 's"
  assumes feed_append: "feed f (a @ b) s = feed f b (feed f a s)"
    and feed_commute: "url_part f \<Longrightarrow> f \<noteq> g \<Longrightarrow> feed f a (feed g b s) = feed g b (feed f a s)"
begin

fun hear :: "u8 list \<Rightarrow> event \<Rightarrow> 's \<Rightarrow> 's" where
  "hear D (Data f m n) s = feed f (piece D m n) s"
| "hear D e s = note_event e s"

definition heard :: "u8 list \<Rightarrow> event list \<Rightarrow> 's \<Rightarrow> 's" where
  "heard D es s = fold (hear D) es s"

lemma heard_append: "heard D (es @ es') s = heard D es' (heard D es s)"
  by (simp add: heard_def)

lemma heard_Cons: "heard D (e # es) s = heard D es (hear D e s)"
  by (simp add: heard_def)

lemma heard_Nil: "heard D [] s = s"
  by (simp add: heard_def)

definition pend1 :: "u8 list \<Rightarrow> run \<Rightarrow> field \<Rightarrow> 's \<Rightarrow> 's" where
  "pend1 D r f s = (case marks r f of None \<Rightarrow> s | Some m \<Rightarrow> feed f (piece D m (pos r - m)) s)"

text \<open>What the listener would know if the call ended before the next byte.\<close>

definition known :: "u8 list \<Rightarrow> run \<Rightarrow> 's \<Rightarrow> 's" where
  "known D r s =
     pend1 D r Url (pend1 D r Path (pend1 D r Query_string (pend1 D r Fragment
       (pend1 D r Header_value (pend1 D r Header_field (heard D (events r) s))))))"

lemma pend1_commute: "url_part f \<Longrightarrow> f \<noteq> g \<Longrightarrow> pend1 D r f (feed g b s) = feed g b (pend1 D r f s)"
  by (cases "marks r f") (simp_all add: pend1_def feed_commute [of f g _ b])

lemma pend1_commute': "url_part g \<Longrightarrow> f \<noteq> g \<Longrightarrow> pend1 D r f (feed g b s) = feed g b (pend1 D r f s)"
  by (cases "marks r f") (simp_all add: pend1_def feed_commute [of g f b])

lemma known_quiet: "dom (marks r) = {} \<Longrightarrow> known D r s = heard D (events r) s"
  by (simp add: known_def pend1_def)

lemma pend1_None: "marks r f = None \<Longrightarrow> pend1 D r f t = t"
  by (simp add: pend1_def)

lemma pend1_mark:
  "pend1 D (mark f r) g t = (if g = f then feed f [] t else pend1 D r g t)" "events (mark f r) = events r"
  by (simp_all add: pend1_def mark_def piece_def split: option.split)

lemma known_mark:
  assumes "marks r f = None" "f \<noteq> Body" "url_part f \<or> (marks r Header_field = None \<and> marks r Header_value = None)"
  shows "known D (mark f r) s = feed f [] (known D r s)"
  using assms
  by (cases f) (auto simp: known_def pend1_mark pend1_None pend1_commute pend1_commute' url_part_def)

lemma pend1_called:
  "pend1 D (r\<lparr>events := es, marks := (marks r)(f := None)\<rparr>) g t = (if g = f then t else pend1 D r g t)"
  by (simp add: pend1_def split: option.split)

lemma known_callback:
  assumes "marks r f = Some m" "f \<noteq> Body" "url_part f \<or> f = Header_field \<or> marks r Header_field = None"
  shows "known D (r\<lparr>events := events r @ [Data f m (pos r - m)], marks := (marks r)(f := None)\<rparr>) s = known D r s"
proof -
  have p: "pend1 D r f t = feed f (piece D m (pos r - m)) t" for t
    using assms(1) by (simp add: pend1_def)
  show ?thesis
    using assms(2,3) p
    by (cases f) (auto simp: known_def pend1_called pend1_None pend1_commute pend1_commute' url_part_def heard_append heard_Cons heard_Nil)
qed

lemma piece_Suc: "m \<le> k \<Longrightarrow> k < length D \<Longrightarrow> piece D m (Suc k - m) = piece D m (k - m) @ [D ! k]"
  by (simp add: piece_def Suc_diff_le take_Suc_conv_app_nth)

text \<open>Every open field grows by the byte that is passed.\<close>

definition grow1 :: "u8 list \<Rightarrow> run \<Rightarrow> field \<Rightarrow> 's \<Rightarrow> 's" where
  "grow1 D r f t = (if marks r f = None then t else feed f [D ! pos r] t)"

lemma grow1_commute: "url_part f \<or> url_part g \<Longrightarrow> f \<noteq> g \<Longrightarrow> pend1 D r g (grow1 D r f t) = grow1 D r f (pend1 D r g t)"
  by (auto simp: grow1_def pend1_commute pend1_commute')

lemma known_next:
  assumes "\<And>f m. marks r f = Some m \<Longrightarrow> m \<le> pos r" "pos r < length D"
    and "marks r Header_field = None \<or> marks r Header_value = None"
  shows "known D (r\<lparr>pos := Suc (pos r)\<rparr>) s =
    grow1 D r Url (grow1 D r Path (grow1 D r Query_string (grow1 D r Fragment
      (grow1 D r Header_value (grow1 D r Header_field (known D r s))))))"
proof -
  have p: "pend1 D (r\<lparr>pos := Suc (pos r)\<rparr>) f t = grow1 D r f (pend1 D r f t)" for f t
    using assms(1) [of f] assms(2) by (auto simp: pend1_def grow1_def piece_Suc feed_append split: option.split)
  have q: "pend1 D r Header_value (grow1 D r Header_field t) = grow1 D r Header_field (pend1 D r Header_value t)" for t
    using assms(3) by (auto simp: pend1_def grow1_def)
  show ?thesis by (simp add: known_def p q grow1_commute url_part_def)
qed

lemma grow1_cong:
  assumes "dom (marks r) = dom (marks r')" "pos r = pos r'"
  shows "grow1 D r = grow1 D r'"
  by (intro ext) (simp only: grow1_def dom_None [OF assms(1)] assms(2))

section \<open>Two runs that the listener cannot tell apart\<close>

definition alike :: "u8 list \<Rightarrow> 's \<Rightarrow> run \<Rightarrow> run \<Rightarrow> bool" where
  "alike D s r1 r2 \<longleftrightarrow> par r1 = par r2 \<and> state r1 = state r2 \<and> hstate r1 = hstate r2 \<and> index r1 = index r2 \<and>
     nread r1 = nread r2 \<and> pos r1 = pos r2 \<and> dom (marks r1) = dom (marks r2) \<and> known D r1 s = known D r2 s"

fun alike_step :: "u8 list \<Rightarrow> 's \<Rightarrow> step \<Rightarrow> step \<Rightarrow> bool" where
  "alike_step D s (Go r1) (Go r2) = alike D s r1 r2"
| "alike_step D s (Leave r1) (Leave r2) = (alike D s r1 r2 \<and> dom (marks r1) = {})"
| "alike_step D s (Fail r1) (Fail r2) = alike D s r1 r2"
| "alike_step D s Assertion Assertion = True"
| "alike_step D s Read_past Read_past = True"
| "alike_step D s _ _ = False"

lemma alike_eqs:
  assumes "alike D s r1 r2"
  shows "par r2 = par r1" "state r2 = state r1" "hstate r2 = hstate r1" "index r2 = index r1" "nread r2 = nread r1"
    "pos r2 = pos r1" "dom (marks r2) = dom (marks r1)"
  using assms by (simp_all add: alike_def)

lemma pend1_frame [simp]:
  "pend1 D (r\<lparr>par := P\<rparr>) f = pend1 D r f" "pend1 D (r\<lparr>state := t\<rparr>) f = pend1 D r f"
  "pend1 D (r\<lparr>hstate := h\<rparr>) f = pend1 D r f" "pend1 D (r\<lparr>index := i\<rparr>) f = pend1 D r f"
  "pend1 D (r\<lparr>nread := i\<rparr>) f = pend1 D r f" "pend1 D (r\<lparr>saved := t\<rparr>) f = pend1 D r f"
  by (simp_all add: pend1_def fun_eq_iff split: option.split)

lemma known_frame [simp]:
  "known D (r\<lparr>par := P\<rparr>) = known D r" "known D (r\<lparr>state := t\<rparr>) = known D r" "known D (r\<lparr>hstate := h\<rparr>) = known D r"
  "known D (r\<lparr>index := i\<rparr>) = known D r" "known D (r\<lparr>nread := i\<rparr>) = known D r" "known D (r\<lparr>saved := t\<rparr>) = known D r"
  by (simp_all add: known_def fun_eq_iff)

lemma alike_updates:
  assumes "alike D s r1 r2"
  shows "alike D s (r1\<lparr>par := P\<rparr>) (r2\<lparr>par := P\<rparr>)" "alike D s (r1\<lparr>state := t\<rparr>) (r2\<lparr>state := t\<rparr>)"
    "alike D s (r1\<lparr>hstate := h\<rparr>) (r2\<lparr>hstate := h\<rparr>)" "alike D s (r1\<lparr>index := i\<rparr>) (r2\<lparr>index := i\<rparr>)"
    "alike D s (r1\<lparr>nread := i\<rparr>) (r2\<lparr>nread := i\<rparr>)" "alike D s (r1\<lparr>saved := t1\<rparr>) (r2\<lparr>saved := t2\<rparr>)"
    "alike D s (set_hstate h r1) (set_hstate h r2)" "alike D s (set_par g r1) (set_par g r2)"
    "alike D s (set_method m r1) (set_method m r2)"
  using assms by (simp_all add: alike_def set_hstate_def set_par_def set_method_def)

lemma alike_goto: "alike D s r1 r2 \<Longrightarrow> alike_step D s (goto t r1) (goto t r2)"
  by (simp add: goto_def alike_updates)

lemma alike_mark:
  assumes "alike D s r1 r2" "marks r1 f = None" "f \<noteq> Body"
    and "url_part f \<or> (marks r1 Header_field = None \<and> marks r1 Header_value = None)"
  shows "alike D s (mark f r1) (mark f r2)"
proof -
  have n: "marks r2 g = None \<longleftrightarrow> marks r1 g = None" for g
    by (rule dom_None) (rule alike_eqs(7) [OF assms(1)])
  have "known D (mark f r1) s = known D (mark f r2) s"
    using assms n by (simp add: known_mark alike_def)
  then show ?thesis using assms(1) by (simp add: alike_def mark_def)
qed

lemma alike_sbind:
  assumes "alike_step D s s1 s2" "\<And>r1 r2. s1 = Go r1 \<Longrightarrow> s2 = Go r2 \<Longrightarrow> alike D s r1 r2 \<Longrightarrow> alike_step D s (k1 r1) (k2 r2)"
  shows "alike_step D s (sbind s1 k1) (sbind s2 k2)"
  using assms by (cases s1; cases s2) simp_all

lemma alike_if:
  "(b \<Longrightarrow> alike_step D s s1 s2) \<Longrightarrow> (\<not> b \<Longrightarrow> alike_step D s t1 t2) \<Longrightarrow>
   alike_step D s (if b then s1 else t1) (if b then s2 else t2)"
  by simp

lemma callback_steady:
  assumes "steady answer"
  shows "callback answer f r = Go (case marks r f of None \<Rightarrow> r\<lparr>marks := (marks r)(f := None)\<rparr>
    | Some m \<Rightarrow> r\<lparr>events := events r @ [Data f m (pos r - m)], marks := (marks r)(f := None)\<rparr>)"
  using assms by (simp add: callback_def callback_noclear_def emit_def steady_def split: option.split)

lemma known_unmark: "marks r f = None \<Longrightarrow> known D (r\<lparr>marks := (marks r)(f := None)\<rparr>) s = known D r s"
proof -
  assume "marks r f = None"
  then have "(marks r)(f := None) = marks r" by auto
  then show ?thesis by simp
qed

lemma alike_callback:
  assumes "steady answer" "alike D s r1 r2" "f \<noteq> Body" "url_part f \<or> f = Header_field \<or> marks r1 Header_field = None"
  shows "alike_step D s (callback answer f r1) (callback answer f r2)"
proof -
  have n: "marks r2 g = None \<longleftrightarrow> marks r1 g = None" for g
    by (rule dom_None) (rule alike_eqs(7) [OF assms(2)])
  have k: "known D (case marks r f of None \<Rightarrow> r\<lparr>marks := (marks r)(f := None)\<rparr>
      | Some m \<Rightarrow> r\<lparr>events := events r @ [Data f m (pos r - m)], marks := (marks r)(f := None)\<rparr>) s = known D r s"
    if "url_part f \<or> f = Header_field \<or> marks r Header_field = None" for r
    using that assms(3) by (cases "marks r f") (simp_all add: known_unmark known_callback)
  have "known D r1 s = known D r2 s" using assms(2) by (simp add: alike_def)
  then show ?thesis
    using assms(2,4) n k [of r1] k [of r2]
    by (auto simp: callback_steady [OF assms(1)] alike_def split: option.split)
qed

lemma alike_emit:
  assumes "steady answer" "alike D s r1 r2" "dom (marks r1) = {}" "\<forall>f m n. e \<noteq> Data f m n"
  shows "alike_step D s (emit answer e r1) (emit answer e r2)"
proof -
  have h: "hear D e t = note_event e t" for t using assms(4) by (cases e) simp_all
  have "answer (events r1) e = answer (events r2) e"
    using assms(1) unfolding steady_def by (cases e) auto
  moreover have "alike D s (r1\<lparr>events := events r1 @ [e]\<rparr>) (r2\<lparr>events := events r2 @ [e]\<rparr>)"
    using assms(2,3) by (auto simp: alike_def known_quiet heard_append heard_Cons heard_Nil h)
  ultimately show ?thesis using assms(3) by (simp add: emit_def Let_def)
qed

lemma emit_Go: "emit answer e r = Go r' \<Longrightarrow> marks r' = marks r"
  by (auto simp: emit_def Let_def split: if_splits)

lemma alike_body_data:
  assumes "alike D s r1 r2" "dom (marks r1) = {}"
  shows "alike D s (body_data n r1) (body_data n r2)"
  using assms by (auto simp: alike_def body_data_def known_quiet heard_append heard_Cons heard_Nil)

section \<open>Every step keeps two runs alike\<close>

lemma alike_line:
  assumes "alike D s r1 r2"
  shows "alike_step D s (expect c t ch r1) (expect c t ch r2)" "alike_step D s (first_major t ch r1) (first_major t ch r2)"
    "alike_step D s (major_digit t ch r1) (major_digit t ch r2)" "alike_step D s (first_minor t ch r1) (first_minor t ch r2)"
    "alike_step D s (minor_digit ch r1) (minor_digit ch r2)" "alike_step D s (res_http_minor ch r1) (res_http_minor ch r2)"
    "alike_step D s (res_first_status_code ch r1) (res_first_status_code ch r2)"
    "alike_step D s (res_status_code ch r1) (res_status_code ch r2)" "alike_step D s (res_status ch r1) (res_status ch r2)"
    "alike_step D s (req_schema ch r1) (req_schema ch r2)" "alike_step D s (req_http_start ch r1) (req_http_start ch r2)"
    "alike_step D s (req_http_minor ch r1) (req_http_minor ch r2)"
    "alike_step D s (req_line_almost_done ch r1) (req_line_almost_done ch r2)"
    "alike_step D s (strict_check b r1 (goto t)) (strict_check b r2 (goto t))"
    "alike_step D s (method_assign ch r1) (method_assign ch r2)" "alike_step D s (res_or_resp_H ch r1) (res_or_resp_H ch r2)"
    "alike_step D s (header_almost_done ch r1) (header_almost_done ch r2)"
proof -
  note e = alike_eqs [OF assms]
  show "alike_step D s (header_almost_done ch r1) (header_almost_done ch r2)"
    using assms by (cases "hstate r1") (simp_all add: header_almost_done_def strict_check_def Let_def e alike_updates)
qed (use assms in \<open>simp_all add: expect_def first_major_def major_digit_def first_minor_def minor_digit_def res_http_minor_def
    res_first_status_code_def res_status_code_def res_status_def req_schema_def req_http_start_def req_http_minor_def
    req_line_almost_done_def strict_check_def method_assign_def res_or_resp_H_def Let_def alike_eqs [OF assms] alike_goto
    alike_updates\<close>)

lemma set_method_frame [simp]: "index (set_method m r) = index r"
  by (simp add: set_method_def)

lemma alike_method_char:
  assumes "alike D s r1 r2"
  shows "alike_step D s (method_char ch r1) (method_char ch r2)"
proof (cases "matcher (req_method (par r1)) (index r1)")
  case None
  then show ?thesis by (simp add: method_char_def alike_eqs [OF assms] assms)
next
  case (Some x)
  have n: "alike D s (r1\<lparr>index := i\<rparr>) (r2\<lparr>index := i\<rparr>)"
    "alike D s ((set_method m r1)\<lparr>index := i\<rparr>) ((set_method m r2)\<lparr>index := i\<rparr>)"
    "alike D s (r1\<lparr>state := t, index := i\<rparr>) (r2\<lparr>state := t, index := i\<rparr>)" for i m t
    by (intro alike_updates assms)+
  show ?thesis
    unfolding method_char_def Let_def alike_eqs [OF assms] Some option.case
    by (intro alike_if; simp add: n assms alike_eqs [OF assms])
qed

lemma alike_end_url:
  assumes "steady answer" "alike D s r1 r2" "list_all url_part fs"
  shows "alike_step D s (end_url_space answer fs r1) (end_url_space answer fs r2)"
    "alike_step D s (end_url_09 answer fs t r1) (end_url_09 answer fs t r2)"
proof -
  have c: "alike_step D s (fold (\<lambda>f s. sbind s (callback answer f)) fs s1) (fold (\<lambda>f s. sbind s (callback answer f)) fs s2)"
    if "alike_step D s s1 s2" for s1 s2
    using that assms(3)
  proof (induction fs arbitrary: s1 s2)
    case (Cons f fs)
    then have "f \<noteq> Body" by (auto simp: url_part_def)
    with Cons show ?case
      by (simp add: alike_sbind alike_callback assms(1))
  qed simp
  have e: "alike_step D s (end_url answer fs r1) (end_url answer fs r2)"
    unfolding end_url_def by (rule c) (simp add: assms(2))
  then show "alike_step D s (end_url_space answer fs r1) (end_url_space answer fs r2)"
    unfolding end_url_space_def by (rule alike_sbind) (rule alike_goto)
  show "alike_step D s (end_url_09 answer fs t r1) (end_url_09 answer fs t r2)"
    unfolding end_url_09_def by (rule alike_sbind [OF e]) (simp add: alike_goto alike_updates)
qed

lemma alike_callback_goto:
  assumes "steady answer" "alike D s r1 r2" "f \<noteq> Body" "url_part f \<or> f = Header_field \<or> marks r1 Header_field = None"
  shows "alike_step D s (sbind (callback answer f r1) (goto t)) (sbind (callback answer f r2) (goto t))"
  by (rule alike_sbind [OF alike_callback [OF assms]]) (rule alike_goto)

lemma alike_url:
  assumes "steady answer" "alike D s r1 r2" "marks_ok r1"
  shows "state r1 = s_req_spaces_before_url \<Longrightarrow> alike_step D s (req_spaces_before_url ch r1) (req_spaces_before_url ch r2)"
    "state r1 = s_req_host \<Longrightarrow> alike_step D s (req_host answer ch r1) (req_host answer ch r2)"
    "state r1 = s_req_port \<Longrightarrow> alike_step D s (req_port answer ch r1) (req_port answer ch r2)"
    "state r1 = s_req_path \<Longrightarrow> alike_step D s (req_path answer ch r1) (req_path answer ch r2)"
    "state r1 = s_req_query_string_start \<Longrightarrow>
      alike_step D s (req_query_string_start answer ch r1) (req_query_string_start answer ch r2)"
    "state r1 = s_req_query_string \<Longrightarrow> alike_step D s (req_query_string answer ch r1) (req_query_string answer ch r2)"
    "state r1 = s_req_fragment_start \<Longrightarrow> alike_step D s (req_fragment_start answer ch r1) (req_fragment_start answer ch r2)"
    "state r1 = s_req_fragment \<Longrightarrow> alike_step D s (req_fragment answer ch r1) (req_fragment answer ch r2)"
proof -
  have n: "marks r1 f = None \<longleftrightarrow> \<not> in_field f (state r1)" for f using assms(3) by (metis marks_ok_def)
  have nu: "marks (mark Url r1) f = None \<longleftrightarrow> f \<noteq> Url \<and> marks r1 f = None" for f by (simp add: mark_def)
  show "state r1 = s_req_spaces_before_url \<Longrightarrow> alike_step D s (req_spaces_before_url ch r1) (req_spaces_before_url ch r2)"
    "state r1 = s_req_host \<Longrightarrow> alike_step D s (req_host answer ch r1) (req_host answer ch r2)"
    "state r1 = s_req_port \<Longrightarrow> alike_step D s (req_port answer ch r1) (req_port answer ch r2)"
    "state r1 = s_req_path \<Longrightarrow> alike_step D s (req_path answer ch r1) (req_path answer ch r2)"
    "state r1 = s_req_query_string_start \<Longrightarrow>
      alike_step D s (req_query_string_start answer ch r1) (req_query_string_start answer ch r2)"
    "state r1 = s_req_query_string \<Longrightarrow> alike_step D s (req_query_string answer ch r1) (req_query_string answer ch r2)"
    "state r1 = s_req_fragment_start \<Longrightarrow> alike_step D s (req_fragment_start answer ch r1) (req_fragment_start answer ch r2)"
    "state r1 = s_req_fragment \<Longrightarrow> alike_step D s (req_fragment answer ch r1) (req_fragment answer ch r2)"
    using assms(1,2) n
    by (simp_all add: req_spaces_before_url_def req_host_def req_port_def req_path_def req_query_string_start_def
        req_query_string_def req_fragment_start_def req_fragment_def alike_goto alike_mark alike_end_url alike_callback_goto
        url_part_def nu url_states_def)
qed

lemma alike_start_message:
  assumes "steady answer" "alike D s r1 r2" "dom (marks r1) = {}"
    and "\<And>r1 r2. alike D s r1 r2 \<Longrightarrow> alike_step D s (k r1) (k r2)"
  shows "alike_step D s (start_message answer r1 k) (start_message answer r2 k)"
  unfolding start_message_def
  by (rule alike_sbind [OF alike_emit]) (simp_all add: assms alike_updates)

lemma alike_starts:
  assumes "steady answer" "alike D s r1 r2" "dom (marks r1) = {}"
  shows "alike_step D s (start_req_or_res answer ch r1) (start_req_or_res answer ch r2)"
    "alike_step D s (start_req answer ch r1) (start_req answer ch r2)"
    "alike_step D s (start_res answer ch r1) (start_res answer ch r2)"
  using assms
  by (simp_all add: start_req_or_res_def start_req_def start_res_def alike_start_message alike_goto alike_line alike_updates)

lemma alike_field:
  assumes "steady answer" "alike D s r1 r2"
  shows "alike_step D s (header_field answer ch r1) (header_field answer ch r2)"
proof -
  note e = alike_eqs [OF assms(2)]
  have "alike_step D s (field_char ch c r1) (field_char ch c r2)" for c
    using assms(2) by (cases "hstate r1") (simp_all add: field_char_def match_next_def Let_def e alike_updates)
  then show ?thesis
    using assms by (simp add: header_field_def Let_def alike_callback_goto alike_callback alike_updates)
qed

lemma alike_value:
  assumes "steady answer" "alike D s r1 r2" "marks r1 Header_field = None"
  shows "alike_step D s (header_value answer ch r1) (header_value answer ch r2)"
proof -
  note e = alike_eqs [OF assms(2)]
  have "alike_step D s (value_char ch c r1) (value_char ch c r2)" for c
    using assms(2) by (cases "hstate r1") (simp_all add: value_char_def match_next_def Let_def e alike_updates)
  moreover have "alike_step D s (sbind (callback answer Header_value r1) (header_almost_done ch))
      (sbind (callback answer Header_value r2) (header_almost_done ch))" for ch
    by (rule alike_sbind [OF alike_callback]) (simp_all add: assms alike_line)
  ultimately show ?thesis
    using assms by (simp add: header_value_def alike_callback_goto)
qed

lemma alike_value_start:
  assumes "steady answer" "alike D s r1 r2" "dom (marks r1) = {}"
  shows "alike_step D s (header_value_start answer ch r1) (header_value_start answer ch r2)"
proof -
  define q where "q r = (mark Header_value r)\<lparr>state := s_header_value, index := 0\<rparr>" for r
  have "alike D s (mark Header_value r1) (mark Header_value r2)"
    using assms by (intro alike_mark) auto
  then have a: "alike D s (q r1) (q r2)" by (simp add: q_def alike_updates)
  have m: "marks (q r1) Header_field = None" using assms(3) by (auto simp: q_def mark_def)
  note e = alike_eqs [OF a]
  have "alike_step D s (sbind (callback answer Header_value (q r1)) (\<lambda>r. goto s_header_almost_done (set_hstate h_general r)))
      (sbind (callback answer Header_value (q r2)) (\<lambda>r. goto s_header_almost_done (set_hstate h_general r)))"
    by (rule alike_sbind [OF alike_callback [OF assms(1) a]]) (simp_all add: m alike_goto alike_updates)
  then show ?thesis
    using assms(1,2) a m unfolding header_value_start_def q_def [symmetric] Let_def
    by (cases "hstate (q r1)") (simp_all add: e alike_callback_goto alike_updates)
qed

lemma alike_complete:
  assumes "steady answer" "alike D s r1 r2" "dom (marks r1) = {}"
  shows "alike_step D s (complete answer r1) (complete answer r2)"
  unfolding complete_def
proof (rule alike_sbind [OF alike_emit])
  fix r1 r2 assume a: "alike D s r1 r2"
  show "alike_step D s (goto (new_message (par r1)) r1) (goto (new_message (par r2)) r2)"
    using alike_goto [OF a] by (simp add: alike_eqs [OF a])
qed (simp_all add: assms)

lemma alike_headers_done:
  assumes "steady answer" "alike D s r1 r2" "dom (marks r1) = {}"
  shows "alike_step D s (headers_almost_done answer ch r1) (headers_almost_done answer ch r2)"
proof -
  have after: "alike_step D s (after_headers answer r1) (after_headers answer r2)"
    if a: "alike D s r1 r2" "dom (marks r1) = {}" for r1 r2
  proof -
    have "alike_step D s (sbind (emit answer Message_complete r1) Leave) (sbind (emit answer Message_complete r2) Leave)"
      by (rule alike_sbind [OF alike_emit]) (use assms(1) a in \<open>auto dest: emit_Go\<close>)
    then show ?thesis
      by (simp add: after_headers_def Let_def alike_eqs [OF a(1)] alike_complete assms(1) a alike_goto)
  qed
  define q where "q r = (if F_UPGRADE \<in> flags (par (r\<lparr>nread := 0\<rparr>)) \<or> req_method (par (r\<lparr>nread := 0\<rparr>)) = HTTP_CONNECT
     then set_par (\<lambda>P. P\<lparr>upgrade := True\<rparr>) (r\<lparr>nread := 0\<rparr>) else r\<lparr>nread := 0\<rparr>)" for r
  define x where "x r = (q r)\<lparr>events := events (q r) @ [Headers_complete (par (q r))]\<rparr>" for r
  have q: "alike D s (q r1) (q r2)" "dom (marks (q r1)) = {}"
    using assms(2,3) by (simp_all add: q_def alike_eqs [OF assms(2)] alike_updates)
  have x: "alike D s (x r1) (x r2)" "dom (marks (x r1)) = {}"
    using q by (auto simp: x_def alike_def known_quiet heard_append heard_Cons heard_Nil)
  have a: "answer (events (q r2)) (Headers_complete P) = answer (events (q r1)) (Headers_complete P)" for P
    using assms(1) unfolding steady_def by blast
  have s: "alike D s (set_par g (x r1)) (set_par g (x r2))" "alike D s (x r1\<lparr>saved := t1\<rparr>) (x r2\<lparr>saved := t2\<rparr>)" for g t1 t2
    by (intro alike_updates x)+
  show ?thesis
    unfolding headers_almost_done_def strict_check_def Let_def q_def [symmetric] x_def [symmetric] alike_eqs [OF assms(2)]
      alike_eqs [OF q(1)] a
    by (intro alike_if) (use assms x s in \<open>simp_all add: alike_complete after\<close>)
qed

lemma alike_field_start:
  assumes "steady answer" "alike D s r1 r2" "dom (marks r1) = {}"
  shows "alike_step D s (header_field_start answer ch r1) (header_field_start answer ch r2)"
proof -
  have "alike D s (mark Header_field r1) (mark Header_field r2)"
    using assms by (intro alike_mark) auto
  then show ?thesis
    using assms by (simp add: header_field_start_def Let_def alike_goto alike_headers_done alike_updates)
qed

lemma alike_bodies:
  assumes "steady answer" "alike D s r1 r2" "dom (marks r1) = {}"
  shows "alike_step D s (body_identity answer avail r1) (body_identity answer avail r2)"
    "alike_step D s (body_identity_eof avail r1) (body_identity_eof avail r2)"
    "alike_step D s (chunk_size_start ch r1) (chunk_size_start ch r2)" "alike_step D s (chunk_size ch r1) (chunk_size ch r2)"
    "alike_step D s (chunk_parameters ch r1) (chunk_parameters ch r2)"
    "alike_step D s (chunk_size_almost_done ch r1) (chunk_size_almost_done ch r2)"
    "alike_step D s (chunk_data avail r1) (chunk_data avail r2)"
    "alike_step D s s1 s2 \<Longrightarrow> alike_step D s (chunked r1 s1) (chunked r2 s2)"
proof -
  note e = alike_eqs [OF assms(2)]
  have b: "dom (marks (body_data n r1)) = {}" "par (body_data n r) = par r" for n r using assms(3) by (simp_all add: body_data_def)
  show "alike_step D s (body_identity answer avail r1) (body_identity answer avail r2)"
    "alike_step D s (body_identity_eof avail r1) (body_identity_eof avail r2)"
    "alike_step D s (chunk_size_start ch r1) (chunk_size_start ch r2)" "alike_step D s (chunk_size ch r1) (chunk_size ch r2)"
    "alike_step D s (chunk_parameters ch r1) (chunk_parameters ch r2)"
    "alike_step D s (chunk_size_almost_done ch r1) (chunk_size_almost_done ch r2)"
    "alike_step D s (chunk_data avail r1) (chunk_data avail r2)"
    "alike_step D s s1 s2 \<Longrightarrow> alike_step D s (chunked r1 s1) (chunked r2 s2)"
    using assms b
    by (simp_all add: body_identity_def body_identity_eof_def chunk_size_start_def chunk_size_def chunk_parameters_def
        chunk_size_almost_done_def chunk_data_def chunked_def strict_check_def Let_def e alike_complete alike_body_data
        alike_goto alike_updates)
qed

lemma alike_state_step:
  assumes "steady answer" "alike D s r1 r2" "marks_ok r1"
  shows "alike_step D s (step_state answer ch avail r1) (step_state answer ch avail r2)"
proof -
  note e = alike_eqs [OF assms(2)]
  have d: "quiet (state r1) \<Longrightarrow> dom (marks r1) = {}" using assms(3) by (simp add: marks_ok_dom)
  have v: "state r1 = s_header_value \<Longrightarrow> marks r1 Header_field = None"
    using assms(3) by (metis marks_ok_def in_field_value)
  show ?thesis
    using assms d v
    by (cases "state r1") (simp_all add: step_state_def e alike_line alike_method_char alike_url alike_starts alike_field
      alike_value alike_value_start alike_headers_done alike_field_start alike_bodies chunk_states_def)
qed

section \<open>The loop\<close>

lemma alike_byte:
  assumes "steady answer" "alike D s r1 r2" "marks_ok r1"
  shows "alike_step D s (parse_byte answer ch avail r1) (parse_byte answer ch avail r2)"
proof -
  have n: "alike D s (r1\<lparr>nread := i\<rparr>) (r2\<lparr>nread := i\<rparr>)" "marks_ok (r1\<lparr>nread := i\<rparr>)" for i
    using alike_updates [OF assms(2)] assms(3) by (simp_all add: marks_ok_def)
  have p: "parsing_header r2 = parsing_header r1"
    by (simp add: parsing_header_def alike_eqs [OF assms(2)])
  show ?thesis
    unfolding parse_byte_def Let_def p alike_eqs [OF assms(2)]
    by (intro alike_if) (use assms n in \<open>simp_all add: alike_state_step\<close>)
qed

lemma alike_next:
  assumes "alike D s r1 r2" "marks_ok r1" "pos r1 < length D"
    and "\<And>f m. marks r1 f = Some m \<Longrightarrow> m \<le> pos r1" "\<And>f m. marks r2 f = Some m \<Longrightarrow> m \<le> pos r2"
  shows "alike D s (r1\<lparr>pos := Suc (pos r1)\<rparr>) (r2\<lparr>pos := Suc (pos r2)\<rparr>)"
proof -
  have h: "marks r1 Header_field = None \<or> marks r1 Header_value = None"
    by (rule fields_apart) (rule assms)
  have "marks r2 f = None \<longleftrightarrow> marks r1 f = None" for f
    by (rule dom_None) (rule alike_eqs(7) [OF assms(1)])
  then have h2: "marks r2 Header_field = None \<or> marks r2 Header_value = None"
    using h by simp
  have p: "pos r2 < length D" using assms(3) by (simp add: alike_eqs [OF assms(1)])
  have g: "grow1 D r1 = grow1 D r2"
    by (rule grow1_cong) (rule alike_eqs(7) [OF assms(1), symmetric], rule alike_eqs(6) [OF assms(1), symmetric])
  have "known D r1 s = known D r2 s" using assms(1) by (simp add: alike_def)
  then have "known D (r1\<lparr>pos := Suc (pos r1)\<rparr>) s = known D (r2\<lparr>pos := Suc (pos r2)\<rparr>) s"
    using known_next [OF assms(4,3) h] known_next [OF assms(5) p h2] by (simp add: g)
  then show ?thesis using assms(1) by (simp add: alike_def)
qed

lemma marks_ok_pos [simp]: "marks_ok (r\<lparr>pos := i\<rparr>) = marks_ok r"
  by (simp add: marks_ok_def)

lemma loop_byte:
  assumes "pos r < length D"
  shows "exec_loop answer (drop (pos r) D) r = (case parse_byte answer (D ! pos r) (length D - pos r) r of
    Go r' \<Rightarrow> exec_loop answer (drop (pos r' - pos r) (drop (Suc (pos r)) D)) (r'\<lparr>pos := Suc (pos r')\<rparr>) | s \<Rightarrow> s)"
  using assms by (simp add: Cons_nth_drop_Suc [symmetric] Suc_diff_Suc)

text \<open>Two calls that are alike after their next byte are alike after all of the data, if they are from there on.\<close>

lemma after_byte:
  assumes "alike_step D s (parse_byte answer (D ! pos r1) (length D - pos r1) r1) (parse_byte answer (D ! pos r2) (length D - pos r2) r2)"
    and r: "run_ok p1 (length D) es1 r1" "run_ok p2 (length D) es2 r2" and p: "pos r1 < length D" "pos r2 < length D"
    and rest: "\<And>r1' r2'. alike D s r1' r2' \<Longrightarrow> run_ok p1 (length D) es1 r1' \<Longrightarrow> run_ok p2 (length D) es2 r2' \<Longrightarrow>
      pos r2 < pos r2' \<Longrightarrow>
      alike_step D s (exec_loop answer (drop (pos r1') D) r1') (exec_loop answer (drop (pos r2') D) r2')"
  shows "alike_step D s (exec_loop answer (drop (pos r1) D) r1) (exec_loop answer (drop (pos r2) D) r2)"
proof -
  note w1 = step_ok [OF r(1), of "length D - pos r1" answer "D ! pos r1"] and w2 = step_ok [OF r(2), of "length D - pos r2" answer "D ! pos r2"]
  show ?thesis
  proof (cases "parse_byte answer (D ! pos r1) (length D - pos r1) r1")
    case g1: (Go r1')
    then obtain r2' where g2: "parse_byte answer (D ! pos r2) (length D - pos r2) r2 = Go r2'" and a: "alike D s r1' r2'"
      using assms(1) by (cases "parse_byte answer (D ! pos r2) (length D - pos r2) r2") simp_all
    have ok: "run_ok p1 (length D) es1 (r1'\<lparr>pos := Suc (pos r1')\<rparr>)" "pos r1 \<le> pos r1'" "pos r1' < length D"
      "\<And>f m. marks r1' f = Some m \<Longrightarrow> m \<le> pos r1'"
      "run_ok p2 (length D) es2 (r2'\<lparr>pos := Suc (pos r2')\<rparr>)" "pos r2 \<le> pos r2'"
      "\<And>f m. marks r2' f = Some m \<Longrightarrow> m \<le> pos r2'"
      using w1 w2 g1 g2 p by simp_all
    have "marks_ok r1'" using ok(1) by (simp add: run_ok_def)
    then have "alike D s (r1'\<lparr>pos := Suc (pos r1')\<rparr>) (r2'\<lparr>pos := Suc (pos r2')\<rparr>)"
      using a ok by (intro alike_next) auto
    from rest [OF this ok(1,5)] show ?thesis
      using ok(2,6) by (simp add: loop_byte p g1 g2)
  qed (use assms(1) in \<open>cases "parse_byte answer (D ! pos r2) (length D - pos r2) r2"; simp add: loop_byte p\<close>)+
qed

lemma alike_loop:
  assumes "steady answer" "alike D s r1 r2" "run_ok p1 (length D) es1 r1" "run_ok p2 (length D) es2 r2"
  shows "alike_step D s (exec_loop answer (drop (pos r1) D) r1) (exec_loop answer (drop (pos r2) D) r2)"
  using assms(2-)
proof (induction "length D - pos r2" arbitrary: r1 r2 rule: less_induct)
  case less
  have e: "pos r2 = pos r1" by (rule alike_eqs(6) [OF less.prems(1)])
  show ?case
  proof (cases "pos r1 < length D")
    case True
    show ?thesis
    proof (rule after_byte [OF _ less.prems(2,3)])
      show "alike_step D s (parse_byte answer (D ! pos r1) (length D - pos r1) r1) (parse_byte answer (D ! pos r2) (length D - pos r2) r2)"
        unfolding e using less.prems by (intro alike_byte assms(1)) (simp_all add: run_ok_def)
    next
      fix r1' r2' assume a: "alike D s r1' r2'" "run_ok p1 (length D) es1 r1'" "run_ok p2 (length D) es2 r2'" "pos r2 < pos r2'"
      show "alike_step D s (exec_loop answer (drop (pos r1') D) r1') (exec_loop answer (drop (pos r2') D) r2')"
        by (rule less.hyps [OF _ a(1-3)]) (use a(4) True e in simp)
    qed (use True e in simp_all)
  qed (use less.prems(1) e in simp)
qed

lemma alike_continue:
  assumes "steady answer" "run_ok p1 (length D) es1 r1" "run_ok p2 (length D) es2 r2" "pos r1 < length D" "pos r2 < length D"
    and "alike_step D s (parse_byte answer (D ! pos r1) (length D - pos r1) r1) (parse_byte answer (D ! pos r2) (length D - pos r2) r2)"
  shows "alike_step D s (exec_loop answer (drop (pos r1) D) r1) (exec_loop answer (drop (pos r2) D) r2)"
  by (rule after_byte [OF assms(6,2-5)]) (rule alike_loop [OF assms(1)])

end

section \<open>The end of a call and the start of the next\<close>

definition pending :: "run \<Rightarrow> field \<Rightarrow> event list" where
  "pending r f = (case marks r f of None \<Rightarrow> [] | Some m \<Rightarrow> [Data f m (pos r - m)])"

definition flushed :: "run \<Rightarrow> event list" where
  "flushed r = events r @ pending r Header_field @ pending r Header_value @ pending r Fragment @
     pending r Query_string @ pending r Path @ pending r Url"

lemma flush_Go:
  assumes "steady answer"
  shows "flush answer r = Go (r\<lparr>events := flushed r\<rparr>)"
proof -
  have one: "callback_noclear answer f (r\<lparr>events := es\<rparr>) = Go (r\<lparr>events := es @ pending r f\<rparr>)" for f es
    using assms by (simp add: callback_noclear_def emit_def steady_def pending_def split: option.split)
  have "callback_noclear answer f r = Go (r\<lparr>events := events r @ pending r f\<rparr>)" for f
    using one [of f "events r"] by simp
  then show ?thesis by (simp add: flush_def one flushed_def)
qed

text \<open>The state in which the next call begins, when a call ends in \<open>r\<close>.\<close>

definition reenter :: "run \<Rightarrow> run" where
  "reenter r = r\<lparr>events := flushed r, saved := state r,
     marks := \<lambda>f. if in_field f (state r) then Some (pos r) else None\<rparr>"

lemma enter_store:
  assumes "core_ok r"
  shows "enter (store_state (r\<lparr>events := es\<rparr>)) (pos r) (flushed r) = reenter r"
proof -
  have "HTTP_MAX_HEADER_SIZE < 2 ^ 32" by (simp add: HTTP_MAX_HEADER_SIZE_def)
  then have "nread r mod 2 ^ 32 = nread r" "index r mod 2 ^ 8 = index r" using assms by (simp_all add: core_ok_def)
  then show ?thesis by (simp add: enter_def store_state_def reenter_def)
qed

lemma reenter_ok:
  assumes "run_ok p q es r" "pos r = q" "q \<le> q'"
  shows "run_ok q q' (flushed r) (reenter r)"
  using assms by (auto simp: run_ok_def reenter_def core_ok_def marks_ok_def events_ok_def split: if_splits)

lemma run_ok_mono: "run_ok p q es r \<Longrightarrow> q \<le> q' \<Longrightarrow> run_ok p q' es r"
  by (fastforce simp: run_ok_def events_ok_def event_in_def split: event.splits)

context listener begin

lemma heard_flushed: "heard D (flushed r) s = known D r s"
proof -
  have "heard D (pending r f) t = pend1 D r f t" for f t
    by (simp add: pending_def pend1_def heard_Nil heard_Cons split: option.split)
  then show ?thesis by (simp add: flushed_def heard_append known_def)
qed

text \<open>An empty piece after another of the same field makes no difference.\<close>

lemma known_empty:
  assumes "marks r f = Some m" "f \<noteq> Body" "url_part f \<or> marks r Header_field = None \<or> marks r Header_value = None"
  shows "feed f [] (known D r s) = known D r s"
proof -
  have e: "feed g [] (pend1 D r g t) = pend1 D r g t" if "marks r g = Some k" for g k t
    using that feed_append [of g "piece D k (pos r - k)" "[]" t] by (simp add: pend1_def)
  have c: "feed g [] (pend1 D r h t) = pend1 D r h (feed g [] t)" if "url_part g \<or> url_part h" "h \<noteq> g" for g h t
    using that pend1_commute [of h g D r "[]" t] pend1_commute' [of g h D r "[]" t] by auto
  show ?thesis
    using assms by (cases f) (auto simp: known_def c e url_part_def pend1_None)
qed

lemma alike_reenter:
  assumes "marks_ok r"
  shows "alike D s r (reenter r)"
proof -
  have o: "in_field f (state r) \<longleftrightarrow> marks r f \<noteq> None" for f using assms by (simp add: marks_ok_def)
  have h: "marks r Header_field = None \<or> marks r Header_value = None" by (rule fields_apart) (rule assms)
  have p: "pend1 D (reenter r) f t = (if marks r f = None then t else feed f [] t)" for f t
    by (simp add: pend1_def reenter_def o piece_def)
  have k: "pend1 D (reenter r) f (known D r s) = known D r s" if "f \<noteq> Body" for f
    using known_empty [of r f] that h by (cases "marks r f") (auto simp: p)
  have "heard D (events (reenter r)) s = known D r s"
    by (simp add: reenter_def heard_flushed)
  then have "known D (reenter r) s = known D r s"
    by (simp add: known_def [of D "reenter r"] k)
  moreover have "dom (marks (reenter r)) = dom (marks r)"
    by (auto simp: reenter_def o split: if_splits)
  ultimately show ?thesis by (simp add: alike_def) (simp add: reenter_def)
qed


text \<open>How many bytes the data still has matters in the states that read a body.\<close>

definition body_states :: "state set" where
  "body_states = {s_body_identity, s_body_identity_eof, s_chunk_data}"

lemma avail_other: "state r \<notin> body_states \<Longrightarrow> parse_byte answer ch a r = parse_byte answer ch b r"
  by (cases "state r") (simp_all add: parse_byte_def step_state_def body_states_def Let_def)

lemma body_parse: "state r \<in> body_states \<Longrightarrow> parse_byte answer ch a r = step_state answer ch a r"
  by (auto simp: parse_byte_def parsing_header_def body_states_def)

lemma body_fields: "state r \<in> body_states \<Longrightarrow> \<not> in_field f (state r)"
  by (cases f) (auto simp: body_states_def url_states_def)

text \<open>A piece of a body that is read in two calls.\<close>

definition piece_read :: "nat \<Rightarrow> http_fields \<Rightarrow> run \<Rightarrow> run" where
  "piece_read n P r = (body_data n r)\<lparr>par := P\<rparr>"

lemma alike_span:
  assumes "dom (marks r) = {}" "state r \<in> body_states" "0 < a" "0 < k"
  shows "alike D s (piece_read (a + k) P r) (piece_read k P (reenter ((piece_read a P' r)\<lparr>pos := pos r + a\<rparr>)))"
proof -
  have m: "marks r f = None" for f using assms(1) by auto
  have e: "reenter ((piece_read a P' r)\<lparr>pos := pos r + a\<rparr>) =
      r\<lparr>par := P', events := events r @ [Data Body (pos r) a], saved := state r, marks := Map.empty, pos := pos r + a\<rparr>"
    using body_fields [OF assms(2)] by (simp add: reenter_def piece_read_def body_data_def flushed_def pending_def m)
  have "piece D (pos r) (a + k) = piece D (pos r) a @ piece D (pos r + a) k"
    by (simp add: piece_def take_add add.commute)
  then have "heard D [Data Body (pos r) (a + k)] t = heard D [Data Body (pos r) a, Data Body (pos r + a) k] t" for t
    by (simp add: heard_def feed_append)
  then show ?thesis
    using assms(1,3,4) unfolding e
    by (simp add: alike_def piece_read_def body_data_def known_quiet heard_append)
qed


lemma body_data_read: "set_par g (body_data n r) = piece_read n (g (par r)) r"
  by (simp add: set_par_def piece_read_def body_data_def)

lemma span_identity:
  assumes r: "dom (marks r) = {}" "state r = s_body_identity" and ab: "0 < a" "0 < b" and st: "steady answer"
    and g: "body_identity answer a r = Go r'"
  shows "body_identity answer (a + b) r = Go r' \<or> Suc (pos r') = pos r + a \<and> state r' = state r \<and>
    alike_step D s (body_identity answer (a + b) r) (body_identity answer b (reenter (r'\<lparr>pos := pos r + a\<rparr>)))"
proof (cases "content_length (par r) \<le> int a")
  case True
  then show ?thesis using g ab by (simp add: body_identity_def min_absorb2)
next
  case False
  define cl where "cl = content_length (par r)"
  define k where "k = nat (min (int b) (cl - int a))"
  define P where "P n = (par r)\<lparr>content_length := cl - int n\<rparr>" for n
  have k: "0 < k" "int k = min (int b) (cl - int a)" using False ab by (simp_all add: k_def cl_def)
  have r': "r' = piece_read a (P a) r"
    using g False ab by (simp add: body_identity_def body_data_read P_def cl_def Let_def split: if_splits) (simp add: piece_read_def)
  define rb where "rb = reenter (r'\<lparr>pos := pos r + a\<rparr>)"
  have "state r \<in> body_states" using r(2) by (simp add: body_states_def)
  then have al: "alike D s (piece_read (a + k) (P (a + k)) r) (piece_read k (P (a + k)) rb)"
    unfolding rb_def r' by (rule alike_span [OF r(1) _ ab(1) k(1)])
  have pb: "par rb = P a" by (simp add: rb_def r' reenter_def piece_read_def)
  have one: "body_identity answer m q = (if cl = int (n + i) then complete answer (piece_read n (P (n + i)) q)
      else Go (piece_read n (P (n + i)) q))"
    if "par q = P i" "0 < n" "min (int m) (cl - int i) = int n" for m n i q
  proof -
    have t: "min (int m) (content_length (par q)) = int n" and p: "(\<lambda>P. P\<lparr>content_length := content_length P - int n\<rparr>) (par q) = P (n + i)"
      using that by (simp_all add: P_def algebra_simps)
    have c: "content_length (par (piece_read n (P (n + i)) q)) = 0 \<longleftrightarrow> cl = int (n + i)"
      by (simp add: piece_read_def P_def)
    show ?thesis
      unfolding body_identity_def body_data_read Let_def t nat_int p c using that(2) by simp
  qed
  have A: "body_identity answer (a + b) r = (if cl = int (a + k) then complete answer (piece_read (a + k) (P (a + k)) r)
      else Go (piece_read (a + k) (P (a + k)) r))"
    using one [of r 0 "a + k" "a + b"] k ab by (simp add: P_def cl_def min_def split: if_splits)
  have B: "body_identity answer b rb = (if cl = int (a + k) then complete answer (piece_read k (P (a + k)) rb)
      else Go (piece_read k (P (a + k)) rb))"
    using one [of rb a k b] k pb by (simp add: add.commute)
  have "dom (marks (piece_read (a + k) (P (a + k)) r)) = {}" using r(1) by (simp add: piece_read_def body_data_def)
  then have "alike_step D s (body_identity answer (a + b) r) (body_identity answer b rb)"
    unfolding A B using al by (simp add: alike_complete st)
  moreover have "Suc (pos r') = pos r + a \<and> state r' = state r" using ab by (simp add: r' piece_read_def body_data_def)
  ultimately show ?thesis by (simp add: rb_def)
qed


lemma span_eof:
  assumes r: "dom (marks r) = {}" "state r = s_body_identity_eof" and ab: "0 < a" "0 < b"
    and g: "body_identity_eof a r = Go r'"
  shows "Suc (pos r') = pos r + a \<and> state r' = state r \<and>
    alike_step D s (body_identity_eof (a + b) r) (body_identity_eof b (reenter (r'\<lparr>pos := pos r + a\<rparr>)))"
proof -
  have one: "body_identity_eof m q = Go (piece_read m (par q) q)" if "0 < m" for m q
    using that by (simp add: body_identity_eof_def piece_read_def body_data_def)
  have r': "r' = piece_read a (par r) r" using g one [OF ab(1), of r] by simp
  have "state r \<in> body_states" using r(2) by (simp add: body_states_def)
  then have "alike D s (piece_read (a + b) (par r) r) (piece_read b (par r) (reenter (r'\<lparr>pos := pos r + a\<rparr>)))"
    unfolding r' by (rule alike_span [OF r(1) _ ab])
  moreover have "par (reenter (r'\<lparr>pos := pos r + a\<rparr>)) = par r" by (simp add: reenter_def r' piece_read_def)
  ultimately show ?thesis using ab by (simp add: one) (simp add: r' piece_read_def body_data_def)
qed

lemma span_chunk:
  assumes r: "dom (marks r) = {}" "state r = s_chunk_data" and ab: "0 < a" "0 < b" and st: "steady answer"
    and g: "chunk_data a r = Go r'"
  shows "chunk_data (a + b) r = Go r' \<or> Suc (pos r') = pos r + a \<and> state r' = state r \<and>
    alike_step D s (chunk_data (a + b) r) (chunk_data b (reenter (r'\<lparr>pos := pos r + a\<rparr>)))"
proof (cases "content_length (par r) \<le> int a")
  case True
  then show ?thesis using g ab by (simp add: chunk_data_def min_absorb2)
next
  case False
  define cl where "cl = content_length (par r)"
  define k where "k = nat (min (int b) (cl - int a))"
  define P where "P n = (par r)\<lparr>content_length := cl - int n\<rparr>" for n
  have k: "0 < k" "int k = min (int b) (cl - int a)" using False ab by (simp_all add: k_def cl_def)
  define fin where "fin n q = (if cl = int n then q\<lparr>state := s_chunk_data_almost_done\<rparr> else q)" for n and q :: run
  have one: "chunk_data m q = chunked q (Go (fin (n + i) (piece_read n (P (n + i)) q)))"
    if "par q = P i" "0 < n" "min (int m) (cl - int i) = int n" for m n i q
  proof -
    have t: "min (int m) (content_length (par q)) = int n" and p: "(par q)\<lparr>content_length := content_length (par q) - int n\<rparr> = P (n + i)"
      using that by (simp_all add: P_def algebra_simps)
    have c: "int n = content_length (par (body_data n q)) \<longleftrightarrow> cl = int (n + i)"
      using that(1) by (auto simp: P_def body_data_def)
    have u: "x\<lparr>par := f, state := t\<rparr> = x\<lparr>state := t, par := f\<rparr>" for x :: run and f t
      by simp
    show ?thesis
      unfolding chunk_data_def Let_def t nat_int using that(2) c p
      by (simp add: fin_def set_par_def piece_read_def u) (simp add: body_data_def)
  qed
  have ch: "F_CHUNKED \<in> flags (par r)"
    using g by (simp add: chunk_data_def chunked_def split: if_splits)
  have A: "chunk_data (a + b) r = Go (fin (a + k) (piece_read (a + k) (P (a + k)) r))"
    using one [of r 0 "a + k" "a + b"] k ab ch by (simp add: P_def cl_def min_def chunked_def split: if_splits)
  have r': "r' = piece_read a (P a) r"
    using g one [of r 0 a a] False ab ch by (simp add: P_def cl_def chunked_def fin_def)
  define rb where "rb = reenter (r'\<lparr>pos := pos r + a\<rparr>)"
  have "state r \<in> body_states" using r(2) by (simp add: body_states_def)
  then have al: "alike D s (piece_read (a + k) (P (a + k)) r) (piece_read k (P (a + k)) rb)"
    unfolding rb_def r' by (rule alike_span [OF r(1) _ ab(1) k(1)])
  have pb: "par rb = P a" by (simp add: rb_def r' reenter_def piece_read_def)
  then have B: "chunk_data b rb = Go (fin (a + k) (piece_read k (P (a + k)) rb))"
    using one [of rb a k b] k ch by (simp add: add.commute chunked_def P_def)
  have "alike_step D s (chunk_data (a + b) r) (chunk_data b rb)"
    unfolding A B using al by (simp add: fin_def alike_updates)
  moreover have "Suc (pos r') = pos r + a \<and> state r' = state r" using ab by (simp add: r' piece_read_def body_data_def)
  ultimately show ?thesis by (simp add: rb_def)
qed

lemma body_avail:
  assumes "marks_ok r" "state r \<in> body_states" "0 < a" "0 < b" "steady answer" "parse_byte answer ch a r = Go r'"
  shows "parse_byte answer ch (a + b) r = Go r' \<or> Suc (pos r') = pos r + a \<and>
    alike_step D s (parse_byte answer ch (a + b) r) (parse_byte answer y b (reenter (r'\<lparr>pos := pos r + a\<rparr>)))"
proof -
  have d: "dom (marks r) = {}"
    using assms(1) body_fields [OF assms(2)] by (auto simp: marks_ok_def)
  have q: "state (reenter (r'\<lparr>pos := pos r + a\<rparr>)) = state r'" by (simp add: reenter_def)
  consider "state r = s_body_identity" | "state r = s_body_identity_eof" | "state r = s_chunk_data"
    using assms(2) by (auto simp: body_states_def)
  then show ?thesis
  proof cases
    case 1
    show ?thesis
      using span_identity [OF d 1 assms(3-5), of r' D s] assms(6) 1 q
      by (auto simp: body_parse body_states_def step_state_def)
  next
    case 2
    show ?thesis
      using span_eof [OF d 2 assms(3,4), of r' D s] assms(6) 2 q
      by (auto simp: body_parse body_states_def step_state_def)
  next
    case 3
    show ?thesis
      using span_chunk [OF d 3 assms(3-5), of r' D s] assms(6) 3 q
      by (auto simp: body_parse body_states_def step_state_def)
  qed
qed


lemma split_loop:
  assumes "steady answer" "exec_loop answer xs r = Go r2" "drop (pos r) D = xs @ ys" "ys \<noteq> []"
    and "run_ok p (pos r + length xs) es r"
  shows "alike_step D s (exec_loop answer (xs @ ys) r) (exec_loop answer ys (reenter r2))"
  using assms(2-)
proof (induction "length xs" arbitrary: xs r rule: less_induct)
  case less
  have len: "length D = pos r + length xs + length ys"
    using less.prems(2,3) length_drop [of "pos r" D] by (cases "pos r < length D") auto
  have ok: "run_ok p (length D) es r" by (rule run_ok_mono [OF less.prems(4)]) (simp add: len)
  have ok2: "run_ok (pos r + length xs) (length D) (flushed r2) (reenter r2)" "pos r2 = pos r + length xs"
    using exec_loop_ok [OF less.prems(4) refl, of answer] less.prems(1) reenter_ok [of p "pos r + length xs" es r2 "length D"] len
    by simp_all
  show ?case
  proof (cases xs)
    case Nil
    then have "r2 = r" "drop (pos r) D = ys" using less.prems(1,2) by simp_all
    moreover have "alike D s r (reenter r)" by (rule alike_reenter) (use ok in \<open>simp add: run_ok_def\<close>)
    ultimately show ?thesis
      using alike_loop [OF assms(1) _ ok, of s "reenter r2"] ok2 Nil by (simp add: reenter_def)
  next
    case (Cons ch rest)
    define a where "a = Suc (length rest)"
    obtain r' where g: "parse_byte answer ch a r = Go r'"
      and l: "exec_loop answer (drop (pos r' - pos r) rest) (r'\<lparr>pos := Suc (pos r')\<rparr>) = Go r2"
      using less.prems(1) Cons by (cases "parse_byte answer ch a r") (simp_all add: a_def)
    have r': "run_ok p (pos r + length xs) es (r'\<lparr>pos := Suc (pos r')\<rparr>)" "pos r \<le> pos r'" "pos r' < pos r + a"
      using step_ok [OF less.prems(4), of a answer ch] g Cons by (simp_all add: a_def)
    show ?thesis
    proof (cases "parse_byte answer ch (a + length ys) r = Go r'")
      case True
      define k where "k = pos r' - pos r"
      have k: "k \<le> length rest" "Suc (pos r') + length (drop k rest) = pos r + length xs"
        using r'(2,3) Cons by (auto simp: k_def a_def)
      have "drop (Suc (pos r')) D = drop k rest @ ys"
        using arg_cong [OF less.prems(2), of "drop (Suc k)"] r'(2) k(1) Cons by (simp add: k_def)
      then have "alike_step D s (exec_loop answer (drop k rest @ ys) (r'\<lparr>pos := Suc (pos r')\<rparr>)) (exec_loop answer ys (reenter r2))"
        using less.hyps [of "drop k rest" "r'\<lparr>pos := Suc (pos r')\<rparr>"] l r'(1) k less.prems(3) Cons by (simp add: k_def [symmetric])
      then show ?thesis
        using True k(1) Cons by (simp add: a_def k_def [symmetric])
    next
      case False
      have b: "state r \<in> body_states" using False g avail_other [of r answer ch a "a + length ys"] by auto
      obtain y yt where y: "ys = y # yt" using less.prems(3) by (cases ys) auto
      have "Suc (pos r') = pos r + a"
        and al: "alike_step D s (parse_byte answer ch (a + length ys) r) (parse_byte answer y (length ys) (reenter (r'\<lparr>pos := pos r + a\<rparr>)))"
        using body_avail [OF _ b _ _ assms(1) g, of "length ys" D s y] False ok less.prems(3) by (auto simp: run_ok_def a_def)
      then have r2: "r2 = r'\<lparr>pos := pos r + a\<rparr>" using l by (simp add: a_def)
      have al2: "alike_step D s (parse_byte answer ch (a + length ys) r) (parse_byte answer y (length ys) (reenter r2))"
        using al by (simp only: r2)
      have "drop (pos r2) D = ys"
        using arg_cong [OF less.prems(2), of "drop a"] Cons by (simp add: r2 a_def add.commute)
      moreover from this have "D ! pos r2 = y"
        using hd_drop_conv_nth [of "pos r2" D] y ok2(2) len by simp
      moreover have "D ! pos r = ch"
        using hd_drop_conv_nth [of "pos r" D] less.prems(2) Cons len by simp
      moreover have "pos (reenter r2) = pos r2" by (simp add: reenter_def)
      ultimately      show ?thesis
        using alike_continue [OF assms(1) ok ok2(1), of s] al2 ok2(2) len less.prems(2,3) Cons
        by (simp add: a_def)
    qed
  qed
qed

end

context listener begin

text \<open>A call with all of the data, and two calls, the first of which takes all of its piece.\<close>

lemma first_call:
  assumes "steady answer" "parser_ok P" "xs \<noteq> []" "execute answer P xs 0 es = Return (P1, length xs, es1)"
  shows "\<exists>r. exec_loop answer xs (enter P 0 es) = Go r \<and> run_ok 0 (length xs) es r \<and> pos r = length xs \<and>
    enter P1 (length xs) es1 = reenter r"
proof -
  have w: "wp (\<lambda>r. run_ok 0 (length xs) es r \<and> pos r = length xs) (left_ok 0 0 (length xs) es) (exec_loop answer xs (enter P 0 es))"
    by (rule exec_loop_ok [OF enter_ok [OF assms(2)]]) (simp_all add: enter_def)
  have x: "execute_data answer P xs 0 es = Return (P1, length xs, es1)" using assms(3,4) by (simp add: execute_def)
  show ?thesis
  proof (cases "exec_loop answer xs (enter P 0 es)")
    case (Go r)
    then have r: "run_ok 0 (length xs) es r" "pos r = length xs" using w by simp_all
    have "P1 = store_state (r\<lparr>events := flushed r\<rparr>)" "es1 = flushed r"
      using x Go by (auto simp: execute_data_def flush_Go [OF assms(1)])
    then show ?thesis using Go r enter_store [of r "flushed r"] by (simp add: run_ok_def)
  qed (use w x in \<open>simp_all add: execute_data_def left_ok_def spans_ok_def\<close>)
qed

lemma two_calls:
  assumes "steady answer" "parser_ok P" "xs \<noteq> []" "ys \<noteq> []" "execute answer P xs 0 es = Return (P1, length xs, es1)"
  shows "case execute answer P1 ys (length xs) es1 of
      Return (P2, n, es2) \<Rightarrow> \<exists>P' es'. execute answer P (xs @ ys) 0 es = Return (P', length xs + n, es') \<and>
        msg P' = msg P2 \<and> (n = length ys \<longrightarrow> P' = P2) \<and>
        (n = length ys \<or> pstate P2 \<noteq> s_dead \<longrightarrow> heard (xs @ ys) es' s = heard (xs @ ys) es2 s)
    | x \<Rightarrow> execute answer P (xs @ ys) 0 es = x"
proof -
  let ?D = "xs @ ys"
  obtain r where r: "exec_loop answer xs (enter P 0 es) = Go r" "run_ok 0 (length xs) es r" "pos r = length xs"
    "enter P1 (length xs) es1 = reenter r"
    using first_call [OF assms(1-3,5)] by blast
  define A where "A = exec_loop answer ?D (enter P 0 es)"
  define B where "B = exec_loop answer ys (reenter r)"
  have al: "alike_step ?D s A B"
    unfolding A_def B_def by (rule split_loop [OF assms(1) r(1)]) (use assms(4) enter_ok [OF assms(2), of 0 "length xs" es] in \<open>simp_all add: enter_def\<close>)
  have w: "wp (\<lambda>r'. run_ok (length xs) (length ?D) (flushed r) r' \<and> pos r' = length ?D)
      (left_ok (length xs) (length xs) (length ?D) (flushed r)) B"
    unfolding B_def using r(3) by (intro exec_loop_ok reenter_ok [OF r(2,3)]) (simp_all add: reenter_def)
  have a: "execute answer P ?D 0 es = (case sbind A (flush answer) of
        Go r \<Rightarrow> Return (store_state r, length ?D, events r)
      | Leave r \<Rightarrow> Return (P\<lparr>msg := par r, pstate := saved r\<rparr>, pos r - 0, events r)
      | Fail r \<Rightarrow> Return (P\<lparr>msg := par r, pstate := s_dead\<rparr>, pos r - 0, events r)
      | Assertion \<Rightarrow> Abort | Read_past \<Rightarrow> Overrun)"
    using assms(3) by (simp add: execute_def execute_data_def A_def)
  have b: "execute answer P1 ys (length xs) es1 = (case sbind B (flush answer) of
        Go r \<Rightarrow> Return (store_state r, length ys, events r)
      | Leave r \<Rightarrow> Return (P1\<lparr>msg := par r, pstate := saved r\<rparr>, pos r - length xs, events r)
      | Fail r \<Rightarrow> Return (P1\<lparr>msg := par r, pstate := s_dead\<rparr>, pos r - length xs, events r)
      | Assertion \<Rightarrow> Abort | Read_past \<Rightarrow> Overrun)"
    using assms(4) by (simp add: execute_def execute_data_def B_def r(4))
  show ?thesis
  proof (cases B)
    case (Go rb)
    then obtain ra where ra: "A = Go ra" "alike ?D s ra rb" using al by (cases A) simp_all
    have "store_state (ra\<lparr>events := flushed ra\<rparr>) = store_state (rb\<lparr>events := flushed rb\<rparr>)"
      by (simp add: store_state_def alike_eqs [OF ra(2)])
    moreover have "heard ?D (flushed ra) s = heard ?D (flushed rb) s"
      using ra(2) by (simp add: heard_flushed alike_def)
    ultimately show ?thesis
      by (simp add: a b Go ra(1) flush_Go [OF assms(1)])
  next
    case (Leave rb)
    then obtain ra where ra: "A = Leave ra" "alike ?D s ra rb" "dom (marks ra) = {}" using al by (cases A) simp_all
    have d: "dom (marks rb) = {}" using alike_eqs(7) [OF ra(2)] ra(3) by simp
    have "heard ?D (events ra) s = heard ?D (events rb) s"
      using ra(2) by (simp add: alike_def known_quiet d ra(3))
    moreover have "length xs \<le> pos rb" "pos rb < length ?D" using w Leave by (simp_all add: left_ok_def spans_ok_def)
    ultimately show ?thesis
      using alike_eqs [OF ra(2)] by (auto simp: a b Leave ra(1))
  next
    case (Fail rb)
    then obtain ra where ra: "A = Fail ra" "alike ?D s ra rb" using al by (cases A) simp_all
    moreover have "length xs \<le> pos rb" "pos rb < length ?D" using w Fail by (simp_all add: left_ok_def spans_ok_def)
    ultimately show ?thesis
      using alike_eqs [OF ra(2)] by (auto simp: a b Fail)
  next
    case Assertion
    then show ?thesis using al by (cases A) (simp_all add: a b)
  next
    case Read_past
    then show ?thesis using al by (cases A) (simp_all add: a b)
  qed
qed

end

end
