(* ===== verification/HttpMessages.thy ===== *)
theory HttpMessages
  imports HttpStream
begin

text \<open>
  The callbacks that \<open>lib/http.js\<close> installs on a parser, as a listener of theory HttpStream, and the
  independence of what it understands from the division of the data into calls.
\<close>

section \<open>The listener of \<open>lib/http.js\<close>\<close>

text \<open>
  The object \<open>incoming\<close> and the fields \<open>field\<close> and \<open>value\<close> of the parser of \<open>lib/http.js\<close>, as bytes:
  the code decodes each piece on its own with \<open>toString('ascii')\<close>. \<open>body\<close> joins the pieces of the
  \<open>data\<close> events, and \<open>earlier\<close> holds the messages before the one that is being received.
\<close>

record incoming =
  url :: "u8 list"
  headers :: "(u8 list \<times> u8 list) list"
  trailers :: "(u8 list \<times> u8 list) list"
  info :: "http_fields option"
  body :: "u8 list"
  complete_flag :: bool

record js_parser =
  incoming :: incoming
  earlier :: "incoming list"
  cur_field :: "u8 list option"
  cur_value :: "u8 list option"

definition new_incoming :: incoming where
  "new_incoming = \<lparr>url = [], headers = [], trailers = [], info = None, body = [], complete_flag = False\<rparr>"

definition to_lower_case :: "u8 list \<Rightarrow> u8 list" where
  "to_lower_case = map (\<lambda>c. if byte CHR ''A'' \<le> c \<and> c \<le> byte CHR ''Z'' then c + 32 else c)"

definition add_header_line :: "u8 list \<Rightarrow> u8 list \<Rightarrow> incoming \<Rightarrow> incoming" where
  "add_header_line f v m =
     (if complete_flag m then m\<lparr>trailers := trailers m @ [(f, v)]\<rparr> else m\<lparr>headers := headers m @ [(f, v)]\<rparr>)"

definition on_url :: "u8 list \<Rightarrow> js_parser \<Rightarrow> js_parser" where
  "on_url b p = p\<lparr>incoming := (incoming p)\<lparr>url := url (incoming p) @ b\<rparr>\<rparr>"

definition on_header_field :: "u8 list \<Rightarrow> js_parser \<Rightarrow> js_parser" where
  "on_header_field b p =
     (let p1 = (case cur_value p of
                  Some v \<Rightarrow> p\<lparr>incoming := add_header_line (case cur_field p of None \<Rightarrow> [] | Some f \<Rightarrow> f) v (incoming p),
                             cur_field := None, cur_value := None\<rparr>
                | None \<Rightarrow> p)
      in p1\<lparr>cur_field := Some ((case cur_field p1 of None \<Rightarrow> [] | Some f \<Rightarrow> f) @ to_lower_case b)\<rparr>)"

definition on_header_value :: "u8 list \<Rightarrow> js_parser \<Rightarrow> js_parser" where
  "on_header_value b p = p\<lparr>cur_value := Some ((case cur_value p of None \<Rightarrow> [] | Some v \<Rightarrow> v) @ b)\<rparr>"

definition on_body :: "u8 list \<Rightarrow> js_parser \<Rightarrow> js_parser" where
  "on_body b p = p\<lparr>incoming := (incoming p)\<lparr>body := body (incoming p) @ b\<rparr>\<rparr>"

fun js_data :: "field \<Rightarrow> u8 list \<Rightarrow> js_parser \<Rightarrow> js_parser" where
  "js_data Url = on_url"
| "js_data Header_field = on_header_field"
| "js_data Header_value = on_header_value"
| "js_data Body = on_body"
| "js_data _ = (\<lambda>_ p. p)"

text \<open>\<open>if (parser.field && parser.value != undefined)\<close>: an empty name counts as none.\<close>

definition last_line :: "js_parser \<Rightarrow> (u8 list \<times> u8 list) option" where
  "last_line p = (case (cur_field p, cur_value p) of (Some f, Some v) \<Rightarrow> if f = [] then None else Some (f, v) | _ \<Rightarrow> None)"

definition on_headers_complete :: "http_fields \<Rightarrow> js_parser \<Rightarrow> js_parser" where
  "on_headers_complete P p =
     (let p1 = (case last_line p of
                  Some (f, v) \<Rightarrow> p\<lparr>incoming := add_header_line f v (incoming p), cur_field := None, cur_value := None\<rparr>
                | None \<Rightarrow> p)
      in p1\<lparr>incoming := (incoming p1)\<lparr>info := Some P\<rparr>\<rparr>)"

definition on_message_complete :: "js_parser \<Rightarrow> js_parser" where
  "on_message_complete p =
     (let m = (incoming p)\<lparr>complete_flag := True\<rparr>
      in p\<lparr>incoming := (case last_line p of Some (f, v) \<Rightarrow> add_header_line f v m | None \<Rightarrow> m)\<rparr>)"

definition on_message_begin :: "js_parser \<Rightarrow> js_parser" where
  "on_message_begin p =
     p\<lparr>incoming := new_incoming, earlier := earlier p @ [incoming p], cur_field := None, cur_value := None\<rparr>"

fun js_event :: "event \<Rightarrow> js_parser \<Rightarrow> js_parser" where
  "js_event Message_begin = on_message_begin"
| "js_event (Headers_complete P) = on_headers_complete P"
| "js_event Message_complete = on_message_complete"
| "js_event (Data f m n) = (\<lambda>p. p)"

interpretation js: listener js_data js_event
proof
  show "js_data f (a @ b) p = js_data f b (js_data f a p)" for f a b p
    by (cases f; cases "cur_value p"; cases "cur_field p")
      (simp_all add: on_url_def on_header_field_def on_header_value_def on_body_def to_lower_case_def)
  show "js_data f a (js_data g b p) = js_data g b (js_data f a p)" if "url_part f" "f \<noteq> g" for f g a b p
    using that by (cases f; cases g; cases "cur_value p"; cases "cur_field p")
      (simp_all add: url_part_def on_url_def on_header_field_def on_header_value_def on_body_def add_header_line_def)
qed

text \<open>What \<open>lib/http.js\<close> makes of the callbacks of the calls on the data \<open>D\<close>.\<close>

fun js_callback :: "u8 list \<Rightarrow> event \<Rightarrow> js_parser \<Rightarrow> js_parser" where
  "js_callback D (Data f m n) p = js_data f (piece D m n) p"
| "js_callback D e p = js_event e p"

definition understood :: "u8 list \<Rightarrow> event list \<Rightarrow> js_parser \<Rightarrow> js_parser" where
  "understood D es p = fold (js_callback D) es p"

lemma heard_understood: "js.heard = understood"
proof (intro ext)
  fix D es p
  have "js.hear D e = js_callback D e" for e by (cases e) (simp_all add: fun_eq_iff)
  then have "js.hear D = js_callback D" by (rule ext)
  then show "js.heard D es p = understood D es p" by (simp add: js.heard_def understood_def)
qed

section \<open>Properties\<close>


text \<open>A request line of which the name of the resource is cut in two.\<close>

definition no_messages :: js_parser where
  "no_messages = \<lparr>incoming = new_incoming, earlier = [], cur_field = None, cur_value = None\<rparr>"


section \<open>Methods\<close>

text \<open>
  Every method is recognised from its name and the space behind it.\<close>

theorem methods_recognised:
  "\<exists>Q. execute (\<lambda>_ _. 0) (init_parser HTTP_REQUEST P) (map byte (method_string m @ '' '')) 0 [] =
      Return (Q, Suc (length (method_string m)), [Message_begin]) \<and>
    pstate Q = s_req_spaces_before_url \<and> req_method (msg Q) = m"
  by (cases m) (simp_all add: run_simps)

lemma length_6: "length w = 6 \<Longrightarrow> \<exists>a b c d e f. w = [a, b, c, d, e, f]"
  by (auto simp: length_Suc_conv numeral_eq_Suc)

text \<open>
  \<open>CONNECT\<close> is not compared with the letters after its first: any word of seven letters that begins
  with C, unless it goes on as CHECKOUT or COPY do, is taken for it. With a longer word the parser
  reads past the end of the string it compares with.\<close>

theorem connect_unchecked:
  assumes "length w = 6" "0 \<notin> set w" "w ! 0 \<noteq> byte CHR ''H''" "w ! 1 \<noteq> byte CHR ''P''"
  shows "(\<exists>Q. execute (\<lambda>_ _. 0) (init_parser HTTP_REQUEST P) (byte CHR ''C'' # w @ [byte CHR '' '']) 0 [] = Return (Q, 8, [Message_begin]) \<and>
      pstate Q = s_req_spaces_before_url \<and> req_method (msg Q) = HTTP_CONNECT) \<and>
    (x \<notin> {0, byte CHR '' ''} \<longrightarrow> y \<noteq> 0 \<longrightarrow>
      execute (\<lambda>_ _. 0) (init_parser HTTP_REQUEST P) (byte CHR ''C'' # w @ [x, y]) 0 [] = Overrun)"
proof -
  obtain a b c d e f where w: "w = [a, b, c, d, e, f]" using length_6 [OF assms(1)] by blast
  then have z: "a \<noteq> 0" "b \<noteq> 0" "c \<noteq> 0" "d \<noteq> 0" "e \<noteq> 0" "f \<noteq> 0" "a \<noteq> byte CHR ''H''" "b \<noteq> byte CHR ''P''"
    using assms(2-) by auto
  then show ?thesis
    unfolding w by (simp add: run_simps)
qed

text \<open>\<open>CABBAGE\<close> and \<open>CABBAGES\<close>.\<close>

lemma connect_unchecked_witness:
  "(\<exists>Q. execute (\<lambda>_ _. 0) (init_parser HTTP_REQUEST idle_parser) (map byte ''CABBAGE '') 0 [] = Return (Q, 8, [Message_begin]) \<and>
      pstate Q = s_req_spaces_before_url \<and> req_method (msg Q) = HTTP_CONNECT) \<and>
   execute (\<lambda>_ _. 0) (init_parser HTTP_REQUEST idle_parser) (map byte ''CABBAGES '') 0 [] = Overrun"
  using connect_unchecked [of "map byte ''ABBAGE''" idle_parser "byte CHR ''S''" "byte CHR '' ''"] by simp

end
