(* ===== verification/HttpBinding.thy ===== *)
theory HttpBinding
  imports HttpMessages BufferOps Watchers
begin

text \<open>
  The class \<open>Parser\<close> of \<open>src/node_http_parser.cc\<close>, which JavaScript calls with a Buffer and which
  calls JavaScript back with positions in it. What a callback does is a parameter: \<open>replies\<close> gives,
  from the callbacks made before it, what JavaScript answers to a callback.
\<close>

section \<open>Callbacks\<close>

datatype reply = Not_a_function | Threw | Returned js_value

type_synonym replies = "event list \<Rightarrow> event \<Rightarrow> reply"

text \<open>What \<open>DEFINE_HTTP_CB\<close>, \<open>DEFINE_HTTP_DATA_CB\<close> and \<open>on_headers_complete\<close> return to the parser.\<close>

fun callback_result :: "event \<Rightarrow> reply \<Rightarrow> int" where
  "callback_result e Not_a_function = 0"
| "callback_result e Threw = -1"
| "callback_result (Headers_complete P) (Returned v) = (if v = JBool True then 1 else 0)"
| "callback_result e (Returned v) = 0"

definition answers_of :: "replies \<Rightarrow> answers" where
  "answers_of replies es e = callback_result e (replies es e)"

text \<open>Whether one of the callbacks made since \<open>old\<close> threw: \<open>got_exception_\<close> at the end of the call.\<close>

fun any_threw :: "replies \<Rightarrow> event list \<Rightarrow> event list \<Rightarrow> bool" where
  "any_threw replies old [] \<longleftrightarrow> False"
| "any_threw replies old (e # new) \<longleftrightarrow> replies old e = Threw \<or> any_threw replies (old @ [e]) new"

text \<open>The arguments of a callback, and the properties of the object of \<open>onHeadersComplete\<close>.\<close>

definition js_str :: "string \<Rightarrow> js_value" where
  "js_str s = JString (map ucast (cstr s))"

definition method_to_str :: "http_method \<Rightarrow> js_value" where
  "method_to_str m = js_str (method_string m)"

definition message_info :: "http_fields \<Rightarrow> (string \<times> js_value) list" where
  "message_info P =
     (if ptype P = HTTP_REQUEST then [(''method'', method_to_str (req_method P))] else []) @
     (if ptype P = HTTP_RESPONSE then [(''statusCode'', jint (int (status_code P)))] else []) @
     [(''versionMajor'', jint (int (http_major P))),
      (''versionMinor'', jint (int (http_minor P))),
      (''shouldKeepAlive'', JBool (should_keep_alive P)),
      (''upgrade'', JBool (upgrade P))]"

datatype callback_arg = Plain js_value | Info "(string \<times> js_value) list"

fun callback_args :: "js_value \<Rightarrow> event \<Rightarrow> callback_arg list" where
  "callback_args buffer (Data f m n) = [Plain buffer, Plain (jint (int m)), Plain (jint (int n))]"
| "callback_args buffer (Headers_complete P) = [Info (message_info P)]"
| "callback_args buffer _ = []"

section \<open>The methods\<close>

record parser_object = wrap +
  got_exception :: bool
  hparser :: parser

definition parser_init :: "http_type \<Rightarrow> parser_object \<Rightarrow> parser_object" where
  "parser_init t p = p\<lparr>hparser := init_parser t (hparser p)\<rparr>"

definition request_or_response :: string where
  "request_or_response = [CHR 0x27] @ ''request'' @ [CHR 0x27] @ '' or '' @ [CHR 0x27] @ ''response'' @ [CHR 0x27]"

text \<open>\<open>memory\<close> is what the memory of the new object happens to hold.\<close>

definition parser_new :: "conv \<Rightarrow> parser_object \<Rightarrow> js_value list \<Rightarrow> parser_object outcome" where
  "parser_new h memory args =
     (let type = utf8_value (to_string h (arg args 0))
      in if strcaseeq type ''request'' then wrap_wrap (parser_init HTTP_REQUEST (wrap_init memory))
         else if strcaseeq type ''response'' then wrap_wrap (parser_init HTTP_RESPONSE (wrap_init memory))
         else Throw (JsError (''Constructor argument be '' @ request_or_response)))"

definition parser_reinitialize :: "conv \<Rightarrow> parser_object \<Rightarrow> js_value list \<Rightarrow> parser_object outcome" where
  "parser_reinitialize h p args =
     (let type = utf8_value (to_string h (arg args 0))
      in if strcaseeq type ''request'' then Return (parser_init HTTP_REQUEST p)
         else if strcaseeq type ''response'' then Return (parser_init HTTP_RESPONSE p)
         else Throw (JsError (''Argument be '' @ request_or_response)))"

text \<open>
  What \<open>Execute\<close> and \<open>Finish\<close> give back: a number, an Error object with \<open>bytesParsed\<close> that is not
  thrown, \<open>undefined\<close>, or the empty handle, with which the exception of a callback goes on.
\<close>

datatype parse_result = Parsed nat | Parse_error nat | Nothing | Exception_pending

text \<open>\<open>busy\<close>: \<open>current_buffer\<close> is set, that is, the call comes from a callback of another \<open>Execute\<close>.\<close>

definition parser_execute ::
  "conv \<Rightarrow> heap \<Rightarrow> replies \<Rightarrow> bool \<Rightarrow> parser_object \<Rightarrow> js_value list \<Rightarrow>
   (parser_object \<times> event list \<times> parse_result) outcome" where
  "parser_execute h hp replies busy p args =
     oassert (\<not> busy)
       (if busy then Throw (JsTypeError ''Already parsing a buffer'')
        else if \<not> has_instance (arg args 0) then Throw (JsTypeError ''Argument should be a buffer'')
        else let buffer = array_of (arg args 0);
                 buffer_len = size_of_int (ea_len buffer);
                 off = size_of_int (int32_value h (arg args 1))
        in if buffer_len \<le> off then Throw (JsError ''Offset is out of bounds'')
        else let len = size_of_int (int32_value h (arg args 2))
        in if buffer_len < off + len then Throw (JsError ''Length is extends beyond buffer'')
        else obind (read_mem hp (ea_block buffer, ea_off buffer + unat off) (unat len))
          (\<lambda>data. obind (execute (answers_of replies) (hparser p) data (unat off) [])
            (\<lambda>(P, nparsed, es).
               let threw = any_threw replies [] es; p' = p\<lparr>hparser := P, got_exception := threw\<rparr>
               in Return (p', es,
                    if threw then Exception_pending
                    else if \<not> upgrade (msg P) \<and> nparsed \<noteq> unat len then Parse_error nparsed
                    else Parsed nparsed))))"

definition parser_finish :: "replies \<Rightarrow> bool \<Rightarrow> parser_object \<Rightarrow> (parser_object \<times> event list \<times> parse_result) outcome" where
  "parser_finish replies busy p =
     oassert (\<not> busy)
       (obind (execute (answers_of replies) (hparser p) [] 0 [])
         (\<lambda>(P, rv, es).
            let threw = any_threw replies [] es; p' = p\<lparr>hparser := P, got_exception := threw\<rparr>
            in Return (p', es, if threw then Exception_pending else if rv \<noteq> 0 then Parse_error 0 else Nothing)))"

lemma execute_no_throw: "execute answer P data q es \<noteq> Throw e"
  by (simp add: execute_def execute_data_def split: HttpParser.step.split)

text \<open>A Buffer argument: its memory is part of a block.\<close>

definition buffer_arg_ok :: "heap \<Rightarrow> ext_array \<Rightarrow> bool" where
  "buffer_arg_ok hp ea \<longleftrightarrow> 0 \<le> ea_len ea \<and> ea_len ea < 2 ^ 31 \<and>
     ea_off ea + nat (ea_len ea) \<le> length (blocks hp (ea_block ea)) \<and> length (blocks hp (ea_block ea)) < 2 ^ 63"

lemma execute_arguments:
  fixes h :: conv
  assumes "arg args 0 = JBuffer ea" "buffer_arg_ok hp ea"
  defines "off \<equiv> int32_value h (arg args 1)" and "len \<equiv> int32_value h (arg args 2)"
  shows "parser_execute h hp replies False p args =
    (if off < 0 \<or> ea_len ea \<le> off then Throw (JsError ''Offset is out of bounds'')
     else if off + len < 0 \<or> ea_len ea < off + len then Throw (JsError ''Length is extends beyond buffer'')
     else if len < 0 then Overrun
     else obind (execute (answers_of replies) (hparser p) (take (nat len) (drop (ea_off ea + nat off) (blocks hp (ea_block ea)))) (nat off) [])
       (\<lambda>(P, n, es). Return (p\<lparr>hparser := P, got_exception := any_threw replies [] es\<rparr>, es,
          if any_threw replies [] es then Exception_pending
          else if \<not> upgrade (msg P) \<and> n \<noteq> nat len then Parse_error n else Parsed n)))"
proof -
  have r: "int32_range off" "int32_range len" by (simp_all add: off_def len_def int32_value_range)
  then have b: "- (2 ^ 31) \<le> off" "off < 2 ^ 31" "- (2 ^ 31) \<le> len" "len < 2 ^ 31" by (simp_all add: int32_range_def)
  have l: "0 \<le> ea_len ea" "ea_len ea < 2 ^ 31" using assms(2) by (simp_all add: buffer_arg_ok_def)
  define blk where "blk = blocks hp (ea_block ea)"
  have m: "ea_off ea + nat (ea_len ea) \<le> length blk" "length blk < 2 ^ 63"
    using assms(2) by (simp_all add: buffer_arg_ok_def blk_def)
  have o: "size_of_int (ea_len ea) \<le> size_of_int off \<longleftrightarrow> off < 0 \<or> ea_len ea \<le> off"
    using b l by (intro size_of_int_above) simp_all
  have t: "size_of_int (ea_len ea) < size_of_int off + size_of_int len \<longleftrightarrow> off + len < 0 \<or> ea_len ea < off + len"
    unfolding size_of_int_add using b l by (intro size_of_int_above) simp_all
  have x: "parser_execute h hp replies False p args =
    (if off < 0 \<or> ea_len ea \<le> off then Throw (JsError ''Offset is out of bounds'')
     else if off + len < 0 \<or> ea_len ea < off + len then Throw (JsError ''Length is extends beyond buffer'')
     else obind (of_mem (peek blk (ea_off ea + unat (size_of_int off)) (unat (size_of_int len))))
          (\<lambda>data. obind (execute (answers_of replies) (hparser p) data (unat (size_of_int off)) [])
            (\<lambda>(P, n, es). Return (p\<lparr>hparser := P, got_exception := any_threw replies [] es\<rparr>, es,
              if any_threw replies [] es then Exception_pending
              else if \<not> upgrade (msg P) \<and> n \<noteq> unat (size_of_int len) then Parse_error n else Parsed n))))"
    unfolding parser_execute_def Let_def assms(1) has_instance.simps array_of.simps off_def [symmetric] len_def [symmetric] o t
    by (simp add: oassert_simps read_mem_def blk_def)
  show ?thesis
  proof (cases "off < 0 \<or> ea_len ea \<le> off \<or> off + len < 0 \<or> ea_len ea < off + len")
    case True
    then show ?thesis unfolding x by auto
  next
    case False
    then have uo: "unat (size_of_int off) = nat off" using b by (intro unat_size_of_int) simp_all
    show ?thesis
    proof (cases "len < 0")
      case True
      then have "2 ^ 63 \<le> unat (size_of_int len)" using b by (intro unat_size_of_int_neg) simp_all
      then have "peek blk (ea_off ea + unat (size_of_int off)) (unat (size_of_int len)) = None"
        using m by (simp add: peek_None_iff)
      then show ?thesis using False True unfolding x by (simp add: of_mem_simps)
    next
      case pos: False
      then have ul: "unat (size_of_int len) = nat len" using b by (intro unat_size_of_int) simp_all
      have "peek blk (ea_off ea + nat off) (nat len) = Some (take (nat len) (drop (ea_off ea + nat off) blk))"
        using False pos m by (auto simp: peek_def)
      then show ?thesis using False pos unfolding x uo ul by (simp add: of_mem_simps blk_def)
    qed
  qed
qed

section \<open>Properties\<close>


text \<open>Six bytes of a Buffer of eight, and a length of minus one.\<close>

definition ex_parser :: parser_object where
  "ex_parser = \<lparr>refs = 0, weak = True, unwrapped = False, got_exception = False,
     hparser = init_parser HTTP_REQUEST idle_parser\<rparr>"


text \<open>A request with a chunked body, cut in the middle of a chunk, and the rest of it with the next request.\<close>

definition chunked_post :: "u8 list" where
  "chunked_post = map byte ''POST / HTTP/1.1'' @ [CR, LF] @ map byte ''Transfer-Encoding: chunked'' @ [CR, LF, CR, LF] @
     map byte ''3'' @ [CR, LF] @ map byte ''a''"

definition chunk_rest :: "u8 list" where
  "chunk_rest = map byte ''bc'' @ [CR, LF] @ map byte ''0'' @ [CR, LF, CR, LF] @ map byte ''G''"

definition second_begin_throws :: answers where
  "second_begin_throws es e = (if e = Message_begin \<and> es \<noteq> [] then -1 else 0)"

text \<open>What \<open>assert(parser->flags & F_CHUNKED)\<close> does in a call that begins without the flag.\<close>

lemma unchunked_aborts:
  assumes "pstate P \<in> chunk_states" "F_CHUNKED \<notin> flags (msg P)"
  shows "execute answer P (b # data) p es = Abort"
  using assms by (auto simp: chunk_states_def execute_def execute_data_def enter_def parse_byte_def parsing_header_def
    step_state_def chunked_def chunk_size_start_def chunk_size_def chunk_parameters_def chunk_size_almost_done_def chunk_data_def)

text \<open>
  A callback that fails makes the parser return at once, without storing its state: the fields
  of the new message are reset, but the parser is still in the middle of the chunk the call began in.
  When the exception of \<open>onMessageBegin\<close> has been dealt with, the next byte of the connection
  stops the process at an assertion, whatever it is.\<close>

theorem exception_then_assert:
  "\<exists>P1 es1 P2 n es2.
     execute second_begin_throws (init_parser HTTP_REQUEST P) chunked_post 0 [] = Return (P1, length chunked_post, es1) \<and>
     execute second_begin_throws P1 chunk_rest (length chunked_post) es1 = Return (P2, n, es2) \<and> last es2 = Message_begin \<and>
     (\<forall>answer b data p es. execute answer P2 (b # data) p es = Abort)"
proof -
  obtain P1 es1 where 1: "execute second_begin_throws (init_parser HTTP_REQUEST P) chunked_post 0 [] = Return (P1, length chunked_post, es1)"
    and P: "pstate P1 = s_chunk_data" "content_length (msg P1) = 2" "flags (msg P1) = {F_CHUNKED}" "es1 \<noteq> []"
      "http_major (msg P1) = 1" "http_minor (msg P1) = 1" "ptype (msg P1) = HTTP_REQUEST"
    by (simp add: run_simps chunked_post_def second_begin_throws_def)
  define q where "q = length chunked_post"
  obtain P2 n es2 where 2: "execute second_begin_throws P1 chunk_rest q es1 = Return (P2, n, es2)"
    and Q: "last es2 = Message_begin" "pstate P2 = s_chunk_data" "flags (msg P2) = {}"
    using P by (simp add: run_simps chunk_rest_def second_begin_throws_def)
  have "execute answer P2 (b # data) p es = Abort" for answer b data p es
    by (rule unchunked_aborts) (simp_all add: Q chunk_states_def)
  then show ?thesis using 1 2 Q(1) unfolding q_def by blast
qed


end
