(* ===== verification/EvIo.thy ===== *)
theory EvIo
  imports Prelude
begin

unbundle bit_operations_syntax

text \<open>
  How libev (\<open>deps/libev/ev.c\<close>, \<open>ev_epoll.c\<close>) watches file descriptors for the IOWatchers of node:
  the list of watchers of each descriptor, the queue of descriptors that have changed, the pending
  events, and the set of interests it keeps in the kernel.

  The kernel is a parameter: a state of any type, and what \<open>epoll_ctl\<close> answers and does in it.
  Watchers are numbers; \<open>ws\<close> gives the structure of each.
\<close>

section \<open>State\<close>

definition EV_READ :: u32 where "EV_READ = 0x01"
definition EV_WRITE :: u32 where "EV_WRITE = 0x02"
definition EV_IOFDSET :: u32 where "EV_IOFDSET = 0x80"
definition EV_ERROR :: u32 where "EV_ERROR = 0x80000000"
definition EV_ANFD_REIFY :: u8 where "EV_ANFD_REIFY = 1"
definition EV_EMASK_EPERM :: u8 where "EV_EMASK_EPERM = 0x80"
definition EV_MINPRI :: int where "EV_MINPRI = -2"
definition EV_MAXPRI :: int where "EV_MAXPRI = 2"

record ev_io =
  w_fd :: int
  w_events :: u32
  w_active :: bool
  w_pending :: nat
  w_priority :: int

record anfd =
  head :: "nat list"
  aevents :: u8
  reify :: u8
  emask :: u8
  egen :: u32

definition zero_anfd :: anfd where
  "zero_anfd = \<lparr>head = [], aevents = 0, reify = 0, emask = 0, egen = 0\<rparr>"

text \<open>In \<open>pendings\<close>, \<open>None\<close> is \<open>pending_w\<close>, the watcher that does nothing.\<close>

record 'k io_loop =
  ws :: "nat \<Rightarrow> ev_io"
  anfds :: "anfd list"
  fdchanges :: "nat list"
  io_pendings :: "nat \<Rightarrow> (nat option \<times> u32) list"
  io_activecnt :: int
  eperms :: "nat list"
  postfork :: bool
  kernel :: 'k

definition upd_w :: "nat \<Rightarrow> (ev_io \<Rightarrow> ev_io) \<Rightarrow> 'k io_loop \<Rightarrow> 'k io_loop" where
  "upd_w i f L = L\<lparr>ws := (ws L)(i := f (ws L i))\<rparr>"

definition upd_fd :: "nat \<Rightarrow> (anfd \<Rightarrow> anfd) \<Rightarrow> 'k io_loop \<Rightarrow> 'k io_loop" where
  "upd_fd fd f L = L\<lparr>anfds := (anfds L)[fd := f (anfds L ! fd)]\<rparr>"

section \<open>Pending events\<close>

definition abs_pri :: "ev_io \<Rightarrow> nat" where
  "abs_pri w = nat (w_priority w - EV_MINPRI)"

definition io_feed_event :: "nat \<Rightarrow> u32 \<Rightarrow> 'k io_loop \<Rightarrow> 'k io_loop" where
  "io_feed_event i revents L =
     (let w = ws L i; pri = abs_pri w; ps = io_pendings L pri; k = w_pending w
      in if k \<noteq> 0 then
           L\<lparr>io_pendings := (io_pendings L)(pri := ps[k - 1 := (fst (ps ! (k - 1)), snd (ps ! (k - 1)) OR revents)])\<rparr>
         else
           (upd_w i (\<lambda>w. w\<lparr>w_pending := Suc (length ps)\<rparr>) L)
             \<lparr>io_pendings := (io_pendings L)(pri := ps @ [(Some i, revents)])\<rparr>)"

definition io_clear_pending :: "nat \<Rightarrow> 'k io_loop \<Rightarrow> 'k io_loop" where
  "io_clear_pending i L =
     (let w = ws L i; pri = abs_pri w; ps = io_pendings L pri; k = w_pending w
      in if k \<noteq> 0 then
           (upd_w i (\<lambda>w. w\<lparr>w_pending := 0\<rparr>) L)\<lparr>io_pendings := (io_pendings L)(pri := ps[k - 1 := (None, snd (ps ! (k - 1)))])\<rparr>
         else L)"

section \<open>Starting and stopping\<close>

definition pri_adjust :: "ev_io \<Rightarrow> ev_io" where
  "pri_adjust w =
     (let p = w_priority w; p = (if p < EV_MINPRI then EV_MINPRI else p); p = (if EV_MAXPRI < p then EV_MAXPRI else p)
      in w\<lparr>w_priority := p\<rparr>)"

definition io_ev_start :: "nat \<Rightarrow> 'k io_loop \<Rightarrow> 'k io_loop" where
  "io_ev_start i L = (upd_w i (\<lambda>w. (pri_adjust w)\<lparr>w_active := True\<rparr>) L)\<lparr>io_activecnt := io_activecnt L + 1\<rparr>"

definition io_ev_stop :: "nat \<Rightarrow> 'k io_loop \<Rightarrow> 'k io_loop" where
  "io_ev_stop i L = (upd_w i (\<lambda>w. w\<lparr>w_active := False\<rparr>) L)\<lparr>io_activecnt := io_activecnt L - 1\<rparr>"

text \<open>\<open>do ncur <<= 1; while (cnt > ncur)\<close>, then the rounding of large arrays; \<open>elem\<close> is a size in bytes.\<close>

function doubled :: "nat \<Rightarrow> nat \<Rightarrow> nat" where
  "doubled n cnt = (if n = 0 then 0 else if cnt \<le> 2 * n then 2 * n else doubled (2 * n) cnt)"
  by pat_completeness auto
termination by (relation "measure (\<lambda>(n, cnt). cnt - n)") auto

declare doubled.simps [simp del]

definition array_nextsize :: "nat \<Rightarrow> nat \<Rightarrow> nat \<Rightarrow> nat" where
  "array_nextsize elem cur cnt =
     (let ncur = doubled (cur + 1) cnt
      in if 4096 - 32 < elem * ncur
         then ((ncur * elem + elem + 4095 + 32) div 4096 * 4096 - 32) div elem
         else ncur)"

definition need_anfd :: "nat \<Rightarrow> 'k io_loop \<Rightarrow> 'k io_loop" where
  "need_anfd fd L =
     (let cur = length (anfds L)
      in if cur < fd + 1 then L\<lparr>anfds := anfds L @ replicate (array_nextsize 16 cur (fd + 1) - cur) zero_anfd\<rparr> else L)"

definition fd_change :: "nat \<Rightarrow> u8 \<Rightarrow> 'k io_loop \<Rightarrow> 'k io_loop" where
  "fd_change fd flags L =
     (let old = reify (anfds L ! fd); L' = upd_fd fd (\<lambda>a. a\<lparr>reify := reify a OR flags\<rparr>) L
      in if old = 0 then L'\<lparr>fdchanges := fdchanges L' @ [fd]\<rparr> else L')"

definition ev_io_set :: "nat \<Rightarrow> int \<Rightarrow> u32 \<Rightarrow> 'k io_loop \<Rightarrow> 'k io_loop" where
  "ev_io_set i fd events L = upd_w i (\<lambda>w. w\<lparr>w_fd := fd, w_events := events OR EV_IOFDSET\<rparr>) L"

definition ev_io_start :: "nat \<Rightarrow> 'k io_loop \<Rightarrow> 'k io_loop outcome" where
  "ev_io_start i L =
     (let w = ws L i; fd = nat (w_fd w)
      in if w_active w then Return L
         else oassert (0 \<le> w_fd w) (oassert (w_events w AND NOT (EV_IOFDSET OR EV_READ OR EV_WRITE) = 0)
           (let L1 = need_anfd fd (io_ev_start i L);
                L2 = upd_fd fd (\<lambda>a. a\<lparr>head := i # head a\<rparr>) L1;
                L3 = fd_change fd (ucast (w_events w AND EV_IOFDSET) OR EV_ANFD_REIFY) L2
            in Return (upd_w i (\<lambda>w. w\<lparr>w_events := w_events w AND NOT EV_IOFDSET\<rparr>) L3))))"

definition ev_io_stop :: "nat \<Rightarrow> 'k io_loop \<Rightarrow> 'k io_loop outcome" where
  "ev_io_stop i L0 =
     (let L = io_clear_pending i L0; w = ws L i; fd = nat (w_fd w)
      in if \<not> w_active w then Return L
         else oassert (0 \<le> w_fd w \<and> fd < length (anfds L))
           (let L1 = upd_fd fd (\<lambda>a. a\<lparr>head := remove1 i (head a)\<rparr>) L; L2 = io_ev_stop i L1
            in Return (fd_change fd EV_ANFD_REIFY L2)))"

section \<open>Events of descriptors\<close>

definition fd_event_nocheck :: "nat \<Rightarrow> u32 \<Rightarrow> 'k io_loop \<Rightarrow> 'k io_loop" where
  "fd_event_nocheck fd revents L =
     fold (\<lambda>i L. let ev = w_events (ws L i) AND revents in if ev \<noteq> 0 then io_feed_event i ev L else L)
       (head (anfds L ! fd)) L"

definition fd_event :: "nat \<Rightarrow> u32 \<Rightarrow> 'k io_loop \<Rightarrow> 'k io_loop" where
  "fd_event fd revents L = (if reify (anfds L ! fd) = 0 then fd_event_nocheck fd revents L else L)"

text \<open>
  The loop of \<open>fd_kill\<close> ends only if each turn takes a watcher off the list: the result is \<open>None\<close> when
  it does not end.
\<close>

fun is_return :: "'a outcome \<Rightarrow> bool" where
  "is_return (Return x) = True" | "is_return _ = False"

fun returned :: "'a outcome \<Rightarrow> 'a" where
  "returned (Return x) = x"

partial_function (option) fd_kill :: "nat \<Rightarrow> 'k io_loop \<Rightarrow> 'k io_loop outcome option" where
  "fd_kill fd L =
     (if head (anfds L ! fd) = [] then Some (Return L)
      else let i = hd (head (anfds L ! fd)); x = ev_io_stop i L
           in if is_return x then fd_kill fd (io_feed_event i (EV_ERROR OR EV_READ OR EV_WRITE) (returned x)) else Some x)"

section \<open>The epoll backend\<close>

datatype ctl_op = CTL_ADD | CTL_MOD | CTL_DEL
datatype ctl_result = Ctl_ok | Ctl_ENOENT | Ctl_EEXIST | Ctl_EPERM | Ctl_error

text \<open>\<open>epoll_ctl\<close>, with the mask of events and the generation that is part of \<open>data\<close>.\<close>

type_synonym 'k epoll_ctl = "ctl_op \<Rightarrow> nat \<Rightarrow> u8 \<Rightarrow> u32 \<Rightarrow> 'k \<Rightarrow> ctl_result \<times> 'k"

definition call_ctl :: "'k epoll_ctl \<Rightarrow> ctl_op \<Rightarrow> nat \<Rightarrow> u8 \<Rightarrow> 'k io_loop \<Rightarrow> ctl_result \<times> 'k io_loop" where
  "call_ctl ctl op fd nev L =
     (let (r, k) = ctl op fd (nev AND 3) (egen (anfds L ! fd)) (kernel L) in (r, L\<lparr>kernel := k\<rparr>))"

definition dec_egen :: "nat \<Rightarrow> 'k io_loop \<Rightarrow> 'k io_loop" where
  "dec_egen fd L = upd_fd fd (\<lambda>a. a\<lparr>egen := egen a - 1\<rparr>) L"

definition kill_and_dec :: "nat \<Rightarrow> 'k io_loop \<Rightarrow> 'k io_loop outcome option" where
  "kill_and_dec fd L = Option.bind (fd_kill fd L) (\<lambda>x. Some (obind x (\<lambda>L. Return (dec_egen fd L))))"

definition epoll_modify :: "'k epoll_ctl \<Rightarrow> nat \<Rightarrow> u8 \<Rightarrow> u8 \<Rightarrow> 'k io_loop \<Rightarrow> 'k io_loop outcome option" where
  "epoll_modify ctl fd oev nev L =
     (if nev = 0 then Some (Return L)
      else let oldmask = emask (anfds L ! fd);
               L1 = upd_fd fd (\<lambda>a. a\<lparr>emask := nev, egen := egen a + 1\<rparr>) L;
               (r, L2) = call_ctl ctl (if oev \<noteq> 0 \<and> oldmask \<noteq> nev then CTL_MOD else CTL_ADD) fd nev L1
           in case r of
                Ctl_ok \<Rightarrow> Some (Return L2)
              | Ctl_ENOENT \<Rightarrow>
                  (case call_ctl ctl CTL_ADD fd nev L2 of (Ctl_ok, L3) \<Rightarrow> Some (Return L3) | (_, L3) \<Rightarrow> kill_and_dec fd L3)
              | Ctl_EEXIST \<Rightarrow>
                  if oldmask = nev then Some (Return (dec_egen fd L2))
                  else (case call_ctl ctl CTL_MOD fd nev L2 of (Ctl_ok, L3) \<Rightarrow> Some (Return L3) | (_, L3) \<Rightarrow> kill_and_dec fd L3)
              | Ctl_EPERM \<Rightarrow>
                  (let L3 = upd_fd fd (\<lambda>a. a\<lparr>emask := EV_EMASK_EPERM\<rparr>) L2
                   in Some (Return (if oldmask AND EV_EMASK_EPERM = 0 then L3\<lparr>eperms := eperms L3 @ [fd]\<rparr> else L3)))
              | Ctl_error \<Rightarrow> kill_and_dec fd L2)"

text \<open>The events all watchers of a descriptor together wait for.\<close>

definition wanted :: "'k io_loop \<Rightarrow> nat \<Rightarrow> u8" where
  "wanted L fd = fold (\<lambda>i e. e OR ucast (w_events (ws L i))) (head (anfds L ! fd)) 0"

definition reify_fd :: "'k epoll_ctl \<Rightarrow> nat \<Rightarrow> 'k io_loop \<Rightarrow> 'k io_loop outcome option" where
  "reify_fd ctl fd L =
     (let a = anfds L ! fd; o_events = aevents a; events = wanted L fd;
          o_reify = (if o_events \<noteq> events then 0x80 else reify a);
          L' = upd_fd fd (\<lambda>a. a\<lparr>reify := 0, aevents := events\<rparr>) L
      in if o_reify AND 0x80 \<noteq> 0 then epoll_modify ctl fd o_events events L' else Some (Return L'))"

text \<open>The queue can grow while the loop goes through it.\<close>

partial_function (option) fd_reify_from :: "'k epoll_ctl \<Rightarrow> nat \<Rightarrow> 'k io_loop \<Rightarrow> 'k io_loop outcome option" where
  "fd_reify_from ctl i L =
     (if length (fdchanges L) \<le> i then Some (Return (L\<lparr>fdchanges := []\<rparr>))
      else Option.bind (reify_fd ctl (fdchanges L ! i) L)
        (\<lambda>x. if is_return x then fd_reify_from ctl (Suc i) (returned x) else Some x))"

definition fd_reify :: "'k epoll_ctl \<Rightarrow> 'k io_loop \<Rightarrow> 'k io_loop outcome option" where
  "fd_reify ctl L = fd_reify_from ctl 0 L"

text \<open>What \<open>epoll_wait\<close> reports: the descriptor and the generation of its data, and the events.\<close>

record report =
  r_fd :: nat
  r_gen :: u32
  r_in :: bool \<comment> \<open>\<open>EPOLLIN\<close>\<close>
  r_out :: bool
  r_err :: bool \<comment> \<open>\<open>EPOLLERR | EPOLLHUP\<close>\<close>

definition got :: "report \<Rightarrow> u32" where
  "got r = (if r_out r \<or> r_err r then EV_WRITE else 0) OR (if r_in r \<or> r_err r then EV_READ else 0)"

definition epoll_report :: "'k epoll_ctl \<Rightarrow> report \<Rightarrow> 'k io_loop \<Rightarrow> 'k io_loop" where
  "epoll_report ctl r L =
     (let fd = r_fd r; want = aevents (anfds L ! fd)
      in if egen (anfds L ! fd) \<noteq> r_gen r then L\<lparr>postfork := True\<rparr>
         else if got r AND NOT (ucast want) \<noteq> 0 then
           (let L1 = upd_fd fd (\<lambda>a. a\<lparr>emask := want\<rparr>) L;
                (res, L2) = call_ctl ctl (if want \<noteq> 0 then CTL_MOD else CTL_DEL) fd want L1
            in if res \<noteq> Ctl_ok then L2\<lparr>postfork := True\<rparr> else fd_event fd (got r) L2)
         else fd_event fd (got r) L)"

text \<open>The loop over \<open>epoll_eperms\<close>, from its last entry down; \<open>n\<close> entries are left to do.\<close>

fun eperm_loop :: "nat \<Rightarrow> 'k io_loop \<Rightarrow> 'k io_loop" where
  "eperm_loop 0 L = L"
| "eperm_loop (Suc n) L =
     (let fd = eperms L ! n; a = anfds L ! fd; events = aevents a AND 3
      in eperm_loop n
           (if emask a AND EV_EMASK_EPERM \<noteq> 0 \<and> events \<noteq> 0 then fd_event fd (ucast events) L
            else L\<lparr>eperms := butlast ((eperms L)[n := last (eperms L)])\<rparr>))"

definition epoll_poll :: "'k epoll_ctl \<Rightarrow> report list \<Rightarrow> 'k io_loop \<Rightarrow> 'k io_loop" where
  "epoll_poll ctl reports L =
     (let L' = fold (epoll_report ctl) reports L in eperm_loop (length (eperms L')) L')"

text \<open>After a fork, or when a report came for a registration the loop does not know, the kernel side is built anew.\<close>

definition fd_rearm_all :: "'k io_loop \<Rightarrow> 'k io_loop" where
  "fd_rearm_all L =
     fold (\<lambda>fd L. if aevents (anfds L ! fd) \<noteq> 0
                   then fd_change fd (0x80 OR EV_ANFD_REIFY) (upd_fd fd (\<lambda>a. a\<lparr>aevents := 0, emask := 0\<rparr>) L) else L)
       [0..<length (anfds L)] L"

definition epoll_fork :: "'k \<Rightarrow> 'k io_loop \<Rightarrow> 'k io_loop" where
  "epoll_fork new L = fd_rearm_all (L\<lparr>kernel := new\<rparr>)"

text \<open>One turn of \<open>ev_invoke_pending\<close>: the last event of the highest priority that has one is taken.\<close>

fun io_next_pri :: "nat \<Rightarrow> 'k io_loop \<Rightarrow> nat option" where
  "io_next_pri 0 L = None"
| "io_next_pri (Suc p) L = (if io_pendings L p \<noteq> [] then Some p else io_next_pri p L)"

definition io_take_pending :: "'k io_loop \<Rightarrow> ((nat option \<times> u32) \<times> 'k io_loop) option" where
  "io_take_pending L =
     (case io_next_pri 5 L of
        None \<Rightarrow> None
      | Some p \<Rightarrow>
          (let e = last (io_pendings L p); L1 = L\<lparr>io_pendings := (io_pendings L)(p := butlast (io_pendings L p))\<rparr>
           in Some (e, case fst e of Some i \<Rightarrow> upd_w i (\<lambda>w. w\<lparr>w_pending := 0\<rparr>) L1 | None \<Rightarrow> L1)))"

end
