(* ===== verification/EvReify.thy ===== *)
theory EvReify
  imports EvIo
begin

unbundle bit_operations_syntax

text \<open>
  What libev keeps of its descriptors: the list of each descriptor holds its active watchers, the queue
  holds the descriptors whose \<open>reify\<close> flags are set, and the descriptors that are not in the queue
  have the union of their watchers' events in \<open>events\<close>. Starting and stopping watchers keep this, and
  \<open>fd_reify\<close> always ends, whatever \<open>epoll_ctl\<close> answers: a descriptor it gives up loses all its watchers,
  so that it is queued once more at most.
\<close>

section \<open>What the lists and the queue hold\<close>

definition lists_ok :: "'k io_loop \<Rightarrow> bool" where
  "lists_ok L \<longleftrightarrow>
     (\<forall>fd<length (anfds L). distinct (head (anfds L ! fd)) \<and>
        set (head (anfds L ! fd)) = {i. w_active (ws L i) \<and> w_fd (ws L i) = int fd}) \<and>
     (\<forall>i. w_active (ws L i) \<longrightarrow> 0 \<le> w_fd (ws L i) \<and> nat (w_fd (ws L i)) < length (anfds L) \<and>
        w_events (ws L i) AND NOT (EV_READ OR EV_WRITE) = 0)"

definition changes_ok :: "nat list \<Rightarrow> 'k io_loop \<Rightarrow> bool" where
  "changes_ok c L \<longleftrightarrow> distinct c \<and> set c = {fd. fd < length (anfds L) \<and> reify (anfds L ! fd) \<noteq> 0}"

definition events_ok :: "'k io_loop \<Rightarrow> bool" where
  "events_ok L \<longleftrightarrow> (\<forall>fd<length (anfds L). reify (anfds L ! fd) = 0 \<longrightarrow> aevents (anfds L ! fd) = wanted L fd)"

text \<open>None of this depends on the pending events.\<close>

definition bare :: "ev_io \<Rightarrow> int \<times> u32 \<times> bool" where
  "bare w = (w_fd w, w_events w, w_active w)"

definition same_view :: "'k io_loop \<Rightarrow> 'k io_loop \<Rightarrow> bool" where
  "same_view L L' \<longleftrightarrow> (\<forall>i. bare (ws L' i) = bare (ws L i)) \<and> anfds L' = anfds L \<and> fdchanges L' = fdchanges L \<and>
     kernel L' = kernel L \<and> eperms L' = eperms L \<and> postfork L' = postfork L"

lemma same_view_refl [simp]: "same_view L L"
  by (simp add: same_view_def)

lemma same_view_trans: "same_view L L' \<Longrightarrow> same_view L' L'' \<Longrightarrow> same_view L L''"
  by (simp add: same_view_def)

lemma same_view_feed [simp]: "same_view L (io_feed_event i e L)"
  by (simp add: same_view_def io_feed_event_def upd_w_def Let_def bare_def)

lemma same_view_clear [simp]: "same_view L (io_clear_pending i L)"
  by (simp add: same_view_def io_clear_pending_def upd_w_def Let_def bare_def)

lemma fold_or_cong:
  "(\<And>i. i \<in> set is \<Longrightarrow> f i = g i) \<Longrightarrow> fold (\<lambda>i e. e OR ucast (f i)) is e = fold (\<lambda>i e. e OR ucast (g i)) is (e :: u8)"
  by (rule fold_cong) simp_all

lemma wanted_cong:
  assumes "head (anfds L' ! fd) = head (anfds L ! fd)" "\<And>i. i \<in> set (head (anfds L ! fd)) \<Longrightarrow> w_events (ws L' i) = w_events (ws L i)"
  shows "wanted L' fd = wanted L fd"
  unfolding wanted_def assms(1) by (rule fold_or_cong) (rule assms(2))

lemma same_view_inv:
  assumes "same_view L L'"
  shows "lists_ok L' = lists_ok L" "changes_ok c L' = changes_ok c L" "events_ok L' = events_ok L" "wanted L' fd = wanted L fd"
proof -
  have b: "w_active (ws L' i) = w_active (ws L i)" "w_fd (ws L' i) = w_fd (ws L i)" "w_events (ws L' i) = w_events (ws L i)" for i
    using assms by (simp_all add: same_view_def bare_def)
  have a: "anfds L' = anfds L" using assms by (simp add: same_view_def)
  show w: "wanted L' fd = wanted L fd" for fd by (rule wanted_cong) (simp_all add: a b)
  show "lists_ok L' = lists_ok L" "changes_ok c L' = changes_ok c L" "events_ok L' = events_ok L"
    by (simp_all add: lists_ok_def changes_ok_def events_ok_def a b w)
qed

section \<open>Starting and stopping keep them\<close>

lemma or_flags [simp]: "(a OR 1 :: u8) \<noteq> 0" "(a OR b :: u8) = 0 \<longleftrightarrow> a = 0 \<and> b = 0"
  by (simp_all add: or_eq_0_iff)

text \<open>A watcher is put into the list of its descriptor or taken out of it, and the descriptor queued.\<close>

definition relisted :: "nat \<Rightarrow> nat \<Rightarrow> u8 \<Rightarrow> (nat list \<Rightarrow> nat list) \<Rightarrow> 'k io_loop \<Rightarrow> 'k io_loop \<Rightarrow> bool" where
  "relisted i fd flags f L L' \<longleftrightarrow>
     anfds L' = (anfds L)[fd := (anfds L ! fd)\<lparr>head := f (head (anfds L ! fd)), reify := reify (anfds L ! fd) OR flags\<rparr>] \<and>
     fdchanges L' = fdchanges L @ (if reify (anfds L ! fd) = 0 then [fd] else []) \<and>
     kernel L' = kernel L \<and> eperms L' = eperms L \<and> postfork L' = postfork L \<and> (\<forall>j. j \<noteq> i \<longrightarrow> bare (ws L' j) = bare (ws L j))"

lemma stop_inactive: "\<not> w_active (ws L i) \<Longrightarrow> ev_io_stop i L = Return (io_clear_pending i L)"
  by (simp add: ev_io_stop_def Let_def io_clear_pending_def upd_w_def)

lemma stop_active:
  assumes "lists_ok L" "w_active (ws L i)"
  defines "fd \<equiv> nat (w_fd (ws L i))"
  shows "\<exists>L'. ev_io_stop i L = Return L' \<and> relisted i fd 1 (remove1 i) L L' \<and>
    bare (ws L' i) = (w_fd (ws L i), w_events (ws L i), False)"
proof -
  define K where "K = io_clear_pending i L"
  have v: "same_view L K" by (simp add: K_def)
  then have k: "anfds K = anfds L" "fdchanges K = fdchanges L" "kernel K = kernel L" "eperms K = eperms L" "postfork K = postfork L"
    "\<And>j. bare (ws K j) = bare (ws L j)"
    by (simp_all add: same_view_def)
  then have ki: "w_active (ws K i)" "w_fd (ws K i) = w_fd (ws L i)" "w_events (ws K i) = w_events (ws L i)"
    using assms(2) k(6) [of i] by (simp_all add: bare_def)
  have "0 \<le> w_fd (ws L i)" "fd < length (anfds L)" using assms by (auto simp: lists_ok_def)
  then show ?thesis
    unfolding ev_io_stop_def K_def [symmetric] Let_def
    using ki k by (auto simp: oassert_simps fd_def relisted_def fd_change_def io_ev_stop_def upd_fd_def upd_w_def Let_def EV_ANFD_REIFY_def bare_def)
qed

lemma start_active: "w_active (ws L i) \<Longrightarrow> ev_io_start i L = Return L"
  by (simp add: ev_io_start_def Let_def)

lemma relisted_length [simp]: "relisted i fd flags f L L' \<Longrightarrow> length (anfds L') = length (anfds L)"
  by (simp add: relisted_def)

lemma relisted_anfd:
  assumes "relisted i fd flags f L L'" "fd < length (anfds L)"
  shows "anfds L' ! fd' = (if fd' = fd then (anfds L ! fd)\<lparr>head := f (head (anfds L ! fd)), reify := reify (anfds L ! fd) OR flags\<rparr>
    else anfds L ! fd')"
  using assms by (simp add: relisted_def)

lemma relisted_other:
  assumes "relisted i fd flags f L L'" "j \<noteq> i"
  shows "w_active (ws L' j) = w_active (ws L j)" "w_fd (ws L' j) = w_fd (ws L j)" "w_events (ws L' j) = w_events (ws L j)"
  using assms by (simp_all add: relisted_def bare_def)

lemma relisted_changes:
  assumes "relisted i fd flags f L L'" "fd < length (anfds L)" "flags \<noteq> 0" "changes_ok c L"
  shows "changes_ok (c @ (if reify (anfds L ! fd) = 0 then [fd] else [])) L'"
  using assms(3,4) relisted_length [OF assms(1)] assms(2)
  by (auto simp: changes_ok_def relisted_anfd [OF assms(1,2)])

lemma relisted_events:
  assumes "relisted i fd flags f L L'" "fd < length (anfds L)" "flags \<noteq> 0" "events_ok L" "lists_ok L"
    and "w_active (ws L i) \<longrightarrow> w_fd (ws L i) = int fd"
  shows "events_ok L'"
  unfolding events_ok_def relisted_length [OF assms(1)]
proof (intro allI impI)
  fix fd' assume f: "fd' < length (anfds L)" "reify (anfds L' ! fd') = 0"
  then have n: "fd' \<noteq> fd" "anfds L' ! fd' = anfds L ! fd'"
    using assms(3) by (auto simp: relisted_anfd [OF assms(1,2)] split: if_splits)
  then have ni: "i \<notin> set (head (anfds L ! fd'))" using f(1) assms(5,6) by (auto simp: lists_ok_def)
  have "wanted L' fd' = wanted L fd'"
  proof (rule wanted_cong)
    show "head (anfds L' ! fd') = head (anfds L ! fd')" using n by simp
    show "w_events (ws L' j) = w_events (ws L j)" if "j \<in> set (head (anfds L ! fd'))" for j
      by (rule relisted_other(3) [OF assms(1)]) (use that ni in blast)
  qed
  then show "aevents (anfds L' ! fd') = wanted L' fd'" using f n assms(4) by (simp add: events_ok_def)
qed

lemma relisted_stop:
  assumes "relisted i fd flags (remove1 i) L L'" "lists_ok L" "w_active (ws L i)" "w_fd (ws L i) = int fd"
    and "bare (ws L' i) = (w_fd (ws L i), w_events (ws L i), False)"
  shows "lists_ok L'"
proof -
  have fd: "fd < length (anfds L)" using assms(2-4) by (auto simp: lists_ok_def)
  have i: "\<not> w_active (ws L' i)" using assms(5) by (simp add: bare_def)
  show ?thesis
    unfolding lists_ok_def relisted_length [OF assms(1)]
  proof (intro conjI allI impI)
    fix fd' assume f: "fd' < length (anfds L)"
    show "distinct (head (anfds L' ! fd'))" using f assms(2) by (simp add: relisted_anfd [OF assms(1) fd] lists_ok_def)
    have "set (head (anfds L' ! fd')) = {j. w_active (ws L j) \<and> w_fd (ws L j) = int fd'} - {i}"
      using f fd assms(2,4) by (auto simp: relisted_anfd [OF assms(1) fd] lists_ok_def)
    also have "\<dots> = {j. w_active (ws L' j) \<and> w_fd (ws L' j) = int fd'}"
      using i relisted_other(1,2) [OF assms(1)] by (intro set_eqI) (case_tac "x = i"; simp)
    finally show "set (head (anfds L' ! fd')) = {j. w_active (ws L' j) \<and> w_fd (ws L' j) = int fd'}" .
  next
    fix j assume j: "w_active (ws L' j)"
    then have "j \<noteq> i" using i by auto
    then show "0 \<le> w_fd (ws L' j)" "nat (w_fd (ws L' j)) < length (anfds L)" "w_events (ws L' j) AND NOT (EV_READ OR EV_WRITE) = 0"
      using j assms(2) relisted_other [OF assms(1)] by (simp_all add: lists_ok_def)
  qed
qed

lemma relisted_start:
  assumes "relisted i fd flags (\<lambda>h. i # h) L L'" "lists_ok L" "\<not> w_active (ws L i)" "fd < length (anfds L)"
    and "bare (ws L' i) = (int fd, e, True)" "e AND NOT (EV_READ OR EV_WRITE) = 0"
  shows "lists_ok L'"
proof -
  have i: "w_active (ws L' i)" "w_fd (ws L' i) = int fd" "w_events (ws L' i) = e" using assms(5) by (simp_all add: bare_def)
  show ?thesis
    unfolding lists_ok_def relisted_length [OF assms(1)]
  proof (intro conjI allI impI)
    fix fd' assume f: "fd' < length (anfds L)"
    show "distinct (head (anfds L' ! fd'))" using f assms(2,3) by (auto simp: relisted_anfd [OF assms(1,4)] lists_ok_def)
    have "set (head (anfds L' ! fd')) = {j. w_active (ws L j) \<and> w_fd (ws L j) = int fd'} \<union> (if fd' = fd then {i} else {})"
      using f assms(2) by (auto simp: relisted_anfd [OF assms(1,4)] lists_ok_def)
    also have "\<dots> = {j. w_active (ws L' j) \<and> w_fd (ws L' j) = int fd'}"
      using i relisted_other(1,2) [OF assms(1)] assms(3) by (intro set_eqI) (case_tac "x = i"; simp)
    finally show "set (head (anfds L' ! fd')) = {j. w_active (ws L' j) \<and> w_fd (ws L' j) = int fd'}" .
  next
    fix j assume j: "w_active (ws L' j)"
    show "0 \<le> w_fd (ws L' j)" "nat (w_fd (ws L' j)) < length (anfds L)" "w_events (ws L' j) AND NOT (EV_READ OR EV_WRITE) = 0"
      using j i assms(2,4,6) relisted_other [OF assms(1), of j] by (cases "j = i"; simp add: lists_ok_def)+
  qed
qed

section \<open>\<open>fd_kill\<close> ends\<close>

text \<open>What it leaves: no watcher of the descriptor, and everything else as it was.\<close>

definition killed :: "nat \<Rightarrow> 'k io_loop \<Rightarrow> 'k io_loop \<Rightarrow> bool" where
  "killed fd L L' \<longleftrightarrow>
     (\<exists>r. anfds L' = (anfds L)[fd := (anfds L ! fd)\<lparr>head := [], reify := r\<rparr>] \<and>
        (if head (anfds L ! fd) = [] then r = reify (anfds L ! fd) \<and> fdchanges L' = fdchanges L
         else r = reify (anfds L ! fd) OR 1 \<and>
           fdchanges L' = fdchanges L @ (if reify (anfds L ! fd) = 0 then [fd] else []))) \<and>
     kernel L' = kernel L \<and> eperms L' = eperms L \<and> postfork L' = postfork L \<and>
     (\<forall>j. \<not> (w_active (ws L j) \<and> w_fd (ws L j) = int fd) \<longrightarrow> bare (ws L' j) = bare (ws L j))"

lemma fd_kill_ends:
  assumes "lists_ok L" "fd < length (anfds L)"
  shows "\<exists>L'. fd_kill fd L = Some (Return L') \<and> lists_ok L' \<and> killed fd L L'"
  using assms
proof (induction "length (head (anfds L ! fd))" arbitrary: L)
  case 0
  then have "(anfds L ! fd)\<lparr>head := [], reify := reify (anfds L ! fd)\<rparr> = anfds L ! fd" by simp
  then have "anfds L = (anfds L)[fd := (anfds L ! fd)\<lparr>head := [], reify := reify (anfds L ! fd)\<rparr>]" by (simp only: list_update_id)
  then show ?case using 0 by (subst fd_kill.simps) (auto simp: killed_def)
next
  case (Suc n)
  define i where "i = hd (head (anfds L ! fd))"
  obtain t where t: "head (anfds L ! fd) = i # t" using Suc.hyps(2) by (cases "head (anfds L ! fd)") (auto simp: i_def)
  then have "i \<in> set (head (anfds L ! fd))" by simp
  then have i: "w_active (ws L i)" "w_fd (ws L i) = int fd" using Suc.prems by (auto simp: lists_ok_def)
  obtain K where K: "ev_io_stop i L = Return K" "relisted i fd 1 (remove1 i) L K" "bare (ws K i) = (w_fd (ws L i), w_events (ws L i), False)"
    using stop_active [OF Suc.prems(1) i(1)] i(2) by auto
  define M where "M = io_feed_event i (EV_ERROR OR EV_READ OR EV_WRITE) K"
  have v: "same_view K M" by (simp add: M_def)
  have a: "anfds M = anfds K" using v by (simp add: same_view_def)
  have h: "anfds M ! fd = (anfds L ! fd)\<lparr>head := t, reify := reify (anfds L ! fd) OR 1\<rparr>"
    using relisted_anfd [OF K(2) Suc.prems(2), of fd] t by (simp add: a)
  have l: "lists_ok M" using relisted_stop [OF K(2) Suc.prems(1) i K(3)] same_view_inv(1) [OF v] by simp
  have len: "length (anfds M) = length (anfds L)" using relisted_length [OF K(2)] by (simp add: a)
  obtain L' where L': "fd_kill fd M = Some (Return L')" "lists_ok L'" "killed fd M L'"
    using Suc.hyps(1) [of M] Suc.hyps(2) l len Suc.prems(2) h t by auto
  have "fd_kill fd L = Some (Return L')"
    by (subst fd_kill.simps) (simp add: t K(1) L'(1) M_def [symmetric] Let_def)
  moreover have "killed fd L L'"
  proof -
    have b: "bare (ws M j) = bare (ws L j)" if "j \<noteq> i" for j
      using v K(2) that by (simp add: same_view_def relisted_def)
    have m: "fdchanges M = fdchanges L @ (if reify (anfds L ! fd) = 0 then [fd] else [])" "kernel M = kernel L" "eperms M = eperms L" "postfork M = postfork L"
      "anfds M = (anfds L)[fd := (anfds L ! fd)\<lparr>head := t, reify := reify (anfds L ! fd) OR 1\<rparr>]"
      using v K(2) t by (simp_all add: same_view_def relisted_def)
    have "bare (ws L' j) = bare (ws L j)" if "\<not> (w_active (ws L j) \<and> w_fd (ws L j) = int fd)" for j
    proof -
      have "j \<noteq> i" using that i by auto
      then show ?thesis using that b [of j] L'(3) by (auto simp: killed_def bare_def)
    qed
    moreover have "reify (anfds L ! fd) OR 1 OR 1 = reify (anfds L ! fd) OR 1" by simp
    ultimately show ?thesis
      using L'(3) Suc.prems(2) t m unfolding killed_def h by (auto split: if_splits)
  qed
  ultimately show ?case using L'(2) by blast
qed


section \<open>One step of \<open>fd_reify\<close>\<close>

definition others :: "nat \<Rightarrow> 'k io_loop \<Rightarrow> 'k io_loop \<Rightarrow> bool" where
  "others fd L L' \<longleftrightarrow> length (anfds L') = length (anfds L) \<and> (\<forall>fd'. fd' \<noteq> fd \<longrightarrow> anfds L' ! fd' = anfds L ! fd')"

definition quiet :: "nat \<Rightarrow> 'k io_loop \<Rightarrow> 'k io_loop \<Rightarrow> bool" where
  "quiet fd L L' \<longleftrightarrow> others fd L L' \<and> (\<forall>j. bare (ws L' j) = bare (ws L j)) \<and> fdchanges L' = fdchanges L \<and>
     head (anfds L' ! fd) = head (anfds L ! fd) \<and> reify (anfds L' ! fd) = reify (anfds L ! fd) \<and>
     aevents (anfds L' ! fd) = aevents (anfds L ! fd)"

definition emptied :: "nat \<Rightarrow> 'k io_loop \<Rightarrow> 'k io_loop \<Rightarrow> bool" where
  "emptied fd L L' \<longleftrightarrow> others fd L L' \<and> head (anfds L' ! fd) = [] \<and> reify (anfds L' ! fd) = reify (anfds L ! fd) OR 1 \<and>
     fdchanges L' = fdchanges L @ (if reify (anfds L ! fd) = 0 then [fd] else []) \<and>
     (\<forall>j. \<not> (w_active (ws L j) \<and> w_fd (ws L j) = int fd) \<longrightarrow> bare (ws L' j) = bare (ws L j))"

lemma others_refl [simp]: "others fd L L" by (simp add: others_def)

lemma others_trans: "others fd L L' \<Longrightarrow> others fd L' L'' \<Longrightarrow> others fd L L''" by (simp add: others_def)

lemma quiet_refl [simp]: "quiet fd L L" by (simp add: quiet_def)

lemma quiet_trans: "quiet fd L L' \<Longrightarrow> quiet fd L' L'' \<Longrightarrow> quiet fd L L''" by (auto simp: quiet_def others_def)

lemma quiet_emptied: "quiet fd L L' \<Longrightarrow> emptied fd L' L'' \<Longrightarrow> emptied fd L L''"
  by (auto simp: quiet_def emptied_def others_def bare_def)

lemma emptied_quiet: "emptied fd L L' \<Longrightarrow> quiet fd L' L'' \<Longrightarrow> emptied fd L L''"
  by (auto simp: quiet_def emptied_def others_def bare_def)

lemma quiet_bare: 
  assumes "quiet fd L L'"
  shows "w_active (ws L' i) = w_active (ws L i)" "w_fd (ws L' i) = w_fd (ws L i)" "w_events (ws L' i) = w_events (ws L i)"
    "head (anfds L' ! fd') = head (anfds L ! fd')" "reify (anfds L' ! fd') = reify (anfds L ! fd')"
    "aevents (anfds L' ! fd') = aevents (anfds L ! fd')" "length (anfds L') = length (anfds L)"
  using assms by (cases "fd' = fd"; simp add: quiet_def bare_def others_def)+

lemma quiet_inv:
  assumes "quiet fd L L'"
  shows "lists_ok L' = lists_ok L" "changes_ok c L' = changes_ok c L" "events_ok L' = events_ok L" "wanted L' fd' = wanted L fd'"
proof -
  note q = quiet_bare [OF assms]
  show w: "wanted L' fd = wanted L fd" for fd by (rule wanted_cong) (simp_all add: q)
  show "lists_ok L' = lists_ok L" "changes_ok c L' = changes_ok c L" "events_ok L' = events_ok L"
    by (simp_all add: lists_ok_def changes_ok_def events_ok_def q w)
qed

lemma killed_emptied:
  assumes "killed fd L L'" "fd < length (anfds L)" "head (anfds L ! fd) \<noteq> []"
  shows "emptied fd L L'"
  using assms unfolding killed_def emptied_def others_def by (elim conjE exE) (simp add: assms(2,3))

lemma quiet_upd_fd:
  assumes "\<And>a. head (f a) = head a" "\<And>a. reify (f a) = reify a" "\<And>a. aevents (f a) = aevents a"
  shows "quiet fd L (upd_fd fd f L)"
proof (cases "fd < length (anfds L)")
  case True
  then show ?thesis by (simp add: quiet_def upd_fd_def others_def assms)
next
  case False
  then have "upd_fd fd f L = L" by (simp add: upd_fd_def list_update_beyond not_less)
  then show ?thesis by simp
qed

lemma quiet_upd [simp]:
  "quiet fd L (upd_fd fd (\<lambda>a. a\<lparr>emask := m, egen := g a\<rparr>) L)" "quiet fd L (upd_fd fd (\<lambda>a. a\<lparr>emask := m\<rparr>) L)" "quiet fd L (dec_egen fd L)"
  unfolding dec_egen_def by (rule quiet_upd_fd; simp)+

lemma quiet_loop [simp]: "quiet fd L (L\<lparr>kernel := k\<rparr>)" "quiet fd L (L\<lparr>eperms := e\<rparr>)"
  by (simp_all add: quiet_def others_def)

lemma call_ctl_quiet: "call_ctl ctl op fd nev L = (r, L') \<Longrightarrow> quiet fd L L'"
  by (auto simp: call_ctl_def split: prod.splits)

lemma kill_and_dec_ends:
  assumes "lists_ok L" "fd < length (anfds L)" "head (anfds L ! fd) \<noteq> []"
  shows "\<exists>L'. kill_and_dec fd L = Some (Return L') \<and> lists_ok L' \<and> emptied fd L L' \<and> kernel L' = kernel L \<and> postfork L' = postfork L"
proof -
  obtain K where K: "fd_kill fd L = Some (Return K)" "lists_ok K" "killed fd L K" using fd_kill_ends [OF assms(1,2)] by blast
  have "emptied fd L (dec_egen fd K)" by (rule emptied_quiet [OF killed_emptied [OF K(3) assms(2,3)]]) simp
  moreover have "kernel K = kernel L" "postfork K = postfork L" using K(3) by (simp_all add: killed_def)
  ultimately show ?thesis using K quiet_inv(1) [OF quiet_upd(3), of fd K] by (simp add: kill_and_dec_def dec_egen_def upd_fd_def)
qed

text \<open>Whatever the kernel answers, the backend leaves the descriptor as it was or takes all watchers off it.\<close>

lemma epoll_modify_ends:
  assumes "lists_ok L" "fd < length (anfds L)" "nev \<noteq> 0 \<longrightarrow> head (anfds L ! fd) \<noteq> []"
  shows "\<exists>L'. epoll_modify ctl fd oev nev L = Some (Return L') \<and> lists_ok L' \<and>
    (quiet fd L L' \<or> nev \<noteq> 0 \<and> emptied fd L L')"
proof (cases "nev = 0")
  case True
  then show ?thesis using assms(1) by (simp add: epoll_modify_def)
next
  case False
  have kill: "\<exists>L'. kill_and_dec fd K = Some (Return L') \<and> lists_ok L' \<and> (quiet fd L L' \<or> emptied fd L L')" if "quiet fd L K" for K
    using kill_and_dec_ends [of K fd] assms False quiet_inv(1) [OF that] quiet_bare(4,7) [OF that] quiet_emptied [OF that] by auto
  define L1 where "L1 = upd_fd fd (\<lambda>a. a\<lparr>emask := nev, egen := egen a + 1\<rparr>) L"
  have q1: "quiet fd L L1" by (simp add: L1_def)
  obtain r L2 where c: "call_ctl ctl (if oev \<noteq> 0 \<and> emask (anfds L ! fd) \<noteq> nev then CTL_MOD else CTL_ADD) fd nev L1 = (r, L2)" by fastforce
  have q2: "quiet fd L L2" by (rule quiet_trans [OF q1 call_ctl_quiet [OF c]])
  obtain rm LM where cm: "call_ctl ctl CTL_MOD fd nev L2 = (rm, LM)" by fastforce
  obtain ra LA where ca: "call_ctl ctl CTL_ADD fd nev L2 = (ra, LA)" by fastforce
  have q: "quiet fd L LM" "quiet fd L LA" "quiet fd L (dec_egen fd L2)" "quiet fd L (upd_fd fd (\<lambda>a. a\<lparr>emask := m\<rparr>) L2)" for m
    using quiet_trans [OF q2 call_ctl_quiet [OF cm]] quiet_trans [OF q2 call_ctl_quiet [OF ca]] quiet_trans [OF q2] by simp_all
  have ok: "quiet fd L K \<Longrightarrow> lists_ok K" for K using quiet_inv(1) assms(1) by blast
  have qe: "quiet fd L ((upd_fd fd (\<lambda>a. a\<lparr>emask := m\<rparr>) L2)\<lparr>eperms := e\<rparr>)" for m e by (rule quiet_trans [OF q(4) quiet_loop(2)])
  show ?thesis
    unfolding epoll_modify_def Let_def L1_def [symmetric]
    using False kill [OF q(1)] kill [OF q(2)] kill [OF q2] q qe q2 ok
    by (cases r; cases rm; cases ra) (simp_all add: c cm ca)
qed

section \<open>\<open>fd_reify\<close> ends\<close>

lemma wanted_empty: "head (anfds L ! fd) = [] \<Longrightarrow> wanted L fd = 0"
  by (simp add: wanted_def)

lemma wanted_upd: "(\<And>a. head (f a) = head a) \<Longrightarrow> fd < length (anfds L) \<Longrightarrow> wanted (upd_fd fd f L) fd' = wanted L fd'"
  by (rule wanted_cong) (cases "fd' = fd"; simp add: upd_fd_def)+

definition fd_settled :: "nat \<Rightarrow> 'k io_loop \<Rightarrow> 'k io_loop \<Rightarrow> bool" where
  "fd_settled fd L L' \<longleftrightarrow> others fd L L' \<and> (\<forall>j. bare (ws L' j) = bare (ws L j)) \<and> fdchanges L' = fdchanges L \<and>
     head (anfds L' ! fd) = head (anfds L ! fd) \<and> reify (anfds L' ! fd) = 0 \<and> aevents (anfds L' ! fd) = wanted L fd"

definition fd_dropped :: "nat \<Rightarrow> 'k io_loop \<Rightarrow> 'k io_loop \<Rightarrow> bool" where
  "fd_dropped fd L L' \<longleftrightarrow> others fd L L' \<and> head (anfds L ! fd) \<noteq> [] \<and> head (anfds L' ! fd) = [] \<and>
     reify (anfds L' ! fd) = 1 \<and> fdchanges L' = fdchanges L @ [fd] \<and>
     (\<forall>j. \<not> (w_active (ws L j) \<and> w_fd (ws L j) = int fd) \<longrightarrow> bare (ws L' j) = bare (ws L j))"

lemma lists_ok_upd:
  assumes "lists_ok L" "\<And>a. head (f a) = head a" "fd < length (anfds L)"
  shows "lists_ok (upd_fd fd f L)"
proof -
  have "head (anfds (upd_fd fd f L) ! fd') = head (anfds L ! fd')" for fd'
    using assms(2,3) by (cases "fd' = fd") (simp_all add: upd_fd_def)
  moreover have "length (anfds (upd_fd fd f L)) = length (anfds L)" "ws (upd_fd fd f L) = ws L" by (simp_all add: upd_fd_def)
  ultimately show ?thesis using assms(1) by (simp add: lists_ok_def)
qed

lemma reify_fd_ends:
  assumes "lists_ok L" "fd < length (anfds L)"
  shows "\<exists>L'. reify_fd ctl fd L = Some (Return L') \<and> lists_ok L' \<and> (fd_settled fd L L' \<or> fd_dropped fd L L')"
proof -
  define ev where "ev = wanted L fd"
  define K where "K = upd_fd fd (\<lambda>a. a\<lparr>reify := 0, aevents := ev\<rparr>) L"
  have K: "others fd L K" "head (anfds K ! fd) = head (anfds L ! fd)" "reify (anfds K ! fd) = 0" "aevents (anfds K ! fd) = ev"
    "length (anfds K) = length (anfds L)" "ws K = ws L" "fdchanges K = fdchanges L"
    using assms(2) by (simp_all add: K_def upd_fd_def others_def)
  have l: "lists_ok K" unfolding K_def by (rule lists_ok_upd) (simp_all add: assms)
  have h: "ev \<noteq> 0 \<longrightarrow> head (anfds K ! fd) \<noteq> []" using wanted_empty [of L fd] K(2) by (auto simp: ev_def)
  have settled: "fd_settled fd L M" if "quiet fd K M" for M
    using that K by (auto simp: fd_settled_def quiet_def ev_def intro: others_trans)
  have dropped: "fd_dropped fd L M" if "emptied fd K M" "ev \<noteq> 0" for M
    using that K h by (auto simp: fd_dropped_def emptied_def intro: others_trans)
  obtain M where M: "epoll_modify ctl fd (aevents (anfds L ! fd)) ev K = Some (Return M)" "lists_ok M"
    "quiet fd K M \<or> ev \<noteq> 0 \<and> emptied fd K M"
    using epoll_modify_ends [OF l _ h] assms(2) K(5) by (metis (no_types))
  show ?thesis
  proof (cases "(if aevents (anfds L ! fd) \<noteq> ev then 0x80 else reify (anfds L ! fd)) AND 0x80 \<noteq> 0")
    case True
    then have "reify_fd ctl fd L = Some (Return M)" by (simp add: reify_fd_def Let_def ev_def [symmetric] K_def [symmetric] M(1))
    then show ?thesis using M(2,3) settled dropped by blast
  next
    case False
    then have "reify_fd ctl fd L = Some (Return K)" by (simp add: reify_fd_def Let_def ev_def [symmetric] K_def [symmetric])
    then show ?thesis using l settled [of K] by simp
  qed
qed

definition reify_inv :: "nat list \<Rightarrow> 'k io_loop \<Rightarrow> bool" where
  "reify_inv q L \<longleftrightarrow> lists_ok L \<and> changes_ok q L \<and> events_ok L"

definition listed :: "'k io_loop \<Rightarrow> nat" where
  "listed L = (\<Sum>fd<length (anfds L). length (head (anfds L ! fd)))"

lemma bare_D: 
  assumes "bare w = bare v"
  shows "w_fd w = w_fd v" "w_events w = w_events v" "w_active w = w_active v"
  using assms by (simp_all add: bare_def)

lemma others_events:
  assumes "others fd L L'" "\<And>j. \<not> (w_active (ws L j) \<and> w_fd (ws L j) = int fd) \<Longrightarrow> bare (ws L' j) = bare (ws L j)" "lists_ok L" 
    "fd' \<noteq> fd" "fd' < length (anfds L)"
  shows "wanted L' fd' = wanted L fd'"
proof (rule wanted_cong)
  show "head (anfds L' ! fd') = head (anfds L ! fd')" using assms(1,4) by (simp add: others_def)
  show "w_events (ws L' j) = w_events (ws L j)" if "j \<in> set (head (anfds L ! fd'))" for j
  proof -
    have "w_fd (ws L j) = int fd'" using that assms(3,5) by (simp add: lists_ok_def)
    then show ?thesis using assms(2,4) by (intro bare_D(2)) simp
  qed
qed

lemma settled_inv:
  assumes "reify_inv (fd # q) L" "fd_settled fd L L'" "lists_ok L'"
  shows "reify_inv q L'" "listed L' = listed L"
proof -
  have len: "length (anfds L') = length (anfds L)" using assms(2) by (simp add: fd_settled_def others_def)
  have o: "anfds L' ! fd' = anfds L ! fd'" if "fd' \<noteq> fd" for fd' using assms(2) that by (simp add: fd_settled_def others_def)
  have f: "head (anfds L' ! fd) = head (anfds L ! fd)" "reify (anfds L' ! fd) = 0" "aevents (anfds L' ! fd) = wanted L fd"
    using assms(2) by (simp_all add: fd_settled_def)
  have h: "head (anfds L' ! fd') = head (anfds L ! fd')" for fd' using f(1) o by (cases "fd' = fd") simp_all
  have w: "wanted L' fd' = wanted L fd'" for fd'
    by (rule wanted_cong) (use assms(2) in \<open>auto simp: fd_settled_def bare_def h\<close>)
  have c: "distinct (fd # q)" "set (fd # q) = {fd. fd < length (anfds L) \<and> reify (anfds L ! fd) \<noteq> 0}"
    using assms(1) by (simp_all only: reify_inv_def changes_ok_def)
  have "set q = set (fd # q) - {fd}" using c(1) by auto
  also have "\<dots> = {fd. fd < length (anfds L') \<and> reify (anfds L' ! fd) \<noteq> 0}"
    unfolding c(2) len using f(2) o by (intro set_eqI) (case_tac "x = fd"; simp)
  finally have "changes_ok q L'" using c(1) by (simp add: changes_ok_def)
  moreover have "events_ok L'"
    unfolding events_ok_def len
  proof (intro allI impI)
    fix fd' assume "fd' < length (anfds L)" "reify (anfds L' ! fd') = 0"
    then show "aevents (anfds L' ! fd') = wanted L' fd'"
      using f w o assms(1) by (cases "fd' = fd") (simp_all add: reify_inv_def events_ok_def)
  qed
  ultimately show "reify_inv q L'" using assms(3) by (simp add: reify_inv_def)
  show "listed L' = listed L" by (simp add: listed_def len h)
qed

lemma dropped_inv:
  assumes "reify_inv (fd # q) L" "fd_dropped fd L L'" "lists_ok L'"
  shows "reify_inv (q @ [fd]) L'" "listed L' < listed L"
proof -
  have len: "length (anfds L') = length (anfds L)" using assms(2) by (simp add: fd_dropped_def others_def)
  have o: "anfds L' ! fd' = anfds L ! fd'" if "fd' \<noteq> fd" for fd' using assms(2) that by (simp add: fd_dropped_def others_def)
  have f: "head (anfds L ! fd) \<noteq> []" "head (anfds L' ! fd) = []" "reify (anfds L' ! fd) \<noteq> 0"
    using assms(2) by (simp_all add: fd_dropped_def)
  have c: "distinct (fd # q)" "set (fd # q) = {fd. fd < length (anfds L) \<and> reify (anfds L ! fd) \<noteq> 0}"
    using assms(1) by (simp_all only: reify_inv_def changes_ok_def)
  have fd: "fd < length (anfds L)" using c(2) by auto
  have "set (q @ [fd]) = set (fd # q)" by simp
  also have "\<dots> = {fd. fd < length (anfds L') \<and> reify (anfds L' ! fd) \<noteq> 0}"
    unfolding c(2) len using f(3) o c(2) by (intro set_eqI) (case_tac "x = fd"; auto)
  finally have "changes_ok (q @ [fd]) L'" using c(1) by (simp add: changes_ok_def)
  moreover have "events_ok L'"
    unfolding events_ok_def len
  proof (intro allI impI)
    fix fd' assume a: "fd' < length (anfds L)" "reify (anfds L' ! fd') = 0"
    then have n: "fd' \<noteq> fd" using f by auto
    have "wanted L' fd' = wanted L fd'"
      by (rule others_events [OF _ _ _ n a(1)]) (use assms(1,2) in \<open>auto simp: fd_dropped_def reify_inv_def\<close>)
    then show "aevents (anfds L' ! fd') = wanted L' fd'"
      using a o [OF n] assms(1) by (simp add: reify_inv_def events_ok_def)
  qed
  ultimately show "reify_inv (q @ [fd]) L'" using assms(3) by (simp add: reify_inv_def)
  have "length (head (anfds L' ! fd')) \<le> length (head (anfds L ! fd'))" for fd' using f(2) o by (cases "fd' = fd") simp_all
  then show "listed L' < listed L"
    unfolding listed_def len using fd f by (intro sum_strict_mono_ex1) (auto intro!: bexI [of _ fd])
qed

definition reified :: "'k io_loop \<Rightarrow> bool" where
  "reified L \<longleftrightarrow> lists_ok L \<and> fdchanges L = [] \<and> (\<forall>fd<length (anfds L). reify (anfds L ! fd) = 0 \<and> aevents (anfds L ! fd) = wanted L fd)"

text \<open>\<open>P\<close> is anything that one turn of the loop keeps.\<close>

lemma fd_reify_from_keeps:
  assumes turn: "\<And>L fd L'. P L \<Longrightarrow> lists_ok L \<Longrightarrow> fd < length (anfds L) \<Longrightarrow> reify_fd ctl fd L = Some (Return L') \<Longrightarrow> P L'"
    and clear: "\<And>L. P L \<Longrightarrow> P (L\<lparr>fdchanges := []\<rparr>)"
    and "reify_inv (drop i (fdchanges L)) L" "P L"
  shows "\<exists>L'. fd_reify_from ctl i L = Some (Return L') \<and> reified L' \<and> P L'"
  using assms(3,4)
proof (induction "(listed L, length (fdchanges L) - i)" arbitrary: L i rule: wf_induct_rule [OF wf_lex_prod [OF wf_less_than wf_less_than]])
  case (1 L i)
  show ?case
  proof (cases "i < length (fdchanges L)")
    case False
    then have "changes_ok [] L" using 1(2) by (simp add: reify_inv_def)
    then have r: "reify (anfds L ! fd) = 0" if "fd < length (anfds L)" for fd using that by (auto simp: changes_ok_def)
    have "wanted (L\<lparr>fdchanges := []\<rparr>) fd = wanted L fd" for fd by (simp add: wanted_def)
    then have "reified (L\<lparr>fdchanges := []\<rparr>)"
      using 1(2) r by (simp add: reified_def reify_inv_def events_ok_def lists_ok_def)
    then show ?thesis using False clear [OF 1(3)] by (subst fd_reify_from.simps) simp
  next
    case True
    define fd where "fd = fdchanges L ! i"
    have q: "reify_inv (fd # drop (Suc i) (fdchanges L)) L" using 1(2) True by (simp add: Cons_nth_drop_Suc fd_def)
    then have l: "lists_ok L" "fd < length (anfds L)" by (auto simp: reify_inv_def changes_ok_def)
    obtain M where M: "reify_fd ctl fd L = Some (Return M)" "lists_ok M" "fd_settled fd L M \<or> fd_dropped fd L M"
      using reify_fd_ends [OF l] by blast
    have *: "reify_inv (drop (Suc i) (fdchanges M)) M \<and> (listed M < listed L \<or> listed M = listed L \<and> length (fdchanges M) = length (fdchanges L))"
      using M(3)
    proof
      assume s: "fd_settled fd L M"
      then have "fdchanges M = fdchanges L" by (simp add: fd_settled_def)
      then show ?thesis using settled_inv [OF q s M(2)] by simp
    next
      assume d: "fd_dropped fd L M"
      then have "fdchanges M = fdchanges L @ [fd]" by (simp add: fd_dropped_def)
      then show ?thesis using dropped_inv [OF q d M(2)] True by simp
    qed
    have "((listed M, length (fdchanges M) - Suc i), (listed L, length (fdchanges L) - i)) \<in> less_than <*lex*> less_than"
      using * True by auto
    then obtain L' where "fd_reify_from ctl (Suc i) M = Some (Return L')" "reified L'" "P L'"
      using 1(1) * turn [OF 1(3) l M(1)] by blast
    then show ?thesis using True M(1) by (subst fd_reify_from.simps) (simp add: fd_def)
  qed
qed

section \<open>The array of descriptors\<close>

lemma doubled_ge: "0 < n \<Longrightarrow> cnt \<le> doubled n cnt"
proof (induction n cnt rule: doubled.induct)
  case (1 n cnt)
  show ?case
  proof (cases "cnt \<le> 2 * n")
    case True
    then show ?thesis using "1.prems" by (subst doubled.simps) simp
  next
    case False
    then have "cnt \<le> doubled (2 * n) cnt" using 1 by simp
    then show ?thesis using False "1.prems" by (subst doubled.simps) simp
  qed
qed

lemma round_up: "0 < (k::nat) \<Longrightarrow> x < (x + k) div k * k"
  using mod_less_divisor [of k "x + k"] div_mult_mod_eq [of "x + k" k] by linarith

lemma array_nextsize_ge:
  assumes "0 < elem"
  shows "cnt \<le> array_nextsize elem cur cnt"
proof (cases "4096 - 32 < elem * doubled (cur + 1) cnt")
  case True
  define n where "n = doubled (cur + 1) cnt"
  have "n * elem + elem + 31 < (n * elem + elem + 31 + 4096) div 4096 * 4096" by (rule round_up) simp
  then have "n * elem \<le> (n * elem + elem + 4095 + 32) div 4096 * 4096 - 32" by (simp add: add.commute add.left_commute)
  then have "n * elem div elem \<le> ((n * elem + elem + 4095 + 32) div 4096 * 4096 - 32) div elem" by (rule div_le_mono)
  then have "n \<le> array_nextsize elem cur cnt" using assms True by (simp add: array_nextsize_def Let_def n_def)
  then show ?thesis using doubled_ge [of "cur + 1" cnt] by (simp add: n_def)
next
  case False
  then show ?thesis using doubled_ge [of "cur + 1" cnt] by (simp add: array_nextsize_def)
qed

lemma need_anfd_length: "fd < length (anfds (need_anfd fd L))" "length (anfds L) \<le> length (anfds (need_anfd fd L))"
  using array_nextsize_ge [of 16 "fd + 1" "length (anfds L)"] by (auto simp: need_anfd_def Let_def)

lemma need_anfd_nth:
  "fd' < length (anfds (need_anfd fd L)) \<Longrightarrow> anfds (need_anfd fd L) ! fd' = (if fd' < length (anfds L) then anfds L ! fd' else zero_anfd)"
  by (auto simp: need_anfd_def Let_def nth_append split: if_splits)

lemma need_anfd_other [simp]:
  "ws (need_anfd fd L) = ws L" "fdchanges (need_anfd fd L) = fdchanges L" "kernel (need_anfd fd L) = kernel L"
  "eperms (need_anfd fd L) = eperms L" "postfork (need_anfd fd L) = postfork L"
  by (simp_all add: need_anfd_def Let_def)

lemma need_anfd_inv:
  assumes "reify_inv q L"
  shows "reify_inv q (need_anfd fd L)"
proof -
  let ?L = "need_anfd fd L"
  have w: "wanted ?L fd' = wanted L fd'" if "fd' < length (anfds L)" for fd'
    by (rule wanted_cong) (use need_anfd_nth [of fd' fd L] need_anfd_length(2) [of L fd] that in simp_all)
  have l: "lists_ok L" "changes_ok q L" "events_ok L" using assms by (simp_all add: reify_inv_def)
  have none: "\<not> (w_active (ws L i) \<and> w_fd (ws L i) = int fd')" if "\<not> fd' < length (anfds L)" for i fd'
    using l(1) that unfolding lists_ok_def by (metis nat_int)
  have "lists_ok ?L"
    unfolding lists_ok_def
  proof (intro conjI allI impI)
    fix fd' assume f: "fd' < length (anfds ?L)"
    show "distinct (head (anfds ?L ! fd'))" "set (head (anfds ?L ! fd')) = {i. w_active (ws ?L i) \<and> w_fd (ws ?L i) = int fd'}"
      using l(1) none [of fd'] by (cases "fd' < length (anfds L)"; simp add: need_anfd_nth [OF f] zero_anfd_def lists_ok_def)+
  next
    fix i assume "w_active (ws ?L i)"
    then show "0 \<le> w_fd (ws ?L i)" "nat (w_fd (ws ?L i)) < length (anfds ?L)" "w_events (ws ?L i) AND NOT (EV_READ OR EV_WRITE) = 0"
      using l(1) need_anfd_length(2) [of L fd] by (auto simp: lists_ok_def intro: less_le_trans)
  qed
  moreover have "changes_ok q ?L"
  proof -
    have "{fd'. fd' < length (anfds ?L) \<and> reify (anfds ?L ! fd') \<noteq> 0} = {fd'. fd' < length (anfds L) \<and> reify (anfds L ! fd') \<noteq> 0}"
      (is "?A = ?B")
    proof (intro set_eqI)
      show "x \<in> ?A \<longleftrightarrow> x \<in> ?B" for x
        using need_anfd_nth [of x fd L] need_anfd_length(2) [of L fd] by (auto simp: zero_anfd_def split: if_splits)
    qed
    then show ?thesis using l(2) by (simp only: changes_ok_def)
  qed
  moreover have "events_ok ?L"
    using l(3) w by (auto simp: events_ok_def need_anfd_nth wanted_empty zero_anfd_def)
  ultimately show ?thesis by (simp add: reify_inv_def)
qed

section \<open>Starting and stopping keep the invariant\<close>

definition io_ok :: "'k io_loop \<Rightarrow> bool" where
  "io_ok L \<longleftrightarrow> reify_inv (fdchanges L) L"

lemma set_inactive_same: "\<not> w_active (ws L i) \<Longrightarrow> lists_ok L \<Longrightarrow> fd' < length (anfds L) \<Longrightarrow> i \<notin> set (head (anfds L ! fd'))"
  by (simp add: lists_ok_def)

lemma relisted_inv:
  assumes "relisted i fd flags f L L'" "fd < length (anfds L)" "flags \<noteq> 0" "io_ok L" "lists_ok L'"
    and "w_active (ws L i) \<longrightarrow> w_fd (ws L i) = int fd"
  shows "io_ok L'"
  using assms(5) relisted_changes [OF assms(1,2,3), of "fdchanges L"] relisted_events [OF assms(1,2,3) _ _ assms(6)] assms(1,4)
  by (auto simp: io_ok_def reify_inv_def relisted_def)

lemma start_relists:
  assumes "ev_io_start i L = Return L'" "\<not> w_active (ws L i)"
  defines "fd \<equiv> nat (w_fd (ws L i))"
  shows "0 \<le> w_fd (ws L i)" "w_events (ws L i) AND NOT (EV_IOFDSET OR EV_READ OR EV_WRITE) = 0"
    "relisted i fd (ucast (w_events (ws L i) AND EV_IOFDSET) OR EV_ANFD_REIFY) (\<lambda>h. i # h) (need_anfd fd L) L'"
    "bare (ws L' i) = (int fd, w_events (ws L i) AND NOT EV_IOFDSET, True)" "postfork L' = postfork L"
proof -
  have "need_anfd fd (io_ev_start i L) = (need_anfd fd L)\<lparr>ws := ws (io_ev_start i L), io_activecnt := io_activecnt L + 1\<rparr>"
    by (simp add: need_anfd_def io_ev_start_def upd_w_def Let_def)
  then have n: "anfds (need_anfd fd (io_ev_start i L)) = anfds (need_anfd fd L)" "ws (need_anfd fd (io_ev_start i L)) = ws (io_ev_start i L)"
    "postfork (need_anfd fd (io_ev_start i L)) = postfork L" "fdchanges (need_anfd fd (io_ev_start i L)) = fdchanges L"
    "kernel (need_anfd fd (io_ev_start i L)) = kernel L" "eperms (need_anfd fd (io_ev_start i L)) = eperms L"
    by simp_all
  show a: "0 \<le> w_fd (ws L i)" "w_events (ws L i) AND NOT (EV_IOFDSET OR EV_READ OR EV_WRITE) = 0"
    using assms(1,2) by (simp_all add: ev_io_start_def Let_def oassert_def split: if_splits)
  define K where "K = need_anfd fd (io_ev_start i L)"
  define fl where "fl = (ucast (w_events (ws L i) AND EV_IOFDSET) OR EV_ANFD_REIFY :: u8)"
  have L': "L' = upd_w i (\<lambda>w. w\<lparr>w_events := w_events w AND NOT EV_IOFDSET\<rparr>) (fd_change fd fl (upd_fd fd (\<lambda>a. a\<lparr>head := i # head a\<rparr>) K))"
    using assms(1,2) a by (simp add: ev_io_start_def Let_def oassert_def fd_def [symmetric] K_def fl_def)
  have f: "fd < length (anfds K)" using need_anfd_length(1) [of fd L] by (simp add: K_def n)
  have k: "anfds L' = (anfds K)[fd := (anfds K ! fd)\<lparr>head := i # head (anfds K ! fd), reify := reify (anfds K ! fd) OR fl\<rparr>]"
    "fdchanges L' = fdchanges K @ (if reify (anfds K ! fd) = 0 then [fd] else [])" "kernel L' = kernel K" "eperms L' = eperms K"
    "postfork L' = postfork K" "ws L' = (ws K)(i := (ws K i)\<lparr>w_events := w_events (ws K i) AND NOT EV_IOFDSET\<rparr>)"
    using f by (simp_all add: L' fd_change_def upd_w_def upd_fd_def Let_def)
  have kk: "anfds K = anfds (need_anfd fd L)" "fdchanges K = fdchanges (need_anfd fd L)" "kernel K = kernel (need_anfd fd L)"
    "eperms K = eperms (need_anfd fd L)" "postfork K = postfork (need_anfd fd L)" unfolding K_def n by simp_all
  have w: "ws K = (ws L)(i := (pri_adjust (ws L i))\<lparr>w_active := True\<rparr>)" by (simp add: K_def n io_ev_start_def upd_w_def)
  show "bare (ws L' i) = (int fd, w_events (ws L i) AND NOT EV_IOFDSET, True)"
    using a by (simp add: bare_def k w pri_adjust_def Let_def fd_def)
  show "postfork L' = postfork L" unfolding k(5) K_def by (rule n(3))
  show "relisted i fd (ucast (w_events (ws L i) AND EV_IOFDSET) OR EV_ANFD_REIFY) (\<lambda>h. i # h) (need_anfd fd L) L'"
    unfolding fl_def [symmetric] relisted_def k kk w by (simp add: bare_def)
qed

lemma start_ok:
  assumes "io_ok L" "ev_io_start i L = Return L'"
  shows "io_ok L'"
proof (cases "w_active (ws L i)")
  case True
  then show ?thesis using assms start_active [OF True] by simp
next
  case False
  let ?fd = "nat (w_fd (ws L i))" and ?K = "need_anfd (nat (w_fd (ws L i))) L"
  note s = start_relists [OF assms(2) False]
  have k: "io_ok ?K" using need_anfd_inv assms(1) by (simp add: io_ok_def)
  have fd: "?fd < length (anfds ?K)" by (rule need_anfd_length)
  have fl: "ucast (w_events (ws L i) AND EV_IOFDSET) OR EV_ANFD_REIFY \<noteq> (0 :: u8)" by (simp add: EV_ANFD_REIFY_def)
  have m: "(e AND NOT EV_IOFDSET) AND NOT (EV_READ OR EV_WRITE) = 0" if "e AND NOT (EV_IOFDSET OR EV_READ OR EV_WRITE) = 0" for e :: u32
    using that unfolding bit_eq_iff bit_and_iff bit_or_iff bit_not_iff by auto
  have ok: "lists_ok ?K" "\<not> w_active (ws ?K i)" using k False by (simp_all add: io_ok_def reify_inv_def)
  have "lists_ok L'" by (rule relisted_start [OF s(3) ok fd s(4) m [OF s(2)]])
  then show ?thesis by (rule relisted_inv [OF s(3) fd fl k]) (simp add: False)
qed

lemma stop_ok:
  assumes "io_ok L"
  shows "\<exists>L'. ev_io_stop i L = Return L' \<and> io_ok L'"
proof (cases "w_active (ws L i)")
  case False
  have v: "same_view L (io_clear_pending i L)" by simp
  then have "io_ok (io_clear_pending i L)"
    using assms same_view_inv [OF v] by (simp add: io_ok_def reify_inv_def same_view_def)
  then show ?thesis using stop_inactive [OF False] by simp
next
  case True
  have l: "lists_ok L" using assms by (simp add: io_ok_def reify_inv_def)
  then have fd: "w_fd (ws L i) = int (nat (w_fd (ws L i)))" "nat (w_fd (ws L i)) < length (anfds L)"
    using True by (simp_all add: lists_ok_def)
  obtain L' where L': "ev_io_stop i L = Return L'" "relisted i (nat (w_fd (ws L i))) 1 (remove1 i) L L'"
    "bare (ws L' i) = (w_fd (ws L i), w_events (ws L i), False)"
    using stop_active [OF l True] by blast
  have "lists_ok L'" by (rule relisted_stop [OF L'(2) l True fd(1) L'(3)])
  then have "io_ok L'" using relisted_inv [OF L'(2) fd(2) _ assms] fd(1) by simp
  then show ?thesis using L'(1) by blast
qed


section \<open>\<open>fd_reify\<close> on a loop\<close>

definition io_init :: "'k \<Rightarrow> 'k io_loop" where
  "io_init k = \<lparr>ws = (\<lambda>_. \<lparr>w_fd = 0, w_events = 0, w_active = False, w_pending = 0, w_priority = 0\<rparr>), anfds = [], fdchanges = [],
     io_pendings = (\<lambda>_. []), io_activecnt = 0, eperms = [], postfork = False, kernel = k\<rparr>"

lemma io_init_ok: "io_ok (io_init k)"
  by (simp add: io_ok_def reify_inv_def lists_ok_def changes_ok_def events_ok_def io_init_def)

lemma io_set_ok:
  assumes "io_ok L" "\<not> w_active (ws L i)"
  shows "io_ok (ev_io_set i fd e L)"
proof -
  let ?L = "ev_io_set i fd e L"
  have l: "lists_ok L" using assms(1) by (simp add: io_ok_def reify_inv_def)
  have o: "anfds ?L = anfds L" "fdchanges ?L = fdchanges L" "j \<noteq> i \<Longrightarrow> ws ?L j = ws L j" "w_active (ws ?L i) = w_active (ws L i)" for j
    by (simp_all add: ev_io_set_def upd_w_def)
  have a: "(w_active (ws ?L j) \<and> P (ws ?L j)) = (w_active (ws L j) \<and> P (ws L j))" for j P
    using o(3) [of j] o(4) assms(2) by (cases "j = i") simp_all
  have w: "wanted ?L d = wanted L d" if "d < length (anfds L)" for d
  proof (rule wanted_cong)
    show "w_events (ws ?L j) = w_events (ws L j)" if "j \<in> set (head (anfds L ! d))" for j
      using that set_inactive_same [OF assms(2) l \<open>d < _\<close>] o(3) [of j] by (cases "j = i") simp_all
  qed (simp add: o)
  have "lists_ok ?L"
    unfolding lists_ok_def o(1)
  proof (intro conjI allI impI)
    show "distinct (head (anfds L ! d))" "set (head (anfds L ! d)) = {j. w_active (ws ?L j) \<and> w_fd (ws ?L j) = int d}"
      if "d < length (anfds L)" for d
      using l that a [of _ "\<lambda>w. w_fd w = int d"] by (simp_all add: lists_ok_def)
    show "0 \<le> w_fd (ws ?L j)" "nat (w_fd (ws ?L j)) < length (anfds L)" "w_events (ws ?L j) AND NOT (EV_READ OR EV_WRITE) = 0"
      if "w_active (ws ?L j)" for j
    proof -
      have "j \<noteq> i" using that assms(2) o(4) by auto
      then show "0 \<le> w_fd (ws ?L j)" "nat (w_fd (ws ?L j)) < length (anfds L)" "w_events (ws ?L j) AND NOT (EV_READ OR EV_WRITE) = 0"
        using l that o(3) [of j] by (simp_all add: lists_ok_def)
    qed
  qed
  then show ?thesis using assms(1) w by (simp add: io_ok_def reify_inv_def changes_ok_def events_ok_def o)
qed

text \<open>
  Property C14: \<open>fd_reify\<close> ends for every kernel, no assertion of \<open>ev_io_stop\<close> fails in it, and afterwards no
  descriptor is queued and each has exactly the events of its watchers.
\<close>

theorem fd_reify_ends:
  assumes "io_ok L"
  shows "\<exists>L'. fd_reify ctl L = Some (Return L') \<and> reified L'"
  using fd_reify_from_keeps [of "\<lambda>_. True" ctl 0 L] assms by (simp add: fd_reify_def io_ok_def)

theorem fd_reify_ends_witness:
  "\<exists>L'. fd_reify (\<lambda>op fd m g k. (Ctl_error, k)) (returned (ev_io_start 0 (ev_io_set 0 5 EV_READ (io_init ())))) = Some (Return L') \<and> reified L'"
proof (rule fd_reify_ends)
  let ?L = "ev_io_set 0 5 EV_READ (io_init ())"
  have "\<not> w_active (ws ?L 0)" "w_fd (ws ?L 0) = 5" "w_events (ws ?L 0) AND NOT (EV_IOFDSET OR EV_READ OR EV_WRITE) = 0"
    by (simp_all add: ev_io_set_def upd_w_def io_init_def EV_READ_def EV_WRITE_def EV_IOFDSET_def)
  then have "\<exists>M. ev_io_start 0 ?L = Return M" by (simp add: ev_io_start_def Let_def oassert_def)
  then obtain M where M: "ev_io_start 0 ?L = Return M" by blast
  have "io_ok ?L" by (rule io_set_ok [OF io_init_ok]) (simp add: io_init_def)
  from start_ok [OF this M] show "io_ok (returned (ev_io_start 0 ?L))" by (simp add: M)
qed

end
