(* ===== verification/EvSync.thy ===== *)
theory EvSync
  imports EvReify
begin

unbundle bit_operations_syntax

text \<open>
  The loop and the kernel: with an \<open>epoll_ctl\<close> that does what its documentation says, the kernel waits for
  what the active watchers ask for, whatever order watchers were set, started and stopped, descriptors
  closed, events polled and the kernel side built anew. The last section shows the descriptors for which
  this is not enough: regular files.
\<close>

section \<open>The kernel side\<close>

text \<open>
  What \<open>epoll_ctl(2)\<close> documents, for a kernel that has registered \<open>reg k fd\<close>, the events and the data, for
  \<open>fd\<close>: a failed call changes nothing; adding what is registered is \<open>EEXIST\<close>; modifying or removing what is
  registered succeeds, and fails for anything else.
\<close>

definition epoll_documented :: "'k epoll_ctl \<Rightarrow> ('k \<Rightarrow> nat \<Rightarrow> (u8 \<times> u32) option) \<Rightarrow> bool" where
  "epoll_documented ctl reg \<longleftrightarrow>
     (\<forall>op fd m g k. let (r, k') = ctl op fd m g k in
        (\<forall>fd'. fd' \<noteq> fd \<longrightarrow> reg k' fd' = reg k fd') \<and>
        reg k' fd = (if r = Ctl_ok then if op = CTL_DEL then None else Some (m, g) else reg k fd) \<and>
        (op = CTL_ADD \<longrightarrow> (r = Ctl_EEXIST \<longleftrightarrow> reg k fd \<noteq> None) \<and> r \<noteq> Ctl_ENOENT) \<and>
        (op \<noteq> CTL_ADD \<longrightarrow> (r = Ctl_ok \<longleftrightarrow> reg k fd \<noteq> None) \<and> r \<noteq> Ctl_EEXIST))"

definition kernel_ok :: "('k \<Rightarrow> nat \<Rightarrow> (u8 \<times> u32) option) \<Rightarrow> 'k io_loop \<Rightarrow> bool" where
  "kernel_ok reg L \<longleftrightarrow>
     (\<forall>fd m g. reg (kernel L) fd = Some (m, g) \<longrightarrow> fd < length (anfds L) \<and> m = emask (anfds L ! fd) AND 3 \<and> g = egen (anfds L ! fd))"

text \<open>The kernel knows what the loop wants of the descriptor, or refuses to poll it and the loop knows that.\<close>

definition known :: "('k \<Rightarrow> nat \<Rightarrow> (u8 \<times> u32) option) \<Rightarrow> 'k io_loop \<Rightarrow> nat \<Rightarrow> u8 \<Rightarrow> bool" where
  "known reg L fd ev \<longleftrightarrow> reg (kernel L) fd = Some (ev AND 3, egen (anfds L ! fd)) \<or> emask (anfds L ! fd) = EV_EMASK_EPERM"

definition same_reg :: "('k \<Rightarrow> nat \<Rightarrow> (u8 \<times> u32) option) \<Rightarrow> nat \<Rightarrow> 'k io_loop \<Rightarrow> 'k io_loop \<Rightarrow> bool" where
  "same_reg reg fd L L' \<longleftrightarrow> (\<forall>fd'. fd' \<noteq> fd \<longrightarrow> reg (kernel L') fd' = reg (kernel L) fd') \<and> postfork L' = postfork L"

lemma call_ctl_documented:
  assumes "epoll_documented ctl reg" "call_ctl ctl op fd nev L = (r, L')"
  shows "same_reg reg fd L L'" "anfds L' = anfds L" "eperms L' = eperms L"
    "reg (kernel L') fd = (if r = Ctl_ok then if op = CTL_DEL then None else Some (nev AND 3, egen (anfds L ! fd)) else reg (kernel L) fd)"
    "op = CTL_ADD \<Longrightarrow> (r = Ctl_EEXIST \<longleftrightarrow> reg (kernel L) fd \<noteq> None) \<and> r \<noteq> Ctl_ENOENT"
    "op \<noteq> CTL_ADD \<Longrightarrow> (r = Ctl_ok \<longleftrightarrow> reg (kernel L) fd \<noteq> None) \<and> r \<noteq> Ctl_EEXIST"
proof -
  obtain k' where k': "ctl op fd (nev AND 3) (egen (anfds L ! fd)) (kernel L) = (r, k')" "L' = L\<lparr>kernel := k'\<rparr>"
    using assms(2) by (auto simp: call_ctl_def split: prod.splits)
  have d: "(\<forall>fd'. fd' \<noteq> fd \<longrightarrow> reg k' fd' = reg (kernel L) fd') \<and>
    reg k' fd = (if r = Ctl_ok then if op = CTL_DEL then None else Some (nev AND 3, egen (anfds L ! fd)) else reg (kernel L) fd) \<and>
    (op = CTL_ADD \<longrightarrow> (r = Ctl_EEXIST \<longleftrightarrow> reg (kernel L) fd \<noteq> None) \<and> r \<noteq> Ctl_ENOENT) \<and>
    (op \<noteq> CTL_ADD \<longrightarrow> (r = Ctl_ok \<longleftrightarrow> reg (kernel L) fd \<noteq> None) \<and> r \<noteq> Ctl_EEXIST)"
    using assms(1) [unfolded epoll_documented_def, rule_format, of op fd "nev AND 3" "egen (anfds L ! fd)" "kernel L"]
    unfolding k'(1) Let_def prod.case .
  show "same_reg reg fd L L'" "anfds L' = anfds L" "eperms L' = eperms L"
    "reg (kernel L') fd = (if r = Ctl_ok then if op = CTL_DEL then None else Some (nev AND 3, egen (anfds L ! fd)) else reg (kernel L) fd)"
    "op = CTL_ADD \<Longrightarrow> (r = Ctl_EEXIST \<longleftrightarrow> reg (kernel L) fd \<noteq> None) \<and> r \<noteq> Ctl_ENOENT"
    "op \<noteq> CTL_ADD \<Longrightarrow> (r = Ctl_ok \<longleftrightarrow> reg (kernel L) fd \<noteq> None) \<and> r \<noteq> Ctl_EEXIST"
    using d by (simp_all add: same_reg_def k'(2))
qed

lemma same_reg_trans: "same_reg reg fd L L' \<Longrightarrow> same_reg reg fd L' L'' \<Longrightarrow> same_reg reg fd L L''"
  by (simp add: same_reg_def)

definition registers :: "('k \<Rightarrow> nat \<Rightarrow> (u8 \<times> u32) option) \<Rightarrow> nat \<Rightarrow> u8 \<Rightarrow> 'k io_loop \<Rightarrow> 'k io_loop \<Rightarrow> bool" where
  "registers reg fd nev L L' \<longleftrightarrow> same_reg reg fd L L' \<and>
     (quiet fd L L' \<and> reg (kernel L') fd = Some (nev AND 3, egen (anfds L' ! fd)) \<and> emask (anfds L' ! fd) = nev \<or>
      quiet fd L L' \<and> reg (kernel L') fd = None \<and> emask (anfds L' ! fd) = EV_EMASK_EPERM \<or>
      emptied fd L L' \<and> reg (kernel L') fd = None)"

lemma registers_after:
  assumes "quiet fd L K" "same_reg reg fd L K" "registers reg fd nev K L'"
  shows "registers reg fd nev L L'"
  using assms same_reg_trans [OF assms(2)] quiet_trans [OF assms(1)] quiet_emptied [OF assms(1)] by (auto simp: registers_def)

lemma kill_registers:
  assumes "lists_ok L" "fd < length (anfds L)" "head (anfds L ! fd) \<noteq> []" "reg (kernel L) fd = None"
  shows "\<exists>L'. kill_and_dec fd L = Some (Return L') \<and> registers reg fd nev L L'"
  using kill_and_dec_ends [OF assms(1-3)] assms(4) by (auto simp: registers_def same_reg_def)

lemma epoll_modify_registers:
  assumes "epoll_documented ctl reg" "kernel_ok reg L" "lists_ok L" "fd < length (anfds L)" "nev \<noteq> 0" "head (anfds L ! fd) \<noteq> []"
  shows "\<exists>L'. epoll_modify ctl fd oev nev L = Some (Return L') \<and> registers reg fd nev L L'"
proof -
  define om where "om = emask (anfds L ! fd)"
  define op where "op = (if oev \<noteq> 0 \<and> om \<noteq> nev then CTL_MOD else CTL_ADD)"
  define L1 where "L1 = upd_fd fd (\<lambda>a. a\<lparr>emask := nev, egen := egen a + 1\<rparr>) L"
  have q1: "quiet fd L L1" and s1: "same_reg reg fd L L1" by (simp_all add: L1_def) (simp add: same_reg_def upd_fd_def)
  have f1: "emask (anfds L1 ! fd) = nev" "egen (anfds L1 ! fd) = egen (anfds L ! fd) + 1" "kernel L1 = kernel L"
    using assms(4) by (simp_all add: L1_def upd_fd_def)
  obtain r L2 where c: "call_ctl ctl op fd nev L1 = (r, L2)" by fastforce
  note d = call_ctl_documented [OF assms(1) c]
  have q2: "quiet fd L L2" "same_reg reg fd L L2"
    using quiet_trans [OF q1 call_ctl_quiet [OF c]] same_reg_trans [OF s1 d(1)] by simp_all
  have l2: "lists_ok L2" "fd < length (anfds L2)" "head (anfds L2 ! fd) \<noteq> []"
    using quiet_inv(1) [OF q2(1)] quiet_bare(4,7) [OF q2(1)] assms(3,4,6) by simp_all
  have K: "\<exists>L'. kill_and_dec fd M = Some (Return L') \<and> registers reg fd nev L L'"
    if "quiet fd L M" "same_reg reg fd L M" "reg (kernel M) fd = None" for M
    using kill_registers [of M fd reg nev] registers_after [OF that(1,2)] that quiet_inv(1) [OF that(1)] quiet_bare(4,7) [OF that(1)]
      assms(3,4,6) by auto
  have e: "epoll_modify ctl fd oev nev L =
     (case r of
                Ctl_ok \<Rightarrow> Some (Return L2)
              | Ctl_ENOENT \<Rightarrow>
                  (case call_ctl ctl CTL_ADD fd nev L2 of (Ctl_ok, L3) \<Rightarrow> Some (Return L3) | (_, L3) \<Rightarrow> kill_and_dec fd L3)
              | Ctl_EEXIST \<Rightarrow>
                  if om = nev then Some (Return (dec_egen fd L2))
                  else (case call_ctl ctl CTL_MOD fd nev L2 of (Ctl_ok, L3) \<Rightarrow> Some (Return L3) | (_, L3) \<Rightarrow> kill_and_dec fd L3)
              | Ctl_EPERM \<Rightarrow>
                  (let L3 = upd_fd fd (\<lambda>a. a\<lparr>emask := EV_EMASK_EPERM\<rparr>) L2
                   in Some (Return (if om AND EV_EMASK_EPERM = 0 then L3\<lparr>eperms := eperms L3 @ [fd]\<rparr> else L3)))
              | Ctl_error \<Rightarrow> kill_and_dec fd L2)"
    unfolding epoll_modify_def Let_def om_def [symmetric] op_def [symmetric] L1_def [symmetric] c prod.case using assms(5) by simp
  have none: "reg (kernel L) fd = None" if "r \<noteq> Ctl_ok" "r \<noteq> Ctl_EEXIST"
    using that d(5,6) f1(3) by (cases "op = CTL_ADD"; cases "reg (kernel L) fd"; simp)
  have n2: "reg (kernel L2) fd = None" if "r \<noteq> Ctl_ok" "r \<noteq> Ctl_EEXIST"
    using none [OF that] that d(4) f1(3) by simp
  show ?thesis
  proof (cases r)
    case Ctl_ok
    moreover have "op \<noteq> CTL_DEL" by (simp add: op_def)
    ultimately show ?thesis using e q2 d(2,4) f1 by (simp add: registers_def)
  next
    case Ctl_ENOENT
    obtain ra LA where ca: "call_ctl ctl CTL_ADD fd nev L2 = (ra, LA)" by fastforce
    note da = call_ctl_documented [OF assms(1) ca]
    have qa: "quiet fd L LA" "same_reg reg fd L LA"
      using quiet_trans [OF q2(1) call_ctl_quiet [OF ca]] same_reg_trans [OF q2(2) da(1)] by simp_all
    show ?thesis
    proof (cases "ra = Ctl_ok")
      case True
      then show ?thesis using e Ctl_ENOENT ca qa d(2) da(2,4) f1 by (simp add: registers_def)
    next
      case False
      then have "epoll_modify ctl fd oev nev L = kill_and_dec fd LA" using e Ctl_ENOENT ca by (cases ra) simp_all
      then show ?thesis using K [OF qa] da(4) False n2 Ctl_ENOENT by simp
    qed
  next
    case Ctl_EEXIST
    then have "op = CTL_ADD" "reg (kernel L) fd \<noteq> None" using d(5,6) f1(3) by (cases "op = CTL_ADD"; cases "reg (kernel L) fd"; simp)+
    then have g: "reg (kernel L) fd = Some (om AND 3, egen (anfds L ! fd))" using assms(2) by (auto simp: kernel_ok_def om_def)
    then have g2: "reg (kernel L2) fd = Some (om AND 3, egen (anfds L ! fd))" using d(4) f1 Ctl_EEXIST by simp
    show ?thesis
    proof (cases "om = nev")
      case True
      have "quiet fd L (dec_egen fd L2)" by (rule quiet_trans [OF q2(1)]) simp
      moreover have "same_reg reg fd L (dec_egen fd L2)" "kernel (dec_egen fd L2) = kernel L2"
        using q2(2) by (simp_all add: same_reg_def dec_egen_def upd_fd_def)
      moreover have "emask (anfds (dec_egen fd L2) ! fd) = nev" "egen (anfds (dec_egen fd L2) ! fd) = egen (anfds L ! fd)"
        using l2(2) d(2) f1 by (simp_all add: dec_egen_def upd_fd_def)
      ultimately show ?thesis using e Ctl_EEXIST g2 True by (simp add: registers_def)
    next
      case False
      obtain rm LM where cm: "call_ctl ctl CTL_MOD fd nev L2 = (rm, LM)" by fastforce
      note dm = call_ctl_documented [OF assms(1) cm]
      have "rm = Ctl_ok" using dm(6) g2 by simp
      moreover have "quiet fd L LM" "same_reg reg fd L LM"
        using quiet_trans [OF q2(1) call_ctl_quiet [OF cm]] same_reg_trans [OF q2(2) dm(1)] by simp_all
      ultimately show ?thesis using e Ctl_EEXIST cm False dm(2,4) d(2) f1 by (simp add: registers_def)
    qed
  next
    case Ctl_EPERM
    define L3 where "L3 = upd_fd fd (\<lambda>a. a\<lparr>emask := EV_EMASK_EPERM\<rparr>) L2"
    define L4 where "L4 = (if om AND EV_EMASK_EPERM = 0 then L3\<lparr>eperms := eperms L3 @ [fd]\<rparr> else L3)"
    have q3: "quiet fd L L3" unfolding L3_def by (rule quiet_trans [OF q2(1)]) simp
    have "quiet fd L L4" using quiet_trans [OF q3 quiet_loop(2)] q3 by (simp add: L4_def)
    moreover have "same_reg reg fd L L4" "reg (kernel L4) fd = None" "emask (anfds L4 ! fd) = EV_EMASK_EPERM"
      using q2(2) n2 Ctl_EPERM l2(2) by (simp_all add: L4_def L3_def same_reg_def upd_fd_def)
    moreover have "epoll_modify ctl fd oev nev L = Some (Return L4)" using e Ctl_EPERM by (simp add: Let_def L3_def L4_def)
    ultimately show ?thesis by (simp add: registers_def)
  next
    case Ctl_error
    then show ?thesis using e K [OF q2] n2 by simp
  qed
qed

section \<open>In step with the kernel\<close>

text \<open>
  \<open>C\<close> are the descriptors the kernel may have forgotten, because they were closed or given up: a watcher
  that is started for one has to have been set since, which marks the descriptor with \<open>EV__IOFDSET\<close>.
\<close>

definition in_step :: "('k \<Rightarrow> nat \<Rightarrow> (u8 \<times> u32) option) \<Rightarrow> nat set \<Rightarrow> 'k io_loop \<Rightarrow> bool" where
  "in_step reg C L \<longleftrightarrow> (\<forall>fd<length (anfds L).
     (fd \<notin> C \<and> aevents (anfds L ! fd) \<noteq> 0 \<and> reify (anfds L ! fd) AND 0x80 = 0 \<longrightarrow> known reg L fd (aevents (anfds L ! fd))) \<and>
     (fd \<in> C \<and> head (anfds L ! fd) \<noteq> [] \<longrightarrow> reify (anfds L ! fd) AND 0x80 \<noteq> 0))"

lemma kernel_ok_turn:
  assumes "others fd L L'" "same_reg reg fd L L'" "kernel_ok reg L"
    and "\<And>m g. reg (kernel L') fd = Some (m, g) \<Longrightarrow> fd < length (anfds L) \<and> m = emask (anfds L' ! fd) AND 3 \<and> g = egen (anfds L' ! fd)"
  shows "kernel_ok reg L'"
  unfolding kernel_ok_def
proof (intro allI impI)
  fix fd' m g assume r: "reg (kernel L') fd' = Some (m, g)"
  show "fd' < length (anfds L') \<and> m = emask (anfds L' ! fd') AND 3 \<and> g = egen (anfds L' ! fd')"
  proof (cases "fd' = fd")
    case True
    then show ?thesis using r assms(1,4) by (simp add: others_def)
  next
    case False
    then show ?thesis using r assms(1-3) by (simp add: others_def same_reg_def kernel_ok_def)
  qed
qed

lemma in_step_turn:
  assumes "others fd L L'" "same_reg reg fd L L'" "in_step reg C L"
    and "aevents (anfds L' ! fd) \<noteq> 0 \<longrightarrow> reify (anfds L' ! fd) AND 0x80 = 0 \<longrightarrow> known reg L' fd (aevents (anfds L' ! fd))"
  shows "in_step reg (C - {fd}) L'"
  unfolding in_step_def
proof (intro allI impI)
  fix fd' assume "fd' < length (anfds L')"
  then show "(fd' \<notin> C - {fd} \<and> aevents (anfds L' ! fd') \<noteq> 0 \<and> reify (anfds L' ! fd') AND 0x80 = 0 \<longrightarrow> known reg L' fd' (aevents (anfds L' ! fd'))) \<and>
     (fd' \<in> C - {fd} \<and> head (anfds L' ! fd') \<noteq> [] \<longrightarrow> reify (anfds L' ! fd') AND 0x80 \<noteq> 0)"
    using assms by (cases "fd' = fd") (simp_all add: in_step_def others_def same_reg_def known_def)
qed

lemma in_step_given_up:
  assumes "others fd L L'" "same_reg reg fd L L'" "in_step reg C L" "head (anfds L' ! fd) = []"
  shows "in_step reg (insert fd C) L'"
  unfolding in_step_def
proof (intro allI impI)
  fix fd' assume "fd' < length (anfds L')"
  then show "(fd' \<notin> insert fd C \<and> aevents (anfds L' ! fd') \<noteq> 0 \<and> reify (anfds L' ! fd') AND 0x80 = 0 \<longrightarrow> known reg L' fd' (aevents (anfds L' ! fd'))) \<and>
     (fd' \<in> insert fd C \<and> head (anfds L' ! fd') \<noteq> [] \<longrightarrow> reify (anfds L' ! fd') AND 0x80 \<noteq> 0)"
    using assms by (cases "fd' = fd") (simp_all add: in_step_def others_def same_reg_def known_def)
qed

definition sound :: "('k \<Rightarrow> nat \<Rightarrow> (u8 \<times> u32) option) \<Rightarrow> 'k io_loop \<Rightarrow> bool" where
  "sound reg L \<longleftrightarrow> kernel_ok reg L \<and> (\<exists>C. in_step reg C L)"

lemma reify_fd_sound:
  assumes "epoll_documented ctl reg" "sound reg L" "lists_ok L" "fd < length (anfds L)" "reify_fd ctl fd L = Some (Return L')"
  shows "sound reg L'"
proof -
  obtain C where C: "kernel_ok reg L" "in_step reg C L" using assms(2) by (auto simp: sound_def)
  define ev where "ev = wanted L fd"
  define K where "K = upd_fd fd (\<lambda>a. a\<lparr>reify := 0, aevents := ev\<rparr>) L"
  have K: "others fd L K" "head (anfds K ! fd) = head (anfds L ! fd)" "reify (anfds K ! fd) = 0" "aevents (anfds K ! fd) = ev"
    "length (anfds K) = length (anfds L)" "emask (anfds K ! fd) = emask (anfds L ! fd)" "egen (anfds K ! fd) = egen (anfds L ! fd)"
    "kernel K = kernel L" "same_reg reg fd L K"
    using assms(4) by (simp_all add: K_def upd_fd_def others_def same_reg_def)
  have l: "lists_ok K" unfolding K_def by (rule lists_ok_upd) (simp_all add: assms)
  have kK: "kernel_ok reg K" using kernel_ok_turn [OF K(1,9) C(1)] C(1) K(6-8) by (simp add: kernel_ok_def)
  show ?thesis
  proof (cases "(if aevents (anfds L ! fd) \<noteq> ev then 0x80 else reify (anfds L ! fd)) AND 0x80 \<noteq> 0 \<and> ev \<noteq> 0")
    case True
    then have h: "head (anfds K ! fd) \<noteq> []" using wanted_empty [of L fd] K(2) by (auto simp: ev_def)
    obtain M where M: "epoll_modify ctl fd (aevents (anfds L ! fd)) ev K = Some (Return M)" "registers reg fd ev K M"
      using epoll_modify_registers [OF assms(1) kK l _ _ h] assms(4) K(5) True by (metis (no_types))
    have "L' = M" using True assms(5) M(1) by (simp add: reify_fd_def Let_def ev_def [symmetric] K_def [symmetric])
    have m: "same_reg reg fd L M" "others fd L M"
      using M(2) same_reg_trans [OF K(9)] others_trans [OF K(1)] by (auto simp: registers_def quiet_def emptied_def)
    have "kernel_ok reg M" by (rule kernel_ok_turn [OF m(2,1) C(1)]) (use M(2) assms(4) in \<open>auto simp: registers_def\<close>)
    moreover have "\<exists>C. in_step reg C M"
    proof (cases "emptied fd K M")
      case True
      then show ?thesis using in_step_given_up [OF m(2,1) C(2)] by (auto simp: emptied_def)
    next
      case False
      then have "known reg M fd (aevents (anfds M ! fd))" using M(2) K(4) by (auto simp: registers_def known_def quiet_def)
      then show ?thesis using in_step_turn [OF m(2,1) C(2)] by blast
    qed
    ultimately show ?thesis using \<open>L' = M\<close> by (simp add: sound_def)
  next
    case False
    then have "L' = K" using assms(5) by (auto simp: reify_fd_def Let_def ev_def [symmetric] K_def epoll_modify_def split: if_splits)
    have "known reg K fd ev" if "ev \<noteq> 0"
    proof -
      have r: "aevents (anfds L ! fd) = ev" "reify (anfds L ! fd) AND 0x80 = 0" using False that by (auto split: if_splits)
      have "head (anfds L ! fd) \<noteq> []" using that wanted_empty [of L fd] by (auto simp: ev_def)
      then have "known reg L fd ev" using C(2) assms(4) r that by (auto simp: in_step_def)
      then show ?thesis using K(6-8) by (simp add: known_def)
    qed
    then have "in_step reg (C - {fd}) K" using in_step_turn [OF K(1,9) C(2)] K(4) by simp
    then show ?thesis using kK \<open>L' = K\<close> by (auto simp: sound_def)
  qed
qed

lemma in_step_all: "reified L \<Longrightarrow> in_step reg C L \<Longrightarrow> in_step reg {} L"
  unfolding in_step_def reified_def by (auto dest!: wanted_empty)

lemma fd_reify_sound:
  assumes "epoll_documented ctl reg" "kernel_ok reg L" "in_step reg C L" "io_ok L" "fd_reify ctl L = Some (Return L')"
  shows "reified L' \<and> kernel_ok reg L' \<and> in_step reg {} L' "
proof -
  have "\<exists>L'. fd_reify_from ctl 0 L = Some (Return L') \<and> reified L' \<and> sound reg L'"
  proof (rule fd_reify_from_keeps)
    show "sound reg L" using assms(2,3) by (auto simp: sound_def)
    show "sound reg (L\<lparr>fdchanges := []\<rparr>)" if "sound reg L" for L
      using that by (simp add: sound_def in_step_def kernel_ok_def known_def)
  qed (use assms(4) reify_fd_sound [OF assms(1)] in \<open>simp_all add: io_ok_def\<close>)
  then show ?thesis using assms(5) in_step_all by (auto simp: fd_reify_def sound_def)
qed

section \<open>The steps of a loop\<close>

definition io_inv :: "('k \<Rightarrow> nat \<Rightarrow> (u8 \<times> u32) option) \<Rightarrow> nat set \<Rightarrow> 'k io_loop \<Rightarrow> bool" where
  "io_inv reg C L \<longleftrightarrow> io_ok L \<and> kernel_ok reg L \<and> (\<not> postfork L \<longrightarrow> in_step reg C L)"

lemma kernel_cong:
  assumes "anfds L' = anfds L" "kernel L' = kernel L"
  shows "kernel_ok reg L' = kernel_ok reg L" "in_step reg C L' = in_step reg C L"
  by (simp_all add: kernel_ok_def in_step_def known_def assms)

lemma io_ok_same_view: "same_view L L' \<Longrightarrow> io_ok L' = io_ok L"
  using same_view_inv [of L L'] by (simp add: io_ok_def reify_inv_def same_view_def)

lemma io_inv_same_view: "same_view L L' \<Longrightarrow> io_inv reg C L' = io_inv reg C L"
  using io_ok_same_view [of L L'] kernel_cong [of L' L] by (simp add: io_inv_def same_view_def)

lemma relisted_kernel:
  assumes "relisted i fd flags f L L'" "fd < length (anfds L)"
  shows "kernel_ok reg L' = kernel_ok reg L"
proof -
  have "emask (anfds L' ! d) = emask (anfds L ! d)" "egen (anfds L' ! d) = egen (anfds L ! d)" for d
    by (simp_all add: relisted_anfd [OF assms])
  then show ?thesis using assms(1) by (simp add: kernel_ok_def relisted_def)
qed

lemma and_or_flag: "(a OR b :: u8) AND 0x80 = 0 \<longleftrightarrow> a AND 0x80 = 0 \<and> b AND 0x80 = 0"
  by (simp add: bit.conj_disj_distrib2)

lemma relisted_in_step:
  assumes "relisted i fd flags f L L'" "fd < length (anfds L)" "in_step reg C L"
    and "fd \<in> C \<Longrightarrow> f (head (anfds L ! fd)) \<noteq> [] \<Longrightarrow> (reify (anfds L ! fd) OR flags) AND 0x80 \<noteq> 0"
  shows "in_step reg C L'"
  unfolding in_step_def relisted_length [OF assms(1)]
proof (intro allI impI)
  fix d assume d: "d < length (anfds L)"
  have k: "known reg L' d e = known reg L d e" for e using assms(1) by (simp add: known_def relisted_anfd [OF assms(1,2)]) (simp add: relisted_def)
  show "(d \<notin> C \<and> aevents (anfds L' ! d) \<noteq> 0 \<and> reify (anfds L' ! d) AND 0x80 = 0 \<longrightarrow> known reg L' d (aevents (anfds L' ! d))) \<and>
     (d \<in> C \<and> head (anfds L' ! d) \<noteq> [] \<longrightarrow> reify (anfds L' ! d) AND 0x80 \<noteq> 0)"
    unfolding k using assms(3,4) d by (cases "d = fd") (auto simp: in_step_def relisted_anfd [OF assms(1,2)] and_or_flag)
qed

lemma need_anfd_kernel:
  assumes "kernel_ok reg L"
  shows "kernel_ok reg (need_anfd fd L)"
  using assms need_anfd_length(2) [of L fd] need_anfd_nth [of _ fd L] by (fastforce simp: kernel_ok_def)

lemma need_anfd_in_step:
  assumes "in_step reg C L"
  shows "in_step reg C (need_anfd fd L)"
  unfolding in_step_def known_def
  using assms need_anfd_nth [of _ fd L] by (auto simp: in_step_def known_def zero_anfd_def)

lemma start_inv:
  assumes "io_inv reg C L" "ev_io_start i L = Return L'" "\<not> w_active (ws L i)"
    and "nat (w_fd (ws L i)) \<in> C \<longrightarrow> w_events (ws L i) AND EV_IOFDSET \<noteq> 0"
  shows "io_inv reg C L'"
proof -
  let ?fd = "nat (w_fd (ws L i))" and ?K = "need_anfd (nat (w_fd (ws L i))) L"
  note s = start_relists [OF assms(2,3)]
  have fd: "?fd < length (anfds ?K)" by (rule need_anfd_length)
  have "ucast (w_events (ws L i) AND EV_IOFDSET) AND (0x80 :: u8) \<noteq> 0" if "?fd \<in> C"
  proof -
    have p: "(0x80 :: u32) = 2 ^ 7" "(0x80 :: u8) = 2 ^ 7" by simp_all
    have "bit (w_events (ws L i)) 7"
      using assms(4) that and_exp_eq_0_iff_not_bit [of "w_events (ws L i)" 7] by (simp only: EV_IOFDSET_def p) simp
    then have "bit (ucast (w_events (ws L i) AND 2 ^ 7) :: u8) 7" by (simp add: bit_simps)
    then show ?thesis unfolding EV_IOFDSET_def p using and_exp_eq_0_iff_not_bit [of "ucast (w_events (ws L i) AND 2 ^ 7) :: u8" 7] by blast
  qed
  then have "in_step reg C L'" if "in_step reg C L"
    using that by (intro relisted_in_step [OF s(3) fd need_anfd_in_step]) (auto simp: and_or_flag)
  moreover have "kernel_ok reg L'" using assms(1) by (simp add: relisted_kernel [OF s(3) fd] need_anfd_kernel io_inv_def)
  moreover have "io_ok L'" using start_ok assms(1,2) by (auto simp: io_inv_def)
  ultimately show ?thesis using assms(1) s(5) by (simp add: io_inv_def)
qed

lemma stop_inv:
  assumes "io_inv reg C L" "ev_io_stop i L = Return L'"
  shows "io_inv reg C L'"
proof (cases "w_active (ws L i)")
  case False
  then have "L' = io_clear_pending i L" using assms(2) stop_inactive [OF False] by simp
  then show ?thesis using assms(1) by (simp add: io_inv_same_view [OF same_view_clear])
next
  case True
  have l: "lists_ok L" using assms(1) by (simp add: io_inv_def io_ok_def reify_inv_def)
  let ?fd = "nat (w_fd (ws L i))"
  have fd: "?fd < length (anfds L)" using l True by (simp add: lists_ok_def)
  have r: "relisted i ?fd 1 (remove1 i) L L'" using stop_active [OF l True] assms(2) by auto
  have "in_step reg C L'" if "in_step reg C L"
    using that fd by (intro relisted_in_step [OF r fd that]) (auto simp: and_or_flag in_step_def)
  moreover have "kernel_ok reg L'" using relisted_kernel [OF r fd] assms(1) by (simp add: io_inv_def)
  moreover have "io_ok L'" using stop_ok [of L i] assms by (auto simp: io_inv_def)
  moreover have "postfork L' = postfork L" using r by (simp add: relisted_def)
  ultimately show ?thesis using assms(1) by (simp add: io_inv_def)
qed

lemma set_inv:
  assumes "io_inv reg C L" "\<not> w_active (ws L i)"
  shows "io_inv reg C (ev_io_set i fd e L)"
proof -
  have e: "anfds (ev_io_set i fd e L) = anfds L" "kernel (ev_io_set i fd e L) = kernel L" "postfork (ev_io_set i fd e L) = postfork L"
    by (simp_all add: ev_io_set_def upd_w_def)
  show ?thesis using assms io_set_ok [of L i fd e] by (simp add: io_inv_def kernel_cong [OF e(1,2)] e(3))
qed

lemma io_ok_quiet: "quiet fd L L' \<Longrightarrow> io_ok L' = io_ok L"
  using quiet_inv [of fd L L'] by (simp add: io_ok_def reify_inv_def quiet_def)

lemma in_step_quiet:
  assumes "quiet fd L L'" "same_reg reg fd L L'" "in_step reg C L"
    and "aevents (anfds L ! fd) \<noteq> 0 \<longrightarrow> known reg L' fd (aevents (anfds L ! fd))"
  shows "in_step reg C L'"
  unfolding in_step_def
proof (intro allI impI)
  fix d assume "d < length (anfds L')"
  then show "(d \<notin> C \<and> aevents (anfds L' ! d) \<noteq> 0 \<and> reify (anfds L' ! d) AND 0x80 = 0 \<longrightarrow> known reg L' d (aevents (anfds L' ! d))) \<and>
     (d \<in> C \<and> head (anfds L' ! d) \<noteq> [] \<longrightarrow> reify (anfds L' ! d) AND 0x80 \<noteq> 0)"
    using assms by (cases "d = fd") (simp_all add: in_step_def quiet_def others_def same_reg_def known_def)
qed

lemma same_view_fold: "(\<And>i L. same_view L (f i L)) \<Longrightarrow> same_view L (fold f is L)"
  by (induction "is" arbitrary: L) (auto intro: same_view_trans)

lemma same_view_event [simp]: "same_view L (fd_event fd e L)"
  unfolding fd_event_def fd_event_nocheck_def by (simp add: same_view_fold Let_def)

lemma postfork_inv:
  assumes "io_ok L" "kernel_ok reg L"
  shows "io_inv reg C (L\<lparr>postfork := True\<rparr>)"
proof -
  have "quiet 0 L (L\<lparr>postfork := True\<rparr>)" by (simp add: quiet_def others_def)
  then show ?thesis using assms io_ok_quiet kernel_cong(1) [of "L\<lparr>postfork := True\<rparr>" L] by (auto simp: io_inv_def)
qed

lemma eperms_inv: "io_inv reg C (L\<lparr>eperms := e\<rparr>) = io_inv reg C L"
  using io_ok_quiet [of 0 L "L\<lparr>eperms := e\<rparr>"] kernel_cong [of "L\<lparr>eperms := e\<rparr>" L] by (simp add: io_inv_def)

lemma report_inv:
  assumes "epoll_documented ctl reg" "io_inv reg C L" "r_fd r < length (anfds L)"
  shows "io_inv reg C (epoll_report ctl r L) \<and> length (anfds (epoll_report ctl r L)) = length (anfds L)"
proof -
  define fd where "fd = r_fd r"
  define want where "want = aevents (anfds L ! fd)"
  have i: "io_ok L" "kernel_ok reg L" using assms(2) by (simp_all add: io_inv_def)
  have ev: "io_inv reg C (fd_event fd e M) = io_inv reg C M" "length (anfds (fd_event fd e M)) = length (anfds M)" for e M
    using same_view_event [of M fd e] by (simp_all only: io_inv_same_view [OF same_view_event] same_view_def)
  define L1 where "L1 = upd_fd fd (\<lambda>a. a\<lparr>emask := want\<rparr>) L"
  obtain res L2 where c: "call_ctl ctl (if want \<noteq> 0 then CTL_MOD else CTL_DEL) fd want L1 = (res, L2)" by fastforce
  note d = call_ctl_documented [OF assms(1) c]
  have L1: "quiet fd L L1" "same_reg reg fd L L1" by (simp_all add: L1_def) (simp add: same_reg_def upd_fd_def)
  have q: "quiet fd L L2" "same_reg reg fd L L2" using quiet_trans [OF L1(1) call_ctl_quiet [OF c]] same_reg_trans [OF L1(2) d(1)] by simp_all
  have e: "emask (anfds L2 ! fd) = want" using d(2) assms(3) by (simp add: L1_def upd_fd_def fd_def)
  have n: "res \<noteq> Ctl_ok \<Longrightarrow> reg (kernel L2) fd = None" using d(4,6) by (cases "reg (kernel L1) fd") (simp_all split: if_splits)
  have "kernel_ok reg L2"
    by (rule kernel_ok_turn [OF _ q(2) i(2)]) (use q(1) d(2,4) n e assms(3) in \<open>auto simp: quiet_def fd_def split: if_splits\<close>)
  moreover have ok: "io_ok L2" using i(1) io_ok_quiet [OF q(1)] by simp
  moreover have "in_step reg C L2" if "res = Ctl_ok" "in_step reg C L"
    by (rule in_step_quiet [OF q that(2)]) (use d(2,4) that(1) in \<open>auto simp: known_def want_def\<close>)
  moreover have "postfork L2 = postfork L" using q(2) by (simp add: same_reg_def)
  ultimately have L2: "io_inv reg C (if res \<noteq> Ctl_ok then L2\<lparr>postfork := True\<rparr> else L2)"
    using assms(2) postfork_inv [OF ok] by (simp add: io_inv_def)
  have len: "length (anfds L2) = length (anfds L)" using quiet_bare(7) [OF q(1)] .
  show ?thesis
    unfolding epoll_report_def Let_def fd_def [symmetric] want_def [symmetric] L1_def [symmetric] c prod.case
    using L2 len assms(2) postfork_inv [OF i] by (simp add: ev split: if_splits)
qed

lemma reports_inv:
  assumes "epoll_documented ctl reg" "io_inv reg C L" "\<forall>r\<in>set rs. r_fd r < length (anfds L)"
  shows "io_inv reg C (fold (epoll_report ctl) rs L)"
  using assms(2,3)
proof (induction rs arbitrary: L)
  case (Cons r rs)
  then show ?case using report_inv [OF assms(1) Cons.prems(1), of r] by simp
qed simp

lemma eperm_inv: "io_inv reg C L \<Longrightarrow> io_inv reg C (eperm_loop n L)"
  by (induction n arbitrary: L) (simp_all add: Let_def eperms_inv io_inv_same_view [OF same_view_event])

lemma poll_inv:
  assumes "epoll_documented ctl reg" "io_inv reg C L" "\<forall>r\<in>set rs. r_fd r < length (anfds L)"
  shows "io_inv reg C (epoll_poll ctl rs L)"
  using reports_inv [OF assms] by (simp add: epoll_poll_def Let_def eperm_inv)

section \<open>A new kernel side\<close>

definition rearmed :: "nat \<Rightarrow> 'k io_loop \<Rightarrow> 'k io_loop \<Rightarrow> bool" where
  "rearmed fd L L' \<longleftrightarrow> others fd L L' \<and> head (anfds L' ! fd) = head (anfds L ! fd) \<and> aevents (anfds L' ! fd) = 0 \<and>
     reify (anfds L' ! fd) = reify (anfds L ! fd) OR 0x81 \<and> ws L' = ws L \<and>
     fdchanges L' = fdchanges L @ (if reify (anfds L ! fd) = 0 then [fd] else []) \<and> kernel L' = kernel L"

lemma rearmed_ok:
  assumes "rearmed fd L L'" "fd < length (anfds L)" "io_ok L"
  shows "io_ok L'"
proof -
  have o: "length (anfds L') = length (anfds L)" "ws L' = ws L" "d \<noteq> fd \<Longrightarrow> anfds L' ! d = anfds L ! d"
    "head (anfds L' ! d) = head (anfds L ! d)" for d
    using assms(1) by (cases "d = fd"; simp add: rearmed_def others_def)+
  have w: "wanted L' d = wanted L d" for d by (rule wanted_cong) (simp_all add: o)
  have r: "reify (anfds L' ! fd) \<noteq> 0" using assms(1) by (simp add: rearmed_def)
  have i: "lists_ok L" "changes_ok (fdchanges L) L" "events_ok L" using assms(3) by (simp_all add: io_ok_def reify_inv_def)
  have "lists_ok L'" using i(1) by (simp add: lists_ok_def o)
  moreover have "events_ok L'"
    unfolding events_ok_def o(1) w
  proof (intro allI impI)
    show "aevents (anfds L' ! d) = wanted L d" if "d < length (anfds L)" "reify (anfds L' ! d) = 0" for d
      using that r i(3) o(3) [of d] by (cases "d = fd") (auto simp: events_ok_def)
  qed
  moreover have "changes_ok (fdchanges L') L'"
  proof -
    have f: "fdchanges L' = fdchanges L @ (if reify (anfds L ! fd) = 0 then [fd] else [])" using assms(1) by (simp add: rearmed_def)
    have "set (fdchanges L') = insert fd (set (fdchanges L))" using f i(2) assms(2) by (auto simp: changes_ok_def)
    also have "\<dots> = {d. d < length (anfds L') \<and> reify (anfds L' ! d) \<noteq> 0}"
      using i(2) o(1,3) r assms(2) by (intro set_eqI) (case_tac "x = fd"; simp add: changes_ok_def)
    finally show ?thesis using f i(2) by (auto simp: changes_ok_def)
  qed
  ultimately show ?thesis by (simp add: io_ok_def reify_inv_def)
qed

definition rearm :: "nat \<Rightarrow> 'k io_loop \<Rightarrow> 'k io_loop" where
  "rearm fd L = (if aevents (anfds L ! fd) \<noteq> 0
     then fd_change fd (0x80 OR EV_ANFD_REIFY) (upd_fd fd (\<lambda>a. a\<lparr>aevents := 0, emask := 0\<rparr>) L) else L)"

lemma rearm_cases: "fd < length (anfds L) \<Longrightarrow> (aevents (anfds L ! fd) = 0 \<and> rearm fd L = L) \<or> rearmed fd L (rearm fd L)"
  by (auto simp: rearm_def rearmed_def fd_change_def upd_fd_def Let_def others_def EV_ANFD_REIFY_def)

lemma rearm_all:
  assumes "io_ok L" "\<forall>d\<in>set ds. d < length (anfds L)"
  defines "L' \<equiv> fold rearm ds L"
  shows "io_ok L' \<and> length (anfds L') = length (anfds L) \<and> kernel L' = kernel L \<and> (\<forall>d\<in>set ds. aevents (anfds L' ! d) = 0) \<and>
    (\<forall>d. aevents (anfds L ! d) = 0 \<longrightarrow> aevents (anfds L' ! d) = 0)"
  using assms(1,2) unfolding L'_def
proof (induction ds arbitrary: L)
  case (Cons fd ds)
  let ?K = "rearm fd L"
  have fd: "fd < length (anfds L)" using Cons.prems by simp
  have *: "io_ok ?K \<and> length (anfds ?K) = length (anfds L) \<and> kernel ?K = kernel L \<and> aevents (anfds ?K ! fd) = 0 \<and>
    (\<forall>d. aevents (anfds L ! d) = 0 \<longrightarrow> aevents (anfds ?K ! d) = 0)"
    using rearm_cases [OF fd]
  proof
    assume "aevents (anfds L ! fd) = 0 \<and> rearm fd L = L"
    then show ?thesis using Cons.prems(1) by simp
  next
    assume r: "rearmed fd L ?K"
    have "anfds ?K ! d = anfds L ! d" if "d \<noteq> fd" for d using r that by (simp add: rearmed_def others_def)
    moreover have "aevents (anfds ?K ! fd) = 0" "length (anfds ?K) = length (anfds L)" "kernel ?K = kernel L"
      using r by (simp_all add: rearmed_def others_def)
    ultimately show ?thesis using rearmed_ok [OF r fd Cons.prems(1)] by metis
  qed
  then have "io_ok ?K" "\<forall>d\<in>set ds. d < length (anfds ?K)" using Cons.prems(2) by simp_all
  from Cons.IH [OF this] * show ?case by simp
qed simp

lemma fork_inv:
  assumes "io_inv reg C L" "\<forall>fd. reg k fd = None"
  shows "io_inv reg {} ((epoll_fork k L)\<lparr>postfork := False\<rparr>)"
proof -
  define K where "K = L\<lparr>kernel := k\<rparr>"
  define M where "M = epoll_fork k L"
  have f: "M = fold rearm [0..<length (anfds K)] K" by (simp add: M_def epoll_fork_def fd_rearm_all_def rearm_def [abs_def] K_def)
  have K: "io_ok K" using assms(1) io_ok_quiet [of 0 L K] by (simp add: K_def io_inv_def)
  note r = rearm_all [OF K, of "[0..<length (anfds K)]", folded f]
  have "kernel_ok reg M" using r assms(2) by (simp add: kernel_ok_def K_def)
  moreover have "io_ok (M\<lparr>postfork := False\<rparr>)" using r io_ok_quiet [of 0 M "M\<lparr>postfork := False\<rparr>"] by (simp add: quiet_def others_def)
  ultimately show ?thesis
    unfolding M_def [symmetric] using r by (simp add: io_inv_def kernel_ok_def in_step_def K_def)
qed

lemma close_inv:
  assumes "io_inv reg C L" "\<forall>i. w_active (ws L i) \<longrightarrow> w_fd (ws L i) \<noteq> int fd" "\<forall>d. reg k d = (if d = fd then None else reg (kernel L) d)"
  shows "io_inv reg (insert fd C) (L\<lparr>kernel := k\<rparr>)"
proof -
  let ?L = "L\<lparr>kernel := k\<rparr>"
  have "io_ok ?L" using assms(1) io_ok_quiet [of 0 L ?L] by (simp add: io_inv_def)
  moreover have "kernel_ok reg ?L" using assms(1,3) by (simp add: io_inv_def kernel_ok_def)
  moreover have "in_step reg (insert fd C) ?L" if "in_step reg C L"
  proof (cases "fd < length (anfds L)")
    case True
    have "head (anfds L ! fd) = []" using assms(1,2) True by (auto simp: io_inv_def io_ok_def reify_inv_def lists_ok_def simp flip: set_empty)
    then show ?thesis using assms(3) by (intro in_step_given_up [OF _ _ that]) (simp_all add: others_def same_reg_def)
  next
    case False
    then show ?thesis using that assms(3) by (auto simp: in_step_def known_def)
  qed
  ultimately show ?thesis using assms(1) by (simp add: io_inv_def)
qed

section \<open>Reachable loops\<close>

text \<open>
  What the callers of libev may do, with the descriptors that may be forgotten: a watcher is set only
  while it is inactive, a descriptor is closed only when no active watcher has it, and a watcher that is
  started for such a descriptor has been set since.
\<close>

inductive io_step :: "'k epoll_ctl \<Rightarrow> ('k \<Rightarrow> nat \<Rightarrow> (u8 \<times> u32) option) \<Rightarrow> nat set \<times> 'k io_loop \<Rightarrow> nat set \<times> 'k io_loop \<Rightarrow> bool"
  for ctl reg where
  io_step_set: "\<not> w_active (ws L i) \<Longrightarrow> io_step ctl reg (C, L) (C, ev_io_set i fd e L)"
| io_step_start: "ev_io_start i L = Return L' \<Longrightarrow>
     \<not> w_active (ws L i) \<longrightarrow> nat (w_fd (ws L i)) \<in> C \<longrightarrow> w_events (ws L i) AND EV_IOFDSET \<noteq> 0 \<Longrightarrow> io_step ctl reg (C, L) (C, L')"
| io_step_stop: "ev_io_stop i L = Return L' \<Longrightarrow> io_step ctl reg (C, L) (C, L')"
| io_step_reify: "\<not> postfork L \<Longrightarrow> fd_reify ctl L = Some (Return L') \<Longrightarrow> io_step ctl reg (C, L) ({}, L')"
| io_step_poll: "\<forall>r\<in>set rs. r_fd r < length (anfds L) \<Longrightarrow> io_step ctl reg (C, L) (C, epoll_poll ctl rs L)"
| io_step_take: "io_take_pending L = Some (e, L') \<Longrightarrow> io_step ctl reg (C, L) (C, L')"
| io_step_fork: "\<forall>fd. reg k fd = None \<Longrightarrow> io_step ctl reg (C, L) ({}, (epoll_fork k L)\<lparr>postfork := False\<rparr>)"
| io_step_close: "\<forall>i. w_active (ws L i) \<longrightarrow> w_fd (ws L i) \<noteq> int fd \<Longrightarrow>
     \<forall>d. reg k d = (if d = fd then None else reg (kernel L) d) \<Longrightarrow> io_step ctl reg (C, L) (insert fd C, L\<lparr>kernel := k\<rparr>)"

lemma take_same_view: "io_take_pending L = Some (e, L') \<Longrightarrow> same_view L L'"
  by (auto simp: io_take_pending_def same_view_def bare_def upd_w_def Let_def split: option.splits if_splits)

lemma io_step_inv:
  assumes "epoll_documented ctl reg" "io_step ctl reg s s'" "io_inv reg (fst s) (snd s)"
  shows "io_inv reg (fst s') (snd s')"
  using assms(2,3)
proof cases
  case (io_step_start i L L' C)
  then show ?thesis using assms(3) start_inv [of reg C L i L'] start_active [of L i] by (cases "w_active (ws L i)") simp_all
next
  case (io_step_reify L L' C)
  then show ?thesis using assms(3) fd_reify_sound [OF assms(1), of L C L'] by (auto simp: io_inv_def reified_def io_ok_def reify_inv_def changes_ok_def events_ok_def)
next
  case (io_step_take L e L' C)
  then show ?thesis using assms(3) by (simp add: io_inv_same_view [OF take_same_view])
qed (use set_inv stop_inv poll_inv [OF assms(1)] fork_inv close_inv in simp_all)

inductive io_reachable :: "'k epoll_ctl \<Rightarrow> ('k \<Rightarrow> nat \<Rightarrow> (u8 \<times> u32) option) \<Rightarrow> nat set \<times> 'k io_loop \<Rightarrow> bool"
  for ctl reg where
  io_begin: "\<forall>fd. reg k fd = None \<Longrightarrow> io_reachable ctl reg ({}, io_init k)"
| io_next: "io_reachable ctl reg s \<Longrightarrow> io_step ctl reg s s' \<Longrightarrow> io_reachable ctl reg s'"

lemma io_reachable_inv:
  assumes "io_reachable ctl reg s" "epoll_documented ctl reg"
  shows "io_inv reg (fst s) (snd s)"
  using assms(1)
proof induction
  case (io_begin k)
  then show ?case using io_init_ok by (simp add: io_inv_def kernel_ok_def in_step_def) (simp add: io_init_def)
next
  case (io_next s s')
  show ?case by (rule io_step_inv [OF assms(2) io_next(2,3)])
qed

text \<open>An active watcher is in the list of its descriptor, and its events are among those wanted.\<close>

lemma wanted_covers:
  assumes "i \<in> set (head (anfds L ! fd))"
  shows "wanted L fd AND ucast (w_events (ws L i)) = ucast (w_events (ws L i))"
proof -
  have *: "fold (\<lambda>i e. e OR ucast (w_events (ws L i))) is e AND a = (a :: u8)" if "e AND a = a" for e a "is"
    using that
  proof (induction "is" arbitrary: e)
    case (Cons i "is")
    have "(e OR ucast (w_events (ws L i))) AND a = a" using Cons.prems by (auto simp: bit_eq_iff bit_simps)
    then show ?case using Cons.IH by simp
  qed simp
  obtain xs ys where h: "head (anfds L ! fd) = xs @ i # ys" using assms by (meson split_list)
  show ?thesis unfolding wanted_def h by (simp add: *)
qed

lemma events_small:
  assumes "w AND NOT (EV_READ OR EV_WRITE) = 0"
  shows "(ucast w :: u8) AND 3 = ucast w" "w \<noteq> 0 \<Longrightarrow> (ucast w :: u8) \<noteq> 0"
proof -
  have b: "n < 2" if "bit w n" for n
  proof (rule ccontr)
    assume "\<not> n < 2"
    then obtain m where "n = Suc (Suc m)" by (metis add_2_eq_Suc le_Suc_ex not_less)
    moreover have "(3 :: u32) = 2 ^ 2 - 1" by simp
    ultimately have "\<not> bit (3 :: u32) n" by (simp only: bit_mask_iff flip: mask_eq_exp_minus_1) simp
    moreover have "EV_READ OR EV_WRITE = 3" by (simp add: EV_READ_def EV_WRITE_def)
    ultimately have "bit (w AND NOT (EV_READ OR EV_WRITE)) n" using that bit_imp_le_length [OF that] by (simp add: bit_simps)
    then show False using assms by simp
  qed
  have t: "(3 :: u8) = 2 ^ 2 - 1" by simp
  show "(ucast w :: u8) AND 3 = ucast w"
    unfolding t mask_eq_exp_minus_1 [symmetric] by (rule bit_eqI) (use b in \<open>auto simp: bit_simps\<close>)
  show "(ucast w :: u8) \<noteq> 0" if "w \<noteq> 0"
  proof -
    have "\<exists>n. bit w n" using that bit_eq_iff [of w 0] by auto
    then obtain n where "bit w n" ..
    then have "bit (ucast w :: u8) n" using b [of n] by (simp add: bit_simps)
    then show ?thesis by auto
  qed
qed



section \<open>Regular files\<close>

lemma first_size: "array_nextsize 16 0 (Suc 0) = 2"
  by (simp add: array_nextsize_def doubled.simps)

lemma two_zeroed: "replicate 2 x = [x, x]"
  by (simp add: numeral_2_eq_2)

lemmas io_eval = ev_io_set_def ev_io_start_def ev_io_stop_def io_clear_pending_def need_anfd_def first_size two_zeroed
  io_ev_start_def io_ev_stop_def upd_w_def upd_fd_def fd_change_def fd_reify_def fd_reify_from.simps reify_fd_def wanted_def
  epoll_modify_def call_ctl_def epoll_poll_def fd_event_def fd_event_nocheck_def io_feed_event_def io_take_pending_def
  pri_adjust_def abs_pri_def oassert_def zero_anfd_def io_init_def EV_READ_def EV_WRITE_def EV_IOFDSET_def
  EV_ANFD_REIFY_def EV_EMASK_EPERM_def EV_MINPRI_def EV_MAXPRI_def Let_def

definition never_polled :: "unit epoll_ctl" where
  "never_polled op fd m g k = (Ctl_EPERM, k)"

definition one_loop :: "'k \<Rightarrow> bool \<Rightarrow> u32 \<Rightarrow> u8 \<Rightarrow> u8 \<Rightarrow> u8 \<Rightarrow> nat list \<Rightarrow> nat list \<Rightarrow> nat \<Rightarrow> u32 \<Rightarrow> 'k io_loop" where
  "one_loop k act e ev r em es ch p g =
     \<lparr>ws = (\<lambda>_. \<lparr>w_fd = 0, w_events = 0, w_active = False, w_pending = 0, w_priority = 0\<rparr>)
        (0 := \<lparr>w_fd = 0, w_events = e, w_active = act, w_pending = p, w_priority = 0\<rparr>),
      anfds = [\<lparr>head = if act then [0] else [], aevents = ev, reify = r, emask = em, egen = g\<rparr>, zero_anfd],
      fdchanges = ch, io_pendings = (\<lambda>_. [])(2 := if p = 0 then [] else [(Some 0, 1)]),
      io_activecnt = if act then 1 else 0, eperms = es, postfork = False, kernel = k\<rparr>"

lemma one_start: "ev_io_start 0 (ev_io_set 0 0 EV_READ (io_init k)) = Return (one_loop k True 1 0 0x81 0 [] [0] 0 0)"
  by (simp add: io_eval one_loop_def fun_eq_iff)

lemma file_run:
  "fd_reify never_polled (one_loop k True 1 0 0x81 0 [] [0] 0 0) = Some (Return (one_loop k True 1 1 0 0x80 [0] [] 0 1))"
  "ev_io_stop 0 (one_loop k True 1 1 0 0x80 [0] [] 0 1) = Return (one_loop k False 1 1 1 0x80 [0] [0] 0 1)"
  "fd_reify never_polled (one_loop k False 1 1 1 0x80 [0] [0] 0 1) = Some (Return (one_loop k False 1 0 0 0x80 [0] [] 0 1))"
  "epoll_poll never_polled [] (one_loop k False 1 0 0 0x80 [0] [] 0 1) = one_loop k False 1 0 0 0x80 [] [] 0 1"
  "ev_io_start 0 (one_loop k False 1 0 0 0x80 [] [] 0 1) = Return (one_loop k True 1 0 1 0x80 [] [0] 0 1)"
  "fd_reify never_polled (one_loop k True 1 0 1 0x80 [] [0] 0 1) = Some (Return (one_loop k True 1 1 0 0x80 [] [] 0 2))"
  by (simp_all add: io_eval one_loop_def fun_eq_iff never_polled_def)

lemma file_fires: "epoll_poll never_polled [] (one_loop k True 1 1 0 0x80 [0] [] 0 1) = one_loop k True 1 1 0 0x80 [0] [] 1 1"
  by (simp add: io_eval one_loop_def fun_eq_iff never_polled_def)

lemma one_postfork [simp]: "\<not> postfork (one_loop k act e ev r em es ch p g)"
  by (simp add: one_loop_def)

text \<open>
  A watcher of a regular file is reported ready on every poll; stopped and, after a poll, started again,
  the same watcher of the same file is never reported again.
\<close>

theorem restarted_file_watcher_starves:
  "\<exists>L L'. io_reachable never_polled (\<lambda>_ _. None) ({}, L) \<and> io_reachable never_polled (\<lambda>_ _. None) ({}, L') \<and>
     reified L \<and> reified L' \<and> ws L' = ws L \<and> w_active (ws L 0) \<and> wanted L' 0 = wanted L 0 \<and>
     io_pendings (epoll_poll never_polled [] L) 2 = [(Some 0, EV_READ)] \<and>
     (\<forall>n. io_pendings ((epoll_poll never_polled [] ^^ n) L') = (\<lambda>_. []))"
proof -
  let ?R = "io_reachable never_polled (\<lambda>_ _. None)"
  let ?L = "one_loop () True 1 1 0 0x80 [0] [] 0 1" and ?L' = "one_loop () True 1 1 0 0x80 [] [] 0 2"
  note go = io_next [OF _ io_step_start] io_next [OF _ io_step_stop] io_next [OF _ io_step_reify] io_next [OF _ io_step_poll]
  have "?R ({}, ev_io_set 0 0 EV_READ (io_init ()))" by (rule io_next [OF io_begin io_step_set]) (simp_all add: io_init_def)
  then have "?R ({}, one_loop () True 1 0 0x81 0 [] [0] 0 0)" by (rule go(1) [OF _ one_start]) simp
  then have R: "?R ({}, ?L)" by (rule go(3) [OF _ _ file_run(1)]) simp
  then have "?R ({}, one_loop () False 1 1 1 0x80 [0] [0] 0 1)" by (rule go(2) [OF _ file_run(2)])
  then have "?R ({}, one_loop () False 1 0 0 0x80 [0] [] 0 1)" by (rule go(3) [OF _ _ file_run(3)]) simp
  from go(4) [OF this, of "[]"] have "?R ({}, one_loop () False 1 0 0 0x80 [] [] 0 1)" by (simp add: file_run(4))
  then have "?R ({}, one_loop () True 1 0 1 0x80 [] [0] 0 1)" by (rule go(1) [OF _ file_run(5)]) simp
  then have R': "?R ({}, ?L')" by (rule go(3) [OF _ _ file_run(6)]) simp
  have "reified ?L" "reified ?L'"
    by (auto simp: reified_def lists_ok_def one_loop_def wanted_def zero_anfd_def nth_Cons EV_READ_def EV_WRITE_def split: nat.splits)
  moreover have "epoll_poll never_polled [] ?L' = ?L'" by (simp add: epoll_poll_def one_loop_def)
  then have "(epoll_poll never_polled [] ^^ n) ?L' = ?L'" for n by (induction n) simp_all
  then have "io_pendings ((epoll_poll never_polled [] ^^ n) ?L') = (\<lambda>_. [])" for n by (simp add: one_loop_def fun_eq_iff)
  ultimately show ?thesis
    using R R' by (intro exI [of _ ?L] exI [of _ ?L']) (simp add: file_fires, simp add: one_loop_def wanted_def EV_READ_def)
qed

text \<open>The documented behaviour allows both kernels.\<close>

lemma never_polled_documented: "epoll_documented never_polled (\<lambda>_ _. None)"
  by (simp add: epoll_documented_def never_polled_def)

definition all_polled :: "(nat \<Rightarrow> (u8 \<times> u32) option) epoll_ctl" where
  "all_polled op fd m g k =
     (case op of
        CTL_ADD \<Rightarrow> if k fd = None then (Ctl_ok, k(fd \<mapsto> (m, g))) else (Ctl_EEXIST, k)
      | CTL_MOD \<Rightarrow> if k fd = None then (Ctl_ENOENT, k) else (Ctl_ok, k(fd \<mapsto> (m, g)))
      | CTL_DEL \<Rightarrow> if k fd = None then (Ctl_ENOENT, k) else (Ctl_ok, k(fd := None)))"

lemma all_polled_documented: "epoll_documented all_polled (\<lambda>k. k)"
  by (auto simp: epoll_documented_def all_polled_def split: ctl_op.splits)

lemma all_polled_run:
  "fd_reify all_polled (one_loop (\<lambda>_. None) True 1 0 0x81 0 [] [0] 0 0) = Some (Return (one_loop [0 \<mapsto> (1, 1)] True 1 1 0 1 [] [] 0 1))"
  by (simp add: io_eval one_loop_def fun_eq_iff all_polled_def)


end
