(* ===== verification/EvEvents.thy ===== *)
theory EvEvents
  imports EvSync
begin

unbundle bit_operations_syntax

text \<open>
  The way of an event to the watchers: \<open>fd_event\<close> makes it pending for those of the descriptor that wait
  for it, \<open>ev_invoke_pending\<close> hands it out by priority.
\<close>

section \<open>The pending events\<close>

definition pending_of :: "'k io_loop \<Rightarrow> nat \<Rightarrow> u32" where
  "pending_of L i = (let w = ws L i in if w_pending w = 0 then 0 else snd (io_pendings L (abs_pri w) ! (w_pending w - 1)))"

text \<open>The number in a pending watcher is its place in the array of its priority, and that place is its own.\<close>

definition pend_ok :: "'k io_loop \<Rightarrow> bool" where
  "pend_ok L \<longleftrightarrow>
     (\<forall>i. w_pending (ws L i) \<noteq> 0 \<longrightarrow> w_pending (ws L i) \<le> length (io_pendings L (abs_pri (ws L i))) \<and>
        fst (io_pendings L (abs_pri (ws L i)) ! (w_pending (ws L i) - 1)) = Some i) \<and>
     (\<forall>p n i. n < length (io_pendings L p) \<longrightarrow> fst (io_pendings L p ! n) = Some i \<longrightarrow>
        abs_pri (ws L i) = p \<and> w_pending (ws L i) = Suc n)"

lemma pend_okD:
  assumes "pend_ok L" "w_pending (ws L i) = Suc n"
  shows "n < length (io_pendings L (abs_pri (ws L i)))" "fst (io_pendings L (abs_pri (ws L i)) ! n) = Some i"
  using assms unfolding pend_ok_def by (metis Suc_le_lessD diff_Suc_1 nat.distinct(1))+

lemma pend_okE:
  assumes "pend_ok L" "n < length (io_pendings L p)" "fst (io_pendings L p ! n) = Some i"
  shows "abs_pri (ws L i) = p" "w_pending (ws L i) = Suc n"
  using assms unfolding pend_ok_def by blast+

lemma feed_old:
  assumes "w_pending (ws L i) = Suc n"
  defines "p \<equiv> abs_pri (ws L i)"
  shows "ws (io_feed_event i e L) = ws L"
    "io_pendings (io_feed_event i e L) = (io_pendings L)(p := (io_pendings L p)[n := (fst (io_pendings L p ! n), snd (io_pendings L p ! n) OR e)])"
  using assms(1) by (simp_all add: io_feed_event_def Let_def p_def)

lemma feed_new:
  assumes "w_pending (ws L i) = 0"
  defines "p \<equiv> abs_pri (ws L i)"
  shows "ws (io_feed_event i e L) = (ws L)(i := (ws L i)\<lparr>w_pending := Suc (length (io_pendings L p))\<rparr>)"
    "io_pendings (io_feed_event i e L) = (io_pendings L)(p := io_pendings L p @ [(Some i, e)])"
  using assms(1) by (simp_all add: io_feed_event_def Let_def p_def upd_w_def)

lemma abs_pri_upd [simp]: "abs_pri (w\<lparr>w_pending := n\<rparr>) = abs_pri w"
  by (simp add: abs_pri_def)

lemma feed_pend_ok:
  assumes "pend_ok L"
  shows "pend_ok (io_feed_event i e L)"
proof (cases "w_pending (ws L i)")
  case 0
  let ?p = "abs_pri (ws L i)"
  have ne: "j \<noteq> i" if "n < length (io_pendings L p)" "fst (io_pendings L p ! n) = Some j" for p n j
    using pend_okE(2) [OF assms that] 0 by auto
  show ?thesis
    unfolding pend_ok_def feed_new [OF 0]
  proof (intro conjI allI impI)
    fix j assume j: "w_pending (((ws L)(i := (ws L i)\<lparr>w_pending := Suc (length (io_pendings L ?p))\<rparr>)) j) \<noteq> 0"
    let ?w = "((ws L)(i := (ws L i)\<lparr>w_pending := Suc (length (io_pendings L ?p))\<rparr>)) j"
    let ?ps = "(io_pendings L)(?p := io_pendings L ?p @ [(Some i, e)])"
    have "w_pending ?w \<le> length (?ps (abs_pri ?w)) \<and> fst (?ps (abs_pri ?w) ! (w_pending ?w - 1)) = Some j"
    proof (cases "j = i")
      case False
      then obtain n where n: "w_pending (ws L j) = Suc n" using j by (cases "w_pending (ws L j)") auto
      show ?thesis using False n pend_okD [OF assms n] by (cases "abs_pri (ws L j) = ?p") (simp_all add: nth_append)
    qed simp
    then show "w_pending ?w \<le> length (?ps (abs_pri ?w))" "fst (?ps (abs_pri ?w) ! (w_pending ?w - 1)) = Some j" by simp_all
  next
    fix p n j
    let ?ps = "(io_pendings L)(?p := io_pendings L ?p @ [(Some i, e)])"
    assume n: "n < length (?ps p)" "fst (?ps p ! n) = Some j"
    let ?w = "((ws L)(i := (ws L i)\<lparr>w_pending := Suc (length (io_pendings L ?p))\<rparr>)) j"
    have "abs_pri ?w = p \<and> w_pending ?w = Suc n"
    proof (cases "n < length (io_pendings L p)")
      case True
      then have "fst (io_pendings L p ! n) = Some j" using n by (auto simp: nth_append split: if_splits)
      then show ?thesis using ne [OF True] pend_okE [OF assms True] by simp
    next
      case False
      then have "p = ?p \<and> n = length (io_pendings L ?p) \<and> j = i" using n by (auto simp: nth_append less_Suc_eq split: if_splits)
      then show ?thesis by simp
    qed
    then show "abs_pri ?w = p" "w_pending ?w = Suc n" by simp_all
  qed
next
  case (Suc n)
  let ?p = "abs_pri (ws L i)"
  let ?ps = "(io_pendings L)(?p := (io_pendings L ?p)[n := (fst (io_pendings L ?p ! n), snd (io_pendings L ?p ! n) OR e)])"
  have l: "length (?ps p) = length (io_pendings L p)" for p by simp
  have f: "m < length (io_pendings L p) \<Longrightarrow> fst (?ps p ! m) = fst (io_pendings L p ! m)" for p m
    by (cases "p = ?p"; cases "m = n"; simp)
  show ?thesis
    unfolding pend_ok_def feed_old [OF Suc] l
  proof (intro conjI allI impI)
    fix j assume "w_pending (ws L j) \<noteq> 0"
    then obtain k where k: "w_pending (ws L j) = Suc k" by (cases "w_pending (ws L j)") auto
    note d = pend_okD [OF assms k]
    show "w_pending (ws L j) \<le> length (io_pendings L (abs_pri (ws L j)))" using d(1) k by simp
    show "fst (?ps (abs_pri (ws L j)) ! (w_pending (ws L j) - 1)) = Some j" unfolding k diff_Suc_1 f [OF d(1)] by (rule d(2))
  next
    fix p m j assume m: "m < length (io_pendings L p)" "fst (?ps p ! m) = Some j"
    show "abs_pri (ws L j) = p" "w_pending (ws L j) = Suc m" using pend_okE [OF assms m(1)] m(2) unfolding f [OF m(1)] by blast+
  qed
qed

lemma feed_pending:
  assumes "pend_ok L"
  shows "pending_of (io_feed_event i e L) j = (if j = i then pending_of L i OR e else pending_of L j)"
proof (cases "w_pending (ws L i)")
  case 0
  show ?thesis
  proof (cases "j = i")
    case True
    then show ?thesis by (simp add: pending_of_def Let_def feed_new [OF 0] 0)
  next
    case False
    show ?thesis
    proof (cases "w_pending (ws L j)")
      case (Suc n)
      then show ?thesis using False pend_okD [OF assms Suc]
        by (cases "abs_pri (ws L j) = abs_pri (ws L i)") (simp_all add: pending_of_def Let_def feed_new [OF 0] nth_append)
    qed (use False in \<open>simp add: pending_of_def Let_def feed_new [OF 0]\<close>)
  qed
next
  case (Suc n)
  note n = pend_okD [OF assms Suc]
  show ?thesis
  proof (cases "j = i")
    case True
    then show ?thesis using n by (simp add: pending_of_def Let_def feed_old [OF Suc] Suc)
  next
    case False
    show ?thesis
    proof (cases "w_pending (ws L j)")
      case (Suc m)
      have "abs_pri (ws L j) = abs_pri (ws L i) \<Longrightarrow> m \<noteq> n" using n pend_okD [OF assms Suc] False by auto
      then show ?thesis
        using False Suc by (cases "abs_pri (ws L j) = abs_pri (ws L i)") (simp_all add: pending_of_def Let_def feed_old [OF \<open>w_pending (ws L i) = Suc n\<close>])
    qed (use False in \<open>simp add: pending_of_def Let_def feed_old [OF Suc]\<close>)
  qed
qed

lemma feed_other [simp]: "anfds (io_feed_event i e L) = anfds L" "w_events (ws (io_feed_event i e L) j) = w_events (ws L j)"
  by (simp_all add: io_feed_event_def Let_def upd_w_def)

lemma deliver_all:
  assumes "pend_ok L" "distinct is"
  defines "f \<equiv> \<lambda>e i L. let ev = w_events (ws L i) AND e in if ev \<noteq> 0 then io_feed_event i ev L else L"
  shows "pend_ok (fold (f e) is L) \<and>
    (\<forall>j. pending_of (fold (f e) is L) j = (if j \<in> set is then pending_of L j OR (w_events (ws L j) AND e) else pending_of L j))"
  using assms(1,2)
proof (induction "is" arbitrary: L)
  case (Cons i "is")
  have k: "pend_ok (f e i L)" "w_events (ws (f e i L) j) = w_events (ws L j)"
    "pending_of (f e i L) j = (if j = i then pending_of L j OR (w_events (ws L j) AND e) else pending_of L j)" for j
    using Cons.prems(1) by (simp_all add: f_def Let_def feed_pend_ok feed_pending)
  show ?case using Cons.IH [OF k(1)] Cons.prems(2) k(2,3) by auto
qed simp

text \<open>
  An event of a descriptor becomes pending for each watcher of it that waits for it, with exactly the
  part it waits for, in addition to what is pending for it already, and for no other watcher; nothing is
  delivered while the descriptor is to be looked at again.
\<close>

theorem fd_event_delivers:
  assumes "pend_ok L" "distinct (head (anfds L ! fd))"
  shows "pend_ok (fd_event fd e L) \<and>
    pending_of (fd_event fd e L) i =
       (if reify (anfds L ! fd) = 0 \<and> i \<in> set (head (anfds L ! fd)) then pending_of L i OR (w_events (ws L i) AND e) else pending_of L i)"
  using deliver_all [OF assms] assms(1) by (simp add: fd_event_def fd_event_nocheck_def)

lemma next_pri:
  "io_next_pri n L = Some p \<Longrightarrow> io_pendings L p \<noteq> [] \<and> p < n \<and> (\<forall>q. p < q \<longrightarrow> q < n \<longrightarrow> io_pendings L q = [])"
  by (induction n) (auto split: if_splits simp: less_Suc_eq)

lemma take_pending:
  assumes "pend_ok L" "io_take_pending L = Some ((Some i, e), L')"
  shows "e = pending_of L i" "pending_of L' i = 0" "pend_ok L'" "j \<noteq> i \<Longrightarrow> pending_of L' j = pending_of L j"
    "pending_of L j \<noteq> 0 \<Longrightarrow> abs_pri (ws L j) < 5 \<Longrightarrow> abs_pri (ws L j) \<le> abs_pri (ws L i)"
proof -
  obtain p where p: "io_next_pri 5 L = Some p" "last (io_pendings L p) = (Some i, e)"
    "L' = upd_w i (\<lambda>w. w\<lparr>w_pending := 0\<rparr>) (L\<lparr>io_pendings := (io_pendings L)(p := butlast (io_pendings L p))\<rparr>)"
    using assms(2) by (auto simp: io_take_pending_def Let_def split: option.splits)
  note n = next_pri [OF p(1)]
  define m where "m = length (io_pendings L p) - 1"
  have m: "m < length (io_pendings L p)" "io_pendings L p ! m = (Some i, e)" using n p(2) by (simp_all add: m_def last_conv_nth)
  have i: "abs_pri (ws L i) = p" "w_pending (ws L i) = Suc m" using pend_okE [OF assms(1) m(1)] m(2) by simp_all
  show "e = pending_of L i" using i m(2) by (simp add: pending_of_def Let_def)
  have w: "ws L' = (ws L)(i := (ws L i)\<lparr>w_pending := 0\<rparr>)" "io_pendings L' = (io_pendings L)(p := butlast (io_pendings L p))"
    by (simp_all add: p(3) upd_w_def)
  show "pending_of L' i = 0" by (simp add: pending_of_def w)
  have o: "k < length (io_pendings L' (abs_pri (ws L j)))" "io_pendings L' (abs_pri (ws L j)) ! k = io_pendings L (abs_pri (ws L j)) ! k"
    if "j \<noteq> i" "w_pending (ws L j) = Suc k" for j k
  proof -
    note k = pend_okD [OF assms(1) that(2)]
    have "abs_pri (ws L j) = p \<Longrightarrow> k \<noteq> m" using k(2) m(2) that(1) by auto
    then show "k < length (io_pendings L' (abs_pri (ws L j)))" "io_pendings L' (abs_pri (ws L j)) ! k = io_pendings L (abs_pri (ws L j)) ! k"
      using k(1) m(1) by (auto simp: w m_def nth_butlast)
  qed
  show "pending_of L' j = pending_of L j" if "j \<noteq> i" for j
    using that o(2) [OF that] by (cases "w_pending (ws L j)") (simp_all add: pending_of_def w)
  show "abs_pri (ws L j) \<le> abs_pri (ws L i)" if "pending_of L j \<noteq> 0" "abs_pri (ws L j) < 5"
  proof -
    have "w_pending (ws L j) \<noteq> 0" using that(1) by (auto simp: pending_of_def Let_def split: if_splits)
    then obtain k where "w_pending (ws L j) = Suc k" by (cases "w_pending (ws L j)") simp_all
    then have "io_pendings L (abs_pri (ws L j)) \<noteq> []" using pend_okD(1) [OF assms(1)] by fastforce
    then show ?thesis using n that(2) i(1) by (meson not_less)
  qed
  show "pend_ok L'"
    unfolding pend_ok_def
  proof (intro conjI allI impI)
    fix j assume j: "w_pending (ws L' j) \<noteq> 0"
    then have ne: "j \<noteq> i" by (auto simp: w)
    then obtain k where k: "w_pending (ws L j) = Suc k" using j by (cases "w_pending (ws L j)") (simp_all add: w)
    show "w_pending (ws L' j) \<le> length (io_pendings L' (abs_pri (ws L' j)))"
      "fst (io_pendings L' (abs_pri (ws L' j)) ! (w_pending (ws L' j) - 1)) = Some j"
      using o [OF ne k] pend_okD [OF assms(1) k] ne k by (simp_all add: w(1))
  next
    fix q k j assume k: "k < length (io_pendings L' q)" "fst (io_pendings L' q ! k) = Some j"
    then have "k < length (io_pendings L q)" "io_pendings L' q ! k = io_pendings L q ! k" "q = p \<Longrightarrow> k \<noteq> m"
      by (auto simp: w m_def nth_butlast split: if_splits)
    then have j: "abs_pri (ws L j) = q" "w_pending (ws L j) = Suc k" "q = p \<Longrightarrow> k \<noteq> m"
      using pend_okE [OF assms(1)] k(2) by simp_all
    then have "j \<noteq> i" using i by auto
    then show "abs_pri (ws L' j) = q" "w_pending (ws L' j) = Suc k" using j by (simp_all add: w)
  qed
qed

text \<open>
  One turn of \<open>ev_invoke_pending\<close> takes a watcher of the highest priority that has any, gives it all its
  pending events, and leaves the others theirs.
\<close>

theorem take_pending_correct:
  assumes "pend_ok L" "io_take_pending L = Some ((Some i, e), L')"
  shows "e = pending_of L i \<and> pend_ok L' \<and> (\<forall>j. pending_of L' j = (if j = i then 0 else pending_of L j)) \<and>
    (\<forall>j. pending_of L j \<noteq> 0 \<longrightarrow> abs_pri (ws L j) < 5 \<longrightarrow> abs_pri (ws L j) \<le> abs_pri (ws L i))"
  using take_pending [OF assms] by simp

lemma pend_init: "pend_ok (io_init k)"
  by (simp add: pend_ok_def io_init_def)

theorem fd_event_delivers_witness:
  "pending_of (fd_event 0 EV_READ (returned (ev_io_start 0 (ev_io_set 0 0 EV_READ (io_init ()))))) 0 = 0"
proof -
  let ?L = "one_loop () True 1 0 0x81 0 [] [0] 0 0"
  have "pend_ok ?L" "distinct (head (anfds ?L ! 0))" by (simp_all add: pend_ok_def one_loop_def)
  from fd_event_delivers [OF this, of EV_READ 0] show ?thesis by (simp add: one_start) (simp add: one_loop_def pending_of_def)
qed

theorem take_pending_correct_witness:
  "\<exists>L' e. io_take_pending (one_loop () True 1 1 0 0x80 [0] [] 1 1) = Some ((Some 0, e), L') \<and>
     e = pending_of (one_loop () True 1 1 0 0x80 [0] [] 1 1) 0 \<and> pending_of L' 0 = 0"
proof -
  let ?L = "one_loop () True 1 1 0 0x80 [0] [] 1 1"
  have "pend_ok ?L" by (simp add: pend_ok_def one_loop_def abs_pri_def EV_MINPRI_def split: if_splits)
  moreover have "\<exists>L' e. io_take_pending ?L = Some ((Some 0, e), L')"
    by (simp add: io_take_pending_def one_loop_def eval_nat_numeral Let_def)
  ultimately show ?thesis using take_pending_correct by metis
qed

end
