(* ===== verification/EioQueue.thy ===== *)
theory EioQueue
  imports Prelude "HOL-Library.Multiset"
begin

text \<open>
  The request queues of libeio (\<open>deps/libeio/eio.c\<close>): nine lists, one for each priority, and their
  refinement of one list in the order in which requests are served. Requests are numbers; the chain of
  \<open>next\<close> pointers from \<open>qs\<close> to \<open>qe\<close> is a list.
\<close>

section \<open>The queues\<close>

definition ETP_NUM_PRI :: nat where "ETP_NUM_PRI = 9"

record reqq =
  qs :: "nat list list"
  qsize :: int

definition reqq_init :: reqq where
  "reqq_init = \<lparr>qs = replicate ETP_NUM_PRI [], qsize = 0\<rparr>"

text \<open>The result is the number of requests before.\<close>

definition reqq_push :: "nat \<Rightarrow> nat \<Rightarrow> reqq \<Rightarrow> reqq \<times> int" where
  "reqq_push pri r q = (q\<lparr>qs := (qs q)[pri := qs q ! pri @ [r]], qsize := qsize q + 1\<rparr>, qsize q)"

fun first_used :: "nat \<Rightarrow> nat list list \<Rightarrow> nat option" where
  "first_used 0 ls = None"
| "first_used (Suc pri) ls = (if ls ! pri \<noteq> [] then Some pri else first_used pri ls)"

definition reqq_shift :: "reqq \<Rightarrow> (nat option \<times> reqq) outcome" where
  "reqq_shift q =
     (if qsize q = 0 then Return (None, q)
      else case first_used ETP_NUM_PRI (qs q) of
        None \<Rightarrow> Abort
      | Some pri \<Rightarrow>
          Return (Some (hd (qs q ! pri)), q\<lparr>qsize := qsize q - 1, qs := (qs q)[pri := drop 1 (qs q ! pri)]\<rparr>))"

text \<open>\<open>etp_submit\<close> brings the priority, a \<open>signed char\<close>, into the range of the array.\<close>

definition pri_index :: "8 word \<Rightarrow> nat" where
  "pri_index pri =
     (let p = pri - (- 4); p = (if sint p < 0 then 0 else p); p = (if 8 < sint p then 8 else p) in nat (sint p))"

text \<open>The loops over the queues in the child of a fork.\<close>

fun drain :: "nat \<Rightarrow> reqq \<Rightarrow> nat list \<Rightarrow> (nat list \<times> reqq) outcome option" where
  "drain 0 q ds = None"
| "drain (Suc fuel) q ds =
     (case reqq_shift q of
        Return (None, q') \<Rightarrow> Some (Return (ds, q'))
      | Return (Some r, q') \<Rightarrow> drain fuel q' (ds @ [r])
      | x \<Rightarrow> Some Abort)"

section \<open>The order of service\<close>

definition service :: "reqq \<Rightarrow> (nat \<times> nat) list" where
  "service q = concat (map (\<lambda>pri. map (Pair pri) (qs q ! pri)) (rev [0..<ETP_NUM_PRI]))"

definition reqq_ok :: "reqq \<Rightarrow> bool" where
  "reqq_ok q \<longleftrightarrow> length (qs q) = ETP_NUM_PRI \<and> qsize q = int (length (service q))"

text \<open>A request goes behind those of its priority and of higher ones.\<close>

definition serve_later :: "nat \<Rightarrow> nat \<Rightarrow> (nat \<times> nat) list \<Rightarrow> (nat \<times> nat) list" where
  "serve_later pri r xs = takeWhile (\<lambda>(p, _). pri \<le> p) xs @ (pri, r) # dropWhile (\<lambda>(p, _). pri \<le> p) xs"

definition part :: "reqq \<Rightarrow> nat \<Rightarrow> nat \<Rightarrow> (nat \<times> nat) list" where
  "part q a b = concat (map (\<lambda>p. map (Pair p) (qs q ! p)) (rev [a..<b]))"

lemma service_split:
  assumes "pri < ETP_NUM_PRI" "length (qs q) = ETP_NUM_PRI"
  shows "service q = part q (Suc pri) ETP_NUM_PRI @ map (Pair pri) (qs q ! pri) @ part q 0 pri"
    "service (q\<lparr>qs := (qs q)[pri := l]\<rparr>) = part q (Suc pri) ETP_NUM_PRI @ map (Pair pri) l @ part q 0 pri"
proof -
  have "[0..<ETP_NUM_PRI] = [0..<pri] @ pri # [Suc pri..<ETP_NUM_PRI]"
    using assms(1) by (metis upt_add_eq_append upt_conv_Cons le_add1 le_add_diff_inverse less_imp_le_nat zero_le)
  then have s: "service q = part q (Suc pri) ETP_NUM_PRI @ map (Pair pri) (qs q ! pri) @ part q 0 pri" for q
    by (simp add: service_def part_def)
  have e: "part (q\<lparr>qs := (qs q)[pri := l]\<rparr>) a b = part q a b" if "pri < a \<or> b \<le> pri" for a b
    unfolding part_def using that by (intro arg_cong [where f = concat] map_cong) auto
  show "service q = part q (Suc pri) ETP_NUM_PRI @ map (Pair pri) (qs q ! pri) @ part q 0 pri" by (rule s)
  show "service (q\<lparr>qs := (qs q)[pri := l]\<rparr>) = part q (Suc pri) ETP_NUM_PRI @ map (Pair pri) l @ part q 0 pri"
    unfolding s e using assms(1,2) by (simp add: e)
qed

lemma service_init [simp]: "service reqq_init = []" "reqq_ok reqq_init"
  by (simp_all add: service_def reqq_init_def reqq_ok_def)

text \<open>Both operations do to the order of service what they say.\<close>

lemma push_service:
  assumes "reqq_ok q" "pri < ETP_NUM_PRI" "reqq_push pri r q = (q', n)"
  shows "service q' = serve_later pri r (service q)" "reqq_ok q'" "n = int (length (service q))"
proof -
  have l: "length (qs q) = ETP_NUM_PRI" using assms(1) by (simp add: reqq_ok_def)
  note s = service_split [OF assms(2) l]
  have q': "service q' = service (q\<lparr>qs := (qs q)[pri := qs q ! pri @ [r]]\<rparr>)" "qsize q' = qsize q + 1"
    "length (qs q') = length (qs q)" "n = qsize q"
    using assms(3) by (auto simp: reqq_push_def service_def)
  have hi: "\<forall>x\<in>set (part q (Suc pri) ETP_NUM_PRI @ map (Pair pri) (qs q ! pri)). case x of (p, _) \<Rightarrow> pri \<le> p"
    by (auto simp: part_def)
  have lo: "x \<in> set (part q 0 pri) \<Longrightarrow> \<not> (case x of (p, _) \<Rightarrow> pri \<le> p)" for x by (auto simp: part_def)
  let ?P = "\<lambda>(p, _ :: nat). pri \<le> p"
  have t: "takeWhile ?P (xs @ ys) = xs \<and> dropWhile ?P (xs @ ys) = ys" if "\<forall>x\<in>set xs. ?P x" "\<And>x. x \<in> set ys \<Longrightarrow> \<not> ?P x" for xs ys
    using that by (cases ys) (auto simp: takeWhile_append2 dropWhile_append2)
  have "serve_later pri r (service q) = (part q (Suc pri) ETP_NUM_PRI @ map (Pair pri) (qs q ! pri)) @ (pri, r) # part q 0 pri"
    unfolding serve_later_def s(1) append_assoc [symmetric] using t [OF hi lo] by simp
  then show "service q' = serve_later pri r (service q)" by (simp add: q'(1) s(2))
  then have "length (service q') = Suc (length (service q))"
    by (simp add: serve_later_def) (metis length_append takeWhile_dropWhile_id)
  then show "reqq_ok q'" "n = int (length (service q))" using assms(1) q' by (simp_all add: reqq_ok_def)
qed

lemma first_used_cases:
  "(first_used n ls = None \<and> (\<forall>p<n. ls ! p = [])) \<or>
   (\<exists>p<n. first_used n ls = Some p \<and> ls ! p \<noteq> [] \<and> (\<forall>p'. p < p' \<longrightarrow> p' < n \<longrightarrow> ls ! p' = []))"
  by (induction n) (auto simp: less_Suc_eq)

lemma shift_service:
  assumes "reqq_ok q"
  shows "(case service q of
      [] \<Rightarrow> reqq_shift q = Return (None, q)
    | (p, r) # rest \<Rightarrow> \<exists>q'. reqq_shift q = Return (Some r, q') \<and> service q' = rest \<and> reqq_ok q')"
proof (cases "service q")
  case Nil
  then show ?thesis using assms by (simp add: reqq_ok_def reqq_shift_def)
next
  case (Cons e rest)
  have l: "length (qs q) = ETP_NUM_PRI" using assms by (simp add: reqq_ok_def)
  have n: "qsize q \<noteq> 0" using assms Cons by (simp add: reqq_ok_def)
  have "service q = []" if "\<forall>p<ETP_NUM_PRI. qs q ! p = []" using that by (simp add: service_def)
  then have "\<not> (\<forall>p<ETP_NUM_PRI. qs q ! p = [])" using Cons by auto
  then obtain p where p: "p < ETP_NUM_PRI" "first_used ETP_NUM_PRI (qs q) = Some p" "qs q ! p \<noteq> []"
    "\<forall>p'. p < p' \<longrightarrow> p' < ETP_NUM_PRI \<longrightarrow> qs q ! p' = []"
    using first_used_cases [of ETP_NUM_PRI "qs q"] by auto
  note s = service_split [OF p(1) l]
  have empty: "part q (Suc p) ETP_NUM_PRI = []" using p(4) by (auto simp: part_def)
  define q' where "q' = q\<lparr>qsize := qsize q - 1, qs := (qs q)[p := drop 1 (qs q ! p)]\<rparr>"
  have "service q' = service (q\<lparr>qs := (qs q)[p := drop 1 (qs q ! p)]\<rparr>)" by (simp add: q'_def service_def)
  then have "service q = (p, hd (qs q ! p)) # service q'" using p(3) by (cases "qs q ! p") (simp_all add: s empty)
  moreover from this have "reqq_ok q'" using assms l by (simp add: reqq_ok_def q'_def)
  moreover have "reqq_shift q = Return (Some (hd (qs q ! p)), q')" using n p(2) by (simp add: reqq_shift_def q'_def)
  ultimately show ?thesis by simp
qed

section \<open>Any run of pushes and shifts\<close>

datatype queue_op = Push "8 word" nat | Shift

fun run_queue :: "queue_op list \<Rightarrow> reqq \<Rightarrow> (nat option list \<times> reqq) outcome" where
  "run_queue [] q = Return ([], q)"
| "run_queue (Push pri r # ops) q = run_queue ops (fst (reqq_push (pri_index pri) r q))"
| "run_queue (Shift # ops) q =
     obind (reqq_shift q) (\<lambda>(r, q'). obind (run_queue ops q') (\<lambda>(rs, q''). Return (r # rs, q'')))"

fun run_list :: "queue_op list \<Rightarrow> (nat \<times> nat) list \<Rightarrow> nat option list \<times> (nat \<times> nat) list" where
  "run_list [] xs = ([], xs)"
| "run_list (Push pri r # ops) xs = run_list ops (serve_later (pri_index pri) r xs)"
| "run_list (Shift # ops) [] = (let (rs, ys) = run_list ops [] in (None # rs, ys))"
| "run_list (Shift # ops) ((p, r) # xs) = (let (rs, ys) = run_list ops xs in (Some r # rs, ys))"

lemma pri_index_range: "pri_index pri < ETP_NUM_PRI"
  by (auto simp: pri_index_def ETP_NUM_PRI_def Let_def nat_less_iff)

lemma run_queue_list:
  assumes "reqq_ok q"
  shows "\<exists>q'. run_queue ops q = Return (fst (run_list ops (service q)), q') \<and> reqq_ok q' \<and> service q' = snd (run_list ops (service q))"
  using assms
proof (induction ops arbitrary: q)
  case (Cons op ops)
  show ?case
  proof (cases op)
    case (Push pri r)
    obtain K n where K: "reqq_push (pri_index pri) r q = (K, n)" by fastforce
    note k = push_service [OF Cons.prems pri_index_range K]
    show ?thesis using Cons.IH [OF k(2)] by (simp add: Push K k(1))
  next
    case Shift
    show ?thesis
    proof (cases "service q")
      case Nil
      then have "reqq_shift q = Return (None, q)" using shift_service [OF Cons.prems] by simp
      then show ?thesis using Cons.IH [OF Cons.prems] by (auto simp: Shift Nil outcome_simps split: prod.splits)
    next
      case (Cons e rest)
      obtain p r where e: "e = (p, r)" by fastforce
      obtain K where K: "reqq_shift q = Return (Some r, K)" "service K = rest" "reqq_ok K"
        using shift_service [OF \<open>reqq_ok q\<close>] Cons e by auto
      show ?thesis using Cons.IH [OF K(3)] by (auto simp: Shift Cons e K outcome_simps split: prod.splits)
    qed
  qed
qed simp

text \<open>
  Property C18: whatever is pushed and shifted, the nine lists give what one list in the order of service gives: always
  the oldest request of the highest priority, and the \<open>abort\<close> of \<open>reqq_shift\<close> is never reached.
\<close>

theorem queue_refines_service_order:
  "\<exists>q. run_queue ops reqq_init = Return (fst (run_list ops []), q) \<and> service q = snd (run_list ops [])"
  using run_queue_list [of reqq_init ops] by auto

text \<open>The four highest values of a \<open>signed char\<close> become the lowest priority.\<close>

lemma high_priority_wraps: "124 \<le> sint pri \<Longrightarrow> pri_index pri = 0"
proof -
  assume "124 \<le> sint pri"
  moreover have "sint pri < 128" using sint_lt [of pri] by simp
  ultimately have "sint pri = 124 \<or> sint pri = 125 \<or> sint pri = 126 \<or> sint pri = 127" by arith
  moreover have w: "pri = word_of_int k" if "sint pri = k" for k using that by (simp flip: that)
  ultimately have "pri = 124 \<or> pri = 125 \<or> pri = 126 \<or> pri = 127" using w [of 124] w [of 125] w [of 126] w [of 127] by auto
  then show ?thesis by (auto simp: pri_index_def Let_def)
qed

section \<open>The interface of a queue of requests\<close>

text \<open>What the pool needs of a queue: \<open>contents\<close> is what is in it, in the order of service.\<close>

locale request_queue =
  fixes contents :: "'q \<Rightarrow> 'r list"
    and push :: "nat \<Rightarrow> 'r \<Rightarrow> 'q \<Rightarrow> 'q \<times> int"
    and shift :: "'q \<Rightarrow> ('r option \<times> 'q) outcome"
    and ok :: "'q \<Rightarrow> bool"
    and valid :: "nat \<Rightarrow> bool"
  assumes push_adds: "ok q \<Longrightarrow> valid p \<Longrightarrow> push p r q = (q', n) \<Longrightarrow>
      ok q' \<and> mset (contents q') = add_mset r (mset (contents q)) \<and> n = int (length (contents q))"
    and shift_takes: "ok q \<Longrightarrow>
      (case contents q of [] \<Rightarrow> shift q = Return (None, q) | r # rest \<Rightarrow> \<exists>q'. shift q = Return (Some r, q') \<and> contents q' = rest \<and> ok q')"
begin

lemma push_empty: "ok q \<Longrightarrow> valid p \<Longrightarrow> push p r q = (q', n) \<Longrightarrow> n = 0 \<longleftrightarrow> contents q = []"
  using push_adds [of q p r q' n] by simp

lemma push_nonempty: "ok q \<Longrightarrow> valid p \<Longrightarrow> push p r q = (q', n) \<Longrightarrow> contents q' \<noteq> []"
  using push_adds [of q p r q' n] by auto

lemma shift_cases:
  assumes "ok q"
  obtains (empty) "contents q = []" "shift q = Return (None, q)"
    | (item) r q' where "contents q = r # contents q'" "shift q = Return (Some r, q')" "ok q'"
  using shift_takes [OF assms] by (cases "contents q") auto

lemma shift_mset:
  assumes "ok q" "shift q = Return (Some r, q')"
  shows "mset (contents q) = add_mset r (mset (contents q'))" "ok q'"
proof -
  from assms(1) have "mset (contents q) = add_mset r (mset (contents q')) \<and> ok q'"
    by (cases rule: shift_cases) (use assms(2) in simp_all)
  then show "mset (contents q) = add_mset r (mset (contents q'))" "ok q'" by simp_all
qed

end

interpretation eioq: request_queue "\<lambda>q. map snd (service q)" reqq_push reqq_shift reqq_ok "\<lambda>p. p < ETP_NUM_PRI"
proof
  fix q q' :: reqq and p r n
  assume "reqq_ok q" "p < ETP_NUM_PRI" "reqq_push p r q = (q', n)"
  note s = push_service [OF this]
  have "mset (takeWhile P xs) + mset (dropWhile P xs) = mset xs" for P and xs :: "(nat \<times> nat) list"
    by (metis mset_append takeWhile_dropWhile_id)
  then have "mset (service q') = add_mset (p, r) (mset (service q))" by (simp add: s(1) serve_later_def)
  then show "reqq_ok q' \<and> mset (map snd (service q')) = add_mset r (mset (map snd (service q))) \<and> n = int (length (map snd (service q)))"
    using s(2,3) by simp
next
  fix q :: reqq
  assume "reqq_ok q"
  from shift_service [OF this]
  show "case map snd (service q) of [] \<Rightarrow> reqq_shift q = Return (None, q)
    | r # rest \<Rightarrow> \<exists>q'. reqq_shift q = Return (Some r, q') \<and> map snd (service q') = rest \<and> reqq_ok q'"
    by (cases "service q") auto
qed

text \<open>The child of a fork destroys every request that was in a queue, once each.\<close>

lemma drain_all:
  assumes "reqq_ok q" "length (service q) < fuel"
  shows "\<exists>q'. drain fuel q ds = Some (Return (ds @ map snd (service q), q')) \<and> service q' = [] \<and> reqq_ok q'"
  using assms
proof (induction fuel arbitrary: q ds)
  case (Suc fuel)
  from Suc.prems(1) show ?case
  proof (cases rule: eioq.shift_cases)
    case empty
    then show ?thesis using Suc.prems(1) by simp
  next
    case (item r q')
    have "length (service q') < fuel" using item(1) Suc.prems(2) by (metis length_Cons length_map Suc_less_eq)
    from Suc.IH [OF item(3) this, of "ds @ [r]"] show ?thesis using item by auto
  qed
qed simp

end
