(* ===== verification/EioPool.thy ===== *)
theory EioPool
  imports EioQueue NodeLoop
begin

text \<open>
  The thread pool of libeio (\<open>deps/libeio/eio.c\<close>), on which the asynchronous operations of \<open>fs\<close> run, with
  the handlers of \<open>node.cc\<close> that poll it. Each step is what one thread does while it holds a lock:
  a worker takes a request or hands in its result, the main thread submits one or takes a result.

  Left out are groups (\<open>grp_*\<close>, \<open>eio_grp_*\<close>), which node does not use, and what the requests do.
\<close>

section \<open>State\<close>

datatype req_type = Work | Group | Quit

record eio_req =
  rq_type :: req_type
  rq_pri :: "8 word"
  rq_size :: nat
  rq_delayed :: bool \<comment> \<open>\<open>int1\<close> of a group\<close>
  rq_cancelled :: bool

text \<open>
  Where a worker is: about to lock \<open>reqlock\<close>, in \<open>X_COND_TIMEDWAIT\<close>, back from it with \<open>ETIMEDOUT\<close>, in
  \<open>X_COND_WAIT\<close>, back from a wait (and about to hold \<open>reqlock\<close>), executing, about to leave, gone.
\<close>

datatype worker = Fresh | Timed_wait | Timed_out | Wait | Woken | Working nat | Quitting | Ended

datatype poll_caller = Want_poll | Done_poll | Do_poll

text \<open>The main thread: in JavaScript or the loop, in \<open>etp_poll\<close> with \<open>maxreqs\<close> left, back from it.\<close>

datatype main_state = Main_idle | Polling poll_caller u32 | Polled poll_caller int

record eio =
  reqs :: "nat \<Rightarrow> eio_req"
  req_queue :: reqq
  res_queue :: reqq
  nreqs :: u32
  nready :: u32
  npending :: u32
  started :: u32
  idle :: u32
  wanted :: u32
  max_idle :: u32
  max_poll_reqs :: u32
  workers :: "worker list"
  want_async :: bool \<comment> \<open>\<open>ev_async_send\<close> to \<open>eio_want_poll_notifier\<close>\<close>
  done_async :: bool
  main :: main_state
  nloop :: loop
  served :: "nat list" \<comment> \<open>in the order of \<open>ETP_FINISH\<close>\<close>

definition set_worker :: "nat \<Rightarrow> worker \<Rightarrow> eio \<Rightarrow> eio" where
  "set_worker i s P = P\<lparr>workers := (workers P)[i := s]\<rparr>"

section \<open>The worker thread\<close>

text \<open>\<open>etp_proc\<close> from the start of its loop, with \<open>reqlock\<close> held, to the wait or to the execution.\<close>

definition worker_take :: "nat \<Rightarrow> eio \<Rightarrow> eio outcome" where
  "worker_take i P =
     obind (reqq_shift (req_queue P))
       (\<lambda>(r, q). Return (case r of
            None \<Rightarrow> set_worker i Timed_wait (P\<lparr>idle := idle P + 1\<rparr>)
          | Some r \<Rightarrow>
              (let P' = P\<lparr>req_queue := q, nready := nready P - 1\<rparr>
               in if rq_type (reqs P r) = Quit then set_worker i Ended P' else set_worker i (Working r) P')))"

text \<open>After a wait, in the same hold of the lock.\<close>

definition worker_resume :: "nat \<Rightarrow> eio \<Rightarrow> eio outcome" where
  "worker_resume i P = worker_take i (P\<lparr>idle := idle P - 1\<rparr>)"

definition worker_timed_out :: "nat \<Rightarrow> eio \<Rightarrow> eio" where
  "worker_timed_out i P =
     (if max_idle P < idle P then set_worker i Quitting (P\<lparr>idle := idle P - 1\<rparr>) else set_worker i Wait P)"

definition worker_quit :: "nat \<Rightarrow> eio \<Rightarrow> eio" where
  "worker_quit i P = set_worker i Ended (P\<lparr>started := started P - 1\<rparr>)"

text \<open>The result is handed in, under \<open>reslock\<close>; \<open>want_poll_cb\<close> is \<open>EIOWantPoll\<close>.\<close>

definition hand_in :: "nat \<Rightarrow> eio \<Rightarrow> eio" where
  "hand_in r P =
     (let (q, n) = reqq_push (pri_index (rq_pri (reqs P r))) r (res_queue P);
          P' = P\<lparr>npending := npending P + 1, res_queue := q\<rparr>
      in if n = 0 then P'\<lparr>want_async := True\<rparr> else P')"

definition worker_finish :: "nat \<Rightarrow> nat \<Rightarrow> eio \<Rightarrow> eio" where
  "worker_finish i r P = set_worker i Fresh (hand_in r P)"

section \<open>The main thread\<close>

definition submit_section :: "nat \<Rightarrow> eio \<Rightarrow> eio" where
  "submit_section r P =
     (if rq_type (reqs P r) = Group then hand_in r (P\<lparr>nreqs := nreqs P + 1\<rparr>)
      else let (q, n) = reqq_push (pri_index (rq_pri (reqs P r))) r (req_queue P)
           in P\<lparr>nreqs := nreqs P + 1, nready := nready P + 1, req_queue := q\<rparr>)"

text \<open>\<open>X_COND_SIGNAL\<close> wakes the workers in \<open>ws\<close>: some, if any waits.\<close>

definition waiting :: "eio \<Rightarrow> nat set" where
  "waiting P = {i. i < length (workers P) \<and> (workers P ! i = Timed_wait \<or> workers P ! i = Wait)}"

definition wake :: "nat set \<Rightarrow> eio \<Rightarrow> eio" where
  "wake is P = P\<lparr>workers := map (\<lambda>i. if i \<in> is then Woken else workers P ! i) [0..<length (workers P)]\<rparr>"

text \<open>\<open>created\<close> is what \<open>thread_create\<close> answers.\<close>

definition start_thread :: "bool \<Rightarrow> eio \<Rightarrow> eio" where
  "start_thread created P = (if created then P\<lparr>workers := workers P @ [Fresh], started := started P + 1\<rparr> else P)"

definition maybe_start_thread :: "bool \<Rightarrow> eio \<Rightarrow> eio" where
  "maybe_start_thread created P =
     (if wanted P \<le> started P then P
      else if 0 \<le> sint (started P) + sint (npending P) - sint (nreqs P) then P
      else start_thread created P)"

definition etp_submit :: "nat \<Rightarrow> nat set \<Rightarrow> bool \<Rightarrow> eio \<Rightarrow> eio" where
  "etp_submit r is created P =
     (if rq_type (reqs P r) = Group then submit_section r P
      else maybe_start_thread created (wake is (submit_section r P)))"

text \<open>A request that makes one thread leave; \<open>r\<close> is the new one.\<close>

definition etp_end_thread :: "nat \<Rightarrow> nat set \<Rightarrow> eio \<Rightarrow> eio" where
  "etp_end_thread r is P =
     (let P = P\<lparr>reqs := (reqs P)(r := \<lparr>rq_type = Quit, rq_pri = 4, rq_size = 0, rq_delayed = False, rq_cancelled = False\<rparr>)\<rparr>;
          (q, n) = reqq_push 8 r (req_queue P); P = wake is (P\<lparr>req_queue := q\<rparr>)
      in P\<lparr>started := started P - 1\<rparr>)"

text \<open>
  One turn of \<open>etp_poll\<close> after \<open>etp_maybe_start_thread\<close>; \<open>fin\<close> is what the callback of the request returns.
  \<open>max_poll_time\<close> is never set.
\<close>

definition poll_turn :: "poll_caller \<Rightarrow> u32 \<Rightarrow> int \<Rightarrow> eio \<Rightarrow> eio outcome" where
  "poll_turn c maxreqs fin P =
     obind (reqq_shift (res_queue P))
       (\<lambda>(r, q). Return (case r of
            None \<Rightarrow> P\<lparr>main := Polled c 0\<rparr>
          | Some r \<Rightarrow>
              (let P1 = P\<lparr>res_queue := q, npending := npending P - 1, done_async := (if qsize q = 0 then True else done_async P),
                          nreqs := nreqs P - 1\<rparr>
               in if rq_type (reqs P r) = Group \<and> rq_size (reqs P r) \<noteq> 0
                  then P1\<lparr>reqs := (reqs P)(r := (reqs P r)\<lparr>rq_delayed := True\<rparr>), main := Polling c maxreqs\<rparr>
                  else let res = (if rq_cancelled (reqs P r) then 0 else fin); P2 = P1\<lparr>served := served P @ [r]\<rparr>
                       in if res \<noteq> 0 then P2\<lparr>main := Polled c res\<rparr>
                          else if maxreqs \<noteq> 0 \<and> maxreqs - 1 = 0 then P2\<lparr>main := Polled c (- 1)\<rparr>
                          else P2\<lparr>main := Polling c (if maxreqs = 0 then 0 else maxreqs - 1)\<rparr>)))"

text \<open>The watchers call \<open>eio_poll\<close>, and act on its result.\<close>

definition enter_poll :: "poll_caller \<Rightarrow> eio \<Rightarrow> eio" where
  "enter_poll c P =
     (case c of
        Want_poll \<Rightarrow> P\<lparr>want_async := False, main := Polling c (max_poll_reqs P)\<rparr>
      | Done_poll \<Rightarrow> P\<lparr>done_async := False, main := Polling c (max_poll_reqs P)\<rparr>
      | Do_poll \<Rightarrow> P\<lparr>main := Polling c (max_poll_reqs P)\<rparr>)"

definition leave_poll :: "poll_caller \<Rightarrow> int \<Rightarrow> eio \<Rightarrow> eio" where
  "leave_poll c res P =
     P\<lparr>main := Main_idle,
       nloop := (case c of Want_poll \<Rightarrow> want_poll_notifier res (nloop P) | Done_poll \<Rightarrow> done_poll_notifier res (nloop P)
                 | Do_poll \<Rightarrow> do_poll res (nloop P))\<rparr>"

section \<open>Runs\<close>

text \<open>After \<open>eio_init\<close> and \<open>ev_idle_start\<close> of the poller in \<open>Start\<close>.\<close>

definition eio_init :: "int \<Rightarrow> eio" where
  "eio_init n =
     \<lparr>reqs = (\<lambda>_. \<lparr>rq_type = Work, rq_pri = 0, rq_size = 0, rq_delayed = False, rq_cancelled = False\<rparr>),
      req_queue = reqq_init, res_queue = reqq_init, nreqs = 0, nready = 0, npending = 0, started = 0, idle = 0, wanted = 4, max_idle = 4,
      max_poll_reqs = 10, workers = [], want_async = False, done_async = False, main = Main_idle, nloop = loop_start n, served = []\<rparr>"

text \<open>
  What each thread may do next. Submitting and waking without cause are marked, because the pool does
  neither by itself; the callbacks of node return 0. \<open>etp_cancel\<close> may be called for any request.
\<close>

datatype mark = Submits nat | Spurious | Own

inductive eio_step :: "mark \<Rightarrow> eio \<Rightarrow> eio \<Rightarrow> bool" where
  eio_submit: "rq_type rq = Work \<or> rq_type rq = Group \<and> rq_size rq = 0 \<Longrightarrow>
     is \<subseteq> waiting P \<Longrightarrow> (rq_type rq = Group \<longrightarrow> is = {}) \<Longrightarrow> (rq_type rq = Work \<and> waiting P \<noteq> {} \<longrightarrow> is \<noteq> {}) \<Longrightarrow>
     eio_step (Submits r) P (wake is (submit_section r (P\<lparr>reqs := (reqs P)(r := rq)\<rparr>)))"
| eio_thread: "eio_step Own P (maybe_start_thread created P)"
| eio_take: "i < length (workers P) \<Longrightarrow> workers P ! i = Fresh \<Longrightarrow> worker_take i P = Return P' \<Longrightarrow> eio_step Own P P'"
| eio_resume: "i < length (workers P) \<Longrightarrow> workers P ! i = Woken \<Longrightarrow> worker_resume i P = Return P' \<Longrightarrow> eio_step Own P P'"
| eio_expire: "i < length (workers P) \<Longrightarrow> workers P ! i = Timed_wait \<Longrightarrow> eio_step Own P (set_worker i Timed_out P)"
| eio_timed_out: "i < length (workers P) \<Longrightarrow> workers P ! i = Timed_out \<Longrightarrow> eio_step Own P (worker_timed_out i P)"
| eio_spurious: "i \<in> waiting P \<Longrightarrow> eio_step Spurious P (set_worker i Woken P)"
| eio_quit: "i < length (workers P) \<Longrightarrow> workers P ! i = Quitting \<Longrightarrow> eio_step Own P (worker_quit i P)"
| eio_finish: "i < length (workers P) \<Longrightarrow> workers P ! i = Working r \<Longrightarrow> eio_step Own P (worker_finish i r P)"
| eio_cancel: "eio_step Own P (P\<lparr>reqs := (reqs P)(r := (reqs P r)\<lparr>rq_cancelled := True\<rparr>)\<rparr>)"
| eio_want: "main P = Main_idle \<Longrightarrow> want_async P \<Longrightarrow> eio_step Own P (enter_poll Want_poll P)"
| eio_done: "main P = Main_idle \<Longrightarrow> done_async P \<Longrightarrow> eio_step Own P (enter_poll Done_poll P)"
| eio_do: "main P = Main_idle \<Longrightarrow> running (nloop P) Eio_poller \<Longrightarrow> eio_step Own P (enter_poll Do_poll P)"
| eio_poll: "main P = Polling c n \<Longrightarrow> poll_turn c n 0 P = Return P' \<Longrightarrow> eio_step Own P P'"
| eio_leave: "main P = Polled c res \<Longrightarrow> eio_step Own P (leave_poll c res P)"

text \<open>The requests that were submitted are carried along.\<close>

inductive eio_reachable :: "nat multiset \<Rightarrow> eio \<Rightarrow> bool" where
  eio_begin: "eio_reachable {#} (eio_init n)"
| eio_own: "eio_reachable S P \<Longrightarrow> eio_step m P P' \<Longrightarrow> m = Own \<or> m = Spurious \<Longrightarrow> eio_reachable S P'"
| eio_submits: "eio_reachable S P \<Longrightarrow> eio_step (Submits r) P P' \<Longrightarrow> r \<notin># S \<Longrightarrow> eio_reachable (add_mset r S) P'"

section \<open>Where the requests are\<close>

fun in_hand :: "worker \<Rightarrow> nat list" where
  "in_hand (Working r) = [r]"
| "in_hand _ = []"

fun idling :: "worker \<Rightarrow> bool" where
  "idling s \<longleftrightarrow> s = Timed_wait \<or> s = Timed_out \<or> s = Wait \<or> s = Woken"

definition queued :: "reqq \<Rightarrow> nat list" where
  "queued q = map snd (service q)"

definition executing :: "eio \<Rightarrow> nat list" where
  "executing P = concat (map in_hand (workers P))"

definition number :: "(worker \<Rightarrow> bool) \<Rightarrow> eio \<Rightarrow> nat" where
  "number p P = length (filter p (workers P))"

definition pool_ok :: "nat multiset \<Rightarrow> eio \<Rightarrow> bool" where
  "pool_ok S P \<longleftrightarrow>
     reqq_ok (req_queue P) \<and> reqq_ok (res_queue P) \<and>
     mset (queued (req_queue P)) + mset (executing P) + mset (queued (res_queue P)) + mset (served P) = S \<and>
     nready P = of_nat (length (queued (req_queue P))) \<and>
     npending P = of_nat (length (queued (res_queue P))) \<and>
     nreqs P = of_nat (length (queued (req_queue P)) + length (executing P) + length (queued (res_queue P))) \<and>
     idle P = of_nat (number idling P) \<and> started P = of_nat (number (\<lambda>s. s \<noteq> Ended) P) \<and> number (\<lambda>s. s \<noteq> Ended) P \<le> unat (wanted P) \<and>
     (\<forall>r\<in>#S. rq_type (reqs P r) = Work \<or> rq_type (reqs P r) = Group \<and> rq_size (reqs P r) = 0)"

text \<open>A result in the queue has something that will fetch it.\<close>

fun tended :: "main_state \<Rightarrow> bool \<Rightarrow> bool" where
  "tended Main_idle poller = poller"
| "tended (Polling c n) poller = (c = Want_poll \<or> poller)"
| "tended (Polled c res) poller = (res = - 1 \<and> (c = Want_poll \<or> poller))"

definition attended :: "eio \<Rightarrow> bool" where
  "attended P \<longleftrightarrow> (queued (res_queue P) \<noteq> [] \<longrightarrow> want_async P \<or> tended (main P) (running (nloop P) Eio_poller))"

section \<open>Each step keeps it\<close>

lemma split_at: "i < length ws \<Longrightarrow> \<exists>xs ys. ws = xs @ ws ! i # ys \<and> (\<forall>s. ws[i := s] = xs @ s # ys)"
  by (intro exI [of _ "take i ws"] exI [of _ "drop (Suc i) ws"]) (simp add: id_take_nth_drop upd_conv_take_nth_drop)

text \<open>A worker moves.\<close>

lemma moved:
  assumes "i < length (workers P)"
  shows "mset (executing (set_worker i s P)) + mset (in_hand (workers P ! i)) = mset (executing P) + mset (in_hand s)"
    "length (executing (set_worker i s P)) + length (in_hand (workers P ! i)) = length (executing P) + length (in_hand s)"
    "number p (set_worker i s P) + of_bool (p (workers P ! i)) = number p P + of_bool (p s)"
proof -
  obtain xs ys where w: "workers P = xs @ workers P ! i # ys" "\<And>s. (workers P)[i := s] = xs @ s # ys" using split_at [OF assms] by blast
  have e: "executing P = concat (map in_hand xs) @ in_hand (workers P ! i) @ concat (map in_hand ys)"
    "number p P = length (filter p xs) + of_bool (p (workers P ! i)) + length (filter p ys)"
    unfolding executing_def number_def by (subst w(1), simp)+
  show "mset (executing (set_worker i s P)) + mset (in_hand (workers P ! i)) = mset (executing P) + mset (in_hand s)"
    "length (executing (set_worker i s P)) + length (in_hand (workers P ! i)) = length (executing P) + length (in_hand s)"
    "number p (set_worker i s P) + of_bool (p (workers P ! i)) = number p P + of_bool (p s)"
    unfolding e by (simp_all add: executing_def number_def set_worker_def w(2))
qed

lemma set_worker_other [simp]:
  "reqs (set_worker i s P) = reqs P" "req_queue (set_worker i s P) = req_queue P" "res_queue (set_worker i s P) = res_queue P"
  "nreqs (set_worker i s P) = nreqs P" "nready (set_worker i s P) = nready P" "npending (set_worker i s P) = npending P"
  "started (set_worker i s P) = started P" "idle (set_worker i s P) = idle P" "wanted (set_worker i s P) = wanted P"
  "served (set_worker i s P) = served P" "main (set_worker i s P) = main P" "nloop (set_worker i s P) = nloop P"
  "want_async (set_worker i s P) = want_async P" "length (workers (set_worker i s P)) = length (workers P)"
  by (simp_all add: set_worker_def)

lemma counts_other [simp]:
  "executing (P\<lparr>idle := n\<rparr>) = executing P" "executing (P\<lparr>req_queue := q\<rparr>) = executing P" "executing (P\<lparr>nready := n\<rparr>) = executing P"
  "executing (P\<lparr>npending := n\<rparr>) = executing P" "executing (P\<lparr>res_queue := q\<rparr>) = executing P" "executing (P\<lparr>nreqs := n\<rparr>) = executing P"
  "executing (P\<lparr>started := n\<rparr>) = executing P" "executing (P\<lparr>want_async := b\<rparr>) = executing P" "executing (P\<lparr>done_async := b\<rparr>) = executing P"
  "executing (P\<lparr>served := rs\<rparr>) = executing P" "executing (P\<lparr>main := m\<rparr>) = executing P" "executing (P\<lparr>reqs := f\<rparr>) = executing P"
  "number p (P\<lparr>idle := n\<rparr>) = number p P" "number p (P\<lparr>req_queue := q\<rparr>) = number p P" "number p (P\<lparr>nready := n\<rparr>) = number p P"
  "number p (P\<lparr>npending := n\<rparr>) = number p P" "number p (P\<lparr>res_queue := q\<rparr>) = number p P" "number p (P\<lparr>nreqs := n\<rparr>) = number p P"
  "number p (P\<lparr>started := n\<rparr>) = number p P" "number p (P\<lparr>want_async := b\<rparr>) = number p P" "number p (P\<lparr>done_async := b\<rparr>) = number p P"
  "number p (P\<lparr>served := rs\<rparr>) = number p P" "number p (P\<lparr>main := m\<rparr>) = number p P" "number p (P\<lparr>reqs := f\<rparr>) = number p P"
  by (simp_all add: executing_def number_def)

lemma pool_ok_cong:
  assumes "req_queue P' = req_queue P" "res_queue P' = res_queue P" "nreqs P' = nreqs P" "nready P' = nready P" "npending P' = npending P"
    "started P' = started P" "idle P' = idle P" "wanted P' = wanted P" "workers P' = workers P" "served P' = served P"
    "\<And>r. rq_type (reqs P' r) = rq_type (reqs P r)" "\<And>r. rq_size (reqs P' r) = rq_size (reqs P r)"
  shows "pool_ok S P' = pool_ok S P"
  by (simp add: pool_ok_def executing_def number_def assms)

text \<open>A worker that holds no request moves between two states that count alike.\<close>

lemma pool_ok_moved:
  assumes "pool_ok S P" "i < length (workers P)" "in_hand s = in_hand (workers P ! i)" "idling s = idling (workers P ! i)"
    "s = Ended \<longleftrightarrow> workers P ! i = Ended"
  shows "pool_ok S (set_worker i s P)"
  using assms(1,3-5) moved(1,2) [OF assms(2), of s] moved(3) [OF assms(2), of idling s] moved(3) [OF assms(2), of "\<lambda>s. s \<noteq> Ended" s]
  by (simp add: pool_ok_def)

lemma take_overwrites: "worker_take i (set_worker i s P) = worker_take i P"
  by (cases "reqq_shift (req_queue P)") (auto simp: worker_take_def set_worker_def Let_def outcome_simps split: option.splits prod.splits)

lemma pool_okD:
  assumes "pool_ok S P"
  shows "reqq_ok (req_queue P)" "reqq_ok (res_queue P)"
    "mset (queued (req_queue P)) + mset (executing P) + mset (queued (res_queue P)) + mset (served P) = S"
    "nready P = of_nat (length (queued (req_queue P)))" "npending P = of_nat (length (queued (res_queue P)))"
    "nreqs P = of_nat (length (queued (req_queue P)) + length (executing P) + length (queued (res_queue P)))"
    "idle P = of_nat (number idling P)" "number (\<lambda>s. s \<noteq> Ended) P \<le> unat (wanted P)" "started P = of_nat (number (\<lambda>s. s \<noteq> Ended) P)"
    "\<And>r. r \<in># S \<Longrightarrow> rq_type (reqs P r) = Work \<or> rq_type (reqs P r) = Group \<and> rq_size (reqs P r) = 0"
  using assms unfolding pool_ok_def by auto

lemma pool_okI:
  assumes "reqq_ok (req_queue P)" "reqq_ok (res_queue P)"
    "mset (queued (req_queue P)) + mset (executing P) + mset (queued (res_queue P)) + mset (served P) = S"
    "nready P = of_nat (length (queued (req_queue P)))" "npending P = of_nat (length (queued (res_queue P)))"
    "nreqs P = of_nat (length (queued (req_queue P)) + length (executing P) + length (queued (res_queue P)))"
    "idle P = of_nat (number idling P)" "number (\<lambda>s. s \<noteq> Ended) P \<le> unat (wanted P)" "started P = of_nat (number (\<lambda>s. s \<noteq> Ended) P)"
    "\<And>r. r \<in># S \<Longrightarrow> rq_type (reqs P r) = Work \<or> rq_type (reqs P r) = Group \<and> rq_size (reqs P r) = 0"
  shows "pool_ok S P"
  using assms unfolding pool_ok_def by auto

lemma take_ok:
  assumes "pool_ok S P" "i < length (workers P)" "workers P ! i = Fresh"
  shows "\<exists>P'. worker_take i P = Return P' \<and> pool_ok S P'"
proof -
  note d = pool_okD [OF assms(1)]
  note m = moved(1,2) [OF assms(2)] moved(3) [OF assms(2), of idling] moved(3) [OF assms(2), of "\<lambda>s. s \<noteq> Ended"]
  from d(1) show ?thesis
  proof (cases rule: eioq.shift_cases)
    case empty
    let ?Q = "set_worker i Timed_wait P"
    have e: "set_worker i Timed_wait (P\<lparr>idle := idle P + 1\<rparr>) = ?Q\<lparr>idle := idle P + 1\<rparr>" by (simp add: set_worker_def)
    have n: "mset (executing ?Q) = mset (executing P)" "length (executing ?Q) = length (executing P)"
      "number idling ?Q = Suc (number idling P)" "number (\<lambda>s. s \<noteq> Ended) ?Q = number (\<lambda>s. s \<noteq> Ended) P"
      using m [of Timed_wait] assms(3) by simp_all
    have "pool_ok S (?Q\<lparr>idle := idle P + 1\<rparr>)" by (rule pool_okI) (use d n in \<open>simp_all add: add.commute\<close>)
    then show ?thesis using empty(2) e by (simp add: worker_take_def outcome_simps)
  next
    case (item r q')
    have "r \<in># S" using d(3) item(1) by (auto simp: queued_def)
    from d(10) [OF this] have t: "rq_type (reqs P r) \<noteq> Quit" by auto
    let ?Q = "set_worker i (Working r) P"
    let ?P = "?Q\<lparr>req_queue := q', nready := nready P - 1\<rparr>"
    have e: "set_worker i (Working r) (P\<lparr>req_queue := q', nready := nready P - 1\<rparr>) = ?P" by (simp add: set_worker_def)
    have n: "mset (executing ?Q) = add_mset r (mset (executing P))" "length (executing ?Q) = Suc (length (executing P))"
      "number idling ?Q = number idling P" "number (\<lambda>s. s \<noteq> Ended) ?Q = number (\<lambda>s. s \<noteq> Ended) P"
      using m [of "Working r"] assms(3) by simp_all
    have q: "queued (req_queue P) = r # queued q'" using item(1) by (simp add: queued_def)
    have "pool_ok S ?P" by (rule pool_okI) (use d n q item(3) in \<open>simp_all add: add.commute\<close>)
    then show ?thesis using item(2) t e by (simp add: worker_take_def outcome_simps Let_def)
  qed
qed

lemma resume_ok:
  assumes "pool_ok S P" "i < length (workers P)" "workers P ! i = Woken"
  shows "\<exists>P'. worker_resume i P = Return P' \<and> pool_ok S P'"
proof -
  note d = pool_okD [OF assms(1)]
  let ?Q = "set_worker i Fresh P"
  let ?P = "set_worker i Fresh (P\<lparr>idle := idle P - 1\<rparr>)"
  have e: "?P = ?Q\<lparr>idle := idle P - 1\<rparr>" by (simp add: set_worker_def)
  have n: "mset (executing ?Q) = mset (executing P)" "length (executing ?Q) = length (executing P)"
    "number idling P = Suc (number idling ?Q)" "number (\<lambda>s. s \<noteq> Ended) ?Q = number (\<lambda>s. s \<noteq> Ended) P"
    using moved(1,2) [OF assms(2), of Fresh] moved(3) [OF assms(2), of idling Fresh] moved(3) [OF assms(2), of "\<lambda>s. s \<noteq> Ended" Fresh] assms(3) by simp_all
  have "pool_ok S ?P" unfolding e by (rule pool_okI) (use d n in \<open>simp_all\<close>)
  from take_ok [OF this, of i] show ?thesis using assms(2) by (simp add: worker_resume_def take_overwrites) (simp add: set_worker_def)
qed

lemma timed_out_ok:
  assumes "pool_ok S P" "i < length (workers P)" "workers P ! i = Timed_out"
  shows "pool_ok S (worker_timed_out i P)"
proof (cases "max_idle P < idle P")
  case False
  then show ?thesis using pool_ok_moved [OF assms(1,2), of Wait] assms(3) by (simp add: worker_timed_out_def)
next
  case True
  note d = pool_okD [OF assms(1)]
  let ?Q = "set_worker i Quitting P"
  have e: "set_worker i Quitting (P\<lparr>idle := idle P - 1\<rparr>) = ?Q\<lparr>idle := idle P - 1\<rparr>" by (simp add: set_worker_def)
  have n: "mset (executing ?Q) = mset (executing P)" "length (executing ?Q) = length (executing P)"
    "number idling P = Suc (number idling ?Q)" "number (\<lambda>s. s \<noteq> Ended) ?Q = number (\<lambda>s. s \<noteq> Ended) P"
    using moved(1,2) [OF assms(2), of Quitting] moved(3) [OF assms(2), of idling Quitting] moved(3) [OF assms(2), of "\<lambda>s. s \<noteq> Ended" Quitting] assms(3) by simp_all
  have "pool_ok S (?Q\<lparr>idle := idle P - 1\<rparr>)" by (rule pool_okI) (use d n in \<open>simp_all\<close>)
  then show ?thesis using True e by (simp add: worker_timed_out_def)
qed

lemma quit_ok:
  assumes "pool_ok S P" "i < length (workers P)" "workers P ! i = Quitting"
  shows "pool_ok S (worker_quit i P)"
proof -
  note d = pool_okD [OF assms(1)]
  let ?Q = "set_worker i Ended P"
  have e: "worker_quit i P = ?Q\<lparr>started := started P - 1\<rparr>" by (simp add: worker_quit_def set_worker_def)
  have n: "mset (executing ?Q) = mset (executing P)" "length (executing ?Q) = length (executing P)"
    "number idling ?Q = number idling P" "number (\<lambda>s. s \<noteq> Ended) P = Suc (number (\<lambda>s. s \<noteq> Ended) ?Q)"
    using moved(1,2) [OF assms(2), of Ended] moved(3) [OF assms(2), of idling Ended] moved(3) [OF assms(2), of "\<lambda>s. s \<noteq> Ended" Ended] assms(3) by simp_all
  show ?thesis unfolding e by (rule pool_okI) (use d n in \<open>simp_all\<close>)
qed

lemma hand_in_ok:
  assumes "reqq_ok (res_queue P)"
  shows "queued (res_queue (hand_in r P)) \<noteq> []" "mset (queued (res_queue (hand_in r P))) = add_mset r (mset (queued (res_queue P)))"
    "length (queued (res_queue (hand_in r P))) = Suc (length (queued (res_queue P)))" "reqq_ok (res_queue (hand_in r P))"
    "want_async (hand_in r P) \<longleftrightarrow> want_async P \<or> queued (res_queue P) = []"
    "req_queue (hand_in r P) = req_queue P" "nreqs (hand_in r P) = nreqs P" "nready (hand_in r P) = nready P"
    "npending (hand_in r P) = npending P + 1" "started (hand_in r P) = started P" "idle (hand_in r P) = idle P"
    "wanted (hand_in r P) = wanted P" "workers (hand_in r P) = workers P" "served (hand_in r P) = served P" "reqs (hand_in r P) = reqs P"
    "main (hand_in r P) = main P" "nloop (hand_in r P) = nloop P"
proof -
  obtain q n where q: "reqq_push (pri_index (rq_pri (reqs P r))) r (res_queue P) = (q, n)" by fastforce
  note e = eioq.push_adds [OF assms pri_index_range q] eioq.push_empty [OF assms pri_index_range q] eioq.push_nonempty [OF assms pri_index_range q]
  have m: "mset (queued q) = add_mset r (mset (queued (res_queue P)))" using e(1) by (simp add: queued_def)
  have "size (mset (queued q)) = Suc (size (mset (queued (res_queue P))))" by (simp add: m)
  then show "length (queued (res_queue (hand_in r P))) = Suc (length (queued (res_queue P)))" by (simp add: hand_in_def q Let_def)
  show "queued (res_queue (hand_in r P)) \<noteq> []" "mset (queued (res_queue (hand_in r P))) = add_mset r (mset (queued (res_queue P)))"
    "reqq_ok (res_queue (hand_in r P))" "want_async (hand_in r P) \<longleftrightarrow> want_async P \<or> queued (res_queue P) = []"
    using e m by (simp_all add: hand_in_def q queued_def Let_def)
qed (simp_all add: hand_in_def Let_def split: prod.splits)

lemma finish_ok:
  assumes "pool_ok S P" "i < length (workers P)" "workers P ! i = Working r"
  shows "pool_ok S (worker_finish i r P)"
proof -
  note d = pool_okD [OF assms(1)]
  note h = hand_in_ok [OF d(2), of r]
  have w: "i < length (workers (hand_in r P))" "workers (hand_in r P) ! i = Working r" using assms(2,3) h(13) by simp_all
  have c: "executing (hand_in r P) = executing P" "number p (hand_in r P) = number p P" for p by (simp_all add: executing_def number_def h(13))
  let ?Q = "set_worker i Fresh (hand_in r P)"
  have n: "mset (executing P) = add_mset r (mset (executing ?Q))" "length (executing P) = Suc (length (executing ?Q))"
    "number idling ?Q = number idling P" "number (\<lambda>s. s \<noteq> Ended) ?Q = number (\<lambda>s. s \<noteq> Ended) P"
    using moved(1,2) [OF w(1), of Fresh] moved(3) [OF w(1), of idling Fresh] moved(3) [OF w(1), of "\<lambda>s. s \<noteq> Ended" Fresh] w(2) c by simp_all
  show ?thesis unfolding worker_finish_def by (rule pool_okI) (use d n h in \<open>simp_all add: add.commute\<close>)
qed

lemma woken:
  assumes "is \<subseteq> waiting P"
  shows "executing (wake is P) = executing P" "number idling (wake is P) = number idling P"
    "number (\<lambda>s. s \<noteq> Ended) (wake is P) = number (\<lambda>s. s \<noteq> Ended) P"
proof -
  have m: "map f (workers (wake is P)) = map f (workers P)"
    if "f Woken = f Timed_wait" "f Woken = f Wait" for f :: "worker \<Rightarrow> 'b"
    using that assms by (intro nth_equalityI) (auto simp: wake_def waiting_def)
  show "executing (wake is P) = executing P" unfolding executing_def by (subst m) simp_all
  have "length (filter p ws) = length (filter (\<lambda>b. b) (map p ws))" for p and ws :: "worker list" by (induction ws) simp_all
  then have *: "number p (wake is P) = number p P" if "p Woken = p Timed_wait" "p Woken = p Wait" for p
    unfolding number_def using m [of p, OF that] by metis
  show "number idling (wake is P) = number idling P" "number (\<lambda>s. s \<noteq> Ended) (wake is P) = number (\<lambda>s. s \<noteq> Ended) P"
    by (rule *; simp)+
qed

lemma wake_other [simp]:
  "reqs (wake is P) = reqs P" "req_queue (wake is P) = req_queue P" "res_queue (wake is P) = res_queue P" "nreqs (wake is P) = nreqs P"
  "nready (wake is P) = nready P" "npending (wake is P) = npending P" "started (wake is P) = started P" "idle (wake is P) = idle P"
  "wanted (wake is P) = wanted P" "served (wake is P) = served P" "main (wake is P) = main P" "nloop (wake is P) = nloop P"
  "want_async (wake is P) = want_async P"
  by (simp_all add: wake_def)

lemma wake_ok:
  assumes "pool_ok S P" "is \<subseteq> waiting P"
  shows "pool_ok S (wake is P)"
  by (rule pool_okI) (use pool_okD [OF assms(1)] woken [OF assms(2)] in simp_all)

lemma submit_ok:
  assumes "pool_ok S P" "rq_type rq = Work \<or> rq_type rq = Group \<and> rq_size rq = 0" "r \<notin># S"
  shows "pool_ok (add_mset r S) (submit_section r (P\<lparr>reqs := (reqs P)(r := rq)\<rparr>))"
proof -
  note d = pool_okD [OF assms(1)]
  let ?P = "P\<lparr>reqs := (reqs P)(r := rq)\<rparr>"
  have t: "rq_type ((if r' = r then rq else reqs P r')) = Work \<or> rq_type (if r' = r then rq else reqs P r') = Group \<and> rq_size (if r' = r then rq else reqs P r') = 0"
    if "r' \<in># add_mset r S" for r' using that d(10) [of r'] assms(2) by auto
  show ?thesis
  proof (cases "rq_type rq = Group")
    case True
    let ?Q = "P\<lparr>reqs := (reqs P)(r := rq), nreqs := nreqs P + 1\<rparr>"
    have "reqq_ok (res_queue ?Q)" using d(2) by simp
    note h = hand_in_ok [OF this, of r]
    have c: "executing (hand_in r ?Q) = executing P" "number p (hand_in r ?Q) = number p P" for p by (simp_all add: executing_def number_def h(13))
    have "pool_ok (add_mset r S) (hand_in r ?Q)"
      by (rule pool_okI) (use d h c t in \<open>simp_all add: add.commute\<close>)
    then show ?thesis using True by (simp add: submit_section_def)
  next
    case False
    obtain q n where q: "reqq_push (pri_index (rq_pri rq)) r (req_queue P) = (q, n)" by fastforce
    note e = eioq.push_adds [OF d(1) pri_index_range q]
    have m: "mset (queued q) = add_mset r (mset (queued (req_queue P)))" using e by (simp add: queued_def)
    have "size (mset (queued q)) = Suc (size (mset (queued (req_queue P))))" by (simp add: m)
    then have l: "length (queued q) = Suc (length (queued (req_queue P)))" by simp
    have "pool_ok (add_mset r S) (P\<lparr>reqs := (reqs P)(r := rq), nreqs := nreqs P + 1, nready := nready P + 1, req_queue := q\<rparr>)"
      by (rule pool_okI) (use d e m l t in \<open>simp_all add: add.commute\<close>)
    then show ?thesis using False q by (simp add: submit_section_def)
  qed
qed

lemma thread_ok:
  assumes "pool_ok S P"
  shows "pool_ok S (maybe_start_thread created P)"
proof (cases "started P < wanted P")
  case False
  then show ?thesis using assms by (simp add: maybe_start_thread_def not_less)
next
  case True
  note d = pool_okD [OF assms]
  have "number (\<lambda>s. s \<noteq> Ended) P < 2 ^ 32" using d(8) unsigned_less [of "wanted P", where ?'a = nat] by simp
  then have "unat (started P) = number (\<lambda>s. s \<noteq> Ended) P" unfolding d(9) by (simp add: unat_of_nat)
  then have lt: "Suc (number (\<lambda>s. s \<noteq> Ended) P) \<le> unat (wanted P)" using True by (simp add: word_less_nat_alt)
  let ?Q = "P\<lparr>workers := workers P @ [Fresh], started := started P + 1\<rparr>"
  have "executing ?Q = executing P" "number idling ?Q = number idling P" "number (\<lambda>s. s \<noteq> Ended) ?Q = Suc (number (\<lambda>s. s \<noteq> Ended) P)"
    by (simp_all add: executing_def number_def)
  then have "pool_ok S ?Q" by (intro pool_okI) (use d lt in \<open>simp_all add: add.commute\<close>)
  then show ?thesis using assms by (simp add: maybe_start_thread_def start_thread_def)
qed

lemma poll_ok:
  assumes "pool_ok S P"
  shows "\<exists>P'. poll_turn c n 0 P = Return P' \<and> pool_ok S P'"
proof -
  note d = pool_okD [OF assms]
  from d(2) show ?thesis
  proof (cases rule: eioq.shift_cases)
    case empty
    have "pool_ok S (P\<lparr>main := Polled c 0\<rparr>)" using assms by (subst pool_ok_cong [of _ P]) simp_all
    then show ?thesis using empty(2) by (simp add: poll_turn_def outcome_simps)
  next
    case (item r q')
    have "r \<in># S" using d(3) item(1) by (auto simp: queued_def)
    from d(10) [OF this] have t: "(rq_type (reqs P r) = Group \<and> rq_size (reqs P r) \<noteq> 0) = False" by auto
    have q: "queued (res_queue P) = r # queued q'" using item(1) by (simp add: queued_def)
    have "pool_ok S (P\<lparr>res_queue := q', npending := npending P - 1, done_async := b, nreqs := nreqs P - 1, served := served P @ [r], main := m\<rparr>)" for m b
      by (rule pool_okI) (use d q item(3) in \<open>simp_all add: add.commute add.left_commute\<close>)
    then show ?thesis
      unfolding poll_turn_def item(2) obind.simps Let_def prod.case option.case t if_False by (simp split: if_splits)
  qed
qed

lemma pool_ok_step:
  assumes "eio_step m P P'" "pool_ok S P" "m \<noteq> Own \<longrightarrow> m \<noteq> Spurious \<longrightarrow> (\<exists>r. m = Submits r \<and> r \<notin># S)"
  shows "pool_ok (case m of Submits r \<Rightarrow> add_mset r S | _ \<Rightarrow> S) P'"
  using assms(1)
proof cases
  case (eio_submit rq "is" r)
  have "is \<subseteq> waiting (submit_section r (P\<lparr>reqs := (reqs P)(r := rq)\<rparr>))"
    using eio_submit(4,5) hand_in_ok(13) pool_okD(2) [OF assms(2)]
    by (auto simp: submit_section_def waiting_def split: prod.splits)
  then show ?thesis using wake_ok submit_ok [OF assms(2) eio_submit(3)] eio_submit(1,2) assms(3) by auto
next
  case (eio_thread created)
  then show ?thesis using thread_ok [OF assms(2)] by simp
next
  case (eio_take i)
  then show ?thesis using take_ok [OF assms(2), of i] by auto
next
  case (eio_resume i)
  then show ?thesis using resume_ok [OF assms(2), of i] by auto
next
  case (eio_expire i)
  then show ?thesis using pool_ok_moved [OF assms(2), of i Timed_out] by simp
next
  case (eio_timed_out i)
  then show ?thesis using timed_out_ok [OF assms(2)] by simp
next
  case (eio_spurious i)
  then show ?thesis using pool_ok_moved [OF assms(2), of i Woken] by (auto simp: waiting_def)
next
  case (eio_quit i)
  then show ?thesis using quit_ok [OF assms(2)] by simp
next
  case (eio_finish i r)
  then show ?thesis using finish_ok [OF assms(2)] by simp
next
  case (eio_cancel r)
  then show ?thesis using assms(2) by (subst pool_ok_cong [of _ P]) simp_all
next
  case (eio_poll c n)
  then show ?thesis using poll_ok [OF assms(2), of c n] by auto
next
  case (eio_leave c res)
  then show ?thesis using assms(2) by (subst pool_ok_cong [of _ P]) (simp_all add: leave_poll_def)
qed (use assms(2) in \<open>simp_all add: enter_poll_def pool_ok_def\<close>)

lemma reachable_pool_ok: "eio_reachable S P \<Longrightarrow> pool_ok S P"
proof (induction rule: eio_reachable.induct)
  case (eio_begin n)
  show ?case by (simp add: pool_ok_def eio_init_def queued_def executing_def number_def)
next
  case (eio_own S P m P')
  then show ?case using pool_ok_step [OF eio_own(2,4)] by auto
next
  case (eio_submits S P r P')
  then show ?case using pool_ok_step [OF eio_submits(2,4)] by auto
qed

section \<open>Results are fetched\<close>

lemma attended_cong:
  assumes "res_queue P' = res_queue P" "want_async P' = want_async P" "main P' = main P" "nloop P' = nloop P"
  shows "attended P' = attended P"
  by (simp add: attended_def assms)

lemma hand_in_attended: "attended P \<Longrightarrow> reqq_ok (res_queue P) \<Longrightarrow> attended (hand_in r P)"
  using hand_in_ok(5,16,17) [of P r] by (auto simp: attended_def)

lemma poll_attended:
  assumes "attended P" "main P = Polling c n" "reqq_ok (res_queue P)" "poll_turn c n 0 P = Return P'"
  shows "attended P'"
  using assms(3)
proof (cases rule: eioq.shift_cases)
  case empty
  then have "P' = P\<lparr>main := Polled c 0\<rparr>" using assms(4) by (simp add: poll_turn_def)
  then show ?thesis using empty(1) by (simp add: attended_def queued_def)
next
  case (item r q')
  have a: "want_async P \<or> c = Want_poll \<or> running (nloop P) Eio_poller" using assms(1,2) item(1) by (simp add: attended_def queued_def)
  then show ?thesis
    using assms(4) unfolding poll_turn_def item(2) obind.simps Let_def prod.case option.case
    by (auto simp: attended_def split: if_splits)
qed

lemma attended_step:
  assumes "eio_step m P P'" "attended P" "pool_ok S P"
  shows "attended P'"
  using assms(1)
proof cases
  case (eio_submit rq "is" r)
  let ?P = "P\<lparr>reqs := (reqs P)(r := rq)\<rparr>"
  have "attended (submit_section r ?P)"
  proof (cases "rq_type rq = Group")
    case True
    have "attended (?P\<lparr>nreqs := nreqs P + 1\<rparr>)" using assms(2) by (subst attended_cong [of _ P]) simp_all
    then show ?thesis using hand_in_attended pool_okD(2) [OF assms(3)] True by (simp add: submit_section_def)
  next
    case False
    then show ?thesis using assms(2) by (simp add: submit_section_def attended_def split: prod.splits)
  qed
  then show ?thesis using eio_submit(2) by (simp add: attended_def)
next
  case (eio_finish i r)
  have "attended (hand_in r P)" using hand_in_attended [OF assms(2)] pool_okD(2) [OF assms(3)] by simp
  then show ?thesis using eio_finish by (simp add: worker_finish_def attended_def)
next
  case (eio_poll c n)
  then show ?thesis using poll_attended [OF assms(2)] pool_okD(2) [OF assms(3)] by blast
next
  case (eio_take i)
  then show ?thesis using assms(2)
    by (cases "reqq_shift (req_queue P)") (auto simp: worker_take_def attended_def Let_def split: option.splits prod.splits if_splits)
next
  case (eio_resume i)
  then show ?thesis using assms(2)
    by (cases "reqq_shift (req_queue P)") (auto simp: worker_resume_def worker_take_def attended_def Let_def split: option.splits prod.splits if_splits)
next
  case (eio_leave c res)
  then show ?thesis using assms(2)
    by (cases c) (auto simp: attended_def leave_poll_def want_poll_notifier_def done_poll_notifier_def do_poll_def ev_watcher_start_def)
qed (use assms(2) in \<open>auto simp: attended_def maybe_start_thread_def start_thread_def worker_timed_out_def worker_quit_def enter_poll_def\<close>)

lemma reachable_attended: "eio_reachable S P \<Longrightarrow> attended P"
proof (induction rule: eio_reachable.induct)
  case (eio_begin n)
  show ?case by (simp add: attended_def eio_init_def queued_def)
qed (use attended_step reachable_pool_ok in blast)+

text \<open>
  Property C17: every request that was submitted is in one place exactly, and the counters say how many are where.
\<close>

theorem pool_accounts:
  assumes "eio_reachable S P"
  shows "mset (queued (req_queue P)) + mset (executing P) + mset (queued (res_queue P)) + mset (served P) = S \<and>
    nready P = of_nat (length (queued (req_queue P))) \<and> npending P = of_nat (length (queued (res_queue P))) \<and>
    nreqs P = of_nat (length (queued (req_queue P)) + length (executing P) + length (queued (res_queue P))) \<and>
    idle P = of_nat (number idling P) \<and> started P = of_nat (number (\<lambda>s. s \<noteq> Ended) P) \<and> number (\<lambda>s. s \<noteq> Ended) P \<le> unat (wanted P)"
  using pool_okD [OF reachable_pool_ok [OF assms]] by simp

text \<open>
  Property C16: whenever the main thread is not in \<open>eio_poll\<close> and there is a result, it will call \<open>eio_poll\<close>: a worker
  has sent it \<open>eio_want_poll_notifier\<close>, or the watcher that polls on every turn of the loop runs.
\<close>

theorem results_never_stranded:
  assumes "eio_reachable S P" "main P = Main_idle" "queued (res_queue P) \<noteq> []"
  shows "want_async P \<or> running (nloop P) Eio_poller"
  using reachable_attended [OF assms(1)] assms(2,3) by (simp add: attended_def)

section \<open>The wakeup that is lost\<close>

definition one_queue :: "nat list \<Rightarrow> reqq" where
  "one_queue rs = \<lparr>qs = [[], [], [], [], rs, [], [], [], []], qsize = int (length rs)\<rparr>"

definition pool_snap :: "worker list \<Rightarrow> nat list \<Rightarrow> nat list \<Rightarrow> u32 \<Rightarrow> u32 \<Rightarrow> u32 \<Rightarrow> u32 \<Rightarrow> u32 \<Rightarrow> bool \<Rightarrow> bool \<Rightarrow> main_state \<Rightarrow> nat list \<Rightarrow> eio" where
  "pool_snap ws rq rs n r p st il w d m sv =
     (eio_init 1)\<lparr>workers := ws, req_queue := one_queue rq, res_queue := one_queue rs, nreqs := n, nready := r, npending := p,
       started := st, idle := il, want_async := w, done_async := d, main := m, served := sv\<rparr>"

lemma one_queue_push [simp]: "reqq_push 4 r (one_queue rs) = (one_queue (rs @ [r]), int (length rs))"
  by (simp add: reqq_push_def one_queue_def)

lemma one_queue_shift [simp]:
  "reqq_shift (one_queue []) = Return (None, one_queue [])"
  "reqq_shift (one_queue (r # rs)) = Return (Some r, one_queue rs)"
  by (simp_all add: reqq_shift_def one_queue_def ETP_NUM_PRI_def eval_nat_numeral)

lemma one_queue_queued [simp]: "queued (one_queue rs) = rs"
  by (simp add: queued_def service_def one_queue_def ETP_NUM_PRI_def eval_nat_numeral comp_def)

lemma one_queue_size [simp]: "qsize (one_queue rs) = int (length rs)"
  by (simp add: one_queue_def)

lemma pri_index_default [simp]: "pri_index 0 = 4"
  by (simp add: pri_index_def)

lemma snap_init: "eio_init 1 = pool_snap [] [] [] 0 0 0 0 0 False False Main_idle []"
  by (simp add: pool_snap_def eio_init_def one_queue_def reqq_init_def ETP_NUM_PRI_def eval_nat_numeral)

lemma snap_submit:
  assumes "\<forall>s\<in>set ws. s \<noteq> Timed_wait \<and> s \<noteq> Wait"
  shows "eio_step (Submits r0) (pool_snap ws rq rs n r p st il w d m sv) (pool_snap ws (rq @ [r0]) rs (n + 1) (r + 1) p st il w d m sv)"
proof -
  let ?P = "pool_snap ws rq rs n r p st il w d m sv"
  have "waiting ?P = {}" using assms by (auto simp: waiting_def pool_snap_def)
  then have "eio_step (Submits r0) ?P (wake {} (submit_section r0 (?P\<lparr>reqs := (reqs ?P)(r0 := reqs ?P r0)\<rparr>)))"
    by (intro eio_submit) (simp_all add: pool_snap_def eio_init_def)
  moreover have "wake {} Q = Q" for Q by (simp add: wake_def map_nth)
  ultimately show ?thesis by (simp add: submit_section_def) (simp add: pool_snap_def eio_init_def)
qed

lemmas eio_eval = maybe_start_thread_def start_thread_def worker_take_def worker_finish_def worker_timed_out_def hand_in_def set_worker_def
  poll_turn_def enter_poll_def leave_poll_def want_poll_notifier_def pool_snap_def eio_init_def

text \<open>In this state nothing the pool does by itself gets a request executed.\<close>

definition asleep :: "eio \<Rightarrow> bool" where
  "asleep P \<longleftrightarrow> workers P = [Wait] \<and> queued (req_queue P) = [1] \<and> res_queue P = one_queue [] \<and>
     nreqs P = 1 \<and> npending P = 0 \<and> started P = 1"

lemma asleep_step:
  assumes "eio_step m P P'" "m = Own" "asleep P"
  shows "asleep P'"
  using assms(1)
proof cases
  case (eio_poll c n)
  then show ?thesis using assms(3) by (auto simp: asleep_def poll_turn_def)
qed (use assms(2,3) in \<open>auto simp: asleep_def maybe_start_thread_def enter_poll_def leave_poll_def split: poll_caller.splits\<close>)

lemma eio_ownI: "eio_reachable S P \<Longrightarrow> eio_step Own P P' \<Longrightarrow> eio_reachable S P'"
  using eio_own by blast

lemma first_request: "eio_reachable {#0#} (pool_snap [Fresh] [] [0] 1 0 1 1 0 True False Main_idle [])"
proof -
  note go = eio_thread [of _ True] eio_take [of 0] eio_finish [of 0]
  have "eio_reachable {#} (pool_snap [] [] [] 0 0 0 0 0 False False Main_idle [])" using eio_begin [of 1] by (simp add: snap_init)
  from eio_submits [OF this snap_submit, of 0] have "eio_reachable {#0#} (pool_snap [] [0] [] 1 1 0 0 0 False False Main_idle [])" by simp
  from eio_ownI [OF this go(1)] have "eio_reachable {#0#} (pool_snap [Fresh] [0] [] 1 1 0 1 0 False False Main_idle [])" by (simp add: eio_eval)
  from eio_ownI [OF this go(2)] have "eio_reachable {#0#} (pool_snap [Working 0] [] [] 1 0 0 1 0 False False Main_idle [])" by (simp add: eio_eval)
  from eio_ownI [OF this go(3)] show ?thesis by (simp add: eio_eval)
qed

text \<open>
  A worker that comes back from its wait with \<open>ETIMEDOUT\<close> waits again without looking at the queue. A
  request submitted in between signals nobody, and no thread is started for it because one is idle: it
  stays in the queue, with every worker asleep, until another request is submitted.
\<close>

theorem wakeup_lost:
  "\<exists>P. eio_reachable {#0, 1#} P \<and> workers P = [Wait] \<and> queued (req_queue P) = [1] \<and>
     {P'. (eio_step Own)\<^sup>*\<^sup>* P P'} \<subseteq> {P'. workers P' = [Wait] \<and> queued (req_queue P') = [1]}"
proof -
  let ?s = pool_snap
  note go = eio_take [of 0] eio_expire [of 0] eio_timed_out [of 0]
  have "eio_reachable {#0#} (?s [Fresh] [] [0] 1 0 1 1 0 True False Main_idle [])" by (rule first_request)
  from eio_ownI [OF this eio_want] have "eio_reachable {#0#} (?s [Fresh] [] [0] 1 0 1 1 0 False False (Polling Want_poll 10) [])" by (simp add: eio_eval)
  from eio_ownI [OF this eio_poll] have "eio_reachable {#0#} (?s [Fresh] [] [] 0 0 0 1 0 False True (Polling Want_poll 9) [0])" by (simp add: eio_eval)
  from eio_ownI [OF this eio_poll] have "eio_reachable {#0#} (?s [Fresh] [] [] 0 0 0 1 0 False True (Polled Want_poll 0) [0])" by (simp add: eio_eval)
  from eio_ownI [OF this eio_leave] have "eio_reachable {#0#} (?s [Fresh] [] [] 0 0 0 1 0 False True Main_idle [0])" by (simp add: eio_eval)
  from eio_ownI [OF this go(1)] have "eio_reachable {#0#} (?s [Timed_wait] [] [] 0 0 0 1 1 False True Main_idle [0])" by (simp add: eio_eval)
  from eio_ownI [OF this go(2)] have "eio_reachable {#0#} (?s [Timed_out] [] [] 0 0 0 1 1 False True Main_idle [0])" by (simp add: eio_eval)
  from eio_submits [OF this snap_submit, of 1] have "eio_reachable {#0, 1#} (?s [Timed_out] [1] [] 1 1 0 1 1 False True Main_idle [0])"
    by (simp add: add_mset_commute)
  from eio_ownI [OF this go(3)] have R: "eio_reachable {#0, 1#} (?s [Wait] [1] [] 1 1 0 1 1 False True Main_idle [0])" by (simp add: eio_eval)
  have a: "asleep (?s [Wait] [1] [] 1 1 0 1 1 False True Main_idle [0])" by (simp add: asleep_def) (simp add: pool_snap_def)
  have "asleep P'" if "(eio_step Own)\<^sup>*\<^sup>* (?s [Wait] [1] [] 1 1 0 1 1 False True Main_idle [0]) P'" for P'
    using that by (induction rule: rtranclp_induct) (use a asleep_step in blast)+
  then show ?thesis using R a by (intro exI [of _ "?s [Wait] [1] [] 1 1 0 1 1 False True Main_idle [0]"]) (auto simp: asleep_def)
qed

theorem pool_accounts_witness:
  "let P = pool_snap [Fresh] [] [0] 1 0 1 1 0 True False Main_idle [] in
     mset (queued (res_queue P)) + mset (served P) = {#0#} \<and> nreqs P = 1 \<and> npending P = of_nat (length (queued (res_queue P)))"
  using pool_accounts [OF first_request] by (simp add: pool_snap_def executing_def)

theorem results_never_stranded_witness:
  "let P = pool_snap [Fresh] [] [0] 1 0 1 1 0 True False Main_idle [] in want_async P \<or> running (nloop P) Eio_poller"
  using results_never_stranded [OF first_request] by (simp add: pool_snap_def)

section \<open>Ending threads, and forking\<close>

text \<open>\<open>etp_end_thread\<close> queues a request that it does not count, and the worker that takes it counts it down.\<close>

lemma ending_a_thread_miscounts:
  "\<exists>P'. worker_take 0 (etp_end_thread 7 {} (pool_snap [Fresh] [] [] 0 0 0 1 0 False False Main_idle [])) = Return P' \<and>
     workers P' = [Ended] \<and> queued (req_queue P') = [] \<and> nready P' = - 1"
proof -
  have p: "reqq_push 8 r (one_queue []) = (\<lparr>qs = [[], [], [], [], [], [], [], [], [r]], qsize = 1\<rparr>, 0)" for r
    by (simp add: reqq_push_def one_queue_def)
  have t: "reqq_shift \<lparr>qs = [[], [], [], [], [], [], [], [], [r]], qsize = 1\<rparr> = Return (Some r, one_queue [])" for r
    by (simp add: reqq_shift_def one_queue_def ETP_NUM_PRI_def eval_nat_numeral)
  show ?thesis by (simp add: etp_end_thread_def wake_def eio_eval p t)
qed

text \<open>In the child of a fork the workers are gone; what they and the queues held is destroyed.\<close>

definition etp_atfork_child :: "nat \<Rightarrow> eio \<Rightarrow> (nat list \<times> eio) outcome option" where
  "etp_atfork_child fuel P =
     Option.bind (drain fuel (req_queue P) []) (\<lambda>x.
       case x of
         Return (ds, q) \<Rightarrow>
           Option.bind (drain fuel (res_queue P) ds) (\<lambda>y.
             case y of
               Return (ds, q') \<Rightarrow>
                 Some (Return (ds @ executing P,
                   P\<lparr>req_queue := q, res_queue := q', workers := [], started := 0, idle := 0, nreqs := 0, nready := 0, npending := 0\<rparr>))
             | _ \<Rightarrow> Some Abort)
       | _ \<Rightarrow> Some Abort)"

text \<open>Each request that was not served is destroyed once, and the pool is as before the first one.\<close>

lemma atfork_child_correct:
  assumes "pool_ok S P" "length (queued (req_queue P)) + length (queued (res_queue P)) < fuel"
  shows "\<exists>ds P'. etp_atfork_child fuel P = Some (Return (ds, P')) \<and> mset ds + mset (served P) = S \<and> pool_ok (mset (served P')) P'"
proof -
  note d = pool_okD [OF assms(1)]
  have l: "length (service (req_queue P)) < fuel" "length (service (res_queue P)) < fuel" using assms(2) by (simp_all add: queued_def)
  obtain q where q: "drain fuel (req_queue P) [] = Some (Return (queued (req_queue P), q))" "service q = []" "reqq_ok q"
    using drain_all [OF d(1) l(1), of "[]"] by (auto simp: queued_def)
  obtain q' where q': "drain fuel (res_queue P) (queued (req_queue P)) = Some (Return (queued (req_queue P) @ queued (res_queue P), q'))"
    "service q' = []" "reqq_ok q'"
    using drain_all [OF d(2) l(2), of "queued (req_queue P)"] by (auto simp: queued_def)
  let ?P = "P\<lparr>req_queue := q, res_queue := q', workers := [], started := 0, idle := 0, nreqs := 0, nready := 0, npending := 0\<rparr>"
  let ?ds = "(queued (req_queue P) @ queued (res_queue P)) @ executing P"
  have "etp_atfork_child fuel P = Some (Return (?ds, ?P))" by (simp add: etp_atfork_child_def q(1) q'(1))
  moreover have "mset ?ds + mset (served P) = S" using d(3) by (simp add: ac_simps)
  moreover have "pool_ok (mset (served ?P)) ?P"
  proof (rule pool_okI)
    show "rq_type (reqs ?P r) = Work \<or> rq_type (reqs ?P r) = Group \<and> rq_size (reqs ?P r) = 0" if "r \<in># mset (served ?P)" for r
    proof -
      have "r \<in># S" using that unfolding d(3) [symmetric] by simp
      from d(10) [OF this] show ?thesis by simp
    qed
  qed (use q q' in \<open>simp_all add: queued_def executing_def number_def\<close>)
  ultimately show ?thesis by blast
qed

end
