(* ===== verification/FsOps.thy ===== *)
theory FsOps
  imports BufferOps NodeProcess
begin

text \<open>
  The operations of \<open>fs\<close> (\<open>src/node_file.cc\<close>). Each takes its arguments apart and then either submits a
  request to the thread pool, when it is given a callback, or makes the system call itself. What a system
  call does is a parameter: for each request its result, the error number and its data.
\<close>

section \<open>Requests\<close>

datatype fs_op =
    Op_close int
  | Op_stat "u8 list"
  | Op_lstat "u8 list"
  | Op_fstat int
  | Op_symlink "u8 list" "u8 list"
  | Op_link "u8 list" "u8 list"
  | Op_readlink "u8 list"
  | Op_rename "u8 list" "u8 list"
  | Op_ftruncate int nat
  | Op_fdatasync int
  | Op_fsync int
  | Op_unlink "u8 list"
  | Op_rmdir "u8 list"
  | Op_mkdir "u8 list" nat
  | Op_sendfile int int nat nat
  | Op_readdir "u8 list"
  | Op_open "u8 list" int nat
  | Op_write int block_id nat size_t int \<comment> \<open>descriptor, memory, number of bytes, position or negative\<close>
  | Op_read int block_id nat size_t int
  | Op_chmod "u8 list" nat
  | Op_chown "u8 list" nat nat

record stat_struct =
  st_dev :: int
  st_ino :: int
  st_mode :: int
  st_nlink :: int
  st_uid :: int
  st_gid :: int
  st_rdev :: int
  st_size :: int
  st_blksize :: int
  st_blocks :: int
  st_atime :: int
  st_mtime :: int
  st_ctime :: int

datatype sys_data = No_data | Stat_data stat_struct | Link_data "u8 list" | Name_data "u8 list list"

record sys_result =
  s_ret :: int
  s_errno :: int
  s_data :: sys_data

datatype stat_value = Stat_integer int | Stat_number int | Stat_date int \<comment> \<open>a date, in milliseconds\<close>

datatype fs_value =
    Fs_undefined
  | Fs_number int
  | Fs_stats "(string \<times> stat_value) list"
  | Fs_string js_string
  | Fs_names "js_string list"

text \<open>A submitted request, its callback, and the Buffer the callback has been given as \<open>__buf\<close>.\<close>

datatype fs_reply = Sync fs_value | Async fs_op js_value "ext_array option"

type_synonym system = "fs_op \<Rightarrow> sys_result"

definition path_name :: "u8 list \<Rightarrow> string" where
  "path_name p = map (\<lambda>b. char_of (unat b)) p"

definition bad_args :: "'a outcome" where
  "bad_args = Throw (JsTypeError ''Bad argument'')"

definition unsigned32 :: "int \<Rightarrow> nat" where
  "unsigned32 i = nat (i mod 2 ^ 32)"

text \<open>\<open>ASYNC_CALL\<close> with a callback, what follows without.\<close>

definition async_call :: "js_value \<Rightarrow> fs_op \<Rightarrow> fs_reply outcome \<Rightarrow> fs_reply outcome" where
  "async_call cb op sync = (if is_function cb then Return (Async op cb None) else sync)"

definition async_transfer :: "js_value \<Rightarrow> ext_array \<Rightarrow> fs_op \<Rightarrow> fs_reply outcome \<Rightarrow> fs_reply outcome" where
  "async_transfer cb buffer op sync = (if is_function cb then Return (Async op cb (Some buffer)) else sync)"

definition fs_error :: "sys_result \<Rightarrow> u8 list option \<Rightarrow> 'a outcome" where
  "fs_error r path = Throw (JsErrno (s_errno r) '''' (map_option path_name path))"

section \<open>Results\<close>

text \<open>\<open>Integer::New\<close> takes an \<open>int32_t\<close>.\<close>

definition build_stats :: "stat_struct \<Rightarrow> (string \<times> stat_value) list" where
  "build_stats s =
     [(''dev'', Stat_integer (wrap32 (st_dev s))), (''ino'', Stat_integer (wrap32 (st_ino s))), (''mode'', Stat_integer (wrap32 (st_mode s))),
      (''nlink'', Stat_integer (wrap32 (st_nlink s))), (''uid'', Stat_integer (wrap32 (st_uid s))), (''gid'', Stat_integer (wrap32 (st_gid s))),
      (''rdev'', Stat_integer (wrap32 (st_rdev s))), (''size'', Stat_number (st_size s)), (''blksize'', Stat_integer (wrap32 (st_blksize s))),
      (''blocks'', Stat_integer (wrap32 (st_blocks s))), (''atime'', Stat_date (st_atime s * 1000)),
      (''mtime'', Stat_date (st_mtime s * 1000)), (''ctime'', Stat_date (st_ctime s * 1000))]"

definition stats_of :: "sys_data \<Rightarrow> fs_value" where
  "stats_of d = (case d of Stat_data s \<Rightarrow> Fs_stats (build_stats s) | _ \<Rightarrow> Fs_undefined)"

text \<open>The loop of \<open>ReadDir\<close>, and the one of \<open>After\<close> over the names libeio has packed one after another.\<close>

definition listed_name :: "u8 list \<Rightarrow> bool" where
  "listed_name name =
     (let at = (\<lambda>i. if i < length name then name ! i else 0)
      in at 0 \<noteq> 0x2E \<or> (at 1 \<noteq> 0 \<and> (at 1 \<noteq> 0x2E \<or> at 2 \<noteq> 0)))"

definition read_names :: "u8 list list \<Rightarrow> js_string list" where
  "read_names nms = map utf8_decode (filter listed_name nms)"

fun packed_names :: "nat \<Rightarrow> u8 list \<Rightarrow> js_string list" where
  "packed_names 0 namebuf = []"
| "packed_names (Suc nnames) namebuf =
     (let name = until_nul namebuf in utf8_decode name # packed_names nnames (drop (length name + 1) namebuf))"

text \<open>\<open>eio__scandir\<close> packs the names that are not the two dots, each with a byte 0 behind it.\<close>

definition scandir_names :: "u8 list list \<Rightarrow> nat \<times> u8 list" where
  "scandir_names nms = (let ns = filter listed_name nms in (length ns, concat (map (\<lambda>n. n @ [0]) ns)))"

section \<open>The operations\<close>

definition fs_close :: "conv \<Rightarrow> system \<Rightarrow> js_value list \<Rightarrow> fs_reply outcome" where
  "fs_close h sys args =
     (if length args < 1 \<or> \<not> is_int32 (arg args 0) then bad_args
      else let op = Op_close (int32_value h (arg args 0))
           in async_call (arg args 1) op
             (let r = sys op in if s_ret r \<noteq> 0 then fs_error r None else Return (Sync Fs_undefined)))"

definition fs_stat :: "conv \<Rightarrow> system \<Rightarrow> js_value list \<Rightarrow> fs_reply outcome" where
  "fs_stat h sys args =
     (if length args < 1 \<or> \<not> is_string (arg args 0) then bad_args
      else let path = c_string (to_string h (arg args 0)); op = Op_stat path
           in async_call (arg args 1) op
             (let r = sys op in if s_ret r \<noteq> 0 then fs_error r (Some path) else Return (Sync (stats_of (s_data r)))))"

definition fs_lstat :: "conv \<Rightarrow> system \<Rightarrow> js_value list \<Rightarrow> fs_reply outcome" where
  "fs_lstat h sys args =
     (if length args < 1 \<or> \<not> is_string (arg args 0) then bad_args
      else let path = c_string (to_string h (arg args 0)); op = Op_lstat path
           in async_call (arg args 1) op
             (let r = sys op in if s_ret r \<noteq> 0 then fs_error r (Some path) else Return (Sync (stats_of (s_data r)))))"

definition fs_fstat :: "conv \<Rightarrow> system \<Rightarrow> js_value list \<Rightarrow> fs_reply outcome" where
  "fs_fstat h sys args =
     (if length args < 1 \<or> \<not> is_int32 (arg args 0) then bad_args
      else let op = Op_fstat (int32_value h (arg args 0))
           in async_call (arg args 1) op
             (let r = sys op in if s_ret r \<noteq> 0 then fs_error r None else Return (Sync (stats_of (s_data r)))))"

definition fs_symlink :: "conv \<Rightarrow> system \<Rightarrow> js_value list \<Rightarrow> fs_reply outcome" where
  "fs_symlink h sys args =
     (if length args < 2 \<or> \<not> is_string (arg args 0) \<or> \<not> is_string (arg args 1) then bad_args
      else let dest = c_string (to_string h (arg args 0)); path = c_string (to_string h (arg args 1)); op = Op_symlink dest path
           in async_call (arg args 2) op
             (let r = sys op in if s_ret r \<noteq> 0 then fs_error r None else Return (Sync Fs_undefined)))"

definition fs_link :: "conv \<Rightarrow> system \<Rightarrow> js_value list \<Rightarrow> fs_reply outcome" where
  "fs_link h sys args =
     (if length args < 2 \<or> \<not> is_string (arg args 0) \<or> \<not> is_string (arg args 1) then bad_args
      else let orig_path = c_string (to_string h (arg args 0)); new_path = c_string (to_string h (arg args 1)); op = Op_link orig_path new_path
           in async_call (arg args 2) op
             (let r = sys op in if s_ret r \<noteq> 0 then fs_error r (Some orig_path) else Return (Sync Fs_undefined)))"

definition fs_readlink :: "conv \<Rightarrow> system \<Rightarrow> js_value list \<Rightarrow> fs_reply outcome" where
  "fs_readlink h sys args =
     (if length args < 1 \<or> \<not> is_string (arg args 0) then bad_args
      else let path = c_string (to_string h (arg args 0)); op = Op_readlink path
           in async_call (arg args 1) op
             (let r = sys op
              in if s_ret r = - 1 then fs_error r (Some path)
                 else Return (Sync (case s_data r of Link_data b \<Rightarrow> Fs_string (utf8_decode b) | _ \<Rightarrow> Fs_undefined))))"

definition fs_rename :: "conv \<Rightarrow> system \<Rightarrow> js_value list \<Rightarrow> fs_reply outcome" where
  "fs_rename h sys args =
     (if length args < 2 \<or> \<not> is_string (arg args 0) \<or> \<not> is_string (arg args 1) then bad_args
      else let old_path = c_string (to_string h (arg args 0)); new_path = c_string (to_string h (arg args 1)); op = Op_rename old_path new_path
           in async_call (arg args 2) op
             (let r = sys op in if s_ret r \<noteq> 0 then fs_error r (Some old_path) else Return (Sync Fs_undefined)))"

definition fs_truncate :: "conv \<Rightarrow> system \<Rightarrow> js_value list \<Rightarrow> fs_reply outcome" where
  "fs_truncate h sys args =
     (if length args < 2 \<or> \<not> is_int32 (arg args 0) then bad_args
      else let op = Op_ftruncate (int32_value h (arg args 0)) (uint32_value h (arg args 1))
           in async_call (arg args 2) op
             (let r = sys op in if s_ret r \<noteq> 0 then fs_error r None else Return (Sync Fs_undefined)))"

definition fs_fdatasync :: "conv \<Rightarrow> system \<Rightarrow> js_value list \<Rightarrow> fs_reply outcome" where
  "fs_fdatasync h sys args =
     (if length args < 1 \<or> \<not> is_int32 (arg args 0) then bad_args
      else let op = Op_fdatasync (int32_value h (arg args 0))
           in async_call (arg args 1) op
             (let r = sys op in if s_ret r \<noteq> 0 then fs_error r None else Return (Sync Fs_undefined)))"

definition fs_fsync :: "conv \<Rightarrow> system \<Rightarrow> js_value list \<Rightarrow> fs_reply outcome" where
  "fs_fsync h sys args =
     (if length args < 1 \<or> \<not> is_int32 (arg args 0) then bad_args
      else let op = Op_fsync (int32_value h (arg args 0))
           in async_call (arg args 1) op
             (let r = sys op in if s_ret r \<noteq> 0 then fs_error r None else Return (Sync Fs_undefined)))"

definition fs_unlink :: "conv \<Rightarrow> system \<Rightarrow> js_value list \<Rightarrow> fs_reply outcome" where
  "fs_unlink h sys args =
     (if length args < 1 \<or> \<not> is_string (arg args 0) then bad_args
      else let path = c_string (to_string h (arg args 0)); op = Op_unlink path
           in async_call (arg args 1) op
             (let r = sys op in if s_ret r \<noteq> 0 then fs_error r (Some path) else Return (Sync Fs_undefined)))"

definition fs_rmdir :: "conv \<Rightarrow> system \<Rightarrow> js_value list \<Rightarrow> fs_reply outcome" where
  "fs_rmdir h sys args =
     (if length args < 1 \<or> \<not> is_string (arg args 0) then bad_args
      else let path = c_string (to_string h (arg args 0)); op = Op_rmdir path
           in async_call (arg args 1) op
             (let r = sys op in if s_ret r \<noteq> 0 then fs_error r (Some path) else Return (Sync Fs_undefined)))"

definition fs_mkdir :: "conv \<Rightarrow> system \<Rightarrow> js_value list \<Rightarrow> fs_reply outcome" where
  "fs_mkdir h sys args =
     (if length args < 2 \<or> \<not> is_string (arg args 0) \<or> \<not> is_int32 (arg args 1) then bad_args
      else let path = c_string (to_string h (arg args 0)); op = Op_mkdir path (unsigned32 (int32_value h (arg args 1)))
           in async_call (arg args 2) op
             (let r = sys op in if s_ret r \<noteq> 0 then fs_error r (Some path) else Return (Sync Fs_undefined)))"

definition fs_sendfile :: "conv \<Rightarrow> system \<Rightarrow> js_value list \<Rightarrow> fs_reply outcome" where
  "fs_sendfile h sys args =
     (if length args < 4 \<or> \<not> is_uint32 (arg args 0) \<or> \<not> is_uint32 (arg args 1) \<or> \<not> is_uint32 (arg args 2) \<or> \<not> is_uint32 (arg args 3)
      then bad_args
      else let op = Op_sendfile (wrap32 (int (uint32_value h (arg args 0)))) (wrap32 (int (uint32_value h (arg args 1)))) (uint32_value h (arg args 2)) (uint32_value h (arg args 3))
           in async_call (arg args 4) op
             (let r = sys op in if s_ret r < 0 then fs_error r None else Return (Sync (Fs_number (wrap32 (s_ret r))))))"

text \<open>
  The answer of a directory holds the names read from it; it has none when it could not be opened. Its
  result is \<open>-1\<close> also when reading it failed half way, which this loop does not look at.
\<close>

definition fs_readdir :: "conv \<Rightarrow> system \<Rightarrow> js_value list \<Rightarrow> fs_reply outcome" where
  "fs_readdir h sys args =
     (if length args < 1 \<or> \<not> is_string (arg args 0) then bad_args
      else let path = c_string (to_string h (arg args 0)); op = Op_readdir path
           in async_call (arg args 1) op
             (let r = sys op
              in case s_data r of Name_data ns \<Rightarrow> Return (Sync (Fs_names (read_names ns))) | _ \<Rightarrow> fs_error r (Some path)))"

text \<open>
  \<open>SetCloseOnExec\<close> is called before the descriptor is looked at: for \<open>-1\<close> it fails with \<open>EBADF\<close>, and that
  is what \<open>errno\<close> is when the error is made. \<open>ebadf\<close> is its value.
\<close>

definition fs_open :: "conv \<Rightarrow> int \<Rightarrow> system \<Rightarrow> js_value list \<Rightarrow> fs_reply outcome" where
  "fs_open h ebadf sys args =
     (if length args < 3 \<or> \<not> is_string (arg args 0) \<or> \<not> is_int32 (arg args 1) \<or> \<not> is_int32 (arg args 2) then bad_args
      else let path = c_string (to_string h (arg args 0)); op = Op_open path (int32_value h (arg args 1)) (unsigned32 (int32_value h (arg args 2)))
           in async_call (arg args 3) op
             (let r = sys op; r = (if s_ret r < 0 then r\<lparr>s_errno := ebadf\<rparr> else r)
              in if s_ret r < 0 then fs_error r (Some path) else Return (Sync (Fs_number (wrap32 (s_ret r))))))"

definition get_offset :: "conv \<Rightarrow> js_value \<Rightarrow> int" where
  "get_offset h a = (if is_int32 a then integer_value h a else - 1)"

text \<open>With \<open>size_t\<close> and \<open>ssize_t\<close> of 64 bits; a negative length becomes a large number of bytes.\<close>

definition fs_write :: "conv \<Rightarrow> system \<Rightarrow> js_value list \<Rightarrow> fs_reply outcome" where
  "fs_write h sys args =
     (if \<not> is_int32 (arg args 0) then bad_args
      else let fd = int32_value h (arg args 0)
      in if \<not> has_instance (arg args 1) then Throw (JsError ''Second argument needs to be a buffer'')
      else let buffer = array_of (arg args 1); buffer_length = size_of_int (ea_len buffer); off = size_of_int (int32_value h (arg args 2))
      in if buffer_length \<le> off then Throw (JsError ''Offset is out of bounds'')
      else let len = size_of_int (int32_value h (arg args 3))
      in if buffer_length < off + len then Throw (JsError ''Length is extends beyond buffer'')
      else let pos = get_offset h (arg args 4); op = Op_write fd (ea_block buffer) (ea_off buffer + unat off) len pos
           in async_transfer (arg args 5) buffer op
             (let r = sys op
              in if s_ret r < 0 then Throw (JsErrno (s_errno r) ''write'' None) else Return (Sync (Fs_number (wrap32 (s_ret r))))))"

definition fs_read :: "conv \<Rightarrow> system \<Rightarrow> js_value list \<Rightarrow> fs_reply outcome" where
  "fs_read h sys args =
     (if length args < 2 \<or> \<not> is_int32 (arg args 0) then bad_args
      else let fd = int32_value h (arg args 0)
      in if \<not> has_instance (arg args 1) then Throw (JsError ''Second argument needs to be a buffer'')
      else let buffer = array_of (arg args 1); buffer_length = size_of_int (ea_len buffer); off = size_of_int (int32_value h (arg args 2))
      in if buffer_length \<le> off then Throw (JsError ''Offset is out of bounds'')
      else let len = size_of_int (int32_value h (arg args 3))
      in if buffer_length < off + len then Throw (JsError ''Length is extends beyond buffer'')
      else let pos = get_offset h (arg args 4); op = Op_read fd (ea_block buffer) (ea_off buffer + unat off) len pos
           in async_transfer (arg args 5) buffer op
             (let r = sys op in if s_ret r < 0 then fs_error r None else Return (Sync (Fs_number (wrap32 (s_ret r))))))"

definition fs_chmod :: "conv \<Rightarrow> system \<Rightarrow> js_value list \<Rightarrow> fs_reply outcome" where
  "fs_chmod h sys args =
     (if length args < 2 \<or> \<not> is_string (arg args 0) \<or> \<not> is_int32 (arg args 1) then bad_args
      else let path = c_string (to_string h (arg args 0)); op = Op_chmod path (unsigned32 (int32_value h (arg args 1)))
           in async_call (arg args 2) op
             (let r = sys op in if s_ret r \<noteq> 0 then fs_error r (Some path) else Return (Sync Fs_undefined)))"

definition fs_chown :: "conv \<Rightarrow> system \<Rightarrow> js_value list \<Rightarrow> fs_reply outcome" where
  "fs_chown h sys args =
     (if length args < 3 \<or> \<not> is_string (arg args 0) then bad_args
      else if \<not> is_int32 (arg args 1) \<or> \<not> is_int32 (arg args 2) then Throw (JsError ''User and Group IDs must be an integer.'')
      else let path = c_string (to_string h (arg args 0)); op = Op_chown path (unsigned32 (int32_value h (arg args 1))) (unsigned32 (int32_value h (arg args 2)))
           in async_call (arg args 3) op
             (let r = sys op in if s_ret r \<noteq> 0 then fs_error r (Some path) else Return (Sync Fs_undefined)))"

section \<open>When a request has been executed\<close>

text \<open>\<open>ptr1\<close> after the execution: the (first) path, which \<open>eio__scandir\<close> overwrites.\<close>

fun request_path :: "fs_op \<Rightarrow> u8 list option" where
  "request_path (Op_stat p) = Some p" | "request_path (Op_lstat p) = Some p" | "request_path (Op_symlink p q) = Some p"
| "request_path (Op_link p q) = Some p" | "request_path (Op_readlink p) = Some p" | "request_path (Op_rename p q) = Some p"
| "request_path (Op_unlink p) = Some p" | "request_path (Op_rmdir p) = Some p" | "request_path (Op_mkdir p m) = Some p"
| "request_path (Op_open p f m) = Some p" | "request_path (Op_chmod p m) = Some p" | "request_path (Op_chown p u g) = Some p"
| "request_path _ = None"

text \<open>The arguments \<open>After\<close> gives the callback: the error, or \<open>null\<close> and perhaps a value.\<close>

datatype after_args = After_error js_exn | After_null | After_value fs_value

fun after_value :: "fs_op \<Rightarrow> sys_result \<Rightarrow> after_args" where
  "after_value (Op_close fd) r = After_null"
| "after_value (Op_rename p q) r = After_null"
| "after_value (Op_unlink p) r = After_null"
| "after_value (Op_rmdir p) r = After_null"
| "after_value (Op_mkdir p m) r = After_null"
| "after_value (Op_ftruncate fd n) r = After_null"
| "after_value (Op_fsync fd) r = After_null"
| "after_value (Op_fdatasync fd) r = After_null"
| "after_value (Op_link p q) r = After_null"
| "after_value (Op_symlink p q) r = After_null"
| "after_value (Op_chmod p m) r = After_null"
| "after_value (Op_chown p u g) r = After_null"
| "after_value (Op_open p f m) r = After_value (Fs_number (wrap32 (s_ret r)))"
| "after_value (Op_sendfile a b c d) r = After_value (Fs_number (wrap32 (s_ret r)))"
| "after_value (Op_write fd b n c p) r = After_value (Fs_number (wrap32 (s_ret r)))"
| "after_value (Op_read fd b n c p) r = After_value (Fs_number (wrap32 (s_ret r)))"
| "after_value (Op_stat p) r = After_value (stats_of (s_data r))"
| "after_value (Op_lstat p) r = After_value (stats_of (s_data r))"
| "after_value (Op_fstat fd) r = After_value (stats_of (s_data r))"
| "after_value (Op_readlink p) r = After_value (case s_data r of Link_data b \<Rightarrow> Fs_string (utf8_decode b) | _ \<Rightarrow> Fs_undefined)"
| "after_value (Op_readdir p) r =
     After_value (case s_data r of Name_data ns \<Rightarrow> (let (nnames, namebuf) = scandir_names ns in Fs_names (packed_names nnames namebuf)) | _ \<Rightarrow> Fs_undefined)"

definition fs_after :: "fs_op \<Rightarrow> sys_result \<Rightarrow> after_args" where
  "fs_after op r =
     (if s_ret r = - 1 then After_error (JsErrno (s_errno r) '''' (map_option path_name (request_path op))) else after_value op r)"

section \<open>The methods\<close>

text \<open>\<open>File::Initialize\<close>.\<close>

definition fs_methods :: "conv \<Rightarrow> int \<Rightarrow> system \<Rightarrow> (string \<times> (js_value list \<Rightarrow> fs_reply outcome)) list" where
  "fs_methods h ebadf sys =
     [(''close'', fs_close h sys), (''open'', fs_open h ebadf sys), (''read'', fs_read h sys),
      (''fdatasync'', fs_fdatasync h sys), (''fsync'', fs_fsync h sys), (''rename'', fs_rename h sys),
      (''truncate'', fs_truncate h sys), (''rmdir'', fs_rmdir h sys), (''mkdir'', fs_mkdir h sys),
      (''sendfile'', fs_sendfile h sys), (''readdir'', fs_readdir h sys), (''stat'', fs_stat h sys),
      (''lstat'', fs_lstat h sys), (''fstat'', fs_fstat h sys), (''link'', fs_link h sys),
      (''symlink'', fs_symlink h sys), (''readlink'', fs_readlink h sys), (''unlink'', fs_unlink h sys),
      (''write'', fs_write h sys), (''chmod'', fs_chmod h sys), (''chown'', fs_chown h sys)]"

text \<open>Where each takes its callback.\<close>

fun callback_index :: "fs_op \<Rightarrow> nat" where
  "callback_index (Op_symlink p q) = 2" | "callback_index (Op_link p q) = 2" | "callback_index (Op_rename p q) = 2"
| "callback_index (Op_ftruncate fd n) = 2" | "callback_index (Op_mkdir p m) = 2" | "callback_index (Op_chmod p m) = 2"
| "callback_index (Op_chown p u g) = 3" | "callback_index (Op_open p f m) = 3" | "callback_index (Op_sendfile a b c d) = 4"
| "callback_index (Op_write fd b n c p) = 5" | "callback_index (Op_read fd b n c p) = 5" | "callback_index _ = 1"

section \<open>The requests in flight\<close>

text \<open>
  The functions are named by numbers. \<open>buf_of\<close> is the property \<open>__buf\<close> of each; a persistent handle
  keeps the callbacks of the requests in flight, and with them their \<open>__buf\<close>, from being collected.
\<close>

record fs_world =
  in_flight :: "(fs_op \<times> nat) list"
  buf_of :: "nat \<Rightarrow> ext_array option"
  loop_refs :: int

definition fs_submit :: "fs_reply \<Rightarrow> fs_world \<Rightarrow> fs_world" where
  "fs_submit reply w =
     (case reply of
        Async op (JFunction f) buf \<Rightarrow>
          w\<lparr>in_flight := in_flight w @ [(op, f)],
            buf_of := (case buf of Some e \<Rightarrow> (buf_of w)(f \<mapsto> e) | None \<Rightarrow> buf_of w),
            loop_refs := loop_refs w + 1\<rparr>
      | _ \<Rightarrow> w)"

text \<open>\<open>After\<close> for the \<open>i\<close>th of them: \<open>ev_unref\<close>, and \<open>cb_destroy\<close> lets go of the callback.\<close>

definition fs_finish :: "nat \<Rightarrow> fs_world \<Rightarrow> fs_world" where
  "fs_finish i w = w\<lparr>in_flight := take i (in_flight w) @ drop (Suc i) (in_flight w), loop_refs := loop_refs w - 1\<rparr>"

section \<open>Facts\<close>

lemma arg_update [simp]: "arg (args[k := JUndefined]) i = (if i = k then JUndefined else arg args i)"
  by (simp add: arg_def)

lemma async_call_Async:
  "async_call cb op sync = Return (Async op' cb' b) \<longleftrightarrow>
     (if is_function cb then op' = op \<and> cb' = cb \<and> b = None else sync = Return (Async op' cb' b))"
  "async_transfer cb e op sync = Return (Async op' cb' b) \<longleftrightarrow>
     (if is_function cb then op' = op \<and> cb' = cb \<and> b = Some e else sync = Return (Async op' cb' b))"
  by (auto simp: async_call_def async_transfer_def)

lemma fs_no_async [simp]:
  "fs_error r p \<noteq> Return v" "bad_args \<noteq> Return v" by (simp_all add: fs_error_def bad_args_def)

lemmas fs_defs = fs_close_def fs_stat_def fs_lstat_def fs_fstat_def fs_symlink_def fs_link_def fs_readlink_def
  fs_rename_def fs_truncate_def fs_fdatasync_def fs_fsync_def fs_unlink_def fs_rmdir_def fs_mkdir_def
  fs_sendfile_def fs_readdir_def fs_open_def fs_write_def fs_read_def fs_chmod_def fs_chown_def

lemma fs_async_op:
  assumes "(m, f) \<in> set (fs_methods h ebadf sys)" "f args = Return (Async op cb b)"
  shows "cb = arg args (callback_index op)" "is_function cb"
  using assms unfolding fs_methods_def
  by (auto simp: fs_defs Let_def async_call_Async split: if_splits sys_data.splits)

section \<open>With a callback and without\<close>

fun delivered :: "after_args \<Rightarrow> fs_reply outcome" where
  "delivered (After_error e) = Throw e"
| "delivered After_null = Return (Sync Fs_undefined)"
| "delivered (After_value v) = Return (Sync v)"

fun returns_number :: "fs_op \<Rightarrow> bool" where
  "returns_number (Op_sendfile a b c d) = True" | "returns_number (Op_open p f m) = True"
| "returns_number (Op_write fd b n c p) = True" | "returns_number (Op_read fd b n c p) = True"
| "returns_number (Op_readlink p) = True" | "returns_number (Op_readdir p) = True" | "returns_number _ = False"

fun names_of :: "sys_data \<Rightarrow> u8 list list" where
  "names_of (Name_data ns) = ns" | "names_of _ = []"

text \<open>What the system promises: \<open>-1\<close> or a number or 0; names without a byte 0; names for a directory it could read.\<close>

definition documented :: "fs_op \<Rightarrow> sys_result \<Rightarrow> bool" where
  "documented op r \<longleftrightarrow>
     (s_ret r = - 1 \<or> s_ret r = 0 \<or> returns_number op \<and> 0 \<le> s_ret r) \<and>
     list_all (\<lambda>n. 0 \<notin> set n) (names_of (s_data r)) \<and>
     (case op of Op_readdir p \<Rightarrow> s_ret r = - 1 \<or> (\<exists>ns. s_data r = Name_data ns) | _ \<Rightarrow> True)"

text \<open>The operations whose errors look otherwise when they are waited for.\<close>

fun reports_differently :: "fs_op \<Rightarrow> bool" where
  "reports_differently (Op_symlink p q) = True" | "reports_differently (Op_write fd b n c p) = True"
| "reports_differently (Op_open p f m) = True" | "reports_differently (Op_readdir p) = True" | "reports_differently _ = False"

lemma until_nul_append: "0 \<notin> set n \<Longrightarrow> until_nul (n @ 0 # xs) = n"
  by (simp add: until_nul_def takeWhile_append)

lemma packed_names_concat:
  "list_all (\<lambda>n. 0 \<notin> set n) ns \<Longrightarrow> packed_names (length ns) (concat (map (\<lambda>n. n @ [0]) ns)) = map utf8_decode ns"
  by (induction ns) (simp_all add: until_nul_append Let_def)

lemma scandir_read_names:
  assumes "list_all (\<lambda>n. 0 \<notin> set n) ns" "scandir_names ns = (k, buf)"
  shows "packed_names k buf = read_names ns"
proof -
  have "list_all (\<lambda>n. 0 \<notin> set n) (filter listed_name ns)" using assms(1) by (auto simp: list_all_iff)
  then show ?thesis using assms(2) packed_names_concat [of "filter listed_name ns"]
    by (auto simp: scandir_names_def read_names_def Let_def)
qed

lemma listed_name_iff:
  assumes "0 \<notin> set n" "n \<noteq> []" shows "listed_name n \<longleftrightarrow> n \<noteq> [0x2E] \<and> n \<noteq> [0x2E, 0x2E]"
  using assms by (cases n rule: remdups_adj.cases) (auto simp: listed_name_def Let_def neq_Nil_conv nth_Cons')

text \<open>What an operation without a callback makes of the answer of the system.\<close>

definition zero_reply :: "sys_result \<Rightarrow> u8 list option \<Rightarrow> fs_value \<Rightarrow> fs_reply outcome" where
  "zero_reply r path v = (if s_ret r \<noteq> 0 then fs_error r path else Return (Sync v))"

fun sync_reply :: "int \<Rightarrow> fs_op \<Rightarrow> sys_result \<Rightarrow> fs_reply outcome" where
  "sync_reply ebadf (Op_stat p) r = zero_reply r (Some p) (stats_of (s_data r))"
| "sync_reply ebadf (Op_lstat p) r = zero_reply r (Some p) (stats_of (s_data r))"
| "sync_reply ebadf (Op_fstat fd) r = zero_reply r None (stats_of (s_data r))"
| "sync_reply ebadf (Op_readlink p) r =
     (if s_ret r = - 1 then fs_error r (Some p)
      else Return (Sync (case s_data r of Link_data b \<Rightarrow> Fs_string (utf8_decode b) | _ \<Rightarrow> Fs_undefined)))"
| "sync_reply ebadf (Op_readdir p) r =
     (case s_data r of Name_data ns \<Rightarrow> Return (Sync (Fs_names (read_names ns))) | _ \<Rightarrow> fs_error r (Some p))"
| "sync_reply ebadf (Op_open p f m) r =
     (if s_ret r < 0 then fs_error (r\<lparr>s_errno := ebadf\<rparr>) (Some p) else Return (Sync (Fs_number (wrap32 (s_ret r)))))"
| "sync_reply ebadf (Op_write fd b n c p) r =
     (if s_ret r < 0 then Throw (JsErrno (s_errno r) ''write'' None) else Return (Sync (Fs_number (wrap32 (s_ret r)))))"
| "sync_reply ebadf (Op_read fd b n c p) r =
     (if s_ret r < 0 then fs_error r None else Return (Sync (Fs_number (wrap32 (s_ret r)))))"
| "sync_reply ebadf (Op_sendfile fd b n c) r =
     (if s_ret r < 0 then fs_error r None else Return (Sync (Fs_number (wrap32 (s_ret r)))))"
| "sync_reply ebadf (Op_symlink p q) r = zero_reply r None Fs_undefined"
| "sync_reply ebadf op r = zero_reply r (request_path op) Fs_undefined"

lemma fs_without_callback:
  assumes "(m, f) \<in> set (fs_methods h ebadf sys)" "f args = Return (Async op cb b)"
  shows "f (args[callback_index op := JUndefined]) = sync_reply ebadf op (sys op)"
  using assms unfolding fs_methods_def
  apply (simp only: list.set insert_iff prod.inject empty_iff)
  apply (elim disjE conjE FalseE)
  apply (simp_all only:)
  apply (auto simp: fs_defs Let_def async_call_Async  split: if_splits sys_data.splits)
  apply (simp_all add: async_call_def async_transfer_def zero_reply_def)
  done

lemma sync_reply_delivered:
  "documented op r \<Longrightarrow> (s_ret r = - 1 \<Longrightarrow> \<not> reports_differently op) \<Longrightarrow>
   sync_reply ebadf op r = delivered (fs_after op r)"
  by (cases op)
    (auto simp: documented_def fs_after_def zero_reply_def fs_error_def scandir_read_names split: sys_data.splits prod.splits)


definition example_names :: "u8 list list" where
  "example_names = [[0x2E], [0x61], [0x2E, 0x2E], [0x2E, 0x62]]"

definition example_answer :: system where
  "example_answer op = \<lparr>s_ret = 2, s_errno = 0, s_data = Name_data example_names\<rparr>"

lemma example_readdir:
  "fs_readdir h example_answer [JString [0x64], JFunction 7] = Return (Async (Op_readdir [0x64]) (JFunction 7) None)"
  by (simp add: fs_readdir_def async_call_def c_string_def utf8_value_def utf8_bytes_def utf8_encode_def until_nul_def Let_def)


lemma example_listing:
  "fs_after (Op_readdir [0x64]) (example_answer (Op_readdir [0x64])) = After_value (Fs_names [utf8_decode [0x61], utf8_decode [0x2E, 0x62]])"
  by (simp add: fs_after_def example_answer_def example_names_def scandir_names_def listed_name_def Let_def until_nul_def)

text \<open>
  How they differ: \<open>open\<close> reports \<open>EBADF\<close> whatever the error is, \<open>symlink\<close> leaves the path out, \<open>write\<close>
  names the system call; \<open>readdir\<close> leaves out the path in the callback, and takes a directory that could
  not be read to the end for a complete one without.\<close>

lemma errors_differ:
  fixes r :: sys_result
  assumes "s_ret r = - 1"
  shows "sync_reply ebadf (Op_open p fl mo) r = Throw (JsErrno ebadf '''' (Some (path_name p)))"
    "fs_after (Op_open p fl mo) r = After_error (JsErrno (s_errno r) '''' (Some (path_name p)))"
    "sync_reply ebadf (Op_symlink p q) r = Throw (JsErrno (s_errno r) '''' None)"
    "fs_after (Op_symlink p q) r = After_error (JsErrno (s_errno r) '''' (Some (path_name p)))"
    "sync_reply ebadf (Op_write fd bl n c pos) r = Throw (JsErrno (s_errno r) ''write'' None)"
    "fs_after (Op_write fd bl n c pos) r = After_error (JsErrno (s_errno r) '''' None)"
    "sync_reply ebadf (Op_readdir p) (r\<lparr>s_data := No_data\<rparr>) = Throw (JsErrno (s_errno r) '''' (Some (path_name p)))"
    "sync_reply ebadf (Op_readdir p) (r\<lparr>s_data := Name_data ns\<rparr>) = Return (Sync (Fs_names (read_names ns)))"
    "fs_after (Op_readdir p) (r\<lparr>s_data := Name_data ns\<rparr>) = After_error (JsErrno (s_errno r) '''' None)"
  using assms by (simp_all add: fs_error_def zero_reply_def fs_after_def)

lemma open_reports_ebadf:
  "sync_reply 9 (Op_open [0x61] 0 0) \<lparr>s_ret = - 1, s_errno = 2, s_data = No_data\<rparr> = Throw (JsErrno 9 '''' (Some ''a''))"
  using errors_differ(1) [of "\<lparr>s_ret = - 1, s_errno = 2, s_data = No_data\<rparr>" 9 "[0x61]" 0 0]
  by (simp add: path_name_def) code_simp

section \<open>The memory of a transfer\<close>

lemma transfer_range:
  assumes "0 \<le> L" "L < 2 ^ 31" "int32_range off" "int32_range len"
  shows "size_of_int L \<le> size_of_int off \<longleftrightarrow> off < 0 \<or> L \<le> off"
    and "size_of_int L < size_of_int off + size_of_int len \<longleftrightarrow> off + len < 0 \<or> L < off + len"
  using assms unfolding size_of_int_add
  by (intro size_of_int_above; simp add: int32_range_def)+

fun transfer_of :: "fs_op \<Rightarrow> (block_id \<times> nat \<times> size_t) option" where
  "transfer_of (Op_read fd bl a n p) = Some (bl, a, n)"
| "transfer_of (Op_write fd bl a n p) = Some (bl, a, n)"
| "transfer_of _ = None"

text \<open>
  The memory a request of \<open>read\<close> or \<open>write\<close> names: the part of the Buffer from the offset, of the length
  given. A negative length passes the test as long as the offset is not smaller, and becomes
  \<open>2^64\<close> less its size: the request then reaches past the Buffer.\<close>

theorem transfer_in_buffer:
  assumes "(m, f) \<in> {(''read'', fs_read h sys), (''write'', fs_write h sys)}" "f args = Return (Async op cb k)"
    and "arg args 1 = JBuffer b" "0 \<le> ea_len b" "ea_len b < 2 ^ 31"
    and "transfer_of op = Some (bl, a, n)" "off = int32_value h (arg args 2)" "len = int32_value h (arg args 3)"
  shows "k = Some b \<and> bl = ea_block b \<and> a = ea_off b + nat off \<and> unat n = (if 0 \<le> len then nat len else nat (2 ^ 64 + len)) \<and>
    0 \<le> off \<and> off < ea_len b \<and> 0 \<le> off + len \<and> off + len \<le> ea_len b \<and>
    (a + unat n \<le> ea_off b + nat (ea_len b) \<longleftrightarrow> 0 \<le> len)"
proof -
  have r: "int32_range off" "int32_range len" using assms(7,8) by simp_all
  have o: "0 \<le> off \<and> off < ea_len b \<and> 0 \<le> off + len \<and> off + len \<le> ea_len b"
    and e: "k = Some b \<and> bl = ea_block b \<and> a = ea_off b + unat (size_of_int off) \<and> n = size_of_int len"
    using assms(1,2,3,6) transfer_range [OF assms(4,5) r] unfolding assms(7,8)
    by (auto simp: fs_read_def fs_write_def Let_def async_call_Async not_le not_less split: if_splits)
  have n: "unat n = (if 0 \<le> len then nat len else nat (2 ^ 64 + len))"
  proof (cases "0 \<le> len")
    case True then show ?thesis using e r(2) by (simp add: unat_size_of_int32)
  next
    case False
    then have "uint (size_of_int len) = 2 ^ 64 + len" using r(2) by (intro uint_size_of_int_neg) (simp_all add: int32_range_def)
    then show ?thesis using e False by (metis nat_uint_eq)
  qed
  have a: "a = ea_off b + nat off" using e o r(1) by (simp add: unat_size_of_int32)
  have "a + unat n \<le> ea_off b + nat (ea_len b) \<longleftrightarrow> 0 \<le> len"
    using o r assms(4,5) unfolding n a by (auto simp: int32_range_def)
  then show ?thesis using n a o e by blast
qed

definition example_view :: ext_array where
  "example_view = \<lparr>ea_block = 3, ea_off = 16, ea_len = 8\<rparr>"

theorem transfer_in_buffer_witness:
  "\<forall>h sys. \<exists>op n. fs_read h sys [jint 5, JBuffer example_view, jint 4, jint (- 2), JNull, JFunction 1] = Return (Async op (JFunction 1) (Some example_view)) \<and>
     transfer_of op = Some (3, 20, n) \<and> unat n = nat (2 ^ 64 - 2)"
proof (intro allI)
  fix h sys
  have t: "\<not> size_of_int 8 \<le> size_of_int 4" "\<not> size_of_int 8 < size_of_int 4 + size_of_int (- 2)"
    using transfer_range [of 8 4 "- 2"] by simp_all
  have u: "unat (size_of_int 4) = 4" by (simp add: unat_size_of_int32)
  have r: "fs_read h sys [jint 5, JBuffer example_view, jint 4, jint (- 2), JNull, JFunction 1] =
      Return (Async (Op_read 5 3 20 (size_of_int (- 2)) (- 1)) (JFunction 1) (Some example_view))"
    using t u by (simp add: fs_read_def example_view_def async_transfer_def get_offset_def Let_def)
  have "unat (size_of_int (- 2)) = nat (2 ^ 64 - 2)"
    using transfer_in_buffer [of "''read''" "fs_read h sys" h sys, OF _ r, of example_view 3 20 "size_of_int (- 2)" 4 "- 2"]
    by (simp add: example_view_def)
  then show "\<exists>op n. fs_read h sys [jint 5, JBuffer example_view, jint 4, jint (- 2), JNull, JFunction 1] = Return (Async op (JFunction 1) (Some example_view)) \<and>
     transfer_of op = Some (3, 20, n) \<and> unat n = nat (2 ^ 64 - 2)" using r by simp
qed

text \<open>A position in the file is only taken from an \<open>int32_t\<close>; a larger one means the current position.\<close>

lemma get_offset_jint: "- (2 ^ 31) \<le> i \<Longrightarrow> get_offset h (jint i) = (if i < 2 ^ 31 then i else - 1)"
  by (simp add: get_offset_def jint_def num_is_int32_def int32_range_def)

section \<open>The memory of the requests in flight\<close>

text \<open>
  The history of a process that calls the methods and whose requests are served in any order. A callback
  that is used again while an earlier request of it is in flight is what \<open>shared\<close> allows: \<open>lib/fs.js\<close> gives
  one function \<open>noop\<close> to every call of \<open>fs.read\<close> and \<open>fs.write\<close> without a callback.
\<close>

inductive fs_step :: "bool \<Rightarrow> conv \<Rightarrow> int \<Rightarrow> system \<Rightarrow> fs_world \<Rightarrow> fs_world \<Rightarrow> bool" for shared h ebadf sys where
  call: "(m, f) \<in> set (fs_methods h ebadf sys) \<Longrightarrow> f args = Return (Async op (JFunction c) k) \<Longrightarrow>
     shared \<or> c \<notin> snd ` set (in_flight w) \<Longrightarrow> fs_step shared h ebadf sys w (fs_submit (Async op (JFunction c) k) w)"
| sync: "(m, f) \<in> set (fs_methods h ebadf sys) \<Longrightarrow> f args = Return (Sync v) \<Longrightarrow> fs_step shared h ebadf sys w (fs_submit (Sync v) w)"
| finish: "i < length (in_flight w) \<Longrightarrow> fs_step shared h ebadf sys w (fs_finish i w)"

definition fs_start :: "fs_world" where
  "fs_start = \<lparr>in_flight = [], buf_of = (\<lambda>_. None), loop_refs = 0\<rparr>"

abbreviation fs_reachable :: "bool \<Rightarrow> conv \<Rightarrow> int \<Rightarrow> system \<Rightarrow> fs_world \<Rightarrow> bool" where
  "fs_reachable shared h ebadf sys \<equiv> (fs_step shared h ebadf sys)\<^sup>*\<^sup>* fs_start"

text \<open>The blocks the requests in flight use, and those their callbacks hold.\<close>

fun block_in_use :: "fs_op \<Rightarrow> block_id option" where
  "block_in_use op = map_option fst (transfer_of op)"

definition blocks_in_use :: "fs_world \<Rightarrow> block_id set" where
  "blocks_in_use w = {bl. \<exists>p \<in> set (in_flight w). block_in_use (fst p) = Some bl}"

definition blocks_held :: "fs_world \<Rightarrow> block_id set" where
  "blocks_held w = {bl. \<exists>p \<in> set (in_flight w). map_option ea_block (buf_of w (snd p)) = Some bl}"

definition request_held :: "fs_world \<Rightarrow> fs_op \<times> nat \<Rightarrow> bool" where
  "request_held w p \<longleftrightarrow> block_in_use (fst p) = None \<or> block_in_use (fst p) = map_option ea_block (buf_of w (snd p))"

definition fs_inv :: "fs_world \<Rightarrow> bool" where
  "fs_inv w \<longleftrightarrow> list_all (request_held w) (in_flight w) \<and> distinct (map snd (in_flight w))"

lemma async_block:
  assumes "(m, f) \<in> set (fs_methods h ebadf sys)" "f args = Return (Async op cb k)"
  shows "block_in_use op = map_option ea_block k"
  using assms unfolding fs_methods_def
  by (auto simp: fs_defs Let_def async_call_Async split: if_splits sys_data.splits)

lemma finish_set: "set (take i xs @ drop (Suc i) xs) \<subseteq> set xs"
  by (auto dest: in_set_takeD in_set_dropD)

lemma finish_distinct: "distinct xs \<Longrightarrow> distinct (take i xs @ drop (Suc i) xs)"
  by (cases "i < length xs") (simp_all add: distinct_append set_take_disj_set_drop_if_distinct)

lemma fs_inv_finish:
  assumes "fs_inv w" shows "fs_inv (fs_finish i w)"
proof -
  have "distinct (map snd (take i (in_flight w) @ drop (Suc i) (in_flight w)))"
    using assms finish_distinct [of "map snd (in_flight w)" i] by (simp add: fs_inv_def take_map drop_map)
  then show ?thesis
    using assms finish_set [of i "in_flight w"] by (auto simp: fs_inv_def fs_finish_def list_all_iff request_held_def)
qed

lemma fs_inv_submit:
  assumes "fs_inv w" "c \<notin> snd ` set (in_flight w)" "block_in_use op = map_option ea_block k"
  shows "fs_inv (fs_submit (Async op (JFunction c) k) w)"
  using assms unfolding fs_inv_def fs_submit_def list_all_iff request_held_def
  by (cases k) (force simp: image_iff)+

lemma fs_inv_reachable: "fs_reachable False h ebadf sys w \<Longrightarrow> fs_inv w"
proof (induction rule: rtranclp_induct)
  case base then show ?case by (simp add: fs_inv_def fs_start_def)
next
  case (step w w')
  from step.hyps(2) show ?case
  proof cases
    case (call m f args op c k)
    then show ?thesis using fs_inv_submit [OF step.IH] async_block by simp
  next
    case sync then show ?thesis using step.IH by (simp add: fs_submit_def)
  next
    case finish then show ?thesis using fs_inv_finish [OF step.IH] by simp
  qed
qed

lemma refs_reachable: "fs_reachable shared h ebadf sys w \<Longrightarrow> loop_refs w = int (length (in_flight w))"
proof (induction rule: rtranclp_induct)
  case base then show ?case by (simp add: fs_start_def)
next
  case (step w w')
  from step.hyps(2) step.IH show ?case by cases (auto simp: fs_submit_def fs_finish_def)
qed

text \<open>
  Property C20: as long as no callback is given to a second request while its first is in flight, the memory every
  request in flight reads or writes is held by its callback and not collected; and the event loop is kept
  alive by exactly the requests in flight.\<close>

theorem transfers_hold_memory:
  assumes "fs_reachable False h ebadf sys w"
  shows "blocks_in_use w \<subseteq> blocks_held w \<and> loop_refs w = int (length (in_flight w))"
proof -
  have "bl \<in> blocks_held w" if "p \<in> set (in_flight w)" "block_in_use (fst p) = Some bl" for p bl
    using fs_inv_reachable [OF assms] that unfolding fs_inv_def list_all_iff request_held_def blocks_held_def
    by (metis (mono_tags, lifting) mem_Collect_eq option.distinct(1))
  then have "blocks_in_use w \<subseteq> blocks_held w" unfolding blocks_in_use_def by blast
  then show ?thesis using refs_reachable [OF assms] by simp
qed

text \<open>Two reads into different Buffers.\<close>

definition read_args :: "block_id \<Rightarrow> nat \<Rightarrow> js_value list" where
  "read_args bl c = [jint 5, JBuffer \<lparr>ea_block = bl, ea_off = 0, ea_len = 8\<rparr>, jint 0, jint 8, JNull, JFunction c]"

definition read_request :: "block_id \<Rightarrow> nat \<Rightarrow> fs_reply" where
  "read_request bl c = Async (Op_read 5 bl 0 (size_of_int 8) (- 1)) (JFunction c) (Some \<lparr>ea_block = bl, ea_off = 0, ea_len = 8\<rparr>)"

lemma read_args_request: "fs_read h sys (read_args bl c) = Return (read_request bl c)"
proof -
  have "\<not> size_of_int 8 \<le> size_of_int 0" "\<not> size_of_int 8 < size_of_int 0 + size_of_int 8"
    using transfer_range [of 8 0 8] by simp_all
  then show ?thesis by (simp add: fs_read_def read_args_def read_request_def async_transfer_def get_offset_def Let_def unat_size_of_int32)
qed

lemma read_step:
  assumes "shared \<or> c \<notin> snd ` set (in_flight w)"
  shows "fs_step shared h ebadf sys w (fs_submit (read_request bl c) w)"
  using assms unfolding read_request_def
  by (intro fs_step.call [where m = "''read''" and f = "fs_read h sys" and args = "read_args bl c"])
    (simp_all add: fs_methods_def read_args_request [unfolded read_request_def])

lemma two_reads:
  assumes "shared \<or> c \<noteq> d"
  shows "fs_reachable shared h ebadf sys (fs_submit (read_request 2 d) (fs_submit (read_request 1 c) fs_start))"
proof -
  have "fs_step shared h ebadf sys fs_start (fs_submit (read_request 1 c) fs_start)"
    by (rule read_step) (simp add: fs_start_def)
  moreover have "fs_step shared h ebadf sys (fs_submit (read_request 1 c) fs_start)
      (fs_submit (read_request 2 d) (fs_submit (read_request 1 c) fs_start))"
    using assms by (intro read_step) (auto simp: fs_start_def fs_submit_def read_request_def)
  ultimately show ?thesis by simp
qed

theorem transfers_hold_memory_witness:
  "{1, 2} \<subseteq> blocks_held (fs_submit (read_request 2 4) (fs_submit (read_request 1 3) fs_start))"
proof -
  let ?w = "fs_submit (read_request 2 4) (fs_submit (read_request 1 3) fs_start)"
  have "fs_reachable False undefined 9 undefined ?w" by (rule two_reads) simp
  moreover have "{1, 2} \<subseteq> blocks_in_use ?w"
    by (simp add: blocks_in_use_def fs_submit_def read_request_def fs_start_def)
  ultimately show ?thesis using transfers_hold_memory [of undefined 9 undefined ?w] by blast
qed

text \<open>
  With a callback used for two requests at a time, the second Buffer takes the place of the first as
  \<open>__buf\<close>: the first request goes on writing to memory nobody holds.\<close>

theorem shared_callback_drops_buffer:
  "\<exists>w. fs_reachable True h ebadf sys w \<and> 1 \<in> blocks_in_use w - blocks_held w"
proof (intro exI conjI)
  let ?w = "fs_submit (read_request 2 3) (fs_submit (read_request 1 3) fs_start)"
  show "fs_reachable True h ebadf sys ?w" by (rule two_reads) simp
  show "1 \<in> blocks_in_use ?w - blocks_held ?w"
    by (auto simp: blocks_in_use_def blocks_held_def fs_submit_def read_request_def fs_start_def)
qed

end
