(* ===== verification/ChildProcess.thy ===== *)
theory ChildProcess
  imports NodeProcess Watchers Errno
begin

text \<open>
  Child processes (\<open>src/node_child_process.cc\<close>): the pipes and descriptors \<open>Spawn\<close> prepares, what the
  forked process does before it executes the program, the watcher of the child and the report of its end.
  The descriptors of a process are a map to open files, as the kernel keeps them: \<open>dup2\<close> and \<open>vfork\<close> copy
  the entry of a descriptor and share the open file, so that \<open>FD_CLOEXEC\<close> belongs to the entry and
  \<open>O_NONBLOCK\<close> to the file.
\<close>

section \<open>Descriptors\<close>

datatype open_file = Pipe_read nat | Pipe_write nat | Other_file nat

record descriptor =
  fd_file :: open_file
  fd_cloexec :: bool

record kernel =
  fd_table :: "int \<Rightarrow> descriptor option"
  nonblocking :: "open_file \<Rightarrow> bool"
  pipes_made :: nat

definition sys_close :: "int \<Rightarrow> kernel \<Rightarrow> kernel" where
  "sys_close fd k = k\<lparr>fd_table := (fd_table k)(fd := None)\<rparr>"

definition sys_dup2 :: "int \<Rightarrow> int \<Rightarrow> kernel \<Rightarrow> kernel" where
  "sys_dup2 oldfd newfd k =
     (case fd_table k oldfd of
        None \<Rightarrow> k
      | Some d \<Rightarrow> if oldfd = newfd then k else k\<lparr>fd_table := (fd_table k)(newfd \<mapsto> d\<lparr>fd_cloexec := False\<rparr>)\<rparr>)"

definition sys_pipe :: "int \<times> int \<Rightarrow> kernel \<Rightarrow> kernel" where
  "sys_pipe p k =
     (let n = pipes_made k
      in k\<lparr>fd_table := (fd_table k)(fst p \<mapsto> \<lparr>fd_file = Pipe_read n, fd_cloexec = False\<rparr>, snd p \<mapsto> \<lparr>fd_file = Pipe_write n, fd_cloexec = False\<rparr>),
           pipes_made := n + 1\<rparr>)"

definition set_cloexec :: "bool \<Rightarrow> int \<Rightarrow> kernel \<Rightarrow> kernel" where
  "set_cloexec b fd k =
     (case fd_table k fd of None \<Rightarrow> k | Some d \<Rightarrow> k\<lparr>fd_table := (fd_table k)(fd \<mapsto> d\<lparr>fd_cloexec := b\<rparr>)\<rparr>)"

definition set_nonblock :: "bool \<Rightarrow> int \<Rightarrow> kernel \<Rightarrow> kernel" where
  "set_nonblock b fd k =
     (case fd_table k fd of None \<Rightarrow> k | Some d \<Rightarrow> k\<lparr>nonblocking := (nonblocking k)(fd_file d := b)\<rparr>)"

definition reset_flags :: "int \<Rightarrow> kernel \<Rightarrow> kernel" where
  "reset_flags fd k = set_cloexec False fd (set_nonblock False fd k)"

text \<open>\<open>execvp\<close> closes the descriptors marked \<open>FD_CLOEXEC\<close>.\<close>

definition exec_table :: "kernel \<Rightarrow> int \<Rightarrow> descriptor option" where
  "exec_table k fd = (case fd_table k fd of Some d \<Rightarrow> if fd_cloexec d then None else Some d | None \<Rightarrow> None)"

section \<open>Pipes\<close>

type_synonym pipe_fds = "int \<times> int"

text \<open>The answers of the three calls of \<open>pipe\<close>; \<open>\<or>\<close> stops at the first that fails.\<close>

record three_pipes =
  stdin_pipe :: pipe_fds
  stdout_pipe :: pipe_fds
  stderr_pipe :: pipe_fds

definition open_pipe :: "int \<Rightarrow> pipe_fds option \<Rightarrow> kernel \<Rightarrow> bool \<times> pipe_fds \<times> kernel" where
  "open_pipe custom answer k =
     (if custom \<noteq> - 1 then (True, (0, 0), k)
      else case answer of None \<Rightarrow> (False, (0, 0), k) | Some p \<Rightarrow> (True, p, sys_pipe p k))"

definition open_pipes :: "int list \<Rightarrow> (nat \<Rightarrow> pipe_fds option) \<Rightarrow> kernel \<Rightarrow> three_pipes option \<times> kernel" where
  "open_pipes custom_fds pipes k =
     (case open_pipe (custom_fds ! 0) (pipes 0) k of (ok0, p0, k) \<Rightarrow> if \<not> ok0 then (None, k) else
      case open_pipe (custom_fds ! 1) (pipes 1) k of (ok1, p1, k) \<Rightarrow> if \<not> ok1 then (None, k) else
      case open_pipe (custom_fds ! 2) (pipes 2) k of (ok2, p2, k) \<Rightarrow> if \<not> ok2 then (None, k) else
      (Some \<lparr>stdin_pipe = p0, stdout_pipe = p1, stderr_pipe = p2\<rparr>, k))"

definition cloexec_pipe :: "int \<Rightarrow> pipe_fds \<Rightarrow> kernel \<Rightarrow> kernel" where
  "cloexec_pipe custom p k = (if custom = - 1 then set_cloexec True (snd p) (set_cloexec True (fst p) k) else k)"

definition cloexec_pipes :: "int list \<Rightarrow> three_pipes \<Rightarrow> kernel \<Rightarrow> kernel" where
  "cloexec_pipes custom_fds p k =
     cloexec_pipe (custom_fds ! 2) (stderr_pipe p)
       (cloexec_pipe (custom_fds ! 1) (stdout_pipe p) (cloexec_pipe (custom_fds ! 0) (stdin_pipe p) k))"

section \<open>The forked process\<close>

record spawn_params =
  sp_file :: "u8 list"
  sp_args :: "u8 list list"
  sp_cwd :: "u8 list"
  sp_env :: "u8 list list"
  sp_custom_fds :: "int list"
  sp_setsid :: bool
  sp_uid :: int
  sp_uname :: "u8 list option"
  sp_gid :: int
  sp_gname :: "u8 list option"

text \<open>What the system answers the forked process.\<close>

record child_system =
  cs_setsid :: bool
  cs_chdir :: "u8 list \<Rightarrow> bool"
  cs_getgrnam :: "u8 list \<Rightarrow> int option"
  cs_getpwnam :: "u8 list \<Rightarrow> int option"
  cs_setgid :: "int \<Rightarrow> bool"
  cs_setuid :: "int \<Rightarrow> bool"
  cs_exec :: bool

datatype child_call = Setsid | Chdir "u8 list" | Setgid int | Setuid int | Execvp "u8 list" "u8 list list" "u8 list list"

text \<open>The process has left with a status, or has become the program, with these descriptors.\<close>

datatype child_end = Exited int | Executed "int \<Rightarrow> descriptor option"

definition child_stdio :: "int \<Rightarrow> int \<Rightarrow> int \<Rightarrow> int \<Rightarrow> kernel \<Rightarrow> kernel" where
  "child_stdio custom parent_end child_end fileno k =
     (if custom = - 1 then sys_dup2 child_end fileno (sys_close parent_end k)
      else sys_dup2 custom fileno (reset_flags custom k))"

definition child_stdios :: "int list \<Rightarrow> three_pipes \<Rightarrow> kernel \<Rightarrow> kernel" where
  "child_stdios custom_fds p k =
     child_stdio (custom_fds ! 2) (fst (stderr_pipe p)) (snd (stderr_pipe p)) 2
       (child_stdio (custom_fds ! 1) (fst (stdout_pipe p)) (snd (stdout_pipe p)) 1
         (child_stdio (custom_fds ! 0) (snd (stdin_pipe p)) (fst (stdin_pipe p)) 0 k))"

definition child_id :: "int \<Rightarrow> u8 list option \<Rightarrow> (u8 list \<Rightarrow> int option) \<Rightarrow> int option" where
  "child_id custom custom_name lookup =
     (if custom \<noteq> - 1 then Some custom else case custom_name of Some n \<Rightarrow> lookup n | None \<Rightarrow> Some (- 1))"

definition child_main :: "spawn_params \<Rightarrow> child_system \<Rightarrow> three_pipes \<Rightarrow> kernel \<Rightarrow> child_call list \<times> child_end \<times> kernel" where
  "child_main sp sys p k =
     (let t0 = (if sp_setsid sp then [Setsid] else [])
      in if sp_setsid sp \<and> \<not> cs_setsid sys then (t0, Exited 127, k)
      else let k = child_stdios (sp_custom_fds sp) p k; t1 = t0 @ (if sp_cwd sp \<noteq> [] then [Chdir (sp_cwd sp)] else [])
      in if sp_cwd sp \<noteq> [] \<and> \<not> cs_chdir sys (sp_cwd sp) then (t1, Exited 127, k)
      else case child_id (sp_gid sp) (sp_gname sp) (cs_getgrnam sys) of None \<Rightarrow> (t1, Exited 127, k)
      | Some gid \<Rightarrow> case child_id (sp_uid sp) (sp_uname sp) (cs_getpwnam sys) of None \<Rightarrow> (t1, Exited 127, k)
      | Some uid \<Rightarrow> let t2 = t1 @ (if gid \<noteq> - 1 then [Setgid gid] else [])
      in if gid \<noteq> - 1 \<and> \<not> cs_setgid sys gid then (t2, Exited 127, k)
      else let t3 = t2 @ (if uid \<noteq> - 1 then [Setuid uid] else [])
      in if uid \<noteq> - 1 \<and> \<not> cs_setuid sys uid then (t3, Exited 127, k)
      else let t4 = t3 @ [Execvp (sp_file sp) (sp_args sp) (sp_env sp)]
      in if \<not> cs_exec sys then (t4, Exited 127, k) else (t4, Executed (exec_table k), k))"

section \<open>The watcher of the child\<close>

record child = watcher +
  child_pid :: int
  watched_pid :: int
  pid_prop :: js_value

definition child_new :: "child outcome" where
  "child_new = wrap_wrap (wrap_init (ev_init
     \<lparr>refs = 0, weak = False, unwrapped = True, active = False, pending = False,
      child_pid = - 1, watched_pid = 0, pid_prop = JUndefined\<rparr>))"

definition set_pid :: "int \<Rightarrow> child \<times> int \<Rightarrow> child \<times> int" where
  "set_pid p s = ((fst s)\<lparr>child_pid := p\<rparr>, snd s)"

definition child_stop :: "child \<times> int \<Rightarrow> (child \<times> int) outcome" where
  "child_stop s =
     obind (if active (fst s) then on_object wrap_unref (ev_type_stop s) else Return s) (\<lambda>s. Return (set_pid (- 1) s))"

definition parent_end :: "int \<Rightarrow> int \<Rightarrow> int \<Rightarrow> kernel \<Rightarrow> int \<times> kernel" where
  "parent_end custom child_end own_end k =
     (if custom = - 1 then (own_end, set_nonblock True own_end (sys_close child_end k)) else (custom, k))"

definition parent_ends :: "int list \<Rightarrow> three_pipes \<Rightarrow> kernel \<Rightarrow> int list \<times> kernel" where
  "parent_ends custom_fds p k =
     (case parent_end (custom_fds ! 0) (fst (stdin_pipe p)) (snd (stdin_pipe p)) k of (f0, k) \<Rightarrow>
      case parent_end (custom_fds ! 1) (snd (stdout_pipe p)) (fst (stdout_pipe p)) k of (f1, k) \<Rightarrow>
      case parent_end (custom_fds ! 2) (snd (stderr_pipe p)) (fst (stderr_pipe p)) k of (f2, k) \<Rightarrow> ([f0, f1, f2], k))"

text \<open>
  The result, the descriptors for JavaScript, the object with the count of the loop, the descriptors of this
  process, and what the forked process has done. The forked process has a table of its own, but the open
  files are the same.
\<close>

record spawned =
  sp_result :: int
  sp_stdio :: "int list"
  sp_object :: "child \<times> int"
  sp_kernel :: kernel
  sp_child :: "(child_call list \<times> child_end) option"

definition child_spawn ::
  "spawn_params \<Rightarrow> (nat \<Rightarrow> pipe_fds option) \<Rightarrow> int \<Rightarrow> child_system \<Rightarrow> child \<times> int \<Rightarrow> kernel \<Rightarrow> spawned outcome" where
  "child_spawn sp pipes forked sys s k =
     oassert (child_pid (fst s) = - 1) (oassert (\<not> active (fst s))
       (case open_pipes (sp_custom_fds sp) pipes k of
          (None, k) \<Rightarrow> Return \<lparr>sp_result = - 1, sp_stdio = [], sp_object = s, sp_kernel = k, sp_child = None\<rparr>
        | (Some p, k) \<Rightarrow>
            let k = cloexec_pipes (sp_custom_fds sp) p k
            in if forked = - 1
               then obind (child_stop (set_pid forked s))
                 (\<lambda>s. Return \<lparr>sp_result = - 4, sp_stdio = [], sp_object = s, sp_kernel = k, sp_child = None\<rparr>)
               else case child_main sp sys p k of
                 (calls, fin, ck) \<Rightarrow>
                   let k = k\<lparr>nonblocking := nonblocking ck\<rparr>;
                       w = (fst s)\<lparr>child_pid := forked, watched_pid := forked\<rparr>
                   in obind (on_object wrap_ref (ev_type_start (w, snd s)))
                     (\<lambda>s. let s = ((fst s)\<lparr>pid_prop := jint (wrap32 forked)\<rparr>, snd s)
                          in case parent_ends (sp_custom_fds sp) p k of
                            (fds, k) \<Rightarrow> Return \<lparr>sp_result = 0, sp_stdio = fds, sp_object = s, sp_kernel = k, sp_child = Some (calls, fin)\<rparr>)))"

section \<open>The methods\<close>

text \<open>The array \<open>custom_fds\<close> has three elements.\<close>

fun fill_custom :: "conv \<Rightarrow> js_value list \<Rightarrow> nat \<Rightarrow> int list \<Rightarrow> int list outcome" where
  "fill_custom h [] i fds = Return fds"
| "fill_custom h (v # vs) i fds =
     (if v = JUndefined then fill_custom h vs (Suc i) fds
      else if i < length fds then fill_custom h vs (Suc i) (fds[i := wrap32 (integer_value h v)])
      else Overrun)"

fun elements_of :: "js_value \<Rightarrow> js_value list" where
  "elements_of (JArray vs) = vs" | "elements_of _ = []"

definition name_or_id :: "conv \<Rightarrow> js_value \<Rightarrow> int \<times> u8 list option" where
  "name_or_id h v = (if is_number v then (int32_value h v, None) else (- 1, Some (c_string (to_string h v))))"

definition spawn_args :: "conv \<Rightarrow> js_value list \<Rightarrow> spawn_params outcome" where
  "spawn_args h args =
     (if length args < 3 \<or> \<not> is_string (arg args 0) \<or> \<not> is_array (arg args 1) \<or> \<not> is_string (arg args 2) \<or>
         \<not> is_array (arg args 3) \<or> \<not> is_array (arg args 4) \<or> \<not> is_boolean (arg args 5) \<or>
         \<not> (is_int32 (arg args 6) \<or> is_string (arg args 6)) \<or> \<not> (is_int32 (arg args 7) \<or> is_string (arg args 7))
      then Throw (JsError ''Bad argument.'')
      else let file = c_string (to_string h (arg args 0));
               argv = file # map (\<lambda>v. c_string (to_string h v)) (elements_of (arg args 1));
               cwd = c_string (to_string h (arg args 2));
               env = map (\<lambda>v. c_string (to_string h v)) (elements_of (arg args 3))
           in obind (fill_custom h (elements_of (arg args 4)) 0 [- 1, - 1, - 1])
             (\<lambda>custom_fds. let (uid, uname) = name_or_id h (arg args 6); (gid, gname) = name_or_id h (arg args 7)
               in Return \<lparr>sp_file = file, sp_args = argv, sp_cwd = cwd, sp_env = env, sp_custom_fds = custom_fds,
                    sp_setsid = (arg args 5 = JBool True), sp_uid = uid, sp_uname = uname, sp_gid = gid, sp_gname = gname\<rparr>))"

text \<open>\<open>Spawn\<close>: the state it leaves, and the array it returns or what it throws.\<close>

definition spawn_js ::
  "conv \<Rightarrow> js_value list \<Rightarrow> (nat \<Rightarrow> pipe_fds option) \<Rightarrow> int \<Rightarrow> child_system \<Rightarrow> child \<times> int \<Rightarrow> kernel
     \<Rightarrow> ((child \<times> int) \<times> kernel \<times> int list outcome) outcome" where
  "spawn_js h args pipes forked sys s k =
     (case spawn_args h args of
        Return sp \<Rightarrow> obind (child_spawn sp pipes forked sys s k)
          (\<lambda>r. if sp_result r \<noteq> 0 then Return (sp_object r, sp_kernel r, Throw (JsError ''Error spawning''))
               else oassert (list_all (\<lambda>fd. 0 \<le> fd) (sp_stdio r)) (Return (sp_object r, sp_kernel r, Return (sp_stdio r))))
      | Throw e \<Rightarrow> Return (s, k, Throw e)
      | Abort \<Rightarrow> Abort
      | Overrun \<Rightarrow> Overrun)"

text \<open>\<open>Kill\<close>: the system call it makes, if any, and its result; \<open>kill\<close> gives 0 or the error number.\<close>

definition child_kill :: "conv \<Rightarrow> (int \<Rightarrow> int \<Rightarrow> int) \<Rightarrow> js_value list \<Rightarrow> child \<Rightarrow> (int \<times> int) option \<times> bool outcome" where
  "child_kill h kill args w =
     (if child_pid w < 1 then (None, Return False)
      else if 0 < length args \<and> \<not> is_number (arg args 0) then (None, Throw (JsTypeError ''Bad argument.''))
      else let sig = (if 0 < length args then int32_value h (arg args 0) else 15); r = kill (child_pid w) sig
           in (Some (child_pid w, sig), if r \<noteq> 0 then Throw (JsErrno r ''Kill'' None) else Return True))"

section \<open>The end of the child\<close>

text \<open>The macros of \<open>sys/wait.h\<close> on a status.\<close>

definition wifexited :: "int \<Rightarrow> bool" where "wifexited status = (status mod 128 = 0)"
definition wexitstatus :: "int \<Rightarrow> int" where "wexitstatus status = status div 256 mod 256"
definition wtermsig :: "int \<Rightarrow> int" where "wtermsig status = status mod 128"
definition wifsignaled :: "int \<Rightarrow> bool" where "wifsignaled status = (wtermsig status \<noteq> 0 \<and> wtermsig status \<noteq> 127)"

definition exit_args :: "platform \<Rightarrow> int \<Rightarrow> int option \<times> string option" where
  "exit_args p status =
     (if wifexited status then Some (wexitstatus status) else None,
      if wifsignaled status then Some (signo_string p (wtermsig status)) else None)"

definition on_exit :: "platform \<Rightarrow> js_value \<Rightarrow> int \<Rightarrow> child \<times> int \<Rightarrow> ((child \<times> int) \<times> int option \<times> string option) outcome" where
  "on_exit p onexit status s =
     obind (child_stop (set_pid (- 1) s))
       (\<lambda>s. let s = ((fst s)\<lparr>pid_prop := JNull\<rparr>, snd s)
            in oassert (is_function onexit) (Return (s, exit_args p status)))"

text \<open>\<open>on_chld\<close>, called with the pending event \<open>child_reap\<close> has made: \<open>rpid\<close>, \<open>rstatus\<close>.\<close>

definition child_reap :: "int \<Rightarrow> int \<Rightarrow> child \<Rightarrow> bool" where
  "child_reap rpid status w =
     (let traced = (status mod 256 = 127 \<or> status = 65535)
      in active w \<and> (watched_pid w = rpid \<or> watched_pid w = 0) \<and> \<not> traced)"

definition on_chld :: "platform \<Rightarrow> js_value \<Rightarrow> int \<Rightarrow> int \<Rightarrow> child \<times> int \<Rightarrow> ((child \<times> int) \<times> int option \<times> string option) outcome" where
  "on_chld p onexit rpid rstatus s = oassert (child_pid (fst s) = rpid) (on_exit p onexit rstatus (((fst s)\<lparr>pending := False\<rparr>), snd s))"

section \<open>The descriptors of parent and child\<close>

definition no_custom :: "int list" where "no_custom = [- 1, - 1, - 1]"

definition end_of :: "open_file \<Rightarrow> bool \<Rightarrow> descriptor" where
  "end_of f b = \<lparr>fd_file = f, fd_cloexec = b\<rparr>"

text \<open>Three pipes on six unused descriptors above the standard ones.\<close>

definition fresh_pipes :: "kernel \<Rightarrow> three_pipes \<Rightarrow> bool" where
  "fresh_pipes k p \<longleftrightarrow>
     (let fds = [fst (stdin_pipe p), snd (stdin_pipe p), fst (stdout_pipe p), snd (stdout_pipe p), fst (stderr_pipe p), snd (stderr_pipe p)]
      in distinct fds \<and> list_all (\<lambda>fd. 2 < fd \<and> fd_table k fd = None) fds)"

definition pipe_answers :: "three_pipes \<Rightarrow> nat \<Rightarrow> pipe_fds option" where
  "pipe_answers p i = (if i = 0 then Some (stdin_pipe p) else if i = 1 then Some (stdout_pipe p) else Some (stderr_pipe p))"

lemma cloexec_pipe_on:
  "a \<noteq> b \<Longrightarrow> fd_table k a = Some d \<Longrightarrow> fd_table k b = Some e \<Longrightarrow>
   cloexec_pipe (- 1) (a, b) k = k\<lparr>fd_table := (fd_table k)(a \<mapsto> d\<lparr>fd_cloexec := True\<rparr>, b \<mapsto> e\<lparr>fd_cloexec := True\<rparr>)\<rparr>"
  by (simp add: cloexec_pipe_def set_cloexec_def)

lemma child_stdio_on:
  "fd_table k c = Some d \<Longrightarrow> c \<noteq> q \<Longrightarrow> c \<noteq> i \<Longrightarrow>
   child_stdio (- 1) q c i k = k\<lparr>fd_table := (fd_table k)(q := None, i \<mapsto> d\<lparr>fd_cloexec := False\<rparr>)\<rparr>"
  by (simp add: child_stdio_def sys_dup2_def sys_close_def)

lemma parent_end_on:
  "fd_table k f = Some d \<Longrightarrow> c \<noteq> f \<Longrightarrow>
   parent_end (- 1) c f k = (f, k\<lparr>fd_table := (fd_table k)(c := None), nonblocking := (nonblocking k)(fd_file d := True)\<rparr>)"
  by (simp add: parent_end_def set_nonblock_def sys_close_def)

definition piped :: "three_pipes \<Rightarrow> nat \<Rightarrow> (int \<Rightarrow> descriptor option) \<Rightarrow> int \<Rightarrow> descriptor option" where
  "piped p n t = t
      (fst (stdin_pipe p) \<mapsto> end_of (Pipe_read n) True, snd (stdin_pipe p) \<mapsto> end_of (Pipe_write n) True,
       fst (stdout_pipe p) \<mapsto> end_of (Pipe_read (n + 1)) True, snd (stdout_pipe p) \<mapsto> end_of (Pipe_write (n + 1)) True,
       fst (stderr_pipe p) \<mapsto> end_of (Pipe_read (n + 2)) True, snd (stderr_pipe p) \<mapsto> end_of (Pipe_write (n + 2)) True)"

lemma fresh_pipesE:
  assumes "fresh_pipes k p"
  obtains a0 b0 a1 b1 a2 b2 where "p = \<lparr>stdin_pipe = (a0, b0), stdout_pipe = (a1, b1), stderr_pipe = (a2, b2)\<rparr>"
    "distinct [0, 1, 2, a0, b0, a1, b1, a2, b2]" "distinct [b2, a2, b1, a1, b0, a0, 2, 1, 0]"
    "list_all (\<lambda>fd. fd_table k fd = None) [a0, b0, a1, b1, a2, b2]"
proof -
  obtain a0 b0 a1 b1 a2 b2 where p: "p = \<lparr>stdin_pipe = (a0, b0), stdout_pipe = (a1, b1), stderr_pipe = (a2, b2)\<rparr>"
    by (metis surj_pair three_pipes.surjective unit.exhaust)
  show thesis by (rule that [OF p]) (use assms in \<open>auto simp: fresh_pipes_def p Let_def\<close>)
qed

lemma three_pipes_open:
  assumes "fresh_pipes k p"
  shows "\<exists>k'. open_pipes no_custom (pipe_answers p) k = (Some p, k') \<and>
    cloexec_pipes no_custom p k' = k\<lparr>pipes_made := pipes_made k + 3, fd_table := piped p (pipes_made k) (fd_table k)\<rparr>"
  using assms
proof (rule fresh_pipesE)
  fix a0 b0 a1 b1 a2 b2
  assume p: "p = \<lparr>stdin_pipe = (a0, b0), stdout_pipe = (a1, b1), stderr_pipe = (a2, b2)\<rparr>"
    and d: "distinct [0, 1, 2, a0, b0, a1, b1, a2, b2]" "distinct [b2, a2, b1, a1, b0, a0, 2, 1, 0]"
  define K where "K = sys_pipe (a2, b2) (sys_pipe (a1, b1) (sys_pipe (a0, b0) k))"
  have o: "open_pipes no_custom (pipe_answers p) k = (Some p, K)"
    by (simp add: open_pipes_def open_pipe_def no_custom_def pipe_answers_def p K_def)
  have K: "fd_table K = (fd_table k)(a0 \<mapsto> end_of (Pipe_read (pipes_made k)) False, b0 \<mapsto> end_of (Pipe_write (pipes_made k)) False,
       a1 \<mapsto> end_of (Pipe_read (pipes_made k + 1)) False, b1 \<mapsto> end_of (Pipe_write (pipes_made k + 1)) False,
       a2 \<mapsto> end_of (Pipe_read (pipes_made k + 2)) False, b2 \<mapsto> end_of (Pipe_write (pipes_made k + 2)) False)"
    and m: "pipes_made K = pipes_made k + 3" "nonblocking K = nonblocking k" 
    by (simp_all add: K_def sys_pipe_def end_of_def Let_def)
  have "cloexec_pipes no_custom p K = K\<lparr>fd_table := (fd_table K)
       (a0 \<mapsto> end_of (Pipe_read (pipes_made k)) True, b0 \<mapsto> end_of (Pipe_write (pipes_made k)) True,
       a1 \<mapsto> end_of (Pipe_read (pipes_made k + 1)) True, b1 \<mapsto> end_of (Pipe_write (pipes_made k + 1)) True,
       a2 \<mapsto> end_of (Pipe_read (pipes_made k + 2)) True, b2 \<mapsto> end_of (Pipe_write (pipes_made k + 2)) True)\<rparr>"
    using d K by (simp add: cloexec_pipes_def no_custom_def p cloexec_pipe_on end_of_def)
  moreover have "(fd_table K)(a0 \<mapsto> end_of (Pipe_read (pipes_made k)) True, b0 \<mapsto> end_of (Pipe_write (pipes_made k)) True,
       a1 \<mapsto> end_of (Pipe_read (pipes_made k + 1)) True, b1 \<mapsto> end_of (Pipe_write (pipes_made k + 1)) True,
       a2 \<mapsto> end_of (Pipe_read (pipes_made k + 2)) True, b2 \<mapsto> end_of (Pipe_write (pipes_made k + 2)) True) =
     piped p (pipes_made k) (fd_table k)"
    by (rule ext) (simp add: piped_def p K)
  ultimately have "cloexec_pipes no_custom p K = k\<lparr>pipes_made := pipes_made k + 3, fd_table := piped p (pipes_made k) (fd_table k)\<rparr>"
    using m by (simp add: kernel.equality)
  with o show ?thesis by blast
qed

lemma child_table:
  assumes "fresh_pipes k p" and t: "fd_table K = piped p n (fd_table k)"
  shows "exec_table (child_stdios no_custom p K) = (exec_table k)
      (0 \<mapsto> end_of (Pipe_read n) False, 1 \<mapsto> end_of (Pipe_write (n + 1)) False, 2 \<mapsto> end_of (Pipe_write (n + 2)) False) \<and>
    nonblocking (child_stdios no_custom p K) = nonblocking K"
  using assms(1)
proof (rule fresh_pipesE)
  fix a0 b0 a1 b1 a2 b2
  assume p: "p = \<lparr>stdin_pipe = (a0, b0), stdout_pipe = (a1, b1), stderr_pipe = (a2, b2)\<rparr>"
    and d: "distinct [0, 1, 2, a0, b0, a1, b1, a2, b2]" "distinct [b2, a2, b1, a1, b0, a0, 2, 1, 0]"
    and f: "list_all (\<lambda>fd. fd_table k fd = None) [a0, b0, a1, b1, a2, b2]"
  have c: "child_stdios no_custom p K = K\<lparr>fd_table := (fd_table K)(b0 := None, 0 \<mapsto> end_of (Pipe_read n) False,
       a1 := None, 1 \<mapsto> end_of (Pipe_write (n + 1)) False, a2 := None, 2 \<mapsto> end_of (Pipe_write (n + 2)) False)\<rparr>"
    using d f by (simp add: child_stdios_def no_custom_def p child_stdio_on t piped_def end_of_def)
  have "exec_table (child_stdios no_custom p K) fd = ((exec_table k)
      (0 \<mapsto> end_of (Pipe_read n) False, 1 \<mapsto> end_of (Pipe_write (n + 1)) False, 2 \<mapsto> end_of (Pipe_write (n + 2)) False)) fd" for fd
    unfolding exec_table_def c using d f by (simp add: t piped_def p end_of_def)
  then show ?thesis using c by (simp add: fun_eq_iff)
qed

lemma parent_table:
  assumes "fresh_pipes k p" and t: "fd_table K = piped p n (fd_table k)"
  shows "\<exists>k'. parent_ends no_custom p K = ([snd (stdin_pipe p), fst (stdout_pipe p), fst (stderr_pipe p)], k') \<and>
    fd_table k' = (fd_table k)(snd (stdin_pipe p) \<mapsto> end_of (Pipe_write n) True,
      fst (stdout_pipe p) \<mapsto> end_of (Pipe_read (n + 1)) True, fst (stderr_pipe p) \<mapsto> end_of (Pipe_read (n + 2)) True) \<and>
    nonblocking k' = (nonblocking K)(Pipe_write n := True, Pipe_read (n + 1) := True, Pipe_read (n + 2) := True)"
  using assms(1)
proof (rule fresh_pipesE)
  fix a0 b0 a1 b1 a2 b2
  assume p: "p = \<lparr>stdin_pipe = (a0, b0), stdout_pipe = (a1, b1), stderr_pipe = (a2, b2)\<rparr>"
    and d: "distinct [0, 1, 2, a0, b0, a1, b1, a2, b2]" "distinct [b2, a2, b1, a1, b0, a0, 2, 1, 0]"
    and f: "list_all (\<lambda>fd. fd_table k fd = None) [a0, b0, a1, b1, a2, b2]"
  define k' where "k' = K\<lparr>fd_table := (fd_table K)(a0 := None, b1 := None, b2 := None),
      nonblocking := (nonblocking K)(Pipe_write n := True, Pipe_read (n + 1) := True, Pipe_read (n + 2) := True)\<rparr>"
  have "parent_ends no_custom p K = ([b0, a1, a2], k')"
    using d by (simp add: parent_ends_def no_custom_def p parent_end_on t piped_def end_of_def k'_def)
  moreover have "fd_table k' fd = ((fd_table k)(b0 \<mapsto> end_of (Pipe_write n) True,
      a1 \<mapsto> end_of (Pipe_read (n + 1)) True, a2 \<mapsto> end_of (Pipe_read (n + 2)) True)) fd" for fd
    using d f by (simp add: k'_def t piped_def p)
  ultimately show ?thesis by (auto simp: p k'_def fun_eq_iff)
qed

lemma child_main_end:
  "child_main sp sys p k = (calls, fin, ck) \<Longrightarrow>
   (fin = Exited 127 \<or> fin = Executed (exec_table (child_stdios (sp_custom_fds sp) p k))) \<and>
   (ck = k \<or> ck = child_stdios (sp_custom_fds sp) p k)"
  by (auto simp: child_main_def Let_def split: if_splits option.splits)


definition example_kernel :: kernel where
  "example_kernel = \<lparr>fd_table = [0 \<mapsto> end_of (Other_file 0) False, 1 \<mapsto> end_of (Other_file 1) False, 2 \<mapsto> end_of (Other_file 2) False],
     nonblocking = (\<lambda>_. False), pipes_made = 0\<rparr>"

definition example_params :: spawn_params where
  "example_params = \<lparr>sp_file = [0x6C], sp_args = [[0x6C]], sp_cwd = [], sp_env = [], sp_custom_fds = no_custom,
     sp_setsid = True, sp_uid = 1000, sp_uname = None, sp_gid = - 1, sp_gname = Some [0x67]\<rparr>"

definition example_system :: child_system where
  "example_system = \<lparr>cs_setsid = True, cs_chdir = (\<lambda>_. True), cs_getgrnam = (\<lambda>_. Some 100), cs_getpwnam = (\<lambda>_. None),
     cs_setgid = (\<lambda>_. True), cs_setuid = (\<lambda>_. True), cs_exec = True\<rparr>"

definition example_child :: child where
  "example_child = \<lparr>refs = 0, weak = True, unwrapped = False, active = False, pending = False,
      child_pid = - 1, watched_pid = 0, pid_prop = JUndefined\<rparr>"

lemma example_child_new: "child_new = Return example_child"
  by (simp add: child_new_def wrap_wrap_def wrap_init_def ev_init_def oassert_def example_child_def)


text \<open>
  Property C22: the program is only executed when every change asked for has been made, and they are made in this order:
  session, directory, group, user.\<close>

theorem exec_with_identity:
  assumes "child_main sp sys p k = (calls, Executed t, ck)"
  shows "\<exists>gid uid. child_id (sp_gid sp) (sp_gname sp) (cs_getgrnam sys) = Some gid \<and> child_id (sp_uid sp) (sp_uname sp) (cs_getpwnam sys) = Some uid \<and>
    calls = (if sp_setsid sp then [Setsid] else []) @ (if sp_cwd sp \<noteq> [] then [Chdir (sp_cwd sp)] else []) @
      (if gid \<noteq> - 1 then [Setgid gid] else []) @ (if uid \<noteq> - 1 then [Setuid uid] else []) @ [Execvp (sp_file sp) (sp_args sp) (sp_env sp)] \<and>
    (sp_setsid sp \<longrightarrow> cs_setsid sys) \<and> (sp_cwd sp \<noteq> [] \<longrightarrow> cs_chdir sys (sp_cwd sp)) \<and>
    (gid \<noteq> - 1 \<longrightarrow> cs_setgid sys gid) \<and> (uid \<noteq> - 1 \<longrightarrow> cs_setuid sys uid) \<and>
    t = exec_table (child_stdios (sp_custom_fds sp) p k)"
proof -
  obtain gid uid where g: "child_id (sp_gid sp) (sp_gname sp) (cs_getgrnam sys) = Some gid"
    and u: "child_id (sp_uid sp) (sp_uname sp) (cs_getpwnam sys) = Some uid"
    using assms by (auto simp: child_main_def Let_def split: if_splits option.splits)
  show ?thesis
    using assms by (intro exI [of _ gid] exI [of _ uid]) (auto simp: child_main_def g u Let_def split: if_splits)
qed

theorem exec_with_identity_witness:
  "\<exists>gid uid. fst (child_main example_params example_system undefined example_kernel) =
     [Setsid, Setgid gid, Setuid uid, Execvp [0x6C] [[0x6C]] []] \<and> gid = 100 \<and> uid = 1000"
proof -
  obtain t ck calls where m: "child_main example_params example_system undefined example_kernel = (calls, Executed t, ck)"
    by (simp add: child_main_def example_params_def example_system_def child_id_def Let_def)
  show ?thesis using exec_with_identity [OF m] unfolding m
    by (auto simp: example_params_def example_system_def child_id_def)
qed

section \<open>The report\<close>

text \<open>A status of \<open>exit(n)\<close>, and one of a signal, with or without a core.\<close>

lemma exit_args_exited: "0 \<le> n \<Longrightarrow> n < 256 \<Longrightarrow> exit_args p (n * 256) = (Some n, None)"
proof -
  assume "0 \<le> n" "n < 256"
  moreover have "n * 256 mod 128 = 0" by presburger
  ultimately show ?thesis by (simp add: exit_args_def wifexited_def wexitstatus_def wifsignaled_def wtermsig_def)
qed

lemma exit_args_signaled: "0 < sig \<Longrightarrow> sig < 127 \<Longrightarrow> exit_args p (sig + 128 * of_bool core) = (None, Some (signo_string p sig))"
  by (simp add: exit_args_def wifexited_def wifsignaled_def wtermsig_def of_bool_def)

section \<open>The life of a child\<close>

text \<open>\<open>vfork\<close> answers \<open>-1\<close> or a process number.\<close>

inductive child_step :: "platform \<Rightarrow> child \<times> int \<Rightarrow> child \<times> int \<Rightarrow> bool" for P where
  spawn: "child_spawn sp pipes forked sys s k = Return r \<Longrightarrow> forked = - 1 \<or> 1 \<le> forked \<Longrightarrow> child_step P s (sp_object r)"
| exit: "child_reap rpid status (fst s) \<Longrightarrow> on_chld P (JFunction f) rpid status s = Return (s', a) \<Longrightarrow> child_step P s s'"

definition child_ok :: "int \<Rightarrow> child \<times> int \<Rightarrow> bool" where
  "child_ok c s \<longleftrightarrow> wrap_ok (fst s) \<and> refs (fst s) = of_bool (active (fst s)) \<and> snd s = c + of_bool (active (fst s)) \<and>
     (if active (fst s) then 1 \<le> child_pid (fst s) \<and> watched_pid (fst s) = child_pid (fst s) else child_pid (fst s) = - 1)"

lemma child_ok_new: "child_new = Return w \<Longrightarrow> child_ok c (w, c)"
  by (auto simp: child_new_def wrap_wrap_def wrap_init_def ev_init_def oassert_def child_ok_def wrap_ok_def)

lemma child_ok_spawn:
  assumes "child_ok c s" "child_spawn sp pipes forked sys s k = Return r" "forked = - 1 \<or> 1 \<le> forked"
  shows "child_ok c (sp_object r)"
  using assms
  by (auto simp: child_spawn_def child_ok_def oassert_def wrap_ok_def child_stop_def set_pid_def on_object_def wrap_ref_def ev_type_start_def
      Let_def split: if_splits option.splits prod.splits)

lemma child_ok_exit:
  assumes "child_ok c s" "child_reap rpid status (fst s)"
  shows "\<exists>w. on_chld P (JFunction f) rpid status s = Return ((w, c), exit_args P status) \<and> child_ok c (w, c) \<and> \<not> active w \<and> weak w \<and> pid_prop w = JNull"
  using assms
  by (auto simp: child_ok_def child_reap_def on_chld_def on_exit_def child_stop_def set_pid_def on_object_def ev_type_stop_def oassert_def
      wrap_unref_def wrap_ok_def Let_def)

text \<open>
  Property C23: in every history of a child process: it is active, referenced and counted by the loop exactly while it has
  a process number; when that process ends no assertion fails, \<open>onexit\<close> is called with the status, and the
  object may be collected; and \<open>kill\<close> never signals a process other than the running child.\<close>

theorem child_life:
  assumes "child_new = Return w" "(child_step P)\<^sup>*\<^sup>* (w, c) s"
  shows "child_ok c s \<and>
    (child_reap rpid status (fst s) \<longrightarrow> (\<exists>w'. on_chld P (JFunction f) rpid status s = Return ((w', c), exit_args P status) \<and> \<not> active w' \<and> weak w')) \<and>
    (\<forall>q sig. fst (child_kill h kill args (fst s)) = Some (q, sig) \<longrightarrow> active (fst s) \<and> q = watched_pid (fst s))"
proof -
  have ok: "child_ok c s"
    using assms(2)
  proof (induction rule: rtranclp_induct)
    case base then show ?case using assms(1) by (rule child_ok_new)
  next
    case (step y z)
    from step.hyps(2) show ?case
    proof cases
      case spawn then show ?thesis using child_ok_spawn [OF step.IH] by simp
    next
      case (exit rpid status f a) then show ?thesis using child_ok_exit [OF step.IH exit(1), of P f] by auto
    qed
  qed
  then show ?thesis using child_ok_exit [OF ok, of rpid status P f]
    by (auto simp: child_ok_def child_kill_def Let_def split: if_splits)
qed
definition failing_params :: spawn_params where
  "failing_params = example_params\<lparr>sp_custom_fds := [0, 1, 2]\<rparr>"

theorem child_life_witness:
  "\<exists>w r w'. child_spawn failing_params (\<lambda>_. None) 42 (example_system\<lparr>cs_setsid := False\<rparr>) (w, 0) example_kernel = Return r \<and>
     snd (sp_object r) = 1 \<and> on_chld undefined (JFunction 1) 42 (127 * 256) (sp_object r) = Return ((w', 0), Some 127, None) \<and> weak w'"
proof -
  let ?w = "example_child\<lparr>child_pid := 42, watched_pid := 42, active := True, refs := 1, weak := False, pid_prop := jint (wrap32 42)\<rparr>"
  let ?r = "\<lparr>sp_result = 0, sp_stdio = [0, 1, 2], sp_object = (?w, 1), sp_kernel = example_kernel, sp_child = Some ([Setsid], Exited 127)\<rparr>"
  have r: "child_spawn failing_params (\<lambda>_. None) 42 (example_system\<lparr>cs_setsid := False\<rparr>) (example_child, 0) example_kernel = Return ?r"
    by (simp add: child_spawn_def failing_params_def example_params_def example_system_def example_child_def open_pipes_def open_pipe_def
        cloexec_pipes_def cloexec_pipe_def child_main_def parent_ends_def parent_end_def oassert_def on_object_def wrap_ref_def ev_type_start_def Let_def)
  have "child_step undefined (example_child, 0) (sp_object ?r)" by (rule child_step.spawn [OF r]) simp
  then have "(child_step undefined)\<^sup>*\<^sup>* (example_child, 0) (sp_object ?r)" ..
  from child_life [OF example_child_new this, of 42 "127 * 256" 1 undefined undefined undefined]
  obtain w' where "on_chld undefined (JFunction 1) 42 (127 * 256) (sp_object ?r) = Return ((w', 0), exit_args undefined (127 * 256))" "weak w'"
    by (auto simp: child_reap_def Let_def)
  then show ?thesis using r exit_args_exited [of 127 undefined]
    by (intro exI [of _ example_child] exI [of _ ?r] exI [of _ w']) auto
qed

section \<open>Where it goes wrong\<close>

text \<open>
  With descriptor 0 closed the first pipe is opened there: \<open>dup2\<close> of a descriptor to itself does nothing,
  and the program is executed without a standard input.\<close>

lemma low_descriptor_lost:
  assumes "fd_table k 0 = Some (end_of (Pipe_read n) True)" "fd_table k 1 = Some d" "fd_table k 2 = Some e"
    "fd_table k 5 = Some (end_of (Pipe_write (n + 1)) True)" "fd_table k 7 = Some (end_of (Pipe_write (n + 2)) True)"
  shows "exec_table (child_stdios no_custom \<lparr>stdin_pipe = (0, 3), stdout_pipe = (4, 5), stderr_pipe = (6, 7)\<rparr> k) 0 = None"
  using assms by (simp add: child_stdios_def child_stdio_def no_custom_def sys_close_def sys_dup2_def exec_table_def end_of_def)

text \<open>Descriptors of the caller's that are among 0, 1 and 2 are overwritten before they are copied.\<close>

lemma swapped_descriptors:
  assumes "fd_table k 0 = Some d0" "fd_table k 1 = Some d1" "fd_table k 2 = Some d2"
  shows "map_option fd_file (exec_table (child_stdios [1, 0, 2] p k) 0) = Some (fd_file d1)"
    "map_option fd_file (exec_table (child_stdios [1, 0, 2] p k) 1) = Some (fd_file d1)"
  using assms by (simp_all add: child_stdios_def child_stdio_def reset_flags_def set_cloexec_def set_nonblock_def sys_dup2_def exec_table_def)

lemma custom_fds_overrun:
  assumes "v \<noteq> JUndefined"
  shows "fill_custom h [JUndefined, JUndefined, JUndefined, v] 0 [- 1, - 1, - 1] = Overrun"
  using assms by simp

text \<open>Pipes opened before one that cannot be are not closed.\<close>

lemma failed_spawn_leaks:
  assumes "child_pid (fst s) = - 1" "\<not> active (fst s)" "sp_custom_fds sp = no_custom" "a \<noteq> b"
  shows "\<exists>r. child_spawn sp [0 \<mapsto> (a, b)] forked sys s k = Return r \<and> sp_result r = - 1 \<and>
    fd_table (sp_kernel r) a \<noteq> None \<and> fd_table (sp_kernel r) b \<noteq> None"
  using assms by (simp add: child_spawn_def oassert_def no_custom_def open_pipes_def open_pipe_def sys_pipe_def Let_def)

end
