(* ===== verification/NodeNet.thy ===== *)
theory NodeNet
  imports ChildProcess FsOps Digests
begin

text \<open>
  Sockets (\<open>src/node_net.cc\<close>, the parts for POSIX). A method takes its arguments apart, makes a system
  call and turns the answer into a value or an exception. The answers are a parameter, a function of the
  call; the descriptors a method opens and closes are state. \<open>ErrnoException\<close> keeps the number of the error
  and the name of the call; its message is left out.
\<close>

section \<open>Calls and answers\<close>

text \<open>A socket address: port and address, or the 108 bytes of \<open>sun_path\<close>.\<close>

datatype sockaddr = Sa_in nat "u8 list" | Sa_in6 nat "u8 list" | Sa_un "u8 list" | Sa_other

datatype net_call =
    N_socket int int
  | N_bind int sockaddr nat
  | N_connect int sockaddr nat
  | N_close int
  | N_shutdown int int
  | N_listen int int
  | N_accept int
  | N_getsockname int
  | N_getpeername int
  | N_so_error int
  | N_read int block_id nat size_t
  | N_recvfrom int block_id nat size_t int
  | N_recvmsg int block_id nat size_t
  | N_write int block_id nat size_t
  | N_sendmsg int block_id nat size_t int int \<comment> \<open>the descriptor sent or negative, the flags\<close>
  | N_sendto int block_id nat size_t int sockaddr nat
  | N_fionread int
  | N_setsockopt int string int
  | N_membership int string "u8 list" "u8 list"

record net_result =
  n_ret :: int
  n_errno :: int
  n_value :: int
  n_addr :: sockaddr
  n_addrlen :: nat
  n_fds :: "int list"

type_synonym net_system = "net_call \<Rightarrow> net_result"

text \<open>The conversions of addresses in the C library.\<close>

record inet =
  pton4 :: "u8 list \<Rightarrow> u8 list option"
  pton6 :: "u8 list \<Rightarrow> u8 list option"
  ntop4 :: "u8 list \<Rightarrow> u8 list"
  ntop6 :: "u8 list \<Rightarrow> u8 list"

record net_info =
  i_address :: js_string
  i_port :: "int option"

datatype net_value =
    Nv_undefined
  | Nv_null
  | Nv_int int
  | Nv_pair int int
  | Nv_info "(string \<times> int) option" net_info \<comment> \<open>with \<open>size\<close> or \<open>fd\<close>\<close>
  | Nv_exception js_exn \<comment> \<open>returned, not thrown\<close>

definition net_error :: "net_result \<Rightarrow> string \<Rightarrow> 'a outcome" where
  "net_error r name = Throw (JsErrno (n_errno r) name None)"

definition fd_arg :: "conv \<Rightarrow> js_value \<Rightarrow> (int \<Rightarrow> 'a outcome) \<Rightarrow> 'a outcome" where
  "fd_arg h a f =
     (if \<not> is_int32 a \<or> int32_value h a < 0 then Throw (JsTypeError ''Bad file descriptor argument'')
      else f (int32_value h a))"

section \<open>Addresses\<close>

definition htons :: "int \<Rightarrow> nat" where
  "htons port = nat (port mod 65536)"

definition parse_address_args :: "conv \<Rightarrow> inet \<Rightarrow> int \<Rightarrow> js_value \<Rightarrow> js_value \<Rightarrow> bool \<Rightarrow> (sockaddr \<times> nat) outcome" where
  "parse_address_args h net stale a b is_bind =
     (if is_string a \<and> \<not> is_string b
      then let path = utf8_bytes (to_string h a)
           in if 108 \<le> length path then Throw (JsError ''Socket path too long'')
              else Return (Sa_un (path @ replicate (108 - length path) 0), 110 - 108 + length path + 1)
      else let port = htons (int32_value h a)
      in if \<not> is_string b
         then Return (Sa_in port (if is_bind then [0, 0, 0, 0] else [127, 0, 0, 1]), 16)
         else let ip = c_string (to_string h b)
         in case pton4 net ip of Some a4 \<Rightarrow> Return (Sa_in port a4, 16)
            | None \<Rightarrow> (case pton6 net ip of Some a6 \<Rightarrow> Return (Sa_in6 port a6, 28)
              | None \<Rightarrow> Throw (JsErrno stale ''inet_pton'' None)))"

definition address_to_js :: "inet \<Rightarrow> sockaddr \<Rightarrow> nat \<Rightarrow> net_info" where
  "address_to_js net a len =
     (if len = 0 then \<lparr>i_address = [], i_port = None\<rparr>
      else case a of
        Sa_in6 port ip \<Rightarrow> \<lparr>i_address = utf8_decode (ntop6 net ip), i_port = Some (int port)\<rparr>
      | Sa_in port ip \<Rightarrow> \<lparr>i_address = utf8_decode (ntop4 net ip), i_port = Some (int port)\<rparr>
      | Sa_un sun_path \<Rightarrow>
          (if len = 2 then \<lparr>i_address = [], i_port = None\<rparr>
           else if len = 110 then \<lparr>i_address = utf8_decode (take 8 (drop 1 sun_path)), i_port = None\<rparr>
           else \<lparr>i_address = utf8_decode (until_nul sun_path), i_port = None\<rparr>)
      | Sa_other \<Rightarrow> \<lparr>i_address = [], i_port = None\<rparr>)"

section \<open>Opening and closing\<close>

text \<open>\<open>fcntl_ok\<close>: whether the two calls of \<open>fcntl\<close> for a descriptor succeed.\<close>

definition set_sock_flags :: "(int \<Rightarrow> bool \<times> bool) \<Rightarrow> int \<Rightarrow> kernel \<Rightarrow> bool \<times> kernel" where
  "set_sock_flags fcntl_ok fd k =
     (if \<not> fst (fcntl_ok fd) then (False, k)
      else let k = set_nonblock True fd k
      in if \<not> snd (fcntl_ok fd) then (False, k) else (True, set_cloexec True fd k))"

text \<open>What \<open>Pipe\<close> and \<open>SocketPair\<close> do with the two descriptors they have been given.\<close>

definition open_pair :: "(int \<Rightarrow> bool \<times> bool) \<Rightarrow> int \<Rightarrow> int \<times> int \<Rightarrow> kernel \<Rightarrow> net_value outcome \<times> kernel" where
  "open_pair fcntl_ok fcntl_errno fds k =
     (case set_sock_flags fcntl_ok (fst fds) k of
        (ok0, k) \<Rightarrow> (case (if ok0 then set_sock_flags fcntl_ok (snd fds) k else (False, k)) of
          (ok1, k) \<Rightarrow> if \<not> ok1 then (Throw (JsErrno fcntl_errno ''fcntl'' None), sys_close (snd fds) (sys_close (fst fds) k))
                      else (Return (Nv_pair (fst fds) (snd fds)), k)))"

definition net_pipe :: "(int \<Rightarrow> bool \<times> bool) \<Rightarrow> int \<Rightarrow> (int \<times> int) + int \<Rightarrow> kernel \<Rightarrow> net_value outcome \<times> kernel" where
  "net_pipe fcntl_ok fcntl_errno answer k =
     (case answer of Inr errno \<Rightarrow> (Throw (JsErrno errno ''pipe'' None), k)
      | Inl fds \<Rightarrow> open_pair fcntl_ok fcntl_errno fds (sys_pipe fds k))"

text \<open>A new descriptor of a new open file.\<close>

definition new_descriptor :: "int \<Rightarrow> open_file \<Rightarrow> kernel \<Rightarrow> kernel" where
  "new_descriptor fd file k = k\<lparr>fd_table := (fd_table k)(fd \<mapsto> \<lparr>fd_file = file, fd_cloexec = False\<rparr>)\<rparr>"

definition net_socketpair ::
  "(int \<Rightarrow> bool \<times> bool) \<Rightarrow> int \<Rightarrow> (int \<times> int) + int \<Rightarrow> open_file \<times> open_file \<Rightarrow> kernel \<Rightarrow> net_value outcome \<times> kernel" where
  "net_socketpair fcntl_ok fcntl_errno answer files k =
     (case answer of Inr errno \<Rightarrow> (Throw (JsErrno errno ''socketpair'' None), k)
      | Inl fds \<Rightarrow> open_pair fcntl_ok fcntl_errno fds
          (new_descriptor (snd fds) (snd files) (new_descriptor (fst fds) (fst files) k)))"

definition socket_types :: "(string \<times> string \<times> string) list" where
  "socket_types =
     [(''TCP'', ''PF_INET'', ''SOCK_STREAM''), (''TCP4'', ''PF_INET'', ''SOCK_STREAM''), (''TCP6'', ''PF_INET6'', ''SOCK_STREAM''),
      (''UNIX'', ''PF_UNIX'', ''SOCK_STREAM''), (''UNIX_DGRAM'', ''PF_UNIX'', ''SOCK_DGRAM''),
      (''UDP'', ''PF_INET'', ''SOCK_DGRAM''), (''UDP4'', ''PF_INET'', ''SOCK_DGRAM''), (''UDP6'', ''PF_INET6'', ''SOCK_DGRAM'')]"

definition socket_type :: "conv \<Rightarrow> js_value \<Rightarrow> (string \<times> string) option" where
  "socket_type h a =
     (if is_string a
      then (case find (\<lambda>t. strcaseeq (c_string (to_string h a)) (fst t)) socket_types of Some t \<Rightarrow> Some (snd t) | None \<Rightarrow> None)
      else Some (''PF_INET'', ''SOCK_STREAM''))"

text \<open>What \<open>Socket\<close> and \<open>Accept\<close> do with a new descriptor: it is closed when its flags cannot be set.\<close>

definition flag_socket :: "(int \<Rightarrow> bool \<times> bool) \<Rightarrow> int \<Rightarrow> int \<Rightarrow> net_value \<Rightarrow> kernel \<Rightarrow> net_value outcome \<times> kernel" where
  "flag_socket fcntl_ok fcntl_errno fd v k =
     (case set_sock_flags fcntl_ok fd k of
        (ok, k) \<Rightarrow> if \<not> ok then (Throw (JsErrno fcntl_errno ''fcntl'' None), sys_close fd k) else (Return v, k))"

definition net_socket ::
  "conv \<Rightarrow> platform \<Rightarrow> net_system \<Rightarrow> (int \<Rightarrow> bool \<times> bool) \<Rightarrow> int \<Rightarrow> open_file \<Rightarrow> js_value list \<Rightarrow> kernel \<Rightarrow> net_value outcome \<times> kernel" where
  "net_socket h P sys fcntl_ok fcntl_errno file args k =
     (case socket_type h (arg args 0) of
        None \<Rightarrow> (Throw (JsError ''Unknown socket type.''), k)
      | Some (domain, typ) \<Rightarrow>
          let r = sys (N_socket (pp_value P domain) (pp_value P typ)); fd = n_ret r
          in if fd < 0 then (net_error r ''socket'', k)
             else flag_socket fcntl_ok fcntl_errno fd (Nv_int (wrap32 fd)) (new_descriptor fd file k))"

definition net_accept ::
  "conv \<Rightarrow> platform \<Rightarrow> inet \<Rightarrow> net_system \<Rightarrow> (int \<Rightarrow> bool \<times> bool) \<Rightarrow> int \<Rightarrow> open_file \<Rightarrow> js_value list \<Rightarrow> kernel \<Rightarrow> net_value outcome \<times> kernel" where
  "net_accept h P net sys fcntl_ok fcntl_errno file args k =
     (if \<not> is_int32 (arg args 0) \<or> int32_value h (arg args 0) < 0 then (Throw (JsTypeError ''Bad file descriptor argument''), k)
      else let r = sys (N_accept (int32_value h (arg args 0))); peer_fd = n_ret r
      in if peer_fd < 0
         then (if n_errno r = pp_value P ''EAGAIN'' then Return Nv_null
               else if n_errno r = pp_value P ''ECONNABORTED'' then Return Nv_null
               else net_error r ''accept'', k)
         else flag_socket fcntl_ok fcntl_errno peer_fd
           (Nv_info (Some (''fd'', wrap32 peer_fd)) (address_to_js net (n_addr r) (n_addrlen r))) (new_descriptor peer_fd file k))"

definition net_close :: "conv \<Rightarrow> net_system \<Rightarrow> js_value list \<Rightarrow> kernel \<Rightarrow> net_value outcome \<times> kernel" where
  "net_close h sys args k =
     (if \<not> is_int32 (arg args 0) \<or> int32_value h (arg args 0) < 0 then (Throw (JsTypeError ''Bad file descriptor argument''), k)
      else let fd = int32_value h (arg args 0); r = sys (N_close fd)
      in if n_ret r < 0 then (net_error r ''close'', k) else (Return Nv_undefined, sys_close fd k))"

section \<open>Addressing\<close>

definition net_bind :: "conv \<Rightarrow> inet \<Rightarrow> int \<Rightarrow> net_system \<Rightarrow> js_value list \<Rightarrow> net_value outcome" where
  "net_bind h net stale sys args =
     (if length args < 2 then Throw (JsTypeError ''Must have at least two args'')
      else fd_arg h (arg args 0) (\<lambda>fd. obind (parse_address_args h net stale (arg args 1) (arg args 2) True)
        (\<lambda>(a, len). let r = sys (N_bind fd a len) in if n_ret r < 0 then net_error r ''bind'' else Return Nv_undefined)))"

definition net_connect :: "conv \<Rightarrow> platform \<Rightarrow> inet \<Rightarrow> int \<Rightarrow> net_system \<Rightarrow> js_value list \<Rightarrow> net_value outcome" where
  "net_connect h P net stale sys args =
     (if length args < 2 then Throw (JsTypeError ''Must have at least two args'')
      else fd_arg h (arg args 0) (\<lambda>fd. obind (parse_address_args h net stale (arg args 1) (arg args 2) False)
        (\<lambda>(a, len). let r = sys (N_connect fd a len)
           in if n_ret r < 0 \<and> n_errno r \<noteq> pp_value P ''EINPROGRESS'' then net_error r ''connect'' else Return Nv_undefined)))"

definition net_getsockname :: "conv \<Rightarrow> inet \<Rightarrow> net_system \<Rightarrow> js_value list \<Rightarrow> net_value outcome" where
  "net_getsockname h net sys args =
     fd_arg h (arg args 0) (\<lambda>fd. let r = sys (N_getsockname fd)
       in if n_ret r < 0 then net_error r ''getsockname'' else Return (Nv_info None (address_to_js net (n_addr r) (n_addrlen r))))"

definition net_getpeername :: "conv \<Rightarrow> inet \<Rightarrow> net_system \<Rightarrow> js_value list \<Rightarrow> net_value outcome" where
  "net_getpeername h net sys args =
     fd_arg h (arg args 0) (\<lambda>fd. let r = sys (N_getpeername fd)
       in if n_ret r < 0 then net_error r ''getpeername'' else Return (Nv_info None (address_to_js net (n_addr r) (n_addrlen r))))"

definition net_listen :: "conv \<Rightarrow> net_system \<Rightarrow> js_value list \<Rightarrow> net_value outcome" where
  "net_listen h sys args =
     fd_arg h (arg args 0) (\<lambda>fd. let backlog = (if is_int32 (arg args 1) then int32_value h (arg args 1) else 128); r = sys (N_listen fd backlog)
       in if n_ret r < 0 then net_error r ''listen'' else Return Nv_undefined)"

definition net_shutdown :: "conv \<Rightarrow> platform \<Rightarrow> net_system \<Rightarrow> js_value list \<Rightarrow> net_value outcome" where
  "net_shutdown h P sys args =
     fd_arg h (arg args 0) (\<lambda>fd.
       let t = c_string (to_string h (arg args 1));
           how = (if \<not> is_string (arg args 1) then Some ''SHUT_WR''
             else if strcaseeq t ''write'' then Some ''SHUT_WR''
             else if strcaseeq t ''read'' then Some ''SHUT_RD''
             else if strcaseeq t ''readwrite'' then Some ''SHUT_RDWR'' else None)
       in case how of
            None \<Rightarrow> Throw (JsError ''Unknown shutdown method. (Use 'read', 'write', or 'readwrite'.)'')
          | Some how \<Rightarrow> let r = sys (N_shutdown fd (pp_value P how)) in if n_ret r < 0 then net_error r ''shutdown'' else Return Nv_undefined)"

definition net_socket_error :: "conv \<Rightarrow> net_system \<Rightarrow> js_value list \<Rightarrow> net_value outcome" where
  "net_socket_error h sys args =
     fd_arg h (arg args 0) (\<lambda>fd. let r = sys (N_so_error fd)
       in if n_ret r < 0 then net_error r ''getsockopt'' else Return (Nv_int (n_value r)))"

definition net_to_read :: "conv \<Rightarrow> net_system \<Rightarrow> js_value list \<Rightarrow> net_value outcome" where
  "net_to_read h sys args =
     fd_arg h (arg args 0) (\<lambda>fd. let r = sys (N_fionread fd)
       in if n_ret r < 0 then net_error r ''ioctl'' else Return (Nv_int (n_value r)))"

section \<open>Reading and writing\<close>

definition would_block :: "platform \<Rightarrow> net_result \<Rightarrow> bool" where
  "would_block P r \<longleftrightarrow> n_errno r = pp_value P ''EAGAIN'' \<or> n_errno r = pp_value P ''EINTR''"

text \<open>The arguments buffer, offset and length of \<open>Read\<close>, \<open>RecvFrom\<close>, \<open>RecvMsg\<close> and \<open>Write\<close>.\<close>

definition buffer_range :: "conv \<Rightarrow> js_value list \<Rightarrow> (block_id \<Rightarrow> nat \<Rightarrow> size_t \<Rightarrow> 'a outcome) \<Rightarrow> 'a outcome" where
  "buffer_range h args f =
     (if \<not> has_instance (arg args 1) then Throw (JsTypeError ''Second argument should be a buffer'')
      else let buffer = array_of (arg args 1); buffer_length = size_of_int (ea_len buffer); off = size_of_int (int32_value h (arg args 2))
      in if buffer_length \<le> off then Throw (JsError ''Offset is out of bounds'')
      else let len = size_of_int (int32_value h (arg args 3))
      in if buffer_length < off + len then Throw (JsError ''Length is extends beyond buffer'')
      else f (ea_block buffer) (ea_off buffer + unat off) len)"

definition net_read :: "conv \<Rightarrow> platform \<Rightarrow> net_system \<Rightarrow> js_value list \<Rightarrow> net_value outcome" where
  "net_read h P sys args =
     (if length args < 4 then Throw (JsTypeError ''Takes 4 parameters'')
      else fd_arg h (arg args 0) (\<lambda>fd. buffer_range h args (\<lambda>bl a n. let r = sys (N_read fd bl a n)
        in if n_ret r < 0 then (if would_block P r then Return Nv_null else net_error r ''read'') else Return (Nv_int (wrap32 (n_ret r))))))"

definition net_recvfrom :: "conv \<Rightarrow> platform \<Rightarrow> inet \<Rightarrow> net_system \<Rightarrow> js_value list \<Rightarrow> net_value outcome" where
  "net_recvfrom h P net sys args =
     (if length args < 5 then Throw (JsTypeError ''Takes 5 parameters'')
      else fd_arg h (arg args 0) (\<lambda>fd. buffer_range h args (\<lambda>bl a n. let r = sys (N_recvfrom fd bl a n (int32_value h (arg args 4)))
        in if n_ret r < 0 then (if would_block P r then Return Nv_null else net_error r ''read'')
           else Return (Nv_info (Some (''size'', wrap32 (n_ret r))) (address_to_js net (n_addr r) (n_addrlen r))))))"

text \<open>
  The property \<open>recvMsg.fd\<close> is the last descriptor received; the others stay open and are lost. The
  result comes with it, when the call got as far.
\<close>

definition net_recvmsg :: "conv \<Rightarrow> platform \<Rightarrow> net_system \<Rightarrow> js_value list \<Rightarrow> (net_value \<times> int option option) outcome" where
  "net_recvmsg h P sys args =
     (if length args < 4 then Throw (JsTypeError ''Takes 4 parameters'')
      else fd_arg h (arg args 0) (\<lambda>fd. buffer_range h args (\<lambda>bl a n. let r = sys (N_recvmsg fd bl a n)
        in if n_ret r < 0 then (if would_block P r then Return (Nv_null, None) else net_error r ''recvMsg'')
           else let received_fd = fold (\<lambda>fd _. fd) (n_fds r) (- 1)
           in Return (Nv_int (wrap32 (n_ret r)), Some (if received_fd \<noteq> - 1 then Some received_fd else None)))))"

definition net_write :: "conv \<Rightarrow> platform \<Rightarrow> net_system \<Rightarrow> js_value list \<Rightarrow> net_value outcome" where
  "net_write h P sys args =
     (if length args < 4 then Throw (JsTypeError ''Takes 4 parameters'')
      else fd_arg h (arg args 0) (\<lambda>fd. buffer_range h args (\<lambda>bl a n. let r = sys (N_write fd bl a n)
        in if n_ret r < 0 then (if would_block P r then Return (Nv_int 0) else net_error r ''write'') else Return (Nv_int (wrap32 (n_ret r))))))"

text \<open>The same of \<open>SendMsg\<close> and \<open>SendTo\<close>, where offset and length may be left out.\<close>

definition given :: "js_value list \<Rightarrow> nat \<Rightarrow> bool" where
  "given args i \<longleftrightarrow> i < length args \<and> arg args i \<noteq> JUndefined"

definition send_range :: "conv \<Rightarrow> js_value list \<Rightarrow> (block_id \<Rightarrow> nat \<Rightarrow> size_t \<Rightarrow> 'a outcome) \<Rightarrow> 'a outcome" where
  "send_range h args f =
     (if \<not> has_instance (arg args 1) then Throw (JsTypeError ''Expected either a string or a buffer'')
      else let buffer = array_of (arg args 1); buffer_length = size_of_int (ea_len buffer)
      in if given args 2 \<and> \<not> is_uint32 (arg args 2) then Throw (JsTypeError ''Expected unsigned integer for offset'')
      else let offset = (if given args 2 then of_nat (uint32_value h (arg args 2)) else 0)
      in if given args 2 \<and> buffer_length \<le> offset then Throw (JsError ''Offset into buffer too large'')
      else if given args 3 \<and> \<not> is_uint32 (arg args 3) then Throw (JsTypeError ''Expected unsigned integer for length'')
      else let len = (if given args 3 then of_nat (uint32_value h (arg args 3)) else buffer_length - offset)
      in if given args 3 \<and> buffer_length < offset + len then Throw (JsError ''offset + length beyond buffer length'')
      else f (ea_block buffer) (ea_off buffer + unat offset) len)"

definition optional_uint :: "conv \<Rightarrow> js_value list \<Rightarrow> nat \<Rightarrow> int \<Rightarrow> string \<Rightarrow> (int \<Rightarrow> 'a outcome) \<Rightarrow> 'a outcome" where
  "optional_uint h args i dflt message f =
     (if given args i then (if \<not> is_uint32 (arg args i) then Throw (JsTypeError message) else f (wrap32 (int (uint32_value h (arg args i)))))
      else f dflt)"

definition net_sendmsg :: "conv \<Rightarrow> platform \<Rightarrow> net_system \<Rightarrow> js_value list \<Rightarrow> net_value outcome" where
  "net_sendmsg h P sys args =
     (if length args < 2 then Throw (JsTypeError ''Takes 2 parameters'')
      else fd_arg h (arg args 0) (\<lambda>fd. send_range h args (\<lambda>bl a n.
        optional_uint h args 4 (- 1) ''Expected unsigned integer for a file descriptor'' (\<lambda>fd_to_send.
        optional_uint h args 5 0 ''Expected unsigned integer for a flags argument'' (\<lambda>flags.
          let r = sys (N_sendmsg fd bl a n (if 0 \<le> fd_to_send then fd_to_send else - 1) flags)
          in if n_ret r < 0 then (if would_block P r then Return Nv_null else net_error r ''sendmsg'') else Return (Nv_int (wrap32 (n_ret r))))))))"

definition net_sendto :: "conv \<Rightarrow> platform \<Rightarrow> inet \<Rightarrow> int \<Rightarrow> net_system \<Rightarrow> js_value list \<Rightarrow> net_value outcome" where
  "net_sendto h P net stale sys args =
     (if length args < 5 then Throw (JsTypeError ''Takes 5 or 6 parameters'')
      else fd_arg h (arg args 0) (\<lambda>fd. send_range h args (\<lambda>bl a n.
        optional_uint h args 4 0 ''Expected unsigned integer for a flags argument'' (\<lambda>flags.
          obind (parse_address_args h net stale (arg args 5) (arg args 6) False) (\<lambda>(addr, len).
            let r = sys (N_sendto fd bl a n flags addr len)
            in if n_ret r < 0 then (if would_block P r then Return Nv_null else net_error r ''sendto'') else Return (Nv_int (wrap32 (n_ret r))))))))"

section \<open>Options\<close>

definition set_option :: "net_system \<Rightarrow> int \<Rightarrow> string \<Rightarrow> int \<Rightarrow> net_value \<Rightarrow> net_value outcome" where
  "set_option sys fd option v result =
     (let r = sys (N_setsockopt fd option v) in if n_ret r < 0 then net_error r ''setsockopt'' else Return result)"

definition unless_false :: "js_value \<Rightarrow> int" where
  "unless_false a = (if a = JBool False then 0 else 1)"

definition net_set_no_delay :: "conv \<Rightarrow> net_system \<Rightarrow> js_value list \<Rightarrow> net_value outcome" where
  "net_set_no_delay h sys args = fd_arg h (arg args 0) (\<lambda>fd. set_option sys fd ''TCP_NODELAY'' (unless_false (arg args 1)) Nv_undefined)"

text \<open>The Linux branch.\<close>

definition net_set_keep_alive :: "conv \<Rightarrow> net_system \<Rightarrow> js_value list \<Rightarrow> net_value outcome" where
  "net_set_keep_alive h sys args =
     fd_arg h (arg args 0) (\<lambda>fd.
       let enable = (arg args 1 = JBool True); time = (if enable then int32_value h (arg args 2) else 0);
           r = sys (N_setsockopt fd ''SO_KEEPALIVE'' (if enable then 1 else 0));
           r = (if 0 < time \<and> 0 \<le> n_ret r then sys (N_setsockopt fd ''TCP_KEEPIDLE'' time) else r)
       in if n_ret r < 0 then net_error r ''setsockopt'' else Return Nv_undefined)"

definition net_set_broadcast :: "conv \<Rightarrow> net_system \<Rightarrow> js_value list \<Rightarrow> net_value outcome" where
  "net_set_broadcast h sys args = fd_arg h (arg args 0) (\<lambda>fd. set_option sys fd ''SO_BROADCAST'' (unless_false (arg args 1)) Nv_undefined)"

definition net_set_ttl :: "conv \<Rightarrow> net_system \<Rightarrow> js_value list \<Rightarrow> net_value outcome" where
  "net_set_ttl h sys args =
     (if length args \<noteq> 2 then Throw (JsTypeError ''Takes exactly two arguments: fd, new TTL'')
      else fd_arg h (arg args 0) (\<lambda>fd.
        if \<not> is_int32 (arg args 1) then Throw (JsTypeError ''Argument must be a number'')
        else let newttl = int32_value h (arg args 1)
        in if newttl < 1 \<or> 255 < newttl then Throw (JsTypeError ''new TTL must be between 1 and 255'')
        else set_option sys fd ''IP_TTL'' newttl (Nv_int newttl)))"

definition net_set_multicast_ttl :: "conv \<Rightarrow> net_system \<Rightarrow> js_value list \<Rightarrow> net_value outcome" where
  "net_set_multicast_ttl h sys args =
     (if length args \<noteq> 2 then Throw (JsTypeError ''Takes exactly two arguments: fd, new MulticastTTL'')
      else fd_arg h (arg args 0) (\<lambda>fd.
        if \<not> is_int32 (arg args 1) then Throw (JsTypeError ''Argument must be a number'')
        else let newttl = int32_value h (arg args 1)
        in if newttl < 0 \<or> 255 < newttl then Throw (JsTypeError ''new MulticastTTL must be between 0 and 255'')
        else set_option sys fd ''IP_MULTICAST_TTL'' newttl (Nv_int newttl)))"

definition net_set_multicast_loopback :: "conv \<Rightarrow> net_system \<Rightarrow> js_value list \<Rightarrow> net_value outcome" where
  "net_set_multicast_loopback h sys args =
     fd_arg h (arg args 0) (\<lambda>fd. let flags = unless_false (arg args 1) in set_option sys fd ''IP_MULTICAST_LOOP'' flags (Nv_int flags))"

text \<open>An address that cannot be read gives an exception that is returned and not thrown.\<close>

definition net_set_membership :: "conv \<Rightarrow> inet \<Rightarrow> int \<Rightarrow> net_system \<Rightarrow> string \<Rightarrow> js_value list \<Rightarrow> net_value outcome" where
  "net_set_membership h net stale sys option args =
     (if length args < 2 \<or> 3 < length args then Throw (JsTypeError ''Takes arguments: fd, multicast group, multicast address'')
      else fd_arg h (arg args 0) (\<lambda>fd.
        let bad = Return (Nv_exception (JsErrno stale ''inet_pton'' None))
        in case pton4 net (c_string (to_string h (arg args 1))) of None \<Rightarrow> bad
        | Some multiaddr \<Rightarrow>
        case (if length args < 3 \<or> \<not> is_string (arg args 2) then Some [0, 0, 0, 0] else pton4 net (c_string (to_string h (arg args 2)))) of
          None \<Rightarrow> bad
        | Some iface \<Rightarrow>
            let r = sys (N_membership fd option multiaddr iface)
            in if n_ret r < 0 then net_error r ''setsockopt'' else Return Nv_undefined))"

section \<open>Names\<close>

definition net_is_ip :: "conv \<Rightarrow> inet \<Rightarrow> js_value list \<Rightarrow> int" where
  "net_is_ip h net args =
     (if \<not> is_string (arg args 0) then 4
      else let s = to_string h (arg args 0)
      in if 46 < length (utf8_bytes s) then 0
      else if pton4 net (c_string s) \<noteq> None then 4
      else if pton6 net (c_string s) \<noteq> None then 6 else 0)"

text \<open>A request for the thread pool: the family and the name.\<close>

datatype resolve_reply = Resolve string "u8 list" js_value

definition net_getaddrinfo :: "conv \<Rightarrow> js_value list \<Rightarrow> resolve_reply outcome" where
  "net_getaddrinfo h args =
     (let hostname = c_string (to_string h (arg args 0)); type = int32_value h (arg args 1)
      in if type \<noteq> 4 \<and> type \<noteq> 6 then Throw (JsTypeError ''Second argument must be an integer 4 or 6'')
      else if \<not> is_function (arg args 2) then Throw (JsTypeError ''Thrid argument must be a callback'')
      else Return (Resolve (if type = 4 then ''AF_INET'' else ''AF_INET6'') hostname (arg args 2)))"

text \<open>\<open>AfterResolve\<close>: the arguments of the callback, the error and the addresses, from the list \<open>getaddrinfo\<close> gave.\<close>

record addrinfo =
  ai_stream :: bool
  ai_addr :: sockaddr

fun resolved_address :: "inet \<Rightarrow> sockaddr \<Rightarrow> js_string option" where
  "resolved_address net (Sa_in port a) = Some (utf8_decode (ntop4 net a))"
| "resolved_address net (Sa_in6 port a) = Some (utf8_decode (ntop6 net a))"
| "resolved_address net _ = None"

fun resolved_addresses :: "inet \<Rightarrow> addrinfo list \<Rightarrow> js_string list outcome" where
  "resolved_addresses net [] = Return []"
| "resolved_addresses net (i # is) =
     oassert (ai_stream i) (oassert (resolved_address net (ai_addr i) \<noteq> None)
       (obind (resolved_addresses net is) (\<lambda>ss. Return (the (resolved_address net (ai_addr i)) # ss))))"

definition after_resolve :: "platform \<Rightarrow> inet \<Rightarrow> int \<Rightarrow> addrinfo list \<Rightarrow> (js_exn option \<times> js_string list) outcome" where
  "after_resolve P net result addresses =
     (if result \<noteq> 0
      then Return (if result = pp_value P ''EAI_NODATA'' then None else Some (JsErrno result ''getaddrinfo'' None), [])
      else obind (resolved_addresses net addresses) (\<lambda>ss. Return (None, ss)))"

section \<open>Round trip of addresses\<close>

text \<open>The text of an address that the library reads and writes back the same.\<close>

definition canonical_ip :: "inet \<Rightarrow> u8 list \<Rightarrow> bool" where
  "canonical_ip net ip \<longleftrightarrow>
     (case pton4 net ip of Some a \<Rightarrow> ntop4 net a = ip
      | None \<Rightarrow> (case pton6 net ip of Some a \<Rightarrow> ntop6 net a = ip | None \<Rightarrow> False))"

lemma until_nul_replicate: "0 \<notin> set p \<Longrightarrow> 0 < n \<Longrightarrow> until_nul (p @ replicate n 0) = p"
  by (cases n) (simp_all add: until_nul_append)

lemma utf8_bytes_nonzero: "0 \<notin> set s \<Longrightarrow> 0 \<notin> set (utf8_bytes s)"
  using ascii_in_bytes [of 0 s] by auto


definition example_inet :: inet where
  "example_inet = \<lparr>pton4 = (\<lambda>s. if s = [0x31] then Some [0, 0, 0, 1] else None), pton6 = (\<lambda>_. None),
     ntop4 = (\<lambda>a. if a = [0, 0, 0, 1] then [0x31] else []), ntop6 = (\<lambda>_. [])\<rparr>"


text \<open>Such a path has the length of an abstract name, of which eight bytes are taken.\<close>

lemma path_of_107_cut:
  assumes "length (utf8_bytes path) = 107" "\<not> is_string b"
  shows "\<exists>a len. parse_address_args h net stale (JString path) b is_bind = Return (a, len) \<and>
    i_address (address_to_js net a len) = utf8_decode (take 8 (drop 1 (utf8_bytes path)))"
  using assms by (simp add: parse_address_args_def address_to_js_def Let_def)

section \<open>Descriptors\<close>

definition clean_open :: "kernel \<Rightarrow> int list \<Rightarrow> net_value outcome \<times> kernel \<Rightarrow> bool" where
  "clean_open k fds res \<longleftrightarrow>
     (case res of
        (Return v, k') \<Rightarrow>
          (if v = Nv_null then fd_table k' = fd_table k
           else (\<forall>fd. fd \<notin> set fds \<longrightarrow> fd_table k' fd = fd_table k fd) \<and>
             list_all (\<lambda>fd. \<exists>f. fd_table k' fd = Some \<lparr>fd_file = f, fd_cloexec = True\<rparr> \<and> nonblocking k' f) fds)
      | (_, k') \<Rightarrow> fd_table k' = fd_table k)"

lemma clean_open_same [simp]: "clean_open k fds (Throw e, k)" "clean_open k fds (Return Nv_null, k)"
  by (simp_all add: clean_open_def)

lemma flag_socket_clean:
  assumes "fd_table k fd = None" "v \<noteq> Nv_null"
  shows "clean_open k [fd] (flag_socket fcntl_ok e fd v (new_descriptor fd file k))"
  using assms by (auto simp: flag_socket_def set_sock_flags_def new_descriptor_def set_nonblock_def set_cloexec_def sys_close_def clean_open_def Let_def fun_upd_idem)

lemma open_pair_clean:
  assumes "fd_table k a = None" "fd_table k b = None" "a \<noteq> b" "f \<noteq> g"
    and K: "fd_table K = (fd_table k)(a \<mapsto> \<lparr>fd_file = f, fd_cloexec = False\<rparr>, b \<mapsto> \<lparr>fd_file = g, fd_cloexec = False\<rparr>)"
  shows "clean_open k [a, b] (open_pair fcntl_ok e (a, b) K)"
  using assms by (auto simp: open_pair_def set_sock_flags_def set_nonblock_def set_cloexec_def sys_close_def clean_open_def Let_def fun_eq_iff)


definition constant_answer :: "int \<Rightarrow> int \<Rightarrow> net_system" where
  "constant_answer ret e c = \<lparr>n_ret = ret, n_errno = e, n_value = 0, n_addr = Sa_other, n_addrlen = 0, n_fds = []\<rparr>"


section \<open>Memory\<close>

fun call_memory :: "net_call \<Rightarrow> (block_id \<times> nat \<times> size_t) option" where
  "call_memory (N_read fd bl a n) = Some (bl, a, n)"
| "call_memory (N_recvfrom fd bl a n fl) = Some (bl, a, n)"
| "call_memory (N_recvmsg fd bl a n) = Some (bl, a, n)"
| "call_memory (N_write fd bl a n) = Some (bl, a, n)"
| "call_memory (N_sendmsg fd bl a n s fl) = Some (bl, a, n)"
| "call_memory (N_sendto fd bl a n fl addr len) = Some (bl, a, n)"
| "call_memory _ = None"

definition memory_in :: "ext_array \<Rightarrow> block_id \<Rightarrow> nat \<Rightarrow> size_t \<Rightarrow> bool" where
  "memory_in b bl a n \<longleftrightarrow> bl = ea_block b \<and> ea_off b \<le> a \<and> a + unat n \<le> ea_off b + nat (ea_len b)"

definition call_in :: "ext_array \<Rightarrow> net_call \<Rightarrow> bool" where
  "call_in b c \<longleftrightarrow> (case call_memory c of None \<Rightarrow> True | Some (bl, a, n) \<Rightarrow> memory_in b bl a n)"

lemma buffer_range_cong:
  assumes "arg args 1 = JBuffer b" "0 \<le> ea_len b" "ea_len b < 2 ^ 31" "0 \<le> int32_value h (arg args 3)"
    and f: "\<And>bl a n. memory_in b bl a n \<Longrightarrow> f bl a n = g bl a n"
  shows "buffer_range h args f = buffer_range h args g"
proof -
  let ?o = "int32_value h (arg args 2)" and ?l = "int32_value h (arg args 3)"
  note t = transfer_range [OF assms(2,3) int32_value_range int32_value_range]
  have "memory_in b (ea_block b) (ea_off b + unat (size_of_int ?o)) (size_of_int ?l)"
    if "\<not> (?o < 0 \<or> ea_len b \<le> ?o)" "\<not> (?o + ?l < 0 \<or> ea_len b < ?o + ?l)"
    using that assms(4) by (simp add: memory_in_def unat_size_of_int32) arith
  then show ?thesis using f unfolding buffer_range_def assms(1) has_instance.simps array_of.simps Let_def t by simp
qed

lemma send_range_cong:
  assumes "arg args 1 = JBuffer b" "0 \<le> ea_len b" "ea_len b < 2 ^ 31"
    and f: "\<And>bl a n. memory_in b bl a n \<Longrightarrow> f bl a n = g bl a n"
  shows "send_range h args f = send_range h args g"
proof -
  define L where "L = size_of_int (ea_len b)"
  have L: "unat L = nat (ea_len b)" "unat L < 2 ^ 31" using assms(2,3) by (simp_all add: L_def unat_size_of_int)
  have u: "unat (of_nat (uint32_value h v) :: size_t) = uint32_value h v" for v
    using uint32_value_range [of h v] by (intro unat_size_of_nat) simp
  have in_mem: "memory_in b (ea_block b) (ea_off b + unat off) len"
    if "unat off \<le> unat L" "unat off + unat len \<le> unat L" for off len :: size_t
    using that L by (simp add: memory_in_def)
  have 1: "unat (off + of_nat (uint32_value h v)) = unat off + uint32_value h v" if "unat off \<le> unat L" for off :: size_t and v
    using that L(2) uint32_value_range [of h v] u [of v] by (intro trans [OF unat_add_lem [THEN iffD1]]) simp_all
  have 2: "unat (L - off) = unat L - unat off" if "unat off \<le> unat L" for off
    using that by (simp add: unat_sub word_le_nat_alt)
  define off where "off = (if given args 2 then of_nat (uint32_value h (arg args 2)) else 0 :: size_t)"
  define len where "len = (if given args 3 then of_nat (uint32_value h (arg args 3)) else L - off)"
  have "f (ea_block b) (ea_off b + unat off) len = g (ea_block b) (ea_off b + unat off) len"
    if c: "\<not> (given args 2 \<and> L \<le> off)" "\<not> (given args 3 \<and> L < off + len)"
  proof (rule f, rule in_mem)
    show o: "unat off \<le> unat L" using c(1) by (auto simp: off_def word_le_nat_alt)
    show "unat off + unat len \<le> unat L"
    proof (cases "given args 3")
      case True
      then have "unat (off + len) \<le> unat L" "unat (off + len) = unat off + unat len"
        using c(2) 1 [OF o] u by (simp_all add: len_def word_less_nat_alt)
      then show ?thesis by simp
    next
      case False then show ?thesis using 2 [OF o] o by (simp add: len_def)
    qed
  qed
  then show ?thesis
    unfolding send_range_def Let_def assms(1) array_of.simps L_def [symmetric] off_def [symmetric] len_def [symmetric] by simp
qed

text \<open>
  Property C26: the memory the calls of a method work on is inside its Buffer: the methods do the same with any two
  systems that answer the calls within the Buffer alike. For the methods that read the length as a signed
  integer, this needs it not to be negative.\<close>

theorem calls_stay_in_buffer:
  assumes "arg args 1 = JBuffer b" "0 \<le> ea_len b" "ea_len b < 2 ^ 31"
    and sys: "\<And>c. call_in b c \<Longrightarrow> sys c = sys' c"
  shows "net_sendmsg h P sys args = net_sendmsg h P sys' args \<and> net_sendto h P net stale sys args = net_sendto h P net stale sys' args \<and>
    (0 \<le> int32_value h (arg args 3) \<longrightarrow>
      net_read h P sys args = net_read h P sys' args \<and> net_write h P sys args = net_write h P sys' args \<and>
      net_recvfrom h P net sys args = net_recvfrom h P net sys' args \<and> net_recvmsg h P sys args = net_recvmsg h P sys' args)"
proof -
  have s: "sys c = sys' c" if "call_memory c = Some (bl, a, n)" "memory_in b bl a n" for c bl a n
    using that sys by (simp add: call_in_def)
  have f: "fd_arg h v f = fd_arg h v g" if "\<And>fd. f fd = g fd" for v and f g :: "int \<Rightarrow> 'a outcome"
    using that by (simp add: fd_arg_def)
  have "net_sendmsg h P sys args = net_sendmsg h P sys' args"
    unfolding net_sendmsg_def by (rule if_cong [OF refl refl], rule f, rule send_range_cong [OF assms(1-3)]) (simp add: s Let_def)
  moreover have "net_sendto h P net stale sys args = net_sendto h P net stale sys' args"
    unfolding net_sendto_def by (rule if_cong [OF refl refl], rule f, rule send_range_cong [OF assms(1-3)]) (simp add: s Let_def)
  moreover have "net_read h P sys args = net_read h P sys' args" "net_write h P sys args = net_write h P sys' args"
    if "0 \<le> int32_value h (arg args 3)"
    unfolding net_read_def net_write_def
    by (rule if_cong [OF refl refl], rule f, rule buffer_range_cong [OF assms(1-3) that], simp add: s Let_def)+
  moreover have "net_recvfrom h P net sys args = net_recvfrom h P net sys' args" "net_recvmsg h P sys args = net_recvmsg h P sys' args"
    if "0 \<le> int32_value h (arg args 3)"
    unfolding net_recvfrom_def net_recvmsg_def
    by (rule if_cong [OF refl refl], rule f, rule buffer_range_cong [OF assms(1-3) that], simp add: s Let_def)+
  ultimately show ?thesis by blast
qed
theorem calls_stay_in_buffer_witness:
  "net_read undefined (\<lambda>_. None) (constant_answer 4 0) [jint 5, JBuffer example_view, jint 2, jint 4] =
     net_read undefined (\<lambda>_. None) (\<lambda>c. if call_in example_view c then constant_answer 4 0 c else constant_answer (- 1) 9 c)
       [jint 5, JBuffer example_view, jint 2, jint 4]"
  using calls_stay_in_buffer [of "[jint 5, JBuffer example_view, jint 2, jint 4]" example_view "constant_answer 4 0"
      "\<lambda>c. if call_in example_view c then constant_answer 4 0 c else constant_answer (- 1) 9 c" undefined "\<lambda>_. None"]
  by (simp add: example_view_def)

end
