(* ===== verification/NodeScript.thy ===== *)
theory NodeScript
  imports Utf8
begin

text \<open>
  Scripts and contexts (\<open>src/node_script.cc\<close>, \<open>lib/vm.js\<close>): \<open>EvalMachine\<close>, the one function behind the
  methods of \<open>Script\<close>. Objects are numbers with their properties in order; a context is the number of its
  global object. Compiling and running JavaScript are parameters.
\<close>

section \<open>Objects\<close>

datatype ev_val = Ev_undefined | Ev_bool bool | Ev_string js_string | Ev_object nat | Ev_other nat

type_synonym properties = "(js_string \<times> ev_val) list"
type_synonym objects = "nat \<Rightarrow> properties"

definition get_prop :: "js_string \<Rightarrow> properties \<Rightarrow> ev_val" where
  "get_prop key ps = (case map_of ps key of Some v \<Rightarrow> v | None \<Rightarrow> Ev_undefined)"

definition set_prop :: "js_string \<Rightarrow> ev_val \<Rightarrow> properties \<Rightarrow> properties" where
  "set_prop key v ps =
     (if key \<in> fst ` set ps then map (\<lambda>p. if fst p = key then (key, v) else p) ps else ps @ [(key, v)])"

text \<open>The loops that copy the sandbox to the global object and back.\<close>

fun copy_props :: "nat \<Rightarrow> nat \<Rightarrow> js_string list \<Rightarrow> objects \<Rightarrow> objects" where
  "copy_props src dst [] h = h"
| "copy_props src dst (key # keys) h =
     (let v = get_prop key (h src); v = (if v = Ev_object src then Ev_object dst else v)
      in copy_props src dst keys (h(dst := set_prop key v (h dst))))"

definition copy_object :: "nat \<Rightarrow> nat \<Rightarrow> objects \<Rightarrow> objects" where
  "copy_object src dst h = copy_props src dst (map fst (h src)) h"

section \<open>State\<close>

text \<open>
  \<open>entered\<close>: the contexts entered and not left, the latest first; \<open>kept\<close>: those \<open>EvalMachine\<close> has made
  and not disposed of; \<open>context_of\<close>: the context of a \<open>WrappedContext\<close>; \<open>script_of\<close>: the script of a
  \<open>WrappedScript\<close>, \<open>None\<close> when the object is none, \<open>Some None\<close> when its handle is empty.
\<close>

record evals =
  objects_of :: objects
  fresh_object :: nat
  entered :: "nat list"
  kept :: "nat list"
  context_of :: "nat \<Rightarrow> nat option"
  script_of :: "nat \<Rightarrow> nat option option"

text \<open>What is compiled and run: a script or nothing, and a value or nothing with the objects after it.\<close>

record engine =
  en_compile :: "js_string \<Rightarrow> js_string \<Rightarrow> nat option"
  en_run :: "nat \<Rightarrow> nat \<Rightarrow> objects \<Rightarrow> ev_val option \<times> objects"
  en_to_string :: "ev_val \<Rightarrow> js_string"

datatype input_flag = Compile_code | Unwrap_external
datatype context_flag = This_context | New_context | User_context
datatype output_flag = Return_result | Wrap_external

datatype ev_result = Ev_value ev_val | Ev_type_error string | Ev_error string | Ev_rethrow | Ev_abort

definition ev_arg :: "ev_val list \<Rightarrow> nat \<Rightarrow> ev_val" where
  "ev_arg args i = (if i < length args then args ! i else Ev_undefined)"

definition quoted :: "string \<Rightarrow> string" where "quoted s = [CHR 0x27] @ s @ [CHR 0x27]"

section \<open>Wrapped contexts\<close>

definition new_object :: "evals \<Rightarrow> nat \<times> evals" where
  "new_object s = (fresh_object s, s\<lparr>fresh_object := fresh_object s + 1, objects_of := (objects_of s)(fresh_object s := [])\<rparr>)"

text \<open>The object of a new \<open>WrappedContext\<close>, with a context of its own.\<close>

definition wrapped_context_new :: "evals \<Rightarrow> nat \<times> evals" where
  "wrapped_context_new s =
     (case new_object s of (g, s) \<Rightarrow> case new_object s of (w, s) \<Rightarrow> (w, s\<lparr>context_of := (context_of s)(w \<mapsto> g)\<rparr>))"

fun copy_to :: "nat \<Rightarrow> nat \<Rightarrow> js_string list \<Rightarrow> objects \<Rightarrow> objects" where
  "copy_to src dst [] h = h"
| "copy_to src dst (key # keys) h = copy_to src dst keys (h(dst := set_prop key (get_prop key (h src)) (h dst)))"

definition create_context :: "ev_val list \<Rightarrow> evals \<Rightarrow> nat \<times> evals" where
  "create_context args s =
     (case wrapped_context_new s of
        (w, s) \<Rightarrow> (case args of
          Ev_object sandbox # _ \<Rightarrow> (w, s\<lparr>objects_of := copy_to sandbox w (map fst (objects_of s sandbox)) (objects_of s)\<rparr>)
        | _ \<Rightarrow> (w, s)))"

section \<open>EvalMachine\<close>

definition sandbox_index :: "input_flag \<Rightarrow> nat" where
  "sandbox_index inp = (if inp = Compile_code then 1 else 0)"

definition filename_index :: "input_flag \<Rightarrow> context_flag \<Rightarrow> nat" where
  "filename_index inp ctx = sandbox_index inp + (if ctx = New_context then 1 else 0)"

definition anonymous_name :: js_string where
  "anonymous_name = map (\<lambda>c. of_nat (of_char c)) ''evalmachine.<anonymous>''"

text \<open>
  The sandbox and the context, entered, with the sandbox copied to its global object; \<open>None\<close> for the
  current context, and an assertion of \<open>Unwrap\<close> that fails when the object passed is not a context.
\<close>

definition enter_context :: "input_flag \<Rightarrow> context_flag \<Rightarrow> ev_val list \<Rightarrow> evals \<Rightarrow> ((nat \<times> nat) option \<times> evals) option" where
  "enter_context inp ctx args s =
     (case ctx of
        This_context \<Rightarrow> Some (None, s)
      | New_context \<Rightarrow>
          (case (case ev_arg args (sandbox_index inp) of Ev_object n \<Rightarrow> (n, s) | _ \<Rightarrow> new_object s) of
             (sandbox, s) \<Rightarrow> case new_object s of
               (g, s) \<Rightarrow> Some (Some (sandbox, g),
                 s\<lparr>entered := g # entered s, kept := g # kept s, objects_of := copy_object sandbox g (objects_of s)\<rparr>))
      | User_context \<Rightarrow>
          (case ev_arg args (sandbox_index inp) of
             Ev_object sandbox \<Rightarrow>
               (case context_of s sandbox of
                  Some g \<Rightarrow> Some (Some (sandbox, g), s\<lparr>entered := g # entered s, objects_of := copy_object sandbox g (objects_of s)\<rparr>)
                | None \<Rightarrow> None)
           | _ \<Rightarrow> None))"

definition leave_context :: "context_flag \<Rightarrow> nat \<Rightarrow> evals \<Rightarrow> evals" where
  "leave_context ctx g s =
     (if ctx = New_context then s\<lparr>entered := tl (entered s), kept := remove1 g (kept s)\<rparr>
      else if ctx = User_context then s\<lparr>entered := tl (entered s)\<rparr> else s)"

text \<open>The script: compiled from the first argument, or that of the object the method is called on.\<close>

definition machine_script :: "engine \<Rightarrow> input_flag \<Rightarrow> context_flag \<Rightarrow> ev_val list \<Rightarrow> nat \<Rightarrow> evals \<Rightarrow> nat + ev_result" where
  "machine_script en inp ctx args holder s =
     (case inp of
        Compile_code \<Rightarrow>
          (let filename = (if filename_index inp ctx < length args then en_to_string en (ev_arg args (filename_index inp ctx)) else anonymous_name)
           in case en_compile en (en_to_string en (ev_arg args 0)) filename of Some script \<Rightarrow> Inl script | None \<Rightarrow> Inr Ev_rethrow)
      | Unwrap_external \<Rightarrow>
          (case script_of s holder of
             None \<Rightarrow> Inr (Ev_error ''Must be called as a method of Script.'')
           | Some None \<Rightarrow> Inr (Ev_error (quoted ''this'' @ '' must be a result of previous new Script(code) call.''))
           | Some (Some script) \<Rightarrow> Inl script))"

definition eval_machine ::
  "engine \<Rightarrow> input_flag \<Rightarrow> context_flag \<Rightarrow> output_flag \<Rightarrow> ev_val list \<Rightarrow> nat \<Rightarrow> nat \<Rightarrow> evals \<Rightarrow> ev_result \<times> evals" where
  "eval_machine en inp ctx outp args holder this_global s =
     (if inp = Compile_code \<and> length args < 1 then (Ev_type_error (''needs at least '' @ quoted ''code'' @ '' argument.''), s)
      else if ctx = User_context \<and> length args < sandbox_index inp + 1 then (Ev_type_error (''needs a '' @ quoted ''context'' @ '' argument.''), s)
      else case enter_context inp ctx args s of
        None \<Rightarrow> (Ev_abort, s)
      | Some (sg, s) \<Rightarrow>
          (case machine_script en inp ctx args holder s of
             Inr e \<Rightarrow> (e, s)
           | Inl script \<Rightarrow>
               (case (if outp = Return_result
                  then (case en_run en script (case sg of Some (sandbox, g) \<Rightarrow> g | None \<Rightarrow> this_global) (objects_of s) of
                      (r, h) \<Rightarrow> (case r of Some v \<Rightarrow> Inl v | None \<Rightarrow> Inr Ev_rethrow, s\<lparr>objects_of := h\<rparr>))
                  else (case script_of s holder of
                      None \<Rightarrow> (Inr (Ev_error ''Must be called as a method of Script.''), s)
                    | Some _ \<Rightarrow> (Inl (Ev_object holder), s\<lparr>script_of := (script_of s)(holder \<mapsto> Some script)\<rparr>))) of
                  (Inr e, s) \<Rightarrow>
                    (e, if outp = Return_result \<and> ctx = New_context
                        then (case sg of Some (sandbox, g) \<Rightarrow> leave_context ctx g s | None \<Rightarrow> s) else s)
                | (Inl v, s) \<Rightarrow>
                    (Ev_value v, case sg of None \<Rightarrow> s
                      | Some (sandbox, g) \<Rightarrow> leave_context ctx g (s\<lparr>objects_of := copy_object g sandbox (objects_of s)\<rparr>)))))"

text \<open>The methods: those of \<open>Script\<close> objects, and those of the constructor, which compile.\<close>

definition run_in_context where "run_in_context en = eval_machine en Unwrap_external User_context Return_result"
definition run_in_this_context where "run_in_this_context en = eval_machine en Unwrap_external This_context Return_result"
definition run_in_new_context where "run_in_new_context en = eval_machine en Unwrap_external New_context Return_result"
definition compile_run_in_context where "compile_run_in_context en = eval_machine en Compile_code User_context Return_result"
definition compile_run_in_this_context where "compile_run_in_this_context en = eval_machine en Compile_code This_context Return_result"
definition compile_run_in_new_context where "compile_run_in_new_context en = eval_machine en Compile_code New_context Return_result"

definition wrapped_script_new :: "engine \<Rightarrow> ev_val list \<Rightarrow> nat \<Rightarrow> nat \<Rightarrow> evals \<Rightarrow> ev_result \<times> evals" where
  "wrapped_script_new en args holder this_global s =
     eval_machine en Compile_code This_context Wrap_external args holder this_global (s\<lparr>script_of := (script_of s)(holder \<mapsto> None)\<rparr>)"

section \<open>Copies\<close>

definition redirect :: "nat \<Rightarrow> nat \<Rightarrow> ev_val \<Rightarrow> ev_val" where
  "redirect src dst v = (if v = Ev_object src then Ev_object dst else v)"

lemma map_of_set_prop: "map_of (set_prop key v ps) k = (if k = key then Some v else map_of ps k)"
proof (induction ps)
  case Nil then show ?case by (simp add: set_prop_def)
next
  case (Cons p ps)
  have "key \<notin> fst ` set ps \<Longrightarrow> map (\<lambda>p. if fst p = key then (key, v) else p) ps = ps"
    by (induction ps) auto
  then show ?case using Cons by (cases p) (auto simp: set_prop_def split: if_splits)
qed

lemma get_set_prop: "get_prop k (set_prop key v ps) = (if k = key then v else get_prop k ps)"
  by (simp add: get_prop_def map_of_set_prop)

lemma copy_props_other [simp]: "i \<noteq> dst \<Longrightarrow> copy_props src dst keys h i = h i"
  by (induction keys arbitrary: h) (simp_all add: Let_def)

lemma get_copy_props:
  "src \<noteq> dst \<Longrightarrow> get_prop k (copy_props src dst keys h dst) =
     (if k \<in> set keys then redirect src dst (get_prop k (h src)) else get_prop k (h dst))"
  by (induction keys arbitrary: h) (simp_all add: get_set_prop redirect_def Let_def)

lemma copy_object_other [simp]: "i \<noteq> dst \<Longrightarrow> copy_object src dst h i = h i"
  by (simp add: copy_object_def)

lemma get_copy_object:
  "src \<noteq> dst \<Longrightarrow> get_prop k (copy_object src dst h dst) =
     (if k \<in> fst ` set (h src) then redirect src dst (get_prop k (h src)) else get_prop k (h dst))"
  by (simp add: copy_object_def get_copy_props)

section \<open>A run in a context of its own\<close>

lemma enter_new:
  assumes "ev_arg args (sandbox_index inp) = Ev_object n"
  shows "enter_context inp New_context args s = Some (Some (n, fresh_object s),
    s\<lparr>fresh_object := fresh_object s + 1, entered := fresh_object s # entered s, kept := fresh_object s # kept s,
      objects_of := copy_object n (fresh_object s) ((objects_of s)(fresh_object s := []))\<rparr>)"
  using assms by (simp add: enter_context_def new_object_def)

lemma machine_script_inl:
  "machine_script en inp ctx args holder s = Inr e \<Longrightarrow> e \<noteq> Ev_value v"
  by (auto simp: machine_script_def Let_def split: input_flag.splits option.splits)


text \<open>A script that assigns the global object to \<open>a\<close>.\<close>

definition example_engine :: engine where
  "example_engine = \<lparr>en_compile = (\<lambda>code name. if code = [] then None else Some 1),
     en_run = (\<lambda>script g h. (Some Ev_undefined, h(g := set_prop [0x61] (Ev_object g) (h g)))), en_to_string = (\<lambda>v. case v of Ev_string x \<Rightarrow> x | _ \<Rightarrow> [])\<rparr>"

definition example_evals :: evals where
  "example_evals = \<lparr>objects_of = (\<lambda>_. [])(0 := [([0x62], Ev_object 0)]), fresh_object = 1, entered = [], kept = [],
     context_of = (\<lambda>_. None), script_of = (\<lambda>_. None)\<rparr>"


section \<open>Failures\<close>

text \<open>
  After a syntax error the new context stays entered and is not disposed of; after an exception in a
  context of the caller's that context stays entered.\<close>

lemma failure_stays_entered:
  assumes "en_compile en (en_to_string en code) (en_to_string en file) = None"
  shows "\<exists>s'. compile_run_in_new_context en [code, Ev_object n, file] holder main s = (Ev_rethrow, s') \<and>
      entered s' = fresh_object s # entered s \<and> kept s' = fresh_object s # kept s"
  using assms
  by (simp add: compile_run_in_new_context_def eval_machine_def enter_new ev_arg_def sandbox_index_def machine_script_def filename_index_def Let_def)

lemma exception_stays_entered:
  assumes "context_of s n = Some g" "script_of s holder = Some (Some script)" "\<And>h. fst (en_run en script g h) = None"
  shows "\<exists>s'. run_in_context en [Ev_object n] holder main s = (Ev_rethrow, s') \<and> entered s' = g # entered s"
proof -
  obtain h where "en_run en script g (copy_object n g (objects_of s)) = (None, h)" by (metis assms(3) prod.collapse)
  then show ?thesis using assms(1,2)
    by (simp add: run_in_context_def eval_machine_def enter_context_def ev_arg_def sandbox_index_def machine_script_def)
qed

text \<open>In a context of the caller's the name of the file is taken from the context object.\<close>

lemma user_context_filename:
  assumes "context_of s n = Some g"
  shows "machine_script en Compile_code User_context [code, Ev_object n, file] holder s =
    (case en_compile en (en_to_string en code) (en_to_string en (Ev_object n)) of Some script \<Rightarrow> Inl script | None \<Rightarrow> Inr Ev_rethrow)"
  by (simp add: machine_script_def filename_index_def sandbox_index_def ev_arg_def Let_def)

lemma plain_object_aborts:
  "context_of s n = None \<Longrightarrow> fst (compile_run_in_context en [code, Ev_object n] holder main s) = Ev_abort"
  by (simp add: compile_run_in_context_def eval_machine_def enter_context_def ev_arg_def sandbox_index_def)

end
