(* ===== verification/NodeStdio.thy ===== *)
theory NodeStdio
  imports NodeProcess Errno
begin

text \<open>
  The standard streams (\<open>src/node_stdio.cc\<close>): the raw mode of the terminal and how it is put back, the flags of
  the descriptors 0 and 1, and the loop that writes to standard error. The terminal and the flags are state;
  the answers of the system are parameters.
\<close>

section \<open>The raw mode of the terminal\<close>

record termios =
  c_iflag :: u32
  c_oflag :: u32
  c_cflag :: u32
  c_lflag :: u32
  c_vmin :: u8
  c_vtime :: u8

text \<open>The masks of the platform.\<close>

record tty_masks =
  m_iflag :: u32 \<comment> \<open>\<open>BRKINT | ICRNL | INPCK | ISTRIP | IXON\<close>\<close>
  m_onlcr :: u32
  m_cs8 :: u32
  m_lflag :: u32 \<comment> \<open>\<open>ECHO | ICANON | IEXTEN | ISIG\<close>\<close>

definition make_raw :: "tty_masks \<Rightarrow> termios \<Rightarrow> termios" where
  "make_raw M t = t\<lparr>c_iflag := c_iflag t AND NOT (m_iflag M), c_oflag := c_oflag t OR m_onlcr M, c_cflag := c_cflag t OR m_cs8 M,
     c_lflag := c_lflag t AND NOT (m_lflag M), c_vmin := 1, c_vtime := 0\<rparr>"

record stdio =
  tty :: termios
  orig_termios :: termios
  rawmode :: bool
  stdin_flags :: "u32 option" \<comment> \<open>\<open>None\<close>: \<open>-1\<close>\<close>
  stdout_flags :: "u32 option"
  fd_flags :: "nat \<Rightarrow> u32"

text \<open>Whether \<open>tcgetattr\<close> and \<open>tcsetattr\<close> succeed; the result is \<open>False\<close> for \<open>ENOTTY\<close>.\<close>

definition enable_raw_mode :: "tty_masks \<Rightarrow> bool \<Rightarrow> bool \<Rightarrow> stdio \<Rightarrow> bool \<times> stdio" where
  "enable_raw_mode M get_ok set_ok s =
     (if rawmode s then (True, s)
      else if \<not> get_ok then (False, s)
      else let s = s\<lparr>orig_termios := tty s\<rparr>
      in if \<not> set_ok then (False, s) else (True, s\<lparr>tty := make_raw M (tty s), rawmode := True\<rparr>))"

definition disable_raw_mode :: "bool \<Rightarrow> stdio \<Rightarrow> stdio" where
  "disable_raw_mode set_ok s = (if rawmode s \<and> set_ok then s\<lparr>tty := orig_termios s, rawmode := False\<rparr> else s)"

definition set_raw_mode :: "tty_masks \<Rightarrow> bool \<Rightarrow> bool \<Rightarrow> int \<Rightarrow> js_value list \<Rightarrow> stdio \<Rightarrow> js_value outcome \<times> stdio" where
  "set_raw_mode M get_ok set_ok enotty args s =
     (if arg args 0 = JBool False
      then (let s = disable_raw_mode set_ok s in (Return (JBool (rawmode s)), s))
      else case enable_raw_mode M get_ok set_ok s of
        (ok, s) \<Rightarrow> if \<not> ok then (Throw (JsErrno enotty ''EnableRawMode'' None), s) else (Return (JBool (rawmode s)), s))"

definition handle_sigcont :: "tty_masks \<Rightarrow> bool \<Rightarrow> bool \<Rightarrow> stdio \<Rightarrow> stdio" where
  "handle_sigcont M get_ok set_ok s =
     (if rawmode s then snd (enable_raw_mode M get_ok set_ok (s\<lparr>rawmode := False\<rparr>)) else s)"

section \<open>Flags\<close>

text \<open>\<open>O_NONBLOCK\<close>. The answers of \<open>isatty\<close> and of the two calls of \<open>fcntl\<close>.\<close>

definition open_stdin :: "u32 \<Rightarrow> bool \<Rightarrow> bool \<Rightarrow> bool \<Rightarrow> stdio \<Rightarrow> js_value outcome \<times> stdio" where
  "open_stdin nonblock isatty get_ok set_ok s =
     (if isatty
      then (if \<not> get_ok then (Throw (JsError ''fcntl error!''), s\<lparr>stdin_flags := None\<rparr>)
        else let s = s\<lparr>stdin_flags := Some (fd_flags s 0)\<rparr>
        in if \<not> set_ok then (Throw (JsError ''fcntl error!''), s)
        else (Return (jint 0), s\<lparr>fd_flags := (fd_flags s)(0 := fd_flags s 0 OR nonblock)\<rparr>))
      else (Return (jint 0), s))"

definition stdio_initialize :: "u32 \<Rightarrow> bool \<Rightarrow> stdio \<Rightarrow> stdio" where
  "stdio_initialize nonblock isatty s =
     (if isatty then s\<lparr>stdout_flags := Some (fd_flags s 1), fd_flags := (fd_flags s)(1 := fd_flags s 1 OR nonblock)\<rparr> else s)"

definition stdio_flush :: "u32 \<Rightarrow> stdio \<Rightarrow> stdio" where
  "stdio_flush nonblock s =
     (let s = (case stdin_flags s of Some f \<Rightarrow> s\<lparr>fd_flags := (fd_flags s)(0 := f AND NOT nonblock)\<rparr> | None \<Rightarrow> s)
      in case stdout_flags s of Some f \<Rightarrow> s\<lparr>fd_flags := (fd_flags s)(1 := f AND NOT nonblock)\<rparr> | None \<Rightarrow> s)"

text \<open>The kinds of file \<open>IsBlocking\<close> tells apart; \<open>None\<close>: \<open>fstat\<close> has failed.\<close>

datatype file_kind = Socket_kind | Fifo_kind | Other_kind

definition is_blocking :: "bool \<Rightarrow> file_kind option \<Rightarrow> bool" where
  "is_blocking isatty st = (if isatty then False else case st of None \<Rightarrow> True | Some k \<Rightarrow> k \<noteq> Socket_kind \<and> k \<noteq> Fifo_kind)"

section \<open>Windows and terminals\<close>

text \<open>\<open>unsigned short\<close> fields.\<close>

definition get_window_size :: "conv \<Rightarrow> (int \<Rightarrow> (nat \<times> nat) + int) \<Rightarrow> js_value list \<Rightarrow> (nat \<times> nat) outcome" where
  "get_window_size h ioctl args =
     (case ioctl (wrap32 (integer_value h (arg args 0))) of Inl ws \<Rightarrow> Return ws | Inr e \<Rightarrow> Throw (JsErrno e ''ioctl'' None))"

definition set_window_size :: "conv \<Rightarrow> (int \<Rightarrow> nat \<times> nat \<Rightarrow> int) \<Rightarrow> js_value list \<Rightarrow> bool outcome" where
  "set_window_size h ioctl args =
     (let e = ioctl (wrap32 (integer_value h (arg args 0)))
        (nat (wrap32 (integer_value h (arg args 1)) mod 65536), nat (wrap32 (integer_value h (arg args 2)) mod 65536))
      in if e \<noteq> 0 then Throw (JsErrno e ''ioctl'' None) else Return True)"

definition is_a_tty :: "conv \<Rightarrow> (int \<Rightarrow> bool) \<Rightarrow> js_value list \<Rightarrow> bool" where
  "is_a_tty h isatty args = isatty (wrap32 (integer_value h (arg args 0)))"

definition open_pty :: "(int \<times> int) + int \<Rightarrow> (int \<times> int) outcome" where
  "open_pty answer = (case answer of Inr e \<Rightarrow> Throw (JsErrno e ''openpty'' None) | Inl fds \<Rightarrow> Return fds)"

section \<open>Writing to standard error\<close>

text \<open>
  The loop of \<open>WriteError\<close> over the answers of \<open>write\<close>: the number of bytes taken or the error. The result is
  what has been written, and whether the loop has ended, failed, or asks for more answers.
\<close>

datatype write_end = Written | Write_failed int | Write_waits

fun write_loop :: "platform \<Rightarrow> u8 list \<Rightarrow> (nat + int) list \<Rightarrow> u8 list \<times> write_end" where
  "write_loop P msg answers =
     (if msg = [] then ([], Written)
      else case answers of
        [] \<Rightarrow> ([], Write_waits)
      | Inr e # rest \<Rightarrow>
          if e = pp_value P ''EAGAIN'' \<or> e = pp_value P ''EIO'' then write_loop P msg rest else ([], Write_failed e)
      | Inl n # rest \<Rightarrow> (case write_loop P (drop n msg) rest of (out, e) \<Rightarrow> (take n msg @ out, e)))"

declare write_loop.simps [simp del]

definition write_error :: "conv \<Rightarrow> platform \<Rightarrow> (nat + int) list \<Rightarrow> js_value list \<Rightarrow> u8 list \<times> write_end" where
  "write_error h P answers args =
     (if length args < 1 then ([], Written) else write_loop P (utf8_value (to_string h (arg args 0))) answers)"

section \<open>The terminal is put back\<close>

text \<open>What changes the terminal between the start and the end of the process.\<close>

datatype tty_event = Set_raw "js_value list" | Continued

definition tty_event :: "tty_masks \<Rightarrow> stdio \<Rightarrow> tty_event \<Rightarrow> stdio" where
  "tty_event M s e = (case e of Set_raw args \<Rightarrow> snd (set_raw_mode M True True 0 args s) | Continued \<Rightarrow> handle_sigcont M True True s)"

lemma raw_mode_kept:
  assumes "rawmode s \<Longrightarrow> orig_termios s = t \<and> tty s = make_raw M t" "\<not> rawmode s \<Longrightarrow> tty s = t"
  shows "(rawmode (tty_event M s (Set_raw args)) \<longrightarrow> orig_termios (tty_event M s (Set_raw args)) = t \<and> tty (tty_event M s (Set_raw args)) = make_raw M t) \<and>
    (\<not> rawmode (tty_event M s (Set_raw args)) \<longrightarrow> tty (tty_event M s (Set_raw args)) = t)"
  using assms by (auto simp: tty_event_def set_raw_mode_def enable_raw_mode_def disable_raw_mode_def Let_def)

text \<open>
  Whatever sequence of calls of \<open>setRawMode\<close> the program makes, the terminal is raw exactly when \<open>rawmode\<close> says
  so, and \<open>DisableRawMode\<close> at the end of the process leaves it as it was at the start.\<close>

theorem terminal_restored:
  assumes "\<not> rawmode s" "s' = foldl (tty_event M) s (map Set_raw calls)"
  shows "tty (disable_raw_mode True s') = tty s \<and> tty s' = (if rawmode s' then make_raw M (tty s) else tty s)"
proof -
  define t where "t = tty s"
  have "(rawmode u \<longrightarrow> orig_termios u = t \<and> tty u = make_raw M t) \<and> (\<not> rawmode u \<longrightarrow> tty u = t) \<Longrightarrow>
      (let u' = foldl (tty_event M) u (map Set_raw calls) in
        (rawmode u' \<longrightarrow> orig_termios u' = t \<and> tty u' = make_raw M t) \<and> (\<not> rawmode u' \<longrightarrow> tty u' = t))" for u
  proof (induction calls arbitrary: u)
    case (Cons c calls)
    have "(rawmode (tty_event M u (Set_raw c)) \<longrightarrow> orig_termios (tty_event M u (Set_raw c)) = t \<and> tty (tty_event M u (Set_raw c)) = make_raw M t) \<and>
        (\<not> rawmode (tty_event M u (Set_raw c)) \<longrightarrow> tty (tty_event M u (Set_raw c)) = t)"
      using Cons.prems by (intro raw_mode_kept) auto
    from Cons.IH [OF this] show ?case by simp
  qed simp
  from this [of s] have "(rawmode s' \<longrightarrow> orig_termios s' = t \<and> tty s' = make_raw M t) \<and> (\<not> rawmode s' \<longrightarrow> tty s' = t)"
    using assms by (simp add: t_def Let_def)
  then show ?thesis by (auto simp: disable_raw_mode_def t_def)
qed

definition example_stdio :: stdio where
  "example_stdio = \<lparr>tty = \<lparr>c_iflag = 0x500, c_oflag = 5, c_cflag = 0xBF, c_lflag = 0x8A3B, c_vmin = 1, c_vtime = 0\<rparr>,
     orig_termios = \<lparr>c_iflag = 0, c_oflag = 0, c_cflag = 0, c_lflag = 0, c_vmin = 0, c_vtime = 0\<rparr>,
     rawmode = False, stdin_flags = None, stdout_flags = None, fd_flags = (\<lambda>_. 0)\<rparr>"

definition linux_masks :: tty_masks where
  "linux_masks = \<lparr>m_iflag = 0x532, m_onlcr = 4, m_cs8 = 0x30, m_lflag = 0x800B\<rparr>"

theorem terminal_restored_witness:
  "c_lflag (tty (disable_raw_mode True (foldl (tty_event linux_masks) example_stdio (map Set_raw [[JBool True], [JBool False], []])))) = 0x8A3B"
  using terminal_restored [of example_stdio _ linux_masks "[[JBool True], [JBool False], []]", OF _ refl]
  by (simp add: example_stdio_def)

text \<open>
  A process that is stopped and continued while the terminal stays raw takes the raw settings for the
  original ones.\<close>

lemma continued_forgets:
  assumes "\<not> rawmode s" "make_raw M (tty s) \<noteq> tty s"
  shows "tty (disable_raw_mode True (foldl (tty_event M) s [Set_raw [JBool True], Continued])) \<noteq> tty s"
  using assms by (simp add: tty_event_def set_raw_mode_def enable_raw_mode_def disable_raw_mode_def handle_sigcont_def Let_def)

section \<open>Flags are put back\<close>

lemma flags_restored:
  assumes "fd_flags s 0 AND nonblock = 0" "fd_flags s 1 AND nonblock = 0" "stdin_flags s = None" "stdout_flags s = None"
  shows "fd_flags (stdio_flush nonblock (snd (open_stdin nonblock a g b (stdio_initialize nonblock c s)))) = fd_flags s"
proof -
  have d: "f AND NOT nonblock = f" if "f AND nonblock = 0" for f :: u32
  proof (rule bit_word_eqI)
    fix k assume "k < LENGTH(32)"
    have "\<not> (bit f k \<and> bit nonblock k)" using that unfolding bit_and_iff [symmetric] by simp
    then show "bit (f AND NOT nonblock) k = bit f k"
      using \<open>k < LENGTH(32)\<close> by (auto simp: bit_and_iff bit_not_iff)
  qed
  show ?thesis
    using assms d [OF assms(1)] d [OF assms(2)]
    by (auto simp: stdio_flush_def open_stdin_def stdio_initialize_def Let_def fun_eq_iff)
qed

section \<open>Everything is written\<close>

definition retried :: "platform \<Rightarrow> nat + int \<Rightarrow> bool" where
  "retried P a = (case a of Inl n \<Rightarrow> True | Inr e \<Rightarrow> e = pp_value P ''EAGAIN'' \<or> e = pp_value P ''EIO'')"

definition progress :: "(nat + int) list \<Rightarrow> nat" where
  "progress answers = length (filter (\<lambda>a. case a of Inl n \<Rightarrow> 0 < n | Inr e \<Rightarrow> False) answers)"

lemma write_loop_Nil [simp]: "write_loop P [] answers = ([], Written)"
  by (simp add: write_loop.simps)

lemma write_loop_all:
  "list_all (retried P) answers \<Longrightarrow> length msg \<le> progress answers \<Longrightarrow> write_loop P msg answers = (msg, Written)"
proof (induction answers arbitrary: msg)
  case Nil then show ?case by (simp add: progress_def)
next
  case (Cons a answers)
  show ?case
  proof (cases a)
    case (Inl n)
    have "length (drop n msg) \<le> progress answers" using Cons.prems(2) Inl by (auto simp: progress_def split: if_splits)
    then have "write_loop P (drop n msg) answers = (drop n msg, Written)" using Cons.IH Cons.prems(1) by simp
    then show ?thesis using Inl by (subst write_loop.simps) simp
  next
    case (Inr e)
    then have "write_loop P msg answers = (msg, Written)" using Cons by (simp add: progress_def)
    then show ?thesis using Inr Cons.prems(1) by (subst write_loop.simps) (auto simp: retried_def)
  qed
qed

lemma write_loop_prefix: "\<exists>rest. msg = fst (write_loop P msg answers) @ rest"
proof (induction answers arbitrary: msg)
  case Nil then show ?case by (simp add: write_loop.simps)
next
  case (Cons a answers)
  show ?case
  proof (cases a)
    case (Inl n)
    obtain rest where "drop n msg = fst (write_loop P (drop n msg) answers) @ rest" using Cons.IH by blast
    then have "msg = (take n msg @ fst (write_loop P (drop n msg) answers)) @ rest" by (metis append.assoc append_take_drop_id)
    then show ?thesis using Inl by (subst write_loop.simps) (auto split: prod.splits)
  next
    case (Inr e) then show ?thesis using Cons.IH [of msg] by (subst write_loop.simps) auto
  qed
qed

text \<open>
  What \<open>writeError\<close> has written is always a beginning of the message; and it writes all of it and returns as
  soon as \<open>write\<close> has made progress as many times as the message has bytes, if it fails only in the two
  ways that are tried again.\<close>

theorem write_error_writes:
  assumes "list_all (retried P) answers" "length (utf8_value (to_string h v)) \<le> progress answers"
  shows "write_error h P answers [v] = (utf8_value (to_string h v), Written)"
  using assms by (simp add: write_error_def write_loop_all)

theorem write_error_writes_witness:
  "\<forall>h. write_error h (\<lambda>_. Some 11) [Inr 11, Inl 1, Inr 11, Inl 5] [JString [0x61, 0x62]] = ([0x61, 0x62], Written)"
proof
  fix h
  have "utf8_value (to_string h (JString [0x61, 0x62])) = [0x61, 0x62]" by (simp add: utf8_value_def utf8_bytes_def utf8_encode_def)
  then show "write_error h (\<lambda>_. Some 11) [Inr 11, Inl 1, Inr 11, Inl 5] [JString [0x61, 0x62]] = ([0x61, 0x62], Written)"
    using write_error_writes [of "\<lambda>_. Some 11" "[Inr 11, Inl 1, Inr 11, Inl 5]" h "JString [0x61, 0x62]"]
    by (simp add: retried_def progress_def pp_value_def)
qed

end
