(* ===== verification/EvAsync.thy ===== *)
theory EvAsync
  imports Main
begin

text \<open>
  How a signal handler and another thread wake the event loop (\<open>deps/libev/ev.c\<close>): \<open>ev_feed_signal\<close>,
  \<open>ev_async_send\<close>, \<open>evpipe_write\<close> and \<open>pipecb\<close>. The senders and the loop run at the same time, one access of
  a shared variable at a step. Two channels share one pipe: signals, by number less one, and async watchers,
  by place in \<open>asyncs\<close>.
\<close>

datatype channel = Sig | Async

text \<open>Where a sender is: \<open>sent\<close> has been set; \<open>*flag\<close> was clear; \<open>*flag\<close> has been set.\<close>

datatype sender = S_idle | S_check channel | S_set channel | S_write channel

text \<open>
  Where the loop is: outside \<open>pipecb\<close>; before the test of a flag; before it is cleared; in the loop, with the
  places below \<open>k\<close> to do; having seen place \<open>k\<close> sent.
\<close>

datatype receiver = M_out | M_test channel | M_reset channel | M_scan channel nat | M_feed channel nat

record pipe =
  sent :: "channel \<Rightarrow> nat \<Rightarrow> bool" \<comment> \<open>\<open>signals[i].pending\<close>, \<open>asyncs[i]->sent\<close>\<close>
  flag :: "channel \<Rightarrow> bool" \<comment> \<open>\<open>sig_pending\<close>, \<open>async_pending\<close>\<close>
  bytes :: nat
  receiver :: receiver
  senders :: "sender list"
  fed :: "(channel \<times> nat) list" \<comment> \<open>the events fed, the latest last\<close>

text \<open>The variant of the pipe: an \<open>eventfd\<close> is emptied by a read, a pipe gives one byte and may be full.\<close>

record variant =
  eventfd :: bool
  room :: nat
  places :: "channel \<Rightarrow> nat" \<comment> \<open>\<open>EV_NSIG - 1\<close>, \<open>asynccnt\<close>\<close>

definition start_send :: "channel \<Rightarrow> nat \<Rightarrow> nat \<Rightarrow> pipe \<Rightarrow> pipe" where
  "start_send c i t p = p\<lparr>sent := (sent p)(c := (sent p c)(i := True)), senders := (senders p)[t := S_check c]\<rparr>"

text \<open>\<open>evpipe_write\<close>.\<close>

definition sender_step :: "variant \<Rightarrow> nat \<Rightarrow> pipe \<Rightarrow> pipe" where
  "sender_step V t p =
     (case senders p ! t of
        S_idle \<Rightarrow> p
      | S_check c \<Rightarrow> p\<lparr>senders := (senders p)[t := (if flag p c then S_idle else S_set c)]\<rparr>
      | S_set c \<Rightarrow> p\<lparr>flag := (flag p)(c := True), senders := (senders p)[t := S_write c]\<rparr>
      | S_write c \<Rightarrow> p\<lparr>bytes := (if \<not> eventfd V \<and> room V \<le> bytes p then bytes p else bytes p + 1), senders := (senders p)[t := S_idle]\<rparr>)"

text \<open>\<open>pipecb\<close>, from the read of the pipe to the end.\<close>

definition after_channel :: "channel \<Rightarrow> receiver" where
  "after_channel c = (case c of Sig \<Rightarrow> M_test Async | Async \<Rightarrow> M_out)"

definition receiver_step :: "variant \<Rightarrow> pipe \<Rightarrow> pipe" where
  "receiver_step V p =
     (case receiver p of
        M_out \<Rightarrow> p\<lparr>bytes := (if eventfd V then 0 else bytes p - 1), receiver := M_test Sig\<rparr>
      | M_test c \<Rightarrow> p\<lparr>receiver := (if flag p c then M_reset c else after_channel c)\<rparr>
      | M_reset c \<Rightarrow> p\<lparr>flag := (flag p)(c := False), receiver := M_scan c (places V c)\<rparr>
      | M_scan c 0 \<Rightarrow> p\<lparr>receiver := after_channel c\<rparr>
      | M_scan c (Suc k) \<Rightarrow> p\<lparr>receiver := (if sent p c k then M_feed c k else M_scan c k)\<rparr>
      | M_feed c k \<Rightarrow> p\<lparr>sent := (sent p)(c := (sent p c)(k := False)), fed := fed p @ [(c, k)], receiver := M_scan c k\<rparr>)"

inductive pipe_step :: "variant \<Rightarrow> pipe \<Rightarrow> pipe \<Rightarrow> bool" for V where
  send: "t < length (senders p) \<Longrightarrow> senders p ! t = S_idle \<Longrightarrow> i < places V c \<Longrightarrow> pipe_step V p (start_send c i t p)"
| sender: "t < length (senders p) \<Longrightarrow> pipe_step V p (sender_step V t p)"
| ready: "receiver p = M_out \<Longrightarrow> 0 < bytes p \<Longrightarrow> pipe_step V p (receiver_step V p)"
| receiver: "receiver p \<noteq> M_out \<Longrightarrow> pipe_step V p (receiver_step V p)"

definition pipe_start :: "nat \<Rightarrow> pipe" where
  "pipe_start n = \<lparr>sent = (\<lambda>_ _. False), flag = (\<lambda>_. False), bytes = 0, receiver = M_out, senders = replicate n S_idle, fed = []\<rparr>"

section \<open>Nothing sent is forgotten\<close>

text \<open>The receiver has still to look at the flag of a channel.\<close>

fun before_reset :: "channel \<Rightarrow> receiver \<Rightarrow> bool" where
  "before_reset c M_out = False"
| "before_reset c (M_test d) = (c = d \<or> d = Sig)"
| "before_reset c (M_reset d) = (c = d \<or> d = Sig)"
| "before_reset c (M_scan d k) = (c \<noteq> d \<and> d = Sig)"
| "before_reset c (M_feed d k) = (c \<noteq> d \<and> d = Sig)"

text \<open>It is in the loop of the channel and has not passed the place.\<close>

fun will_scan :: "channel \<Rightarrow> nat \<Rightarrow> receiver \<Rightarrow> bool" where
  "will_scan c i (M_scan d k) = (c = d \<and> i < k)"
| "will_scan c i (M_feed d k) = (c = d \<and> i \<le> k)"
| "will_scan c i _ = False"

definition flag_noticed :: "pipe \<Rightarrow> channel \<Rightarrow> bool" where
  "flag_noticed p c \<longleftrightarrow> (flag p c \<longrightarrow> 0 < bytes p \<or> S_write c \<in> set (senders p) \<or> before_reset c (receiver p))"

definition sent_noticed :: "variant \<Rightarrow> pipe \<Rightarrow> channel \<Rightarrow> nat \<Rightarrow> bool" where
  "sent_noticed V p c i \<longleftrightarrow> (sent p c i \<longrightarrow> i < places V c \<and>
     (flag p c \<or> S_check c \<in> set (senders p) \<or> S_set c \<in> set (senders p) \<or> will_scan c i (receiver p)))"

definition pipe_ok :: "variant \<Rightarrow> pipe \<Rightarrow> bool" where
  "pipe_ok V p \<longleftrightarrow> (\<forall>c. flag_noticed p c) \<and> (\<forall>c i. sent_noticed V p c i)"

lemma not_channel [simp]: "c \<noteq> Async \<longleftrightarrow> c = Sig" "c \<noteq> Sig \<longleftrightarrow> c = Async"
  by (cases c; simp)+

lemma pipe_okI:
  assumes "\<And>c. flag_noticed p c" "\<And>c i. sent_noticed V p c i" shows "pipe_ok V p"
  using assms by (simp add: pipe_ok_def)

lemma in_set_update:
  assumes "t < length xs" "xs ! t \<noteq> x" shows "x \<in> set (xs[t := y]) \<longleftrightarrow> x = y \<or> x \<in> set xs"
  using assms by (metis in_set_conv_nth length_list_update nth_list_update_neq set_update_memI set_update_subset_insert insert_iff subsetD)

lemma pipe_ok_send:
  assumes "pipe_ok V p" "t < length (senders p)" "senders p ! t = S_idle" "i < places V c"
  shows "pipe_ok V (start_send c i t p)"
proof (rule pipe_okI)
  fix d j
  have "flag_noticed p d" "sent_noticed V p d j" using assms(1) by (simp_all add: pipe_ok_def)
  then show "flag_noticed (start_send c i t p) d" "sent_noticed V (start_send c i t p) d j"
    using assms(2-4)
    by (cases "d = c"; cases "j = i"; simp add: flag_noticed_def sent_noticed_def start_send_def in_set_update; blast)+
qed

lemma pipe_ok_sender:
  assumes "pipe_ok V p" "t < length (senders p)" "0 < room V"
  shows "pipe_ok V (sender_step V t p)"
proof (rule pipe_okI)
  fix d j
  have ok: "flag_noticed p d" "sent_noticed V p d j" using assms(1) by (simp_all add: pipe_ok_def)
  have "flag_noticed (sender_step V t p) d \<and> sent_noticed V (sender_step V t p) d j"
  proof (cases "senders p ! t")
    case S_idle
    then have e: "sender_step V t p = p" by (simp add: sender_step_def)
    show ?thesis using ok by (simp add: e)
  next
    case (S_check c)
    then have e: "sender_step V t p = p\<lparr>senders := (senders p)[t := (if flag p c then S_idle else S_set c)]\<rparr>"
      by (simp add: sender_step_def)
    have "flag_noticed (sender_step V t p) d" using ok(1) S_check assms(2) by (simp add: e flag_noticed_def in_set_update)
    moreover have "sent_noticed V (sender_step V t p) d j" using ok(2) S_check assms(2)
      by (cases "d = c") (auto simp: e sent_noticed_def in_set_update set_update_memI)
    ultimately show ?thesis ..
  next
    case (S_set c)
    then have e: "sender_step V t p = p\<lparr>flag := (flag p)(c := True), senders := (senders p)[t := S_write c]\<rparr>"
      by (simp add: sender_step_def)
    have "flag_noticed (sender_step V t p) d" using ok(1) S_set assms(2)
      by (cases "d = c") (auto simp: e flag_noticed_def in_set_update set_update_memI)
    moreover have "sent_noticed V (sender_step V t p) d j" using ok(2) S_set assms(2)
      by (cases "d = c") (auto simp: e sent_noticed_def in_set_update)
    ultimately show ?thesis ..
  next
    case (S_write c)
    then have e: "sender_step V t p = p\<lparr>bytes := (if \<not> eventfd V \<and> room V \<le> bytes p then bytes p else bytes p + 1), senders := (senders p)[t := S_idle]\<rparr>"
      by (simp add: sender_step_def)
    have "flag_noticed (sender_step V t p) d" using assms(3) by (simp add: e flag_noticed_def)
    moreover have "sent_noticed V (sender_step V t p) d j" using ok(2) S_write assms(2) by (simp add: e sent_noticed_def in_set_update)
    ultimately show ?thesis ..
  qed
  then show "flag_noticed (sender_step V t p) d" "sent_noticed V (sender_step V t p) d j" by simp_all
qed

lemma pipe_ok_receiver:
  assumes "pipe_ok V p" "receiver p = M_out \<Longrightarrow> 0 < bytes p"
  shows "pipe_ok V (receiver_step V p)"
proof (cases "receiver p")
  case M_out
  then show ?thesis using assms unfolding pipe_ok_def flag_noticed_def sent_noticed_def receiver_step_def
    by (auto simp: channel.exhaust)
next
  case (M_test d)
  then show ?thesis using assms unfolding pipe_ok_def flag_noticed_def sent_noticed_def receiver_step_def after_channel_def
    by (cases d) (auto split: channel.splits)
next
  case (M_reset d)
  then show ?thesis using assms unfolding pipe_ok_def flag_noticed_def sent_noticed_def receiver_step_def by auto
next
  case (M_scan d k)
  then show ?thesis using assms unfolding pipe_ok_def flag_noticed_def sent_noticed_def receiver_step_def after_channel_def
    by (cases k; cases d) (auto simp: less_Suc_eq_le le_less split: channel.splits)
next
  case (M_feed d k)
  then show ?thesis using assms unfolding pipe_ok_def flag_noticed_def sent_noticed_def receiver_step_def
    by (auto simp: le_less)
qed

lemma pipe_ok_reachable:
  assumes "0 < room V" "(pipe_step V)\<^sup>*\<^sup>* (pipe_start n) p"
  shows "pipe_ok V p"
  using assms(2)
proof (induction rule: rtranclp_induct)
  case base then show ?case by (simp add: pipe_ok_def flag_noticed_def sent_noticed_def pipe_start_def)
next
  case (step p q)
  from step.hyps(2) show ?case
    by cases (use step.IH assms(1) in \<open>auto intro: pipe_ok_send pipe_ok_sender pipe_ok_receiver\<close>)
qed

section \<open>pipecb as a whole\<close>

definition feed :: "channel \<Rightarrow> nat \<Rightarrow> pipe \<Rightarrow> pipe" where
  "feed c k p = p\<lparr>sent := (sent p)(c := (sent p c)(k := False)), fed := fed p @ [(c, k)]\<rparr>"

fun scan_channel :: "channel \<Rightarrow> nat \<Rightarrow> pipe \<Rightarrow> pipe" where
  "scan_channel c 0 p = p"
| "scan_channel c (Suc k) p = scan_channel c k (if sent p c k then feed c k p else p)"

definition serve_channel :: "variant \<Rightarrow> channel \<Rightarrow> pipe \<Rightarrow> pipe" where
  "serve_channel V c p = (if flag p c then scan_channel c (places V c) (p\<lparr>flag := (flag p)(c := False)\<rparr>) else p)"

definition pipecb :: "variant \<Rightarrow> pipe \<Rightarrow> pipe" where
  "pipecb V p = serve_channel V Async (serve_channel V Sig (p\<lparr>bytes := (if eventfd V then 0 else bytes p - 1)\<rparr>))"

lemma scan_run:
  "\<exists>n \<le> 2 * k. (receiver_step V ^^ n) (p\<lparr>receiver := M_scan c k\<rparr>) = (scan_channel c k p)\<lparr>receiver := M_scan c 0\<rparr>"
proof (induction k arbitrary: p)
  case 0 show ?case by (rule exI [of _ 0]) simp
next
  case (Suc k)
  let ?q = "if sent p c k then feed c k p else p"
  obtain n where n: "n \<le> 2 * k" "(receiver_step V ^^ n) (?q\<lparr>receiver := M_scan c k\<rparr>) = (scan_channel c k ?q)\<lparr>receiver := M_scan c 0\<rparr>"
    using Suc.IH by blast
  define m where "m = (if sent p c k then 2 else 1 :: nat)"
  have "(receiver_step V ^^ m) (p\<lparr>receiver := M_scan c (Suc k)\<rparr>) = ?q\<lparr>receiver := M_scan c k\<rparr>"
    by (simp add: m_def receiver_step_def feed_def numeral_2_eq_2)
  then have "(receiver_step V ^^ (n + m)) (p\<lparr>receiver := M_scan c (Suc k)\<rparr>) = (scan_channel c (Suc k) p)\<lparr>receiver := M_scan c 0\<rparr>"
    using n(2) by (simp add: funpow_add)
  moreover have "n + m \<le> 2 * Suc k" using n(1) by (simp add: m_def)
  ultimately show ?case by blast
qed

lemma serve_run:
  "\<exists>n \<le> 2 * places V c + 3. (receiver_step V ^^ n) (p\<lparr>receiver := M_test c\<rparr>) = (serve_channel V c p)\<lparr>receiver := after_channel c\<rparr>"
proof (cases "flag p c")
  case False
  then have "(receiver_step V ^^ 1) (p\<lparr>receiver := M_test c\<rparr>) = (serve_channel V c p)\<lparr>receiver := after_channel c\<rparr>"
    by (simp add: receiver_step_def serve_channel_def)
  then show ?thesis by (intro exI [of _ 1]) simp
next
  case True
  let ?q = "p\<lparr>flag := (flag p)(c := False)\<rparr>"
  obtain n where n: "n \<le> 2 * places V c"
    "(receiver_step V ^^ n) (?q\<lparr>receiver := M_scan c (places V c)\<rparr>) = (scan_channel c (places V c) ?q)\<lparr>receiver := M_scan c 0\<rparr>"
    using scan_run by blast
  have a: "(receiver_step V ^^ 2) (p\<lparr>receiver := M_test c\<rparr>) = ?q\<lparr>receiver := M_scan c (places V c)\<rparr>"
    using True by (simp add: receiver_step_def numeral_2_eq_2)
  have "(receiver_step V ^^ (1 + n + 2)) (p\<lparr>receiver := M_test c\<rparr>) = (receiver_step V ^^ 1) ((receiver_step V ^^ n) ((receiver_step V ^^ 2) (p\<lparr>receiver := M_test c\<rparr>)))"
    by (simp only: funpow_add comp_apply)
  also have "\<dots> = (serve_channel V c p)\<lparr>receiver := after_channel c\<rparr>"
    unfolding a n(2) using True by (simp add: receiver_step_def serve_channel_def)
  finally show ?thesis using n(1) by (intro exI [of _ "1 + n + 2"]) simp
qed

lemma pipecb_run:
  assumes "receiver p = M_out"
  shows "\<exists>n \<le> 2 * (places V Sig + places V Async) + 7. (receiver_step V ^^ n) p = pipecb V p"
proof -
  let ?q = "p\<lparr>bytes := (if eventfd V then 0 else bytes p - 1)\<rparr>"
  obtain n where n: "n \<le> 2 * places V Sig + 3" "(receiver_step V ^^ n) (?q\<lparr>receiver := M_test Sig\<rparr>) = (serve_channel V Sig ?q)\<lparr>receiver := M_test Async\<rparr>"
    using serve_run [of V Sig ?q] by (auto simp: after_channel_def)
  obtain m where m: "m \<le> 2 * places V Async + 3"
    "(receiver_step V ^^ m) ((serve_channel V Sig ?q)\<lparr>receiver := M_test Async\<rparr>) = (serve_channel V Async (serve_channel V Sig ?q))\<lparr>receiver := M_out\<rparr>"
    using serve_run [of V Async "serve_channel V Sig ?q"] by (auto simp: after_channel_def)
  have k: "receiver (scan_channel c j r) = receiver r" for c j r by (induction j arbitrary: r) (simp_all add: feed_def)
  have "receiver (pipecb V p) = M_out" using assms by (simp add: pipecb_def serve_channel_def k)
  then have e: "(pipecb V p)\<lparr>receiver := M_out\<rparr> = pipecb V p" by simp
  have "(receiver_step V ^^ (m + n + 1)) p = (receiver_step V ^^ m) ((receiver_step V ^^ n) (?q\<lparr>receiver := M_test Sig\<rparr>))"
    using assms by (simp only: funpow_add comp_apply) (simp add: receiver_step_def)
  also have "\<dots> = pipecb V p" unfolding n(2) m(2) using e by (simp add: pipecb_def)
  finally show ?thesis using n(1) m(1) by (intro exI [of _ "m + n + 1"]) simp
qed

lemma scan_channel_other [simp]:
  "d \<noteq> c \<Longrightarrow> sent (scan_channel c k p) d = sent p d" "flag (scan_channel c k p) = flag p" "k \<le> i \<Longrightarrow> sent (scan_channel c k p) c i = sent p c i"
  by (induction k arbitrary: p) (auto simp: feed_def)

lemma scan_channel_sent: "i < k \<Longrightarrow> \<not> sent (scan_channel c k p) c i"
proof (induction k arbitrary: p)
  case (Suc k) then show ?case by (cases "i = k") (simp_all add: feed_def)
qed simp

lemma scan_channel_fed:
  "fed (scan_channel c k p) = fed p @ map (Pair c) (filter (sent p c) (rev [0..<k]))"
proof (induction k arbitrary: p)
  case (Suc k)
  have "filter (\<lambda>x. x \<noteq> k \<and> (x \<noteq> k \<longrightarrow> sent p c x)) (rev [0..<k]) = filter (sent p c) (rev [0..<k])" by (rule filter_cong) auto
  then show ?case using Suc by (simp add: feed_def)
qed simp

lemma pipecb_fed:
  "fed (pipecb V p) = fed p @ (if flag p Sig then map (Pair Sig) (filter (sent p Sig) (rev [0..<places V Sig])) else []) @
     (if flag p Async then map (Pair Async) (filter (sent p Async) (rev [0..<places V Async])) else [])"
  by (simp add: pipecb_def serve_channel_def scan_channel_fed)

lemma pipecb_sent: "flag p c \<Longrightarrow> i < places V c \<Longrightarrow> \<not> sent (pipecb V p) c i"
  by (cases c) (simp_all add: pipecb_def serve_channel_def scan_channel_sent)

text \<open>
  Property C31: whatever the interleaving of senders and loop, a signal or an async event that has been sent is not lost:
  when no sender is under way and the loop waits, the pipe can be read, and \<open>pipecb\<close>, which ends after a
  bounded number of steps, feeds the event and clears it.\<close>

theorem sent_is_fed:
  assumes "0 < room V" "(pipe_step V)\<^sup>*\<^sup>* (pipe_start n) p" "sent p c i" "set (senders p) \<subseteq> {S_idle}" "receiver p = M_out"
  shows "0 < bytes p \<and> (\<exists>k \<le> 2 * (places V Sig + places V Async) + 7. (receiver_step V ^^ k) p = pipecb V p) \<and>
    (c, i) \<in> set (drop (length (fed p)) (fed (pipecb V p))) \<and> \<not> sent (pipecb V p) c i"
proof -
  have ok: "flag_noticed p c" "sent_noticed V p c i" using pipe_ok_reachable [OF assms(1,2)] by (simp_all add: pipe_ok_def)
  then have f: "flag p c" "i < places V c" using assms(3-5) by (auto simp: sent_noticed_def)
  moreover have "0 < bytes p" using ok(1) f(1) assms(4,5) by (auto simp: flag_noticed_def)
  moreover have "(c, i) \<in> set (drop (length (fed p)) (fed (pipecb V p)))"
    using f assms(3) by (cases c) (simp_all add: pipecb_fed)
  ultimately show ?thesis using pipecb_run [OF assms(5)] pipecb_sent by blast
qed

text \<open>Two threads send to the same watcher; the second finds the flag set.\<close>

definition example_variant :: variant where
  "example_variant = \<lparr>eventfd = False, room = 1, places = (\<lambda>_. 4)\<rparr>"

definition two_sends :: pipe where
  "two_sends = sender_step example_variant 1 (start_send Async 2 1 (sender_step example_variant 0 (sender_step example_variant 0
     (sender_step example_variant 0 (start_send Async 2 0 (pipe_start 2))))))"

theorem sent_is_fed_witness:
  "0 < bytes two_sends \<and> (Async, 2) \<in> set (fed (pipecb example_variant two_sends))"
proof -
  let ?V = example_variant
  have s: "pipe_step ?V q (sender_step ?V t q)" if "t < length (senders q)" for q t using that by (rule pipe_step.sender)
  have l: "length (senders (sender_step ?V t q)) = length (senders q)" "length (senders (start_send c i t q)) = length (senders q)" for q t c i
    by (simp_all add: sender_step_def start_send_def split: sender.splits)
  let ?a = "start_send Async 2 0 (pipe_start 2)"
  let ?b = "sender_step ?V 0 (sender_step ?V 0 (sender_step ?V 0 ?a))"
  have a: "pipe_step ?V (pipe_start 2) ?a" by (rule pipe_step.send) (simp_all add: pipe_start_def example_variant_def)
  let ?s = "sender_step ?V 0"
  have s1: "pipe_step ?V ?a (?s ?a)" "pipe_step ?V (?s ?a) (?s (?s ?a))" "pipe_step ?V (?s (?s ?a)) ?b"
    by (rule s; simp add: l pipe_start_def)+
  have s2: "pipe_step ?V ?b (start_send Async 2 1 ?b)"
    by (rule pipe_step.send) (simp_all add: pipe_start_def start_send_def sender_step_def example_variant_def)
  have s3: "pipe_step ?V (start_send Async 2 1 ?b) two_sends"
    unfolding two_sends_def by (rule s) (simp add: l pipe_start_def)
  note c = converse_rtranclp_into_rtranclp [of "pipe_step ?V"]
  have "(pipe_step ?V)\<^sup>*\<^sup>* (pipe_start 2) two_sends"
    by (rule c, rule a, rule c, rule s1(1), rule c, rule s1(2), rule c, rule s1(3), rule c, rule s2, rule r_into_rtranclp [of "pipe_step ?V"], rule s3)
  moreover have "sent two_sends Async 2" "set (senders two_sends) \<subseteq> {S_idle}" "receiver two_sends = M_out"
    by (simp_all add: two_sends_def pipe_start_def start_send_def sender_step_def example_variant_def numeral_2_eq_2)
  ultimately show ?thesis using sent_is_fed [of ?V 2 two_sends Async 2] by (auto simp: example_variant_def dest: in_set_dropD)
qed

end
