(* ===== verification/EvRun.thy ===== *)
theory EvRun
  imports Prelude EvHeap
begin

text \<open>
  The event loop of libev (\<open>deps/libev/ev.c\<close>): \<open>ev_run\<close> with its queues of pending watchers by priority, the
  time it may wait, and the idle watchers. Callbacks are a parameter, and so are the phases that have theories
  of their own: the time, the descriptors with the backend, and the timers. Watchers are numbers.
\<close>

section \<open>Pending watchers\<close>

definition NUMPRI :: nat where "NUMPRI = 5"

record evloop =
  pri_of :: "nat \<Rightarrow> nat" \<comment> \<open>\<open>ABSPRI\<close>\<close>
  pend_at :: "nat \<Rightarrow> nat" \<comment> \<open>\<open>w->pending\<close>: the place plus one, or 0\<close>
  queue :: "nat \<Rightarrow> (nat \<times> u32) list" \<comment> \<open>\<open>pendings\<close>\<close>
  forks :: "nat list"
  prepares :: "nat list"
  checks :: "nat list"
  idles :: "nat \<Rightarrow> nat list"
  timer_heap :: ev_heap
  active_count :: int
  loop_done :: nat \<comment> \<open>\<open>EVBREAK_CANCEL\<close> 0, \<open>EVBREAK_ONE\<close> 1, \<open>EVBREAK_ALL\<close> 2\<close>
  clock_now :: int
  postfork :: bool
  called :: "(nat \<times> u32) list" \<comment> \<open>the callbacks made, the latest last\<close>

definition feed_event :: "nat \<Rightarrow> u32 \<Rightarrow> evloop \<Rightarrow> evloop" where
  "feed_event w revents L =
     (let p = pri_of L w; q = queue L p
      in if pend_at L w \<noteq> 0
         then L\<lparr>queue := (queue L)(p := q[pend_at L w - 1 := (fst (q ! (pend_at L w - 1)), snd (q ! (pend_at L w - 1)) OR revents)])\<rparr>
         else L\<lparr>pend_at := (pend_at L)(w := length q + 1), queue := (queue L)(p := q @ [(w, revents)])\<rparr>)"

definition queue_events :: "nat list \<Rightarrow> u32 \<Rightarrow> evloop \<Rightarrow> evloop" where
  "queue_events ws type L = fold (\<lambda>w. feed_event w type) ws L"

type_synonym callbacks = "nat \<Rightarrow> u32 \<Rightarrow> evloop \<Rightarrow> evloop"

definition invoke_last :: "callbacks \<Rightarrow> nat \<Rightarrow> evloop \<Rightarrow> evloop" where
  "invoke_last cb p L =
     (let e = last (queue L p)
      in cb (fst e) (snd e) (L\<lparr>queue := (queue L)(p := butlast (queue L p)), pend_at := (pend_at L)(fst e := 0), called := called L @ [e]\<rparr>))"

text \<open>\<open>ev_invoke_pending\<close>: the priorities from the highest, each until its queue is empty.\<close>

partial_function (option) invoke_pri :: "callbacks \<Rightarrow> nat \<Rightarrow> evloop \<Rightarrow> evloop option" where
  "invoke_pri cb p L = (if queue L p = [] then Some L else invoke_pri cb p (invoke_last cb p L))"

fun invoke_below :: "callbacks \<Rightarrow> nat \<Rightarrow> evloop \<Rightarrow> evloop option" where
  "invoke_below cb 0 L = Some L"
| "invoke_below cb (Suc p) L = Option.bind (invoke_pri cb p L) (invoke_below cb p)"

definition invoke_all :: "callbacks \<Rightarrow> evloop \<Rightarrow> evloop option" where
  "invoke_all cb = invoke_below cb NUMPRI"

section \<open>Idle watchers\<close>

definition EV_IDLE :: u32 where "EV_IDLE = 0x2000"
definition EV_PREPARE :: u32 where "EV_PREPARE = 0x4000"
definition EV_CHECK :: u32 where "EV_CHECK = 0x8000"
definition EV_FORK :: u32 where "EV_FORK = 0x20000"

fun idle_below :: "nat \<Rightarrow> evloop \<Rightarrow> evloop" where
  "idle_below 0 L = L"
| "idle_below (Suc p) L =
     (if queue L p \<noteq> [] then L else if idles L p \<noteq> [] then queue_events (idles L p) EV_IDLE L else idle_below p L)"

definition idle_all :: "evloop \<Rightarrow> bool" where
  "idle_all L \<longleftrightarrow> (\<exists>p < NUMPRI. idles L p \<noteq> [])"

definition idle_reify :: "evloop \<Rightarrow> evloop" where
  "idle_reify L = (if idle_all L then idle_below NUMPRI L else L)"

section \<open>One turn of the loop\<close>

record loop_flags =
  nowait :: bool
  once :: bool

record loop_config =
  backend_fudge :: int
  timeout_blocktime :: int
  io_blocktime :: int

text \<open>The time to sleep and the time to wait in the backend, in milliseconds.\<close>

definition wait_times :: "loop_config \<Rightarrow> loop_flags \<Rightarrow> int \<Rightarrow> evloop \<Rightarrow> int \<times> int" where
  "wait_times C F prev L =
     (if nowait F \<or> idle_all L \<or> active_count L = 0 then (0, 0)
      else let waittime = 59743;
               waittime = (case heap_first (timer_heap L) of
                 Some e \<Rightarrow> let till = e_at e - clock_now L + backend_fudge C in if till < waittime then till else waittime
               | None \<Rightarrow> waittime);
               waittime = (if waittime < timeout_blocktime C then timeout_blocktime C else waittime)
           in if io_blocktime C \<noteq> 0
              then let sleeptime = io_blocktime C - (clock_now L - prev);
                       sleeptime = (if waittime - backend_fudge C < sleeptime then waittime - backend_fudge C else sleeptime)
                   in if 0 < sleeptime then (sleeptime, waittime - sleeptime) else (0, waittime)
              else (0, waittime))"

text \<open>The phases: \<open>time_update\<close>, \<open>fd_reify\<close>, \<open>loop_fork\<close>, \<open>ev_sleep\<close> and the backend with the times to
  sleep and to wait, \<open>timers_reify\<close>.\<close>

record phases =
  ph_time :: "evloop \<Rightarrow> evloop"
  ph_fork :: "evloop \<Rightarrow> evloop"
  ph_fds :: "evloop \<Rightarrow> evloop"
  ph_poll :: "int \<times> int \<Rightarrow> evloop \<Rightarrow> evloop"
  ph_timers :: "evloop \<Rightarrow> evloop"

definition queue_and_invoke :: "callbacks \<Rightarrow> nat list \<Rightarrow> u32 \<Rightarrow> evloop \<Rightarrow> evloop option" where
  "queue_and_invoke cb ws type L = (if ws \<noteq> [] then invoke_all cb (queue_events ws type L) else Some L)"

definition turn_poll :: "phases \<Rightarrow> loop_config \<Rightarrow> loop_flags \<Rightarrow> evloop \<Rightarrow> evloop" where
  "turn_poll PH C F L =
     (let L = (if postfork L then ph_fork PH L else L); L = ph_fds PH L; prev = clock_now L; L = ph_time PH L;
          L = ph_poll PH (wait_times C F prev L) L; L = ph_time PH L; L = ph_timers PH L; L = idle_reify L
      in if checks L \<noteq> [] then queue_events (checks L) EV_CHECK L else L)"

text \<open>\<open>False\<close>: the loop has been left by \<open>break\<close>.\<close>

definition loop_turn :: "callbacks \<Rightarrow> phases \<Rightarrow> loop_config \<Rightarrow> loop_flags \<Rightarrow> evloop \<Rightarrow> (bool \<times> evloop) option" where
  "loop_turn cb PH C F L =
     Option.bind (queue_and_invoke cb (if postfork L then forks L else []) EV_FORK L) (\<lambda>L.
     Option.bind (queue_and_invoke cb (prepares L) EV_PREPARE L) (\<lambda>L.
     if loop_done L \<noteq> 0 then Some (False, L)
     else map_option (Pair True) (invoke_all cb (turn_poll PH C F L))))"

definition goes_on :: "loop_flags \<Rightarrow> evloop \<Rightarrow> bool" where
  "goes_on F L \<longleftrightarrow> active_count L \<noteq> 0 \<and> loop_done L = 0 \<and> \<not> (once F \<or> nowait F)"

partial_function (option) turns :: "callbacks \<Rightarrow> phases \<Rightarrow> loop_config \<Rightarrow> loop_flags \<Rightarrow> evloop \<Rightarrow> (bool \<times> evloop) option" where
  "turns cb PH C F L = Option.bind (loop_turn cb PH C F L)
     (\<lambda>(go, L). if go \<and> goes_on F L then turns cb PH C F L else Some (go, L))"

definition ev_run :: "callbacks \<Rightarrow> phases \<Rightarrow> loop_config \<Rightarrow> loop_flags \<Rightarrow> evloop \<Rightarrow> evloop option" where
  "ev_run cb PH C F L =
     Option.bind (invoke_all cb (L\<lparr>loop_done := 0\<rparr>)) (\<lambda>L.
     map_option (\<lambda>(go, L). if loop_done L = 1 then L\<lparr>loop_done := 0\<rparr> else L) (turns cb PH C F L))"

section \<open>The time to wait\<close>


definition example_loop :: evloop where
  "example_loop = \<lparr>pri_of = (\<lambda>_. 2), pend_at = (\<lambda>_. 0), queue = (\<lambda>_. []), forks = [], prepares = [], checks = [], idles = (\<lambda>_. []),
     timer_heap = \<lparr>cells = [\<lparr>e_at = 500, e_timer = 7\<rparr>], index_of = (\<lambda>_. 0)\<rparr>, active_count = 1, loop_done = 0, clock_now = 100,
     postfork = False, called = []\<rparr>"


section \<open>The queues\<close>

text \<open>The places in the queues are what \<open>w->pending\<close> of the watchers says.\<close>

definition queues_ok :: "evloop \<Rightarrow> bool" where
  "queues_ok L \<longleftrightarrow> (\<forall>p k w. k < length (queue L p) \<and> fst (queue L p ! k) = w \<longleftrightarrow> pri_of L w = p \<and> pend_at L w = Suc k)"

lemma queues_okD:
  "queues_ok L \<Longrightarrow> k < length (queue L p) \<and> fst (queue L p ! k) = w \<longleftrightarrow> pri_of L w = p \<and> pend_at L w = Suc k"
  by (simp add: queues_ok_def)

lemma feed_event_new:
  "pend_at L w = 0 \<Longrightarrow> feed_event w r L = L\<lparr>pend_at := (pend_at L)(w := length (queue L (pri_of L w)) + 1),
     queue := (queue L)(pri_of L w := queue L (pri_of L w) @ [(w, r)])\<rparr>"
  by (simp add: feed_event_def Let_def)

lemma feed_event_ok:
  assumes "queues_ok L" shows "queues_ok (feed_event w r L)"
proof (cases "pend_at L w = 0")
  case True
  have n: "\<not> (k < length (queue L p) \<and> fst (queue L p ! k) = w)" for p k
    using queues_okD [OF assms, of k p w] True by simp
  show ?thesis
    unfolding queues_ok_def
  proof (intro allI)
    fix p k v
    show "k < length (queue (feed_event w r L) p) \<and> fst (queue (feed_event w r L) p ! k) = v \<longleftrightarrow>
        pri_of (feed_event w r L) v = p \<and> pend_at (feed_event w r L) v = Suc k"
      using n [where p = p and k = k] queues_okD [OF assms, where p = p and k = k and w = v]
      by (cases "p = pri_of L w"; cases "v = w"; cases "k < length (queue L p)"; cases "k = length (queue L p)")
        (auto simp: feed_event_new [OF True] nth_append)
  qed
next
  case False
  have q: "queue (feed_event w r L) p = (queue L p)[pend_at L w - 1 := (w, snd (queue L p ! (pend_at L w - 1)) OR r)] \<or>
      queue (feed_event w r L) p = queue L p" for p
    using False queues_okD [OF assms, of "pend_at L w - 1" "pri_of L w" w] by (auto simp: feed_event_def Let_def)
  have "length (queue (feed_event w r L) p) = length (queue L p)" for p using q [of p] by auto
  moreover have "fst (queue (feed_event w r L) p ! k) = fst (queue L p ! k)" if "k < length (queue L p)" for p k
    using that False queues_okD [OF assms, of "pend_at L w - 1" "pri_of L w" w]
    by (auto simp: feed_event_def Let_def nth_list_update)
  moreover have "pri_of (feed_event w r L) = pri_of L" "pend_at (feed_event w r L) = pend_at L"
    using False by (simp_all add: feed_event_def Let_def)
  ultimately show ?thesis using assms unfolding queues_ok_def by metis
qed

lemma queue_events_ok: "queues_ok L \<Longrightarrow> queues_ok (queue_events ws r L)"
  unfolding queue_events_def by (induction ws arbitrary: L) (simp_all add: feed_event_ok)


lemma feed_event_keeps [simp]:
  "pri_of (feed_event w r L) = pri_of L" "idles (feed_event w r L) = idles L"
  by (simp_all add: feed_event_def Let_def)

lemma feed_event_pend: "pend_at (feed_event w r L) v = (if v = w \<and> pend_at L w = 0 then length (queue L (pri_of L w)) + 1 else pend_at L v)"
  by (simp add: feed_event_def Let_def)

lemma queue_events_pend:
  "(pend_at (queue_events ws r L) v \<noteq> 0 \<longleftrightarrow> pend_at L v \<noteq> 0 \<or> v \<in> set ws) \<and>
   (pend_at L v \<noteq> 0 \<longrightarrow> pend_at (queue_events ws r L) v = pend_at L v)"
  unfolding queue_events_def by (induction ws arbitrary: L) (auto simp: feed_event_pend)

definition idle_turn :: "evloop \<Rightarrow> nat \<Rightarrow> bool" where
  "idle_turn L p \<longleftrightarrow> (\<forall>q < NUMPRI. (p \<le> q \<longrightarrow> queue L q = []) \<and> (p < q \<longrightarrow> idles L q = []))"

lemma idle_below_pend:
  assumes "n \<le> NUMPRI" "\<forall>q < NUMPRI. n \<le> q \<longrightarrow> queue L q = [] \<and> idles L q = []"
  shows "pend_at (idle_below n L) w \<noteq> 0 \<longleftrightarrow> pend_at L w \<noteq> 0 \<or> (\<exists>p < n. idle_turn L p \<and> w \<in> set (idles L p))"
  using assms
proof (induction n)
  case (Suc p)
  show ?case
  proof (cases "queue L p = [] \<and> idles L p = []")
    case True
    then have "\<forall>q < NUMPRI. p \<le> q \<longrightarrow> queue L q = [] \<and> idles L q = []" using Suc.prems(2) by (metis Suc_leI le_neq_implies_less)
    moreover have "p \<le> NUMPRI" using Suc.prems(1) by simp
    ultimately show ?thesis using Suc.IH True by (auto simp: less_Suc_eq)
  next
    case False
    have low: "\<not> idle_turn L q" if "q < p" for q
      using False that Suc.prems(1) by (auto simp: idle_turn_def intro!: exI [of _ p])
    show ?thesis
    proof (cases "queue L p = []")
      case True
      have "idle_turn L p" using Suc.prems(2) True unfolding idle_turn_def by (metis Suc_leI le_neq_implies_less)
      then show ?thesis using False True low queue_events_pend [of "idles L p" EV_IDLE L w] by (auto simp: less_Suc_eq)
    next
      case False
      then have "\<not> idle_turn L p" using Suc.prems(1) by (auto simp: idle_turn_def intro!: exI [of _ p])
      then show ?thesis using False low by (auto simp: less_Suc_eq)
    qed
  qed
qed simp

text \<open>
  Property C33: idle watchers are made pending exactly when nothing is pending at their priority or above, and only those of
  the highest priority that has any: \<open>idle_turn\<close>; every other watcher is left as it was.\<close>

theorem idle_when_quiet:
  "0 < pend_at (idle_reify L) w \<longleftrightarrow> 0 < pend_at L w \<or> (\<exists>p < NUMPRI. idle_turn L p \<and> w \<in> set (idles L p))"
  using idle_below_pend [of NUMPRI L w] by (auto simp: idle_reify_def idle_all_def)

section \<open>The order of the calls\<close>

text \<open>Callbacks that neither make watchers pending nor clear them.\<close>

definition quiet :: "callbacks \<Rightarrow> bool" where
  "quiet cb \<longleftrightarrow> (\<forall>w r L. queue (cb w r L) = queue L \<and> called (cb w r L) = called L)"

lemma invoke_pri_quiet:
  assumes "quiet cb"
  shows "\<exists>L'. invoke_pri cb p L = Some L' \<and> queue L' = (queue L)(p := []) \<and> called L' = called L @ rev (queue L p)"
proof (induction "queue L p" arbitrary: L rule: rev_induct)
  case Nil
  then show ?case by (subst invoke_pri.simps) (auto simp: fun_eq_iff)
next
  case (snoc e es)
  let ?M = "invoke_last cb p L"
  have m: "queue ?M = (queue L)(p := es)" "called ?M = called L @ [e]"
    using assms snoc.hyps(2) [symmetric] by (simp_all add: invoke_last_def quiet_def Let_def)
  obtain L' where "invoke_pri cb p ?M = Some L'" "queue L' = (queue ?M)(p := [])" "called L' = called ?M @ rev (queue ?M p)"
    using snoc.hyps(1) [of ?M] m by auto
  then show ?case using snoc.hyps(2) [symmetric] m by (subst invoke_pri.simps) simp
qed

lemma invoke_below_quiet:
  assumes "quiet cb"
  shows "\<exists>L'. invoke_below cb n L = Some L' \<and> queue L' = (\<lambda>p. if p < n then [] else queue L p) \<and>
    called L' = called L @ concat (map (\<lambda>p. rev (queue L p)) (rev [0..<n]))"
proof (induction n arbitrary: L)
  case (Suc n)
  obtain M where M: "invoke_pri cb n L = Some M" "queue M = (queue L)(n := [])" "called M = called L @ rev (queue L n)"
    using invoke_pri_quiet [OF assms] by blast
  obtain L' where L': "invoke_below cb n M = Some L'" "queue L' = (\<lambda>p. if p < n then [] else queue M p)"
      "called L' = called M @ concat (map (\<lambda>p. rev (queue M p)) (rev [0..<n]))"
    using Suc.IH by blast
  have e: "map (\<lambda>p. rev (queue M p)) (rev [0..<n]) = map (\<lambda>p. rev (queue L p)) (rev [0..<n])" using M(2) by (auto simp: rev_map)
  have "called L' = called L @ concat (map (\<lambda>p. rev (queue L p)) (rev [0..<Suc n]))" using L'(3) M(3) by (simp add: e)
  moreover have "queue L' = (\<lambda>p. if p < Suc n then [] else queue L p)" using L'(2) M(2) by (auto simp: fun_eq_iff less_Suc_eq)
  ultimately show ?case using M(1) L'(1) by simp
qed simp



lemma invoke_all_quiet: "quiet cb \<Longrightarrow> \<exists>L'. invoke_all cb L = Some L'"
  using invoke_below_quiet [of cb NUMPRI L] by (auto simp: invoke_all_def)

lemma queue_and_invoke_quiet: "quiet cb \<Longrightarrow> \<exists>L'. queue_and_invoke cb ws r L = Some L'"
  using invoke_all_quiet by (simp add: queue_and_invoke_def)

lemma loop_turn_quiet:
  assumes "quiet cb" shows "\<exists>x. loop_turn cb PH C F L = Some x"
proof -
  obtain M where M: "queue_and_invoke cb (if postfork L then forks L else []) EV_FORK L = Some M" using queue_and_invoke_quiet [OF assms] by blast
  obtain N where N: "queue_and_invoke cb (prepares M) EV_PREPARE M = Some N" using queue_and_invoke_quiet [OF assms] by blast
  obtain K where "invoke_all cb (turn_poll PH C F N) = Some K" using invoke_all_quiet [OF assms] by blast
  with M N show ?thesis by (cases "loop_done N = 0") (simp_all add: loop_turn_def del: split_paired_Ex)
qed

text \<open>\<open>ev_run\<close> with \<open>EVRUN_ONCE\<close> or \<open>EVRUN_NOWAIT\<close> returns, whatever the phases do.\<close>

lemma run_once_ends:
  assumes "quiet cb" "once F \<or> nowait F"
  shows "\<exists>L'. ev_run cb PH C F L = Some L'"
proof -
  obtain M where M: "invoke_all cb (L\<lparr>loop_done := 0\<rparr>) = Some M" using invoke_all_quiet [OF assms(1)] by blast
  obtain go N where N: "loop_turn cb PH C F M = Some (go, N)" using loop_turn_quiet [OF assms(1)] by (metis surj_pair)
  have "turns cb PH C F M = Some (go, N)" using N assms(2) by (subst turns.simps) (simp add: goes_on_def)
  then show ?thesis using M by (simp add: ev_run_def)
qed

text \<open>
  A callback that makes a watcher of a higher priority pending leaves it so: its queue has been passed. The loop
  then waits in the backend with a watcher pending, for up to \<open>MAX_BLOCKTIME\<close>.\<close>

definition feed_high :: callbacks where
  "feed_high w r L = (if w = 1 then feed_event 2 r L else L)"

lemma pending_not_called:
  "\<exists>L'. invoke_all feed_high (feed_event 1 4 (example_loop\<lparr>pri_of := \<lambda>w. if w = 2 then 4 else 0, timer_heap := \<lparr>cells = [], index_of = \<lambda>_. 0\<rparr>\<rparr>)) = Some L' \<and>
     queue L' 4 = [(2, 4)] \<and> called L' = [(1, 4)] \<and>
     wait_times \<lparr>backend_fudge = 1, timeout_blocktime = 0, io_blocktime = 0\<rparr> \<lparr>nowait = False, once = False\<rparr> 100 L' = (0, 59743)"
  by (simp add: invoke_all_def NUMPRI_def numeral_eq_Suc invoke_pri.simps feed_event_def example_loop_def invoke_last_def feed_high_def
      wait_times_def idle_all_def heap_first_def Let_def)

end
