(* ===== verification/V8HashMap.thy ===== *)
theory V8HashMap
  imports Prelude "HOL-Library.Multiset"
begin

text \<open>
  The hash map of V8 (\<open>deps/v8/src/hashmap.cc\<close>, \<open>hashmap.h\<close>): open addressing with linear probing, removal that
  moves later entries back, and growth when four fifths of the slots are used. Pointers are numbers, \<open>NULL\<close> is 0;
  the function that compares keys is a parameter. It is refined to a partial function of a key and its hash.
\<close>

section \<open>The table\<close>

record hentry =
  ekey :: nat
  evalue :: nat
  ehash :: u32

record hmap =
  slots :: "hentry list"
  occupancy :: nat

type_synonym match_fun = "nat \<Rightarrow> nat \<Rightarrow> bool"

definition live :: "hentry \<Rightarrow> bool" where "live e \<longleftrightarrow> ekey e \<noteq> 0"

definition matches :: "match_fun \<Rightarrow> nat \<Rightarrow> u32 \<Rightarrow> hentry \<Rightarrow> bool" where
  "matches mt k h e \<longleftrightarrow> live e \<and> ehash e = h \<and> mt k (ekey e)"

definition no_entry :: hentry where "no_entry = \<lparr>ekey = 0, evalue = 0, ehash = 0\<rparr>"

definition new_table :: "nat \<Rightarrow> hmap" where
  "new_table capacity = \<lparr>slots = replicate capacity no_entry, occupancy = 0\<rparr>"

definition home :: "hentry list \<Rightarrow> u32 \<Rightarrow> nat" where
  "home es h = unat (h AND of_nat (length es - 1))"

definition next_slot :: "hentry list \<Rightarrow> nat \<Rightarrow> nat" where
  "next_slot es i = (if i + 1 = length es then 0 else i + 1)"

partial_function (option) probe_from :: "match_fun \<Rightarrow> hentry list \<Rightarrow> nat \<Rightarrow> u32 \<Rightarrow> nat \<Rightarrow> nat option" where
  "probe_from mt es k h i =
     (if live (es ! i) \<and> (h \<noteq> ehash (es ! i) \<or> \<not> mt k (ekey (es ! i))) then probe_from mt es k h (next_slot es i) else Some i)"

definition probe :: "match_fun \<Rightarrow> nat \<Rightarrow> u32 \<Rightarrow> hmap \<Rightarrow> nat option" where
  "probe mt k h m = probe_from mt (slots m) k h (home (slots m) h)"

definition set_entry :: "nat \<Rightarrow> hentry \<Rightarrow> hmap \<Rightarrow> hmap" where
  "set_entry i e m = m\<lparr>slots := (slots m)[i := e]\<rparr>"

definition set_value :: "nat \<Rightarrow> nat \<Rightarrow> hmap \<Rightarrow> hmap" where
  "set_value i v m = set_entry i ((slots m ! i)\<lparr>evalue := v\<rparr>) m"

definition put_entry :: "nat \<Rightarrow> nat \<Rightarrow> u32 \<Rightarrow> hmap \<Rightarrow> hmap" where
  "put_entry i k h m = (set_entry i \<lparr>ekey = k, evalue = 0, ehash = h\<rparr> m)\<lparr>occupancy := occupancy m + 1\<rparr>"

text \<open>
  The loop of \<open>Resize\<close> over the old slots, \<open>n\<close> entries to go: \<open>lk\<close> is \<open>Lookup\<close> with \<open>insert\<close>. \<open>None\<close> when
  the loop would run past the slots, or \<open>Lookup\<close> does not return.
\<close>

fun rehash :: "(nat \<Rightarrow> u32 \<Rightarrow> hmap \<Rightarrow> (nat option \<times> hmap) option) \<Rightarrow> hentry list \<Rightarrow> nat \<Rightarrow> hmap \<Rightarrow> hmap option" where
  "rehash lk es 0 m = Some m"
| "rehash lk [] (Suc n) m = None"
| "rehash lk (e # es) (Suc n) m =
     (if live e
      then (case lk (ekey e) (ehash e) m of Some (Some i, m') \<Rightarrow> rehash lk es n (set_value i (evalue e) m') | _ \<Rightarrow> None)
      else rehash lk es (Suc n) m)"

text \<open>
  \<open>Lookup\<close> calls \<open>Resize\<close>, which calls \<open>Lookup\<close>: \<open>d\<close> bounds the depth, and the capacity is a 32-bit number.
  The result is the slot of the entry returned, or none.
\<close>

fun lookup_at :: "nat \<Rightarrow> match_fun \<Rightarrow> bool \<Rightarrow> nat \<Rightarrow> u32 \<Rightarrow> hmap \<Rightarrow> (nat option \<times> hmap) option" where
  "lookup_at d mt ins k h m =
     (case probe mt k h m of
        None \<Rightarrow> None
      | Some i \<Rightarrow>
          if live (slots m ! i) then Some (Some i, m)
          else if \<not> ins then Some (None, m)
          else let m = put_entry i k h m
          in if length (slots m) \<le> occupancy m + occupancy m div 4
             then (case d of
               0 \<Rightarrow> None
             | Suc d \<Rightarrow>
                 (case rehash (lookup_at d mt True) (slots m) (occupancy m) (new_table (length (slots m) * 2 mod 2 ^ 32)) of
                    None \<Rightarrow> None
                  | Some m \<Rightarrow> (case probe mt k h m of None \<Rightarrow> None | Some i \<Rightarrow> Some (Some i, m))))
             else Some (Some i, m))"

declare lookup_at.simps [simp del]

definition hm_lookup :: "match_fun \<Rightarrow> bool \<Rightarrow> nat \<Rightarrow> u32 \<Rightarrow> hmap \<Rightarrow> (nat option \<times> hmap) option" where
  "hm_lookup = lookup_at 1"

text \<open>The loop of \<open>Remove\<close>: \<open>p\<close> is the candidate to clear, \<open>q\<close> scans forwards.\<close>

partial_function (option) close_gap :: "hentry list \<Rightarrow> nat \<Rightarrow> nat \<Rightarrow> (hentry list \<times> nat) option" where
  "close_gap es p q0 =
     (let q = next_slot es q0
      in if \<not> live (es ! q) then Some (es, p)
         else let r = home es (ehash (es ! q))
         in if p < q \<and> (r \<le> p \<or> q < r) \<or> q < p \<and> r \<le> p \<and> q < r
            then close_gap (es[p := es ! q]) q q
            else close_gap es p q)"

definition clear_key :: "nat \<Rightarrow> hentry list \<Rightarrow> hentry list" where
  "clear_key p es = es[p := (es ! p)\<lparr>ekey := 0\<rparr>]"

definition hm_remove :: "match_fun \<Rightarrow> nat \<Rightarrow> u32 \<Rightarrow> hmap \<Rightarrow> hmap option" where
  "hm_remove mt k h m =
     (case probe mt k h m of
        None \<Rightarrow> None
      | Some p \<Rightarrow>
          if \<not> live (slots m ! p) then Some m
          else (case close_gap (slots m) p p of
            None \<Rightarrow> None
          | Some (es, p) \<Rightarrow> Some (m\<lparr>slots := clear_key p es, occupancy := occupancy m - 1\<rparr>)))"

definition hm_clear :: "hmap \<Rightarrow> hmap" where
  "hm_clear m = m\<lparr>slots := map (\<lambda>e. e\<lparr>ekey := 0\<rparr>) (slots m), occupancy := 0\<rparr>"

text \<open>\<open>Next\<close> of the entry before slot \<open>i\<close>, and the slots a loop from \<open>Start\<close> visits.\<close>

function next_live :: "hmap \<Rightarrow> nat \<Rightarrow> nat option" where
  "next_live m i = (if i < length (slots m) then if live (slots m ! i) then Some i else next_live m (i + 1) else None)"
  by auto
termination by (relation "measure (\<lambda>(m, i). length (slots m) - i)") auto

declare next_live.simps [simp del]

lemma next_live_bound: "next_live m i = Some j \<Longrightarrow> i \<le> j \<and> j < length (slots m)"
proof (induction m i rule: next_live.induct)
  case (1 m i)
  then show ?case by (subst (asm) (2) next_live.simps) (auto split: if_splits)
qed

function visit :: "hmap \<Rightarrow> nat \<Rightarrow> nat list" where
  "visit m i = (case next_live m i of None \<Rightarrow> [] | Some j \<Rightarrow> j # visit m (j + 1))"
  by auto
termination by (relation "measure (\<lambda>(m, i). length (slots m) - i)") (auto dest: next_live_bound)

declare visit.simps [simp del]

section \<open>Walks around the table\<close>

lemma home_mod: "length es = 2 ^ k \<Longrightarrow> k \<le> 32 \<Longrightarrow> home es h = unat h mod length es"
proof -
  assume a: "length es = 2 ^ k" "k \<le> 32"
  have "(of_nat (length es - 1) :: u32) = mask k" using a by (simp add: mask_eq_decr_exp)
  then have "home es h = unat (take_bit k h)" by (simp add: home_def take_bit_eq_mask)
  also have "\<dots> = take_bit k (unat h)" by (simp add: unsigned_take_bit_eq)
  finally show ?thesis using a by (simp add: take_bit_eq_mod)
qed

lemma next_slot_mod: "i < length es \<Longrightarrow> next_slot es i = (i + 1) mod length es"
  by (auto simp: next_slot_def)

lemma next_slot_walk: "es \<noteq> [] \<Longrightarrow> next_slot es ((s + d) mod length es) = (s + (d + 1)) mod length es"
  by (simp add: next_slot_mod mod_Suc_eq)

definition stops :: "match_fun \<Rightarrow> nat \<Rightarrow> u32 \<Rightarrow> hentry \<Rightarrow> bool" where
  "stops mt k h e \<longleftrightarrow> \<not> live e \<or> matches mt k h e"

lemma probe_walk:
  assumes "es \<noteq> []" "s < length es" "\<forall>d < D. \<not> stops mt k h (es ! ((s + d) mod length es))" "stops mt k h (es ! ((s + D) mod length es))"
  shows "probe_from mt es k h s = Some ((s + D) mod length es)"
  using assms(2-4)
proof (induction D arbitrary: s)
  case 0
  then show ?case by (subst probe_from.simps) (auto simp: stops_def matches_def)
next
  case (Suc D)
  let ?t = "next_slot es s"
  have t: "?t = (s + 1) mod length es" "?t < length es" using Suc.prems(1) assms(1) by (simp_all add: next_slot_mod)
  have e: "(?t + d) mod length es = (s + Suc d) mod length es" for d by (simp add: t mod_simps)
  have "\<not> stops mt k h (es ! s)" using Suc.prems(1,2) by (metis add_0_right mod_less zero_less_Suc)
  then have "probe_from mt es k h s = probe_from mt es k h ?t"
    by (subst probe_from.simps) (auto simp: stops_def matches_def)
  also have "\<dots> = Some ((?t + D) mod length es)"
  proof (rule Suc.IH [OF t(2)])
    show "\<forall>d < D. \<not> stops mt k h (es ! ((?t + d) mod length es))" using Suc.prems(2) unfolding e by blast
    show "stops mt k h (es ! ((?t + D) mod length es))" using Suc.prems(3) unfolding e by simp
  qed
  finally show ?case by (simp only: e)
qed

text \<open>Every slot is reached by a walk of less than the length.\<close>

lemma walk_to: "s < n \<Longrightarrow> j < n \<Longrightarrow> \<exists>d < n. (s + d) mod n = (j :: nat)"
  by (rule exI [of _ "if s \<le> j then j - s else n - s + j"]) auto

lemma walk_inj_le: "(s + d) mod n = (s + c) mod n \<Longrightarrow> c \<le> d \<Longrightarrow> d < n \<Longrightarrow> c = (d :: nat)"
  using mod_eq_dvd_iff_nat [of "s + c" "s + d" n] by (auto dest: dvd_imp_le)

lemma walk_inj: "(s + c) mod n = (s + d) mod n \<Longrightarrow> c < n \<Longrightarrow> d < n \<Longrightarrow> c = (d :: nat)"
  using walk_inj_le [of s d n c] walk_inj_le [of s c n d] by (cases "c \<le> d") simp_all

definition path :: "hentry list \<Rightarrow> nat \<Rightarrow> nat \<Rightarrow> bool" where
  "path es s j \<longleftrightarrow> (\<exists>D < length es. (s + D) mod length es = j \<and> (\<forall>d < D. live (es ! ((s + d) mod length es))))"

definition reached :: "hentry list \<Rightarrow> bool" where
  "reached es \<longleftrightarrow> (\<forall>j < length es. live (es ! j) \<longrightarrow> path es (home es (ehash (es ! j))) j)"

section \<open>Contents\<close>

definition bag :: "hentry list \<Rightarrow> hentry multiset" where
  "bag es = filter_mset live (mset es)"

definition keys_differ :: "match_fun \<Rightarrow> hentry multiset \<Rightarrow> bool" where
  "keys_differ mt B \<longleftrightarrow> (\<forall>a b. {#a, b#} \<subseteq># B \<longrightarrow> \<not> (ehash a = ehash b \<and> mt (ekey a) (ekey b)))"

definition content :: "match_fun \<Rightarrow> hmap \<Rightarrow> nat \<Rightarrow> u32 \<Rightarrow> nat option" where
  "content mt m k h = map_option evalue (find (matches mt k h) (slots m))"

definition hm_ok :: "match_fun \<Rightarrow> hmap \<Rightarrow> bool" where
  "hm_ok mt m \<longleftrightarrow> (\<exists>k \<le> 31. length (slots m) = 2 ^ k) \<and> occupancy m = size (bag (slots m)) \<and>
     occupancy m + occupancy m div 4 < length (slots m) \<and> reached (slots m) \<and> keys_differ mt (bag (slots m))"

lemma bag_update:
  assumes "i < length es"
  shows "bag (es[i := e]) = (if live e then {#e#} else {#}) + (bag es - (if live (es ! i) then {#es ! i#} else {#}))"
  using assms by (simp add: bag_def mset_update)

lemma in_bag: "e \<in># bag es \<longleftrightarrow> live e \<and> (\<exists>i < length es. es ! i = e)"
  by (auto simp: bag_def in_set_conv_nth)

lemma bag_filter: "bag es = mset (filter live es)"
  by (simp add: bag_def)

lemma empty_slot: "size (bag es) < length es \<Longrightarrow> \<exists>i < length es. \<not> live (es ! i)"
  unfolding bag_filter by (metis filter_True in_set_conv_nth less_irrefl size_mset)

lemma option_eqI: "(\<And>v. x = Some v \<longleftrightarrow> y = Some v) \<Longrightarrow> x = y"
  by (metis not_Some_eq)

lemma matches_unique:
  assumes "equivp mt" "keys_differ mt B" "a \<in># B" "b \<in># B" "matches mt k h a" "matches mt k h b"
  shows "a = b"
proof (rule ccontr)
  assume n: "a \<noteq> b"
  then have "{#a, b#} \<subseteq># B" using assms(3,4) by (metis insert_DiffM insert_noteq_member insert_subset_eq_iff mset_subset_eq_single subset_mset.order_refl single_subset_iff)
  moreover have "mt (ekey a) (ekey b)" using assms(1,5,6) by (auto simp: matches_def dest: equivp_symp equivp_transp)
  moreover have "ehash a = ehash b" using assms(5,6) by (simp add: matches_def)
  ultimately show False using assms(2) by (auto simp: keys_differ_def)
qed

lemma content_in_bag:
  assumes "equivp mt" "keys_differ mt (bag (slots m))"
  shows "content mt m k h = Some v \<longleftrightarrow> (\<exists>e \<in># bag (slots m). matches mt k h e \<and> evalue e = v)"
proof (cases "find (matches mt k h) (slots m)")
  case None
  then have "\<forall>e \<in> set (slots m). \<not> matches mt k h e" by (simp add: find_None_iff)
  moreover have "content mt m k h = None" using None by (simp add: content_def)
  ultimately show ?thesis by (auto simp: in_bag)
next
  case (Some e)
  then have e: "e \<in># bag (slots m)" "matches mt k h e" by (auto simp: find_Some_iff in_bag matches_def)
  have "content mt m k h = Some (evalue e)" using Some by (simp add: content_def)
  then show ?thesis using matches_unique [OF assms] e by (metis option.inject)
qed

lemma content_None:
  assumes "equivp mt" "keys_differ mt (bag (slots m))"
  shows "content mt m k h = None \<longleftrightarrow> (\<forall>e \<in># bag (slots m). \<not> matches mt k h e)"
  using content_in_bag [OF assms] by (metis not_Some_eq)

lemma content_eqI:
  assumes "equivp mt" "keys_differ mt (bag (slots m))" "bag (slots m') = bag (slots m)"
  shows "content mt m' = content mt m"
  using assms by (intro ext option_eqI) (simp add: content_in_bag)

lemma keys_differ_subset: "keys_differ mt B \<Longrightarrow> A \<subseteq># B \<Longrightarrow> keys_differ mt A"
  unfolding keys_differ_def using subset_mset.order_trans by blast

lemma content_add:
  assumes "equivp mt" "keys_differ mt (bag (slots m'))" "bag (slots m') = add_mset e (bag (slots m))" "live e"
  shows "content mt m' = (\<lambda>k h. if h = ehash e \<and> mt k (ekey e) then Some (evalue e) else content mt m k h)"
proof (intro ext option_eqI)
  fix k h v
  have d: "keys_differ mt (bag (slots m))" using assms(2,3) by (auto intro: keys_differ_subset)
  have m: "matches mt k h e \<longleftrightarrow> h = ehash e \<and> mt k (ekey e)" using assms(4) by (auto simp: matches_def)
  have "\<not> matches mt k h f" if "matches mt k h e" "f \<in># bag (slots m)" "f \<noteq> e" for f
    using matches_unique [OF assms(1,2), of f e k h] that assms(3) by auto
  then show "content mt m' k h = Some v \<longleftrightarrow> (if h = ehash e \<and> mt k (ekey e) then Some (evalue e) else content mt m k h) = Some v"
    unfolding content_in_bag [OF assms(1,2)] assms(3) m [symmetric] using content_in_bag [OF assms(1) d, of k h v] by auto
qed

section \<open>Probing\<close>

lemma probe_stops:
  assumes "s < length es" "\<exists>i < length es. \<not> live (es ! i)"
  shows "\<exists>D < length es. probe_from mt es k h s = Some ((s + D) mod length es) \<and> stops mt k h (es ! ((s + D) mod length es)) \<and>
    (\<forall>d < D. live (es ! ((s + d) mod length es)) \<and> \<not> stops mt k h (es ! ((s + d) mod length es)))"
proof -
  obtain i where i: "i < length es" "\<not> live (es ! i)" using assms(2) by blast
  obtain c where c: "c < length es" "(s + c) mod length es = i" using walk_to [OF assms(1) i(1)] by blast
  let ?P = "\<lambda>d. stops mt k h (es ! ((s + d) mod length es))"
  have ex: "?P c" using c i by (simp add: stops_def)
  define D where "D = (LEAST d. ?P d)"
  have D: "?P D" "D \<le> c" "\<forall>d < D. \<not> ?P d" unfolding D_def using ex by (auto intro: LeastI Least_le dest: not_less_Least)
  have "es \<noteq> []" using i by auto
  from probe_walk [OF this assms(1) D(3) D(1)] show ?thesis using D c(1) by (intro exI [of _ D]) (auto simp: stops_def)
qed

lemma hm_okD:
  assumes "hm_ok mt m"
  shows "slots m \<noteq> []" "home (slots m) h < length (slots m)" "\<exists>i < length (slots m). \<not> live (slots m ! i)"
    "occupancy m = size (bag (slots m))" "reached (slots m)" "keys_differ mt (bag (slots m))"
proof -
  obtain j where j: "j \<le> 31" "length (slots m) = 2 ^ j" using assms by (auto simp: hm_ok_def)
  then show "slots m \<noteq> []" by auto
  then show "home (slots m) h < length (slots m)" using home_mod [OF j(2)] j by simp
  have "size (bag (slots m)) < length (slots m)" using assms by (auto simp: hm_ok_def)
  then show "\<exists>i < length (slots m). \<not> live (slots m ! i)" by (rule empty_slot)
qed (use assms in \<open>auto simp: hm_ok_def\<close>)

lemma path_unique:
  assumes "path es s j" "D < length es" "j = (s + D) mod length es"
  shows "\<forall>d < D. live (es ! ((s + d) mod length es))"
  using assms walk_inj [of s _ "length es" D] by (auto simp: path_def)

lemma probe_ok:
  assumes "hm_ok mt m"
  obtains i where "i < length (slots m)" "probe mt k h m = Some i" "live (slots m ! i) \<Longrightarrow> matches mt k h (slots m ! i)"
    "\<not> live (slots m ! i) \<Longrightarrow> path (slots m) (home (slots m) h) i"
    "\<not> live (slots m ! i) \<Longrightarrow> \<forall>e \<in># bag (slots m). \<not> matches mt k h e"
proof -
  let ?es = "slots m" and ?n = "length (slots m)" and ?s = "home (slots m) h"
  note ok = hm_okD [OF assms]
  obtain D where D: "D < ?n" "probe mt k h m = Some ((?s + D) mod ?n)" "stops mt k h (?es ! ((?s + D) mod ?n))"
      "\<forall>d < D. live (?es ! ((?s + d) mod ?n)) \<and> \<not> stops mt k h (?es ! ((?s + d) mod ?n))"
    using probe_stops [OF ok(2,3)] unfolding probe_def by metis
  let ?i = "(?s + D) mod ?n"
  have no: "\<not> matches mt k h e" if e: "e \<in># bag ?es" and n: "\<not> live (?es ! ?i)" for e
  proof
    assume mm: "matches mt k h e"
    obtain j where j: "j < ?n" "?es ! j = e" "live e" using e by (auto simp: in_bag)
    have "ehash e = h" using mm by (simp add: matches_def)
    then obtain c where c: "c < ?n" "(?s + c) mod ?n = j" "\<forall>d < c. live (?es ! ((?s + d) mod ?n))"
      using ok(5) j by (auto simp: reached_def path_def)
    have "\<not> c < D" using D(4) c(2) j(2) mm by (auto simp: stops_def)
    moreover have "c \<noteq> D" using c(2) j n by auto
    moreover have "\<not> D < c" using c(3) n by auto
    ultimately show False by simp
  qed
  show thesis
  proof (rule that [OF _ D(2)])
    show "?i < ?n" using ok(1) by simp
    show "live (?es ! ?i) \<Longrightarrow> matches mt k h (?es ! ?i)" using D(3) by (simp add: stops_def)
    show "path ?es ?s ?i" using D by (auto simp: path_def)
    show "\<not> live (?es ! ?i) \<Longrightarrow> \<forall>e \<in># bag ?es. \<not> matches mt k h e" using no by blast
  qed
qed

section \<open>Insertion\<close>

lemma path_update:
  assumes "path es s j" "live e" shows "path (es[i := e]) s j"
proof -
  have "live (es[i := e] ! k)" if "live (es ! k)" for k
    using that assms(2) by (cases "i < length es") (auto simp: nth_list_update list_update_beyond)
  then show ?thesis using assms(1) by (auto simp: path_def)
qed

lemma reached_insert:
  assumes "reached es" "i < length es" "path es (home es (ehash e)) i" "live e"
  shows "reached (es[i := e])"
  unfolding reached_def
proof (intro allI impI)
  fix j assume "j < length (es[i := e])" "live (es[i := e] ! j)"
  moreover have "home (es[i := e]) h = home es h" for h by (simp add: home_def)
  ultimately show "path (es[i := e]) (home (es[i := e]) (ehash (es[i := e] ! j))) j"
    using assms by (cases "j = i") (auto simp: reached_def intro: path_update)
qed

lemma keys_differ_add:
  assumes "equivp mt" "keys_differ mt B" "live e" "\<forall>f \<in># B. \<not> matches mt (ekey e) (ehash e) f" "\<forall>f \<in># B. live f"
  shows "keys_differ mt (add_mset e B)"
  unfolding keys_differ_def
proof (intro allI impI notI)
  fix a b assume s: "{#a, b#} \<subseteq># add_mset e B" and ab: "ehash a = ehash b \<and> mt (ekey a) (ekey b)"
  have n: "\<not> (ehash e = ehash f \<and> mt (ekey e) (ekey f)) \<and> \<not> (ehash f = ehash e \<and> mt (ekey f) (ekey e))" if "f \<in># B" for f
    using that assms(4,5) equivp_symp [OF assms(1)] by (auto simp: matches_def)
  consider "{#a, b#} \<subseteq># B" | "a = e" "b \<in># B" | "b = e" "a \<in># B"
  proof (cases "a = e \<or> b = e")
    case True then show thesis using s that(2,3) by (auto simp: add_mset_commute [of a])
  next
    case False
    have "{#a, b#} - {#e#} \<subseteq># B" using s by (simp add: subset_eq_diff_conv)
    then show thesis using False that(1) by (simp add: diff_single_trivial)
  qed
  then show False using assms(2) ab n by cases (auto simp: keys_differ_def)
qed

lemma put_entry_ok:
  assumes "equivp mt" "hm_ok mt m" "k \<noteq> 0" "probe mt k h m = Some i" "i < length (slots m)" "\<not> live (slots m ! i)"
    and "path (slots m) (home (slots m) h) i" "\<forall>e \<in># bag (slots m). \<not> matches mt k h e"
  defines "e \<equiv> \<lparr>ekey = k, evalue = 0, ehash = h\<rparr>" and "m' \<equiv> put_entry i k h m"
  shows "bag (slots m') = add_mset e (bag (slots m))" "length (slots m') = length (slots m)" "slots m' ! i = e"
    "occupancy m' = size (bag (slots m'))" "reached (slots m')" "keys_differ mt (bag (slots m'))"
proof -
  have l: "live e" using assms(3) by (simp add: e_def live_def)
  have s: "slots m' = (slots m)[i := e]" by (simp add: m'_def e_def put_entry_def set_entry_def)
  show b: "bag (slots m') = add_mset e (bag (slots m))" unfolding s bag_update [OF assms(5)] using assms(6) l by simp
  show "length (slots m') = length (slots m)" "slots m' ! i = e" using assms(5) by (simp_all add: s)
  have "occupancy m' = occupancy m + 1" by (simp add: m'_def put_entry_def)
  then show "occupancy m' = size (bag (slots m'))" using hm_okD(4) [OF assms(2)] by (simp add: b)
  show "reached (slots m')" unfolding s by (rule reached_insert [OF hm_okD(5) [OF assms(2)] assms(5) _ l]) (use assms(7) in \<open>simp add: e_def\<close>)
  show "keys_differ mt (bag (slots m'))" unfolding b
    by (rule keys_differ_add [OF assms(1) hm_okD(6) [OF assms(2)] l]) (use assms(8) in \<open>simp_all add: e_def in_bag\<close>)
qed

lemma set_value_ok:
  assumes "equivp mt" "hm_ok mt m" "i < length (slots m)" "live (slots m ! i)"
  shows "hm_ok mt (set_value i v m)"
    "bag (slots (set_value i v m)) = add_mset ((slots m ! i)\<lparr>evalue := v\<rparr>) (bag (slots m) - {#slots m ! i#})"
    "length (slots (set_value i v m)) = length (slots m)" "occupancy (set_value i v m) = occupancy m"
proof -
  let ?e = "slots m ! i" and ?m = "set_value i v m"
  let ?f = "?e\<lparr>evalue := v\<rparr>"
  have s: "slots ?m = (slots m)[i := ?f]" "occupancy ?m = occupancy m" by (simp_all add: set_value_def set_entry_def)
  have l: "live ?f" using assms(4) by (simp add: live_def)
  have e: "?e \<in># bag (slots m)" using assms(3,4) by (auto simp: in_bag)
  show b: "bag (slots ?m) = add_mset ?f (bag (slots m) - {#?e#})" unfolding s bag_update [OF assms(3)] using assms(4) l by simp
  show "length (slots ?m) = length (slots m)" "occupancy ?m = occupancy m" by (simp_all add: s)
  have "reached (slots ?m)" unfolding s
    by (rule reached_insert [OF hm_okD(5) [OF assms(2)] assms(3) _ l]) (use hm_okD(5) [OF assms(2)] assms(3,4) in \<open>simp add: reached_def\<close>)
  moreover have "keys_differ mt (bag (slots ?m))" unfolding b
  proof (rule keys_differ_add [OF assms(1) keys_differ_subset [OF hm_okD(6) [OF assms(2)] diff_subset_eq_self] l])
    show "\<forall>f \<in># bag (slots m) - {#?e#}. \<not> matches mt (ekey ?f) (ehash ?f) f"
    proof
      fix g assume "g \<in># bag (slots m) - {#?e#}"
      then have "{#?e, g#} \<subseteq># bag (slots m)" using e by (simp add: insert_subset_eq_iff)
      then show "\<not> matches mt (ekey ?f) (ehash ?f) g" using hm_okD(6) [OF assms(2)] by (auto simp: keys_differ_def matches_def)
    qed
  qed (auto simp: in_bag dest: in_diffD)
  moreover have "size (bag (slots ?m)) = size (bag (slots m))" using e by (simp add: b size_Diff_singleton) (metis Suc_pred size_eq_0_iff_empty not_gr_zero empty_not_add_mset insert_DiffM)
  ultimately show "hm_ok mt ?m" using assms(2) by (auto simp: hm_ok_def s)
qed

lemma bag_new_table [simp]: "bag (slots (new_table n)) = {#}"
  by (simp add: bag_def new_table_def no_entry_def live_def filter_mset_eq_conv)

lemma new_table_ok: "k \<le> 31 \<Longrightarrow> hm_ok mt (new_table (2 ^ k))"
  unfolding hm_ok_def bag_new_table
  by (auto simp: new_table_def no_entry_def live_def reached_def keys_differ_def)

lemma lookup_insert:
  assumes "equivp mt" "hm_ok mt m" "k \<noteq> 0" "occupancy m + 1 + (occupancy m + 1) div 4 < length (slots m)"
    "\<forall>e \<in># bag (slots m). \<not> matches mt k h e"
  obtains i m' where "lookup_at d mt True k h m = Some (Some i, m')" "hm_ok mt m'" "i < length (slots m')"
    "slots m' ! i = \<lparr>ekey = k, evalue = 0, ehash = h\<rparr>" "bag (slots m') = add_mset \<lparr>ekey = k, evalue = 0, ehash = h\<rparr> (bag (slots m))"
    "length (slots m') = length (slots m)"
proof (rule probe_ok [OF assms(2), of k h])
  fix i assume i: "i < length (slots m)" "probe mt k h m = Some i" "live (slots m ! i) \<Longrightarrow> matches mt k h (slots m ! i)"
    "\<not> live (slots m ! i) \<Longrightarrow> path (slots m) (home (slots m) h) i"
  have n: "\<not> live (slots m ! i)" using i(1,3) assms(5) in_bag [of "slots m ! i" "slots m"] by blast
  note p = put_entry_ok [OF assms(1-3) i(2,1) n i(4) [OF n] assms(5)]
  have "occupancy (put_entry i k h m) = occupancy m + 1" by (simp add: put_entry_def)
  then have "hm_ok mt (put_entry i k h m)" using p assms(2,4) by (auto simp: hm_ok_def)
  moreover have "lookup_at d mt True k h m = Some (Some i, put_entry i k h m)"
    using i(2) n p(2) assms(4) by (subst lookup_at.simps) (simp add: put_entry_def Let_def)
  ultimately show thesis using that p i(1) by simp
qed

lemma rehash_ok:
  assumes "equivp mt" "hm_ok mt m" "keys_differ mt (bag es + bag (slots m))" "n = size (bag es)"
    "occupancy m + n + (occupancy m + n) div 4 < length (slots m)"
  shows "\<exists>m'. rehash (lookup_at d mt True) es n m = Some m' \<and> hm_ok mt m' \<and> bag (slots m') = bag es + bag (slots m) \<and>
    length (slots m') = length (slots m)"
  using assms(2-5)
proof (induction es arbitrary: m n)
  case Nil
  then show ?case by (simp add: bag_def)
next
  case (Cons e es)
  show ?case
  proof (cases "live e")
    case False
    then have b: "bag (e # es) = bag es" by (simp add: bag_def)
    have "rehash lk (e # es) n m = rehash lk es n m" for lk using False by (cases n) simp_all
    then show ?thesis using Cons.IH [OF Cons.prems(1), of n] Cons.prems(2-4) by (simp add: b)
  next
    case True
    have b: "bag (e # es) = add_mset e (bag es)" using True by (simp add: bag_def)
    obtain n' where n: "n = Suc n'" "n' = size (bag es)" using Cons.prems(3) b by auto
    have no: "\<forall>f \<in># bag (slots m). \<not> matches mt (ekey e) (ehash e) f"
    proof
      fix f assume "f \<in># bag (slots m)"
      then have "{#e, f#} \<subseteq># bag (e # es) + bag (slots m)" by (auto simp: b insert_subset_eq_iff)
      then show "\<not> matches mt (ekey e) (ehash e) f" using Cons.prems(2) by (auto simp: keys_differ_def matches_def)
    qed
    have "occupancy m + 1 + (occupancy m + 1) div 4 < length (slots m)" using Cons.prems(4) n(1) div_le_mono [of "occupancy m + 1" "occupancy m + n" 4] by linarith
    from lookup_insert [OF assms(1) Cons.prems(1) _ this no, of d] True obtain i m1 where
      m1: "lookup_at d mt True (ekey e) (ehash e) m = Some (Some i, m1)" "hm_ok mt m1" "i < length (slots m1)"
        "slots m1 ! i = \<lparr>ekey = ekey e, evalue = 0, ehash = ehash e\<rparr>"
        "bag (slots m1) = add_mset \<lparr>ekey = ekey e, evalue = 0, ehash = ehash e\<rparr> (bag (slots m))" "length (slots m1) = length (slots m)"
      unfolding live_def by blast
    have l: "live (slots m1 ! i)" using True m1(4) by (simp add: live_def)
    note v = set_value_ok [OF assms(1) m1(2,3) l, of "evalue e"]
    let ?m2 = "set_value i (evalue e) m1"
    have b2: "bag (slots ?m2) = add_mset e (bag (slots m))" unfolding v(2) m1(4,5) by simp
    have o2: "occupancy ?m2 = occupancy m + 1" using hm_okD(4) [OF v(1)] hm_okD(4) [OF Cons.prems(1)] by (simp add: b2)
    have "\<exists>m'. rehash (lookup_at d mt True) es n' ?m2 = Some m' \<and> hm_ok mt m' \<and> bag (slots m') = bag es + bag (slots ?m2) \<and>
        length (slots m') = length (slots ?m2)"
    proof (rule Cons.IH [OF v(1) _ n(2)])
      show "keys_differ mt (bag es + bag (slots ?m2))" using Cons.prems(2) by (simp add: b b2)
      show "occupancy ?m2 + n' + (occupancy ?m2 + n') div 4 < length (slots ?m2)" using Cons.prems(4) n(1) o2 v(3) m1(6) by simp
    qed
    then show ?thesis using True m1(1,6) n(1) v(3) by (simp add: b b2)
  qed
qed

definition has_key :: "match_fun \<Rightarrow> nat \<Rightarrow> u32 \<Rightarrow> hmap \<Rightarrow> bool" where
  "has_key mt k h m \<longleftrightarrow> (\<exists>e \<in># bag (slots m). matches mt k h e)"

lemma probe_has_key:
  assumes "hm_ok mt m" "has_key mt k h m"
  obtains i where "probe mt k h m = Some i" "i < length (slots m)" "live (slots m ! i)" "matches mt k h (slots m ! i)"
  using probe_ok [OF assms(1), of k h] assms(2) by (metis has_key_def)

lemma grow:
  assumes "equivp mt" "hm_ok mt m" "keys_differ mt (bag es)" "length es = length (slots m)" "n = size (bag es)" "n = occupancy m + 1"
    "length (slots m) < 2 ^ 31"
  shows "\<exists>m'. rehash (lookup_at d mt True) es n (new_table (length es * 2 mod 2 ^ 32)) = Some m' \<and> hm_ok mt m' \<and>
    bag (slots m') = bag es \<and> length (slots m') = 2 * length (slots m)"
proof -
  obtain j where j: "j \<le> 31" "length (slots m) = 2 ^ j" using assms(2) by (auto simp: hm_ok_def)
  then have "j < 31" using assms(7) by (metis power_strict_increasing_iff one_less_numeral_iff semiring_norm(76))
  have c: "length es * 2 mod 2 ^ 32 = 2 ^ (j + 1)" using assms(4,7) j(2) by simp
  have ok: "hm_ok mt (new_table (2 ^ (j + 1)))" using \<open>j < 31\<close> by (intro new_table_ok) simp
  have l: "length (slots (new_table c)) = c" "occupancy (new_table c) = 0" for c by (simp_all add: new_table_def)
  have "occupancy m + occupancy m div 4 < length (slots m)" using assms(2) by (auto simp: hm_ok_def)
  moreover have "n div 4 \<le> (occupancy m + 4) div 4" by (rule div_le_mono) (simp add: assms(6))
  moreover have "(occupancy m + 4) div 4 = occupancy m div 4 + 1" by simp
  moreover have "n div 4 = 0" if "occupancy m = 0" using that assms(6) by simp
  ultimately have "n + n div 4 < 2 * length (slots m)" using assms(6) by (cases "occupancy m = 0") linarith+
  then have "0 + n + (0 + n) div 4 < 2 ^ (j + 1)" using j(2) by simp
  then show ?thesis
    using rehash_ok [OF assms(1) ok, of es n d] assms(3,5) j(2) unfolding c l by simp
qed

lemma hm_lookup_insert:
  assumes "equivp mt" "hm_ok mt m" "k \<noteq> 0" "length (slots m) < 2 ^ 31"
  obtains i m' where "hm_lookup mt True k h m = Some (Some i, m')" "hm_ok mt m'" "i < length (slots m')" "matches mt k h (slots m' ! i)"
    "if has_key mt k h m then m' = m else bag (slots m') = add_mset \<lparr>ekey = k, evalue = 0, ehash = h\<rparr> (bag (slots m))"
    "length (slots m') \<le> max (length (slots m)) (3 * occupancy m')"
proof (rule probe_ok [OF assms(2), of k h])
  fix i assume i: "i < length (slots m)" "probe mt k h m = Some i" "live (slots m ! i) \<Longrightarrow> matches mt k h (slots m ! i)"
    "\<not> live (slots m ! i) \<Longrightarrow> path (slots m) (home (slots m) h) i" "\<not> live (slots m ! i) \<Longrightarrow> \<forall>e \<in># bag (slots m). \<not> matches mt k h e"
  let ?e = "\<lparr>ekey = k, evalue = 0, ehash = h\<rparr>" and ?m = "put_entry i k h m"
  have l: "live ?e" using assms(3) by (simp add: live_def)
  have r: "matches mt k h ?e" using l equivp_reflp [OF assms(1)] by (simp add: matches_def)
  show thesis
  proof (cases "live (slots m ! i)")
    case True
    then have "has_key mt k h m" using i(1,3) in_bag [of "slots m ! i" "slots m"] by (auto simp: has_key_def)
    moreover have "hm_lookup mt True k h m = Some (Some i, m)" unfolding hm_lookup_def using i(2) True by (subst lookup_at.simps) simp
    ultimately show thesis using that assms(2) i(1) i(3) [OF True] by simp
  next
    case False
    note p = put_entry_ok [OF assms(1-3) i(2,1) False i(4) [OF False] i(5) [OF False]]
    have nk: "\<not> has_key mt k h m" using i(5) [OF False] by (simp add: has_key_def)
    have o: "occupancy ?m = occupancy m + 1" by (simp add: put_entry_def)
    show thesis
    proof (cases "length (slots ?m) \<le> occupancy ?m + occupancy ?m div 4")
      case small: False
      then have "hm_ok mt ?m" using p assms(2) by (auto simp: hm_ok_def)
      moreover have "hm_lookup mt True k h m = Some (Some i, ?m)"
        unfolding hm_lookup_def using i(2) False small by (subst lookup_at.simps) (simp add: Let_def)
      ultimately show thesis using that [of i ?m] p(1-3) nk r i(1) by simp
    next
      case big: True
      obtain m' where m': "rehash (lookup_at 0 mt True) (slots ?m) (occupancy ?m) (new_table (length (slots ?m) * 2 mod 2 ^ 32)) = Some m'"
          "hm_ok mt m'" "bag (slots m') = bag (slots ?m)" "length (slots m') = 2 * length (slots m)"
        using grow [OF assms(1,2) p(6,2,4) o assms(4)] by blast
      have "has_key mt k h m'" using r by (auto simp: has_key_def m'(3) p(1))
      then obtain i' where i': "probe mt k h m' = Some i'" "i' < length (slots m')" "matches mt k h (slots m' ! i')"
        using probe_has_key [OF m'(2)] by metis
      have "hm_lookup mt True k h m = Some (Some i', m')"
        unfolding hm_lookup_def using i(2) False big m'(1) i'(1) by (subst lookup_at.simps) (simp add: Let_def)
      moreover have "length (slots m') \<le> 3 * occupancy m'" using big m'(4) p(2,4) hm_okD(4) [OF m'(2)] by (simp add: m'(3))
      ultimately show thesis using that [of i' m'] m'(2,3) i'(2,3) p(1) nk by simp
    qed
  qed
qed

lemma hm_lookup_find:
  assumes "hm_ok mt m"
  obtains i where "i < length (slots m)" "matches mt k h (slots m ! i)" "has_key mt k h m" "hm_lookup mt False k h m = Some (Some i, m)"
  | "\<not> has_key mt k h m" "hm_lookup mt False k h m = Some (None, m)"
proof (rule probe_ok [OF assms, of k h])
  fix i assume i: "i < length (slots m)" "probe mt k h m = Some i" "live (slots m ! i) \<Longrightarrow> matches mt k h (slots m ! i)"
    "\<not> live (slots m ! i) \<Longrightarrow> \<forall>e \<in># bag (slots m). \<not> matches mt k h e"
  show thesis
  proof (cases "live (slots m ! i)")
    case True
    then have "has_key mt k h m" using i(1,3) in_bag [of "slots m ! i" "slots m"] by (auto simp: has_key_def)
    moreover have "hm_lookup mt False k h m = Some (Some i, m)" unfolding hm_lookup_def using i(2) True by (subst lookup_at.simps) simp
    ultimately show thesis using that(1) i(1) i(3) [OF True] by blast
  next
    case False
    then have "\<not> has_key mt k h m" using i(4) by (simp add: has_key_def)
    moreover have "hm_lookup mt False k h m = Some (None, m)" unfolding hm_lookup_def using i(2) False by (subst lookup_at.simps) simp
    ultimately show thesis by (rule that(2))
  qed
qed

section \<open>Removal\<close>

lemma path_start:
  assumes "path es s j" "length es = n" "s < n" "p < n" "j = (p + t) mod n" "t < n"
    and "\<not> (\<exists>u. 0 < u \<and> u \<le> t \<and> s = (p + u) mod n)"
  shows "path es s p"
proof -
  obtain D where D: "D < n" "(s + D) mod n = j" "\<forall>d < D. live (es ! ((s + d) mod n))" using assms(1,2) by (auto simp: path_def)
  obtain u where u: "u < n" "(p + u) mod n = s" using walk_to [OF assms(4,3)] by blast
  have "(p + (u + D)) mod n = (p + t) mod n" using D(2) u(2) assms(5) by (metis add.assoc mod_add_left_eq)
  then have ud: "u + D = t \<or> u + D = t + n"
  proof (cases "u + D < n")
    case True
    then show ?thesis using walk_inj [of p "u + D" n t] assms(6) \<open>(p + (u + D)) mod n = (p + t) mod n\<close> by simp
  next
    case False
    then have "(p + (u + D - n)) mod n = (p + t) mod n" using \<open>(p + (u + D)) mod n = (p + t) mod n\<close>
      by (metis add_diff_assoc le_mod_geq leI mod_add_self2 add.assoc le_add_diff_inverse2)
    then show ?thesis using walk_inj [of p "u + D - n" n t] assms(6) u(1) D(1) False by simp
  qed
  show ?thesis
  proof (cases "u = 0")
    case True
    then show ?thesis using u(2) assms(2,4) D(1) by (auto simp: path_def intro!: exI [of _ 0])
  next
    case False
    then have "t < u" using assms(7) u by (metis not_le neq0_conv)
    then have "u + D = t + n" using ud by auto
    then have "D = (n - u) + t" using u(1) by simp
    moreover have "(s + (n - u)) mod n = p" using u assms(4) by (metis add.assoc le_add_diff_inverse less_imp_le_nat mod_add_left_eq mod_add_self2 mod_less)
    ultimately show ?thesis using D(1,3) assms(2) by (auto simp: path_def intro!: exI [of _ "n - u"])
  qed
qed

text \<open>
  The invariant of the loop with candidate \<open>p\<close> and scan \<open>A\<close> slots further: what is to be left is \<open>B\<close>; the slots
  up to the scan are live, and between candidate and scan no entry is looked for across the candidate.
\<close>

definition gap_ok :: "hentry multiset \<Rightarrow> nat \<Rightarrow> nat \<Rightarrow> hentry list \<Rightarrow> bool" where
  "gap_ok B p A es \<longleftrightarrow> p < length es \<and> A < length es \<and> live (es ! p) \<and> bag es = add_mset (es ! p) B \<and>
     (\<forall>t \<le> A. live (es ! ((p + t) mod length es))) \<and>
     (\<forall>j < length es. j \<noteq> p \<longrightarrow> live (es ! j) \<longrightarrow> path es (home es (ehash (es ! j))) j) \<and>
     (\<forall>t. 0 < t \<longrightarrow> t \<le> A \<longrightarrow> (\<exists>u. 0 < u \<and> u \<le> t \<and> home es (ehash (es ! ((p + t) mod length es))) = (p + u) mod length es))"

lemma gap_test:
  fixes p :: nat
  assumes "p < n" "0 < t" "t < n" "q = (p + t) mod n" "r < n"
  shows "(p < q \<and> (r \<le> p \<or> q < r) \<or> q < p \<and> r \<le> p \<and> q < r) \<longleftrightarrow> \<not> (\<exists>u. 0 < u \<and> u \<le> t \<and> r = (p + u) mod n)"
proof -
  have q: "q = (if p + t < n then p + t else p + t - n)" using assms by (simp add: le_mod_geq)
  have u: "(p + u) mod n = (if p + u < n then p + u else p + u - n)" if "u \<le> t" for u using that assms by (simp add: le_mod_geq)
  have e: "(\<exists>u. 0 < u \<and> u \<le> t \<and> r = (p + u) mod n) \<longleftrightarrow> (p < r \<and> r \<le> p + t) \<or> r + n \<le> p + t"
  proof
    assume "\<exists>u. 0 < u \<and> u \<le> t \<and> r = (p + u) mod n"
    then show "(p < r \<and> r \<le> p + t) \<or> r + n \<le> p + t" using u by (auto split: if_splits)
  next
    assume "(p < r \<and> r \<le> p + t) \<or> r + n \<le> p + t"
    then show "\<exists>u. 0 < u \<and> u \<le> t \<and> r = (p + u) mod n"
    proof
      assume "p < r \<and> r \<le> p + t" then show ?thesis using assms(5) by (intro exI [of _ "r - p"]) auto
    next
      assume "r + n \<le> p + t" then show ?thesis using assms(1,5) by (intro exI [of _ "r + n - p"]) auto
    qed
  qed
  show ?thesis
  proof (cases "p + t < n")
    case True
    then have "q = p + t" using q by simp
    then show ?thesis unfolding e using assms(1-3,5) True by auto
  next
    case False
    then have "q = p + t - n" using q by simp
    then have "q < p" "q + n = p + t" using assms(1-3) False by linarith+
    then show ?thesis unfolding e using assms(5) by auto
  qed
qed

lemma home_update [simp]: "home (es[i := e]) h = home es h" "home (clear_key i es) h = home es h"
  by (simp_all add: home_def clear_key_def)

lemma gap_move:
  assumes g: "gap_ok B p A es" and n: "A + 1 < length es" and q: "q = (p + (A + 1)) mod length es" and l: "live (es ! q)"
    and r: "\<not> (\<exists>u. 0 < u \<and> u \<le> A + 1 \<and> home es (ehash (es ! q)) = (p + u) mod length es)" "home es (ehash (es ! q)) < length es"
  shows "gap_ok B q 0 (es[p := es ! q])"
proof -
  let ?es = "es[p := es ! q]"
  have b: "p < length es" "live (es ! p)" "bag es = add_mset (es ! p) B" using g by (auto simp: gap_ok_def)
  have ql: "q < length es" unfolding q by (rule mod_less_divisor) (use n in linarith)
  have pq: "p \<noteq> q"
  proof
    assume "p = q"
    then have "(p + (A + 1)) mod length es = (p + 0) mod length es" using q b(1) by simp
    moreover have "0 < length es" using n by linarith
    ultimately show False using walk_inj [of p "A + 1" "length es" 0] n by linarith
  qed
  have "bag ?es = add_mset (es ! q) B" unfolding bag_update [OF b(1)] using b(2,3) l by simp
  moreover have "path ?es (home ?es (ehash (?es ! j))) j" if j: "j < length es" "j \<noteq> q" "live (?es ! j)" for j
  proof (cases "j = p")
    case True
    have "path es (home es (ehash (es ! q))) q" using g l ql pq by (auto simp: gap_ok_def)
    then have "path es (home es (ehash (es ! q))) p" by (rule path_start [OF _ refl r(2) b(1) q n r(1)])
    then show ?thesis using path_update [OF _ l] True b(1) by simp
  next
    case False
    then have "path es (home es (ehash (es ! j))) j" using g j by (auto simp: gap_ok_def)
    then show ?thesis using path_update [OF _ l] False by simp
  qed
  ultimately show ?thesis using b ql pq l by (auto simp: gap_ok_def)
qed

lemma gap_keep:
  assumes "gap_ok B p A es" "A + 1 < length es" "live (es ! ((p + (A + 1)) mod length es))"
    "\<exists>u. 0 < u \<and> u \<le> A + 1 \<and> home es (ehash (es ! ((p + (A + 1)) mod length es))) = (p + u) mod length es"
  shows "gap_ok B p (A + 1) es"
  using assms by (auto simp: gap_ok_def le_Suc_eq)

lemma gap_path:
  assumes g: "gap_ok B p A es" and q: "\<not> live (es ! ((p + (A + 1)) mod length es))" and j: "j < length es" "j \<noteq> p" "live (es ! j)"
  shows "path (clear_key p es) (home es (ehash (es ! j))) j"
proof -
  let ?n = "length es" and ?s = "home es (ehash (es ! j))"
  obtain D where D: "D < ?n" "(?s + D) mod ?n = j" "\<forall>d < D. live (es ! ((?s + d) mod ?n))"
    using g j by (auto simp: gap_ok_def path_def)
  have p: "p < ?n" using g by (simp add: gap_ok_def)
  obtain t where t: "t < ?n" "(p + t) mod ?n = j" using walk_to [OF p j(1)] by blast
  have "(?s + d) mod ?n \<noteq> p" if "d < D" for d
  proof
    assume e: "(?s + d) mod ?n = p"
    have "(p + (D - d)) mod ?n = j" using D(2) e that by (metis add.assoc le_add_diff_inverse less_imp_le_nat mod_add_left_eq)
    then have "D - d = t" using walk_inj [of p "D - d" ?n t] t D(1) by simp
    then have Dt: "D = d + t" using that by simp
    have pm: "(?s + (d + c)) mod ?n = (p + c) mod ?n" for c using e by (metis add.assoc mod_add_left_eq)
    consider "t \<le> A" | "t = A + 1" | "A + 1 < t" by linarith
    then show False
    proof cases
      case 1
      have "0 < t" using t j(2) p by (cases t) auto
      then have "\<exists>u. 0 < u \<and> u \<le> t \<and> ?s = (p + u) mod ?n" using g 1 t(2) unfolding gap_ok_def by blast
      then obtain u where u: "0 < u" "u \<le> t" "?s = (p + u) mod ?n" by blast
      have "(p + (u + d)) mod ?n = (p + 0) mod ?n" using e u(3) p by (metis add.assoc mod_add_left_eq add_0_right mod_less)
      moreover have "u + d < ?n" "0 < ?n" using u(2) Dt D(1) by linarith+
      ultimately show False using walk_inj [of p "u + d" ?n 0] u(1) by blast
    next
      case 2 then show False using t(2) q j(3) by simp
    next
      case 3 then show False using D(3) Dt pm [of "A + 1"] q by (metis add_less_cancel_left)
    qed
  qed
  then have "\<forall>d < D. live (clear_key p es ! ((?s + d) mod ?n))" using D(3) by (metis clear_key_def nth_list_update_neq)
  then show ?thesis using D(1,2) by (auto simp: path_def clear_key_def)
qed

lemma gap_end:
  assumes g: "gap_ok B p A es" and q: "\<not> live (es ! ((p + (A + 1)) mod length es))"
  shows "reached (clear_key p es)" "bag (clear_key p es) = B"
proof -
  have p: "p < length es" "live (es ! p)" "bag es = add_mset (es ! p) B" using g by (auto simp: gap_ok_def)
  have "\<not> live ((es ! p)\<lparr>ekey := 0\<rparr>)" by (simp add: live_def)
  then show "bag (clear_key p es) = B" using p bag_update [OF p(1), of "(es ! p)\<lparr>ekey := 0\<rparr>"] by (simp add: clear_key_def)
  have "path (clear_key p es) (home es (ehash (clear_key p es ! j))) j" if "j < length es" "live (clear_key p es ! j)" for j
    using gap_path [OF g q that(1)] that p(1) by (cases "j = p") (auto simp: clear_key_def live_def)
  then show "reached (clear_key p es)" by (simp add: reached_def) (simp add: clear_key_def)
qed

lemma close_gap_ok:
  assumes "gap_ok B p A es" "\<not> live (es ! ((p + A + c) mod length es))" "size B + 1 < length es" "\<And>h. home es h < length es"
  shows "\<exists>es' p'. close_gap es p ((p + A) mod length es) = Some (es', p') \<and> reached (clear_key p' es') \<and>
    bag (clear_key p' es') = B \<and> length es' = length es"
  using assms
proof (induction c arbitrary: p A es)
  case 0 then show ?case by (auto simp: gap_ok_def)
next
  case (Suc c)
  let ?n = "length es" and ?q = "(p + (A + 1)) mod length es"
  have g: "p < ?n" "es \<noteq> []" "\<forall>t \<le> A. live (es ! ((p + t) mod ?n))" "bag es = add_mset (es ! p) B" using Suc.prems(1) by (auto simp: gap_ok_def)
  have nx: "next_slot es ((p + A) mod ?n) = ?q" using next_slot_walk [OF g(2), of p A] by simp
  obtain i where i: "i < ?n" "\<not> live (es ! i)" using empty_slot [of es] Suc.prems(3) g(4) by auto
  obtain t where t: "t < ?n" "(p + t) mod ?n = i" using walk_to [OF g(1) i(1)] by blast
  have An: "A + 1 < ?n" if "live (es ! ?q)"
  proof -
    have "A < t" using g(3) i(2) t(2) by (metis not_le)
    moreover have "t \<noteq> A + 1" using that i(2) t(2) by auto
    ultimately show ?thesis using t(1) by simp
  qed
  let ?r = "home es (ehash (es ! ?q))"
  let ?in = "\<exists>u. 0 < u \<and> u \<le> A + 1 \<and> ?r = (p + u) mod ?n"
  have step: "close_gap es p ((p + A) mod ?n) = (if \<not> live (es ! ?q) then Some (es, p)
      else if \<not> ?in then close_gap (es[p := es ! ?q]) ?q ?q else close_gap es p ?q)"
  proof (cases "live (es ! ?q)")
    case True
    from gap_test [OF g(1) _ An [OF True] refl Suc.prems(4), of "ehash (es ! ?q)"]
    have e: "(p < ?q \<and> (?r \<le> p \<or> ?q < ?r) \<or> ?q < p \<and> ?r \<le> p \<and> ?q < ?r) = (\<not> ?in)" by simp
    show ?thesis unfolding close_gap.simps [of es p "(p + A) mod ?n"] nx Let_def e using True by simp
  next
    case False
    then show ?thesis unfolding close_gap.simps [of es p "(p + A) mod ?n"] nx Let_def by simp
  qed
  consider "\<not> live (es ! ?q)" | "live (es ! ?q)" "\<not> ?in" | "live (es ! ?q)" "?in" by blast
  then show ?case
  proof cases
    case 1
    then show ?thesis using gap_end [OF Suc.prems(1)] step by auto
  next
    case 2
    let ?es = "es[p := es ! ?q]"
    have "(?q + 0 + c) mod ?n = (p + A + Suc c) mod ?n" by (simp add: mod_simps)
    moreover have "p \<noteq> (p + A + Suc c) mod ?n" using Suc.prems(1,2) by (auto simp: gap_ok_def)
    ultimately have "\<not> live (?es ! ((?q + 0 + c) mod length ?es))" using Suc.prems(2) by simp
    from Suc.IH [OF gap_move [OF Suc.prems(1) An [OF 2(1)] refl 2(1,2) Suc.prems(4)] this] show ?thesis
      using step 2 Suc.prems(3,4) g(1) by simp
  next
    case 3
    have "(p + (A + 1) + c) mod ?n = (p + A + Suc c) mod ?n" by simp
    then have "\<not> live (es ! ((p + (A + 1) + c) mod ?n))" using Suc.prems(2) by simp
    from Suc.IH [OF gap_keep [OF Suc.prems(1) An [OF 3(1)] 3] this Suc.prems(3,4)] show ?thesis using step 3 by simp
  qed
qed

lemma hm_remove_ok:
  assumes "hm_ok mt m"
  obtains m' where "hm_remove mt k h m = Some m'" "hm_ok mt m'" "length (slots m') = length (slots m)"
    "if has_key mt k h m then \<exists>e. matches mt k h e \<and> bag (slots m) = add_mset e (bag (slots m')) else m' = m"
proof (rule probe_ok [OF assms, of k h])
  fix p assume p: "p < length (slots m)" "probe mt k h m = Some p" "live (slots m ! p) \<Longrightarrow> matches mt k h (slots m ! p)"
    "\<not> live (slots m ! p) \<Longrightarrow> \<forall>e \<in># bag (slots m). \<not> matches mt k h e"
  note ok = hm_okD [OF assms]
  show thesis
  proof (cases "live (slots m ! p)")
    case False
    then have "\<not> has_key mt k h m" using p(4) by (simp add: has_key_def)
    then show thesis using that [of m] p(2) False assms by (simp add: hm_remove_def)
  next
    case True
    let ?B = "bag (slots m) - {#slots m ! p#}"
    have e: "slots m ! p \<in># bag (slots m)" using p(1) True by (auto simp: in_bag)
    have hk: "has_key mt k h m" using e p(3) [OF True] by (auto simp: has_key_def)
    have g: "gap_ok ?B p 0 (slots m)" using p(1) True e ok(5) by (auto simp: gap_ok_def reached_def)
    have sz: "size ?B + 1 = size (bag (slots m))" using e by (metis Suc_eq_plus1 insert_DiffM size_add_mset)
    have lt: "size (bag (slots m)) < length (slots m)" using assms by (auto simp: hm_ok_def)
    obtain i where "i < length (slots m)" "\<not> live (slots m ! i)" using ok(3) by blast
    then obtain c where c: "\<not> live (slots m ! ((p + 0 + c) mod length (slots m)))" using walk_to [OF p(1)] by (metis add_0_right)
    obtain es q where q: "close_gap (slots m) p p = Some (es, q)" "reached (clear_key q es)" "bag (clear_key q es) = ?B" "length es = length (slots m)"
      using close_gap_ok [OF g c _ ok(2)] sz lt p(1) by auto
    let ?m = "m\<lparr>slots := clear_key q es, occupancy := occupancy m - 1\<rparr>"
    have "keys_differ mt ?B" by (rule keys_differ_subset [OF ok(6)]) simp
    moreover have "occupancy m - 1 = size ?B" using ok(4) sz by simp
    moreover have "size ?B + size ?B div 4 < length (slots m)" using assms ok(4) sz div_le_mono [of "size ?B" "occupancy m" 4]
      unfolding hm_ok_def by linarith
    moreover have "length (clear_key q es) = length (slots m)" using q(4) by (simp add: clear_key_def)
    ultimately have "hm_ok mt ?m" using q(2,3) assms by (simp add: hm_ok_def)
    moreover have "hm_remove mt k h m = Some ?m" using p(2) True q(1) by (simp add: hm_remove_def)
    moreover have "bag (slots m) = add_mset (slots m ! p) (bag (slots ?m))" using e q(3) by simp
    ultimately show thesis using that [of ?m] hk p(3) [OF True] q(4) by (auto simp: clear_key_def)
  qed
qed

section \<open>The map\<close>

text \<open>What a client reads and writes: the value of the entry found, and \<open>Lookup(key, hash, true)->value = v\<close>.\<close>

definition hm_find :: "match_fun \<Rightarrow> nat \<Rightarrow> u32 \<Rightarrow> hmap \<Rightarrow> nat option option" where
  "hm_find mt k h m = map_option (\<lambda>(i, m). map_option (\<lambda>i. evalue (slots m ! i)) i) (hm_lookup mt False k h m)"

definition hm_put :: "match_fun \<Rightarrow> nat \<Rightarrow> u32 \<Rightarrow> nat \<Rightarrow> hmap \<Rightarrow> (nat \<times> hmap) option" where
  "hm_put mt k h v m =
     (case hm_lookup mt True k h m of Some (Some i, m) \<Rightarrow> Some (evalue (slots m ! i), set_value i v m) | _ \<Rightarrow> None)"

type_synonym view = "nat \<Rightarrow> u32 \<Rightarrow> nat option"

definition view_put :: "match_fun \<Rightarrow> nat \<Rightarrow> u32 \<Rightarrow> nat option \<Rightarrow> view \<Rightarrow> view" where
  "view_put mt k h v A = (\<lambda>k' h'. if h' = h \<and> mt k' k then v else A k' h')"

lemma content_has_key:
  assumes "equivp mt" "hm_ok mt m"
  shows "has_key mt k h m \<longleftrightarrow> content mt m k h \<noteq> None"
  using content_None [OF assms(1) hm_okD(6) [OF assms(2)]] by (auto simp: has_key_def)

lemma content_slot:
  assumes "equivp mt" "hm_ok mt m" "i < length (slots m)" "matches mt k h (slots m ! i)"
  shows "content mt m k h = Some (evalue (slots m ! i))"
  using assms content_in_bag [OF assms(1) hm_okD(6) [OF assms(2)]] in_bag [of "slots m ! i" "slots m"] by (auto simp: matches_def)

lemma hm_find_content:
  assumes "equivp mt" "hm_ok mt m" shows "hm_find mt k h m = Some (content mt m k h)"
  by (rule hm_lookup_find [OF assms(2), of k h]) (use content_slot [OF assms] content_has_key [OF assms, of k h] in \<open>auto simp: hm_find_def\<close>)

lemma content_set_value:
  assumes "equivp mt" "hm_ok mt m" "i < length (slots m)" "matches mt k h (slots m ! i)"
  shows "content mt (set_value i v m) = view_put mt k h (Some v) (content mt m)"
proof (intro ext option_eqI)
  fix k' h' x
  let ?e = "slots m ! i" and ?m = "set_value i v m"
  have l: "live ?e" using assms(4) by (simp add: matches_def)
  note ok = set_value_ok [OF assms(1-3) l, of v]
  have e: "?e \<in># bag (slots m)" using assms(3) l by (auto simp: in_bag)
  have m: "matches mt k' h' ?e \<longleftrightarrow> h' = h \<and> mt k' k" "matches mt k' h' (?e\<lparr>evalue := v\<rparr>) \<longleftrightarrow> h' = h \<and> mt k' k"
    using assms(1,4) by (auto simp: matches_def live_def dest: equivp_symp equivp_transp)
  note c = content_in_bag [OF assms(1) hm_okD(6) [OF assms(2)], of k' h'] and c' = content_in_bag [OF assms(1) hm_okD(6) [OF ok(1)], of k' h']
  show "content mt ?m k' h' = Some x \<longleftrightarrow> view_put mt k h (Some v) (content mt m) k' h' = Some x"
  proof (cases "h' = h \<and> mt k' k")
    case True
    then have "content mt ?m k' h' = Some v" unfolding c' ok(2) using m(2) by auto
    then show ?thesis using True by (simp add: view_put_def)
  next
    case False
    then have "(\<exists>f \<in># bag (slots m). matches mt k' h' f \<and> evalue f = x) \<longleftrightarrow> (\<exists>f \<in># bag (slots m) - {#?e#}. matches mt k' h' f \<and> evalue f = x)"
      using e m(1) by (metis in_diffD insert_DiffM insert_noteq_member)
    then show ?thesis using False m(2) by (auto simp: view_put_def c c' ok(2))
  qed
qed

lemma hm_put_content:
  assumes "equivp mt" "hm_ok mt m" "k \<noteq> 0" "length (slots m) < 2 ^ 31"
  obtains m' where "hm_put mt k h v m = Some (case content mt m k h of Some x \<Rightarrow> x | None \<Rightarrow> 0, m')" "hm_ok mt m'"
    "content mt m' = view_put mt k h (Some v) (content mt m)" "length (slots m') \<le> max (length (slots m)) (3 * occupancy m')"
    "occupancy m' \<le> occupancy m + 1"
proof (rule hm_lookup_insert [OF assms, of h])
  fix i m1 assume r: "hm_lookup mt True k h m = Some (Some i, m1)" "hm_ok mt m1" "i < length (slots m1)" "matches mt k h (slots m1 ! i)"
    "if has_key mt k h m then m1 = m else bag (slots m1) = add_mset \<lparr>ekey = k, evalue = 0, ehash = h\<rparr> (bag (slots m))"
    "length (slots m1) \<le> max (length (slots m)) (3 * occupancy m1)"
  let ?m = "set_value i v m1" and ?e = "\<lparr>ekey = k, evalue = 0, ehash = h\<rparr>"
  have l: "live (slots m1 ! i)" using r(4) by (simp add: matches_def)
  have "live ?e" using assms(3) by (simp add: live_def)
  then have c1: "content mt m1 = (if has_key mt k h m then content mt m else view_put mt k h (Some 0) (content mt m))"
    using r(5) content_add [OF assms(1) hm_okD(6) [OF r(2)], of ?e m] by (auto simp: view_put_def fun_eq_iff)
  have "evalue (slots m1 ! i) = (case content mt m k h of Some x \<Rightarrow> x | None \<Rightarrow> 0)"
    using content_slot [OF assms(1) r(2-4)] c1 content_has_key [OF assms(1,2), of k h] equivp_reflp [OF assms(1)]
    by (auto simp: view_put_def split: if_splits option.splits)
  then have "hm_put mt k h v m = Some (case content mt m k h of Some x \<Rightarrow> x | None \<Rightarrow> 0, ?m)" using r(1) by (simp add: hm_put_def)
  moreover have "content mt ?m = view_put mt k h (Some v) (content mt m)"
    unfolding content_set_value [OF assms(1) r(2-4)] c1 by (auto simp: view_put_def fun_eq_iff)
  moreover have "occupancy m1 \<le> occupancy m + 1"
    using r(5) hm_okD(4) [OF r(2)] hm_okD(4) [OF assms(2)] by (auto split: if_splits)
  ultimately show thesis using that set_value_ok [OF assms(1) r(2,3) l, of v] r(6) by simp
qed

lemma hm_remove_content:
  assumes "equivp mt" "hm_ok mt m"
  obtains m' where "hm_remove mt k h m = Some m'" "hm_ok mt m'" "content mt m' = view_put mt k h None (content mt m)"
    "length (slots m') = length (slots m)" "occupancy m' \<le> occupancy m"
proof (rule hm_remove_ok [OF assms(2), of k h])
  fix m' assume r: "hm_remove mt k h m = Some m'" "hm_ok mt m'" "length (slots m') = length (slots m)"
    "if has_key mt k h m then \<exists>e. matches mt k h e \<and> bag (slots m) = add_mset e (bag (slots m')) else m' = m"
  show thesis
  proof (cases "has_key mt k h m")
    case False
    have "content mt m k' h = None" if "mt k' k" for k'
    proof -
      have "matches mt k' h e \<longleftrightarrow> matches mt k h e" for e using that assms(1) by (auto simp: matches_def dest: equivp_symp equivp_transp)
      then show ?thesis using False content_has_key [OF assms, of k' h] by (simp add: has_key_def)
    qed
    then have "content mt m = view_put mt k h None (content mt m)" by (auto simp: view_put_def fun_eq_iff)
    then show thesis using that r False by simp
  next
    case True
    then obtain e where e: "matches mt k h e" "bag (slots m) = add_mset e (bag (slots m'))" using r(4) by auto
    have eq: "h' = ehash e \<and> mt k' (ekey e) \<longleftrightarrow> h' = h \<and> mt k' k" for k' h'
      using e(1) assms(1) by (auto simp: matches_def dest: equivp_symp equivp_transp)
    have m: "content mt m = (\<lambda>k' h'. if h' = h \<and> mt k' k then Some (evalue e) else content mt m' k' h')"
      using content_add [OF assms(1) hm_okD(6) [OF assms(2)] e(2)] e(1) by (simp add: matches_def eq [unfolded matches_def])
    have "content mt m' k' h = None" if "mt k' k" for k'
    proof -
      have "\<not> matches mt k' h f" if "f \<in># bag (slots m')" for f
      proof
        assume f: "matches mt k' h f"
        have "{#e, f#} \<subseteq># bag (slots m)" using e(2) that by simp
        moreover have "ehash e = ehash f \<and> mt (ekey e) (ekey f)" using f e(1) \<open>mt k' k\<close> assms(1)
          by (auto simp: matches_def dest: equivp_symp equivp_transp)
        ultimately show False using hm_okD(6) [OF assms(2)] by (auto simp: keys_differ_def)
      qed
      then show ?thesis using content_None [OF assms(1) hm_okD(6) [OF r(2)]] by simp
    qed
    then have "content mt m' = view_put mt k h None (content mt m)" by (auto simp: view_put_def m fun_eq_iff)
    moreover have "occupancy m' \<le> occupancy m" using hm_okD(4) [OF r(2)] hm_okD(4) [OF assms(2)] e(2) by simp
    ultimately show thesis using that r by simp
  qed
qed

section \<open>Sequences of operations\<close>

datatype map_op = Find nat u32 | Put nat u32 nat | Erase nat u32

fun op_key :: "map_op \<Rightarrow> nat" where
  "op_key (Find k h) = k"
| "op_key (Put k h v) = k"
| "op_key (Erase k h) = k"

text \<open>A client: the results of the operations, and the last state.\<close>

fun run_ops :: "(nat \<Rightarrow> u32 \<Rightarrow> 's \<Rightarrow> nat option option) \<Rightarrow> (nat \<Rightarrow> u32 \<Rightarrow> nat \<Rightarrow> 's \<Rightarrow> (nat \<times> 's) option) \<Rightarrow>
    (nat \<Rightarrow> u32 \<Rightarrow> 's \<Rightarrow> 's option) \<Rightarrow> map_op list \<Rightarrow> 's \<Rightarrow> (nat option list \<times> 's) option" where
  "run_ops look put erase [] s = Some ([], s)"
| "run_ops look put erase (Find k h # ops) s =
     Option.bind (look k h s) (\<lambda>r. map_option (\<lambda>(rs, s). (r # rs, s)) (run_ops look put erase ops s))"
| "run_ops look put erase (Put k h v # ops) s =
     Option.bind (put k h v s) (\<lambda>(r, s). map_option (\<lambda>(rs, s). (Some r # rs, s)) (run_ops look put erase ops s))"
| "run_ops look put erase (Erase k h # ops) s =
     Option.bind (erase k h s) (\<lambda>s. map_option (\<lambda>(rs, s). (None # rs, s)) (run_ops look put erase ops s))"

definition view_run :: "match_fun \<Rightarrow> map_op list \<Rightarrow> view \<Rightarrow> (nat option list \<times> view) option" where
  "view_run mt = run_ops (\<lambda>k h A. Some (A k h)) (\<lambda>k h v A. Some (case A k h of Some x \<Rightarrow> x | None \<Rightarrow> 0, view_put mt k h (Some v) A))
     (\<lambda>k h A. Some (view_put mt k h None A))"

definition hm_run :: "match_fun \<Rightarrow> map_op list \<Rightarrow> hmap \<Rightarrow> (nat option list \<times> hmap) option" where
  "hm_run mt = run_ops (hm_find mt) (hm_put mt) (hm_remove mt)"

text \<open>The contract of a map from keys and hashes to values that has room for \<open>n\<close> more insertions.\<close>

locale keyed_store =
  fixes mt :: match_fun
    and ok :: "nat \<Rightarrow> 's \<Rightarrow> bool"
    and shown :: "'s \<Rightarrow> view"
    and look :: "nat \<Rightarrow> u32 \<Rightarrow> 's \<Rightarrow> nat option option"
    and put :: "nat \<Rightarrow> u32 \<Rightarrow> nat \<Rightarrow> 's \<Rightarrow> (nat \<times> 's) option"
    and erase :: "nat \<Rightarrow> u32 \<Rightarrow> 's \<Rightarrow> 's option"
  assumes room: "ok (Suc n) s \<Longrightarrow> ok n s"
    and find_law: "ok n s \<Longrightarrow> look k h s = Some (shown s k h)"
    and put_law: "ok (Suc n) s \<Longrightarrow> k \<noteq> 0 \<Longrightarrow> \<exists>s'. put k h v s = Some (case shown s k h of Some x \<Rightarrow> x | None \<Rightarrow> 0, s') \<and> ok n s' \<and>
      shown s' = view_put mt k h (Some v) (shown s)"
    and erase_law: "ok n s \<Longrightarrow> \<exists>s'. erase k h s = Some s' \<and> ok n s' \<and> shown s' = view_put mt k h None (shown s)"
begin

lemma run_shown:
  assumes "ok (length ops) s" "0 \<notin> op_key ` set ops"
  shows "\<exists>rs s'. run_ops look put erase ops s = Some (rs, s') \<and> view_run mt ops (shown s) = Some (rs, shown s')"
  using assms
proof (induction ops arbitrary: s)
  case Nil then show ?case by (simp add: view_run_def)
next
  case (Cons op ops)
  note IH = Cons.IH [unfolded view_run_def] and ok = room [OF Cons.prems(1) [unfolded list.size add_Suc_right add_0_right]]
  have z: "0 \<notin> op_key ` set ops" using Cons.prems(2) by auto
  show ?case
  proof (cases op)
    case (Find k h)
    then show ?thesis using IH [OF ok z] find_law [OF ok, of k h] by (auto simp: view_run_def)
  next
    case (Put k h v)
    then obtain s' where s': "put k h v s = Some (case shown s k h of Some x \<Rightarrow> x | None \<Rightarrow> 0, s')" "ok (length ops) s'"
        "shown s' = view_put mt k h (Some v) (shown s)"
      using put_law [of "length ops" s k h v] Cons.prems by auto
    then show ?thesis using IH [OF s'(2) z] Put by (auto simp: view_run_def)
  next
    case (Erase k h)
    then obtain s' where s': "erase k h s = Some s'" "ok (length ops) s'" "shown s' = view_put mt k h None (shown s)"
      using erase_law [OF ok, of k h] by auto
    then show ?thesis using IH [OF s'(2) z] Erase by (auto simp: view_run_def)
  qed
qed

end

text \<open>Room for \<open>n\<close> insertions, when the capacity stays a 32-bit number.\<close>

definition hm_room :: "match_fun \<Rightarrow> nat \<Rightarrow> hmap \<Rightarrow> bool" where
  "hm_room mt n m \<longleftrightarrow> equivp mt \<and> hm_ok mt m \<and> length (slots m) < 2 ^ 31 \<and> 3 * (occupancy m + n) < 2 ^ 31"

interpretation hm: keyed_store mt "hm_room mt" "content mt" "hm_find mt" "hm_put mt" "hm_remove mt" for mt
proof
  fix n m k h v
  show "hm_room mt (Suc n) m \<Longrightarrow> hm_room mt n m" by (simp add: hm_room_def)
  show "hm_room mt n m \<Longrightarrow> hm_find mt k h m = Some (content mt m k h)" using hm_find_content by (simp add: hm_room_def)
  show "\<exists>m'. hm_put mt k h v m = Some (case content mt m k h of Some x \<Rightarrow> x | None \<Rightarrow> 0, m') \<and> hm_room mt n m' \<and>
      content mt m' = view_put mt k h (Some v) (content mt m)" if r: "hm_room mt (Suc n) m" "k \<noteq> 0"
  proof -
    have "equivp mt" "hm_ok mt m" "length (slots m) < 2 ^ 31" using r(1) by (simp_all add: hm_room_def)
    from hm_put_content [OF this(1,2) r(2) this(3), of h v] show ?thesis using r(1) by (fastforce simp: hm_room_def max_def split: if_splits)
  qed
  show "\<exists>m'. hm_remove mt k h m = Some m' \<and> hm_room mt n m' \<and> content mt m' = view_put mt k h None (content mt m)" if r: "hm_room mt n m"
  proof -
    have "equivp mt" "hm_ok mt m" using r by (simp_all add: hm_room_def)
    from hm_remove_content [OF this, of k h] show ?thesis using r by (fastforce simp: hm_room_def)
  qed
qed

text \<open>
  Property C30: any sequence of operations on a new hash map returns and gives the results a map gives, whatever the hashes
  and however keys collide: probing, the moves of \<open>Remove\<close> and the growth of the table make no difference.\<close>

theorem hashmap_refines_map:
  assumes "equivp mt" "j \<le> 30" "0 \<notin> op_key ` set ops" "length ops \<le> 2 ^ 29"
  shows "\<exists>rs m. hm_run mt ops (new_table (2 ^ j)) = Some (rs, m) \<and> view_run mt ops (\<lambda>k h. None) = Some (rs, content mt m)"
proof -
  have "(2 :: nat) ^ j < 2 ^ 31" by (rule power_strict_increasing) (use assms(2) in auto)
  moreover have "length (slots (new_table n)) = n" "occupancy (new_table n) = 0" for n by (simp_all add: new_table_def)
  ultimately have "hm_room mt (length ops) (new_table (2 ^ j))" using new_table_ok [of j mt] assms(1,2,4) by (simp add: hm_room_def)
  moreover have "content mt (new_table n) = (\<lambda>k h. None)" for n
  proof -
    have "find (matches mt k h) (replicate n no_entry) = None" for k h by (auto simp: find_None_iff matches_def live_def no_entry_def)
    then show ?thesis by (simp add: content_def new_table_def fun_eq_iff)
  qed
  ultimately show ?thesis
    using hm.run_shown [OF _ assms(3)] unfolding hm_run_def by metis
qed

theorem hashmap_refines_map_witness:
  "\<exists>rs m. hm_run (=) [Put 5 8 50, Put 6 16 60, Erase 5 8, Find 6 16] (new_table (2 ^ 3)) = Some (rs, m) \<and>
     view_run (=) [Put 5 8 50, Put 6 16 60, Erase 5 8, Find 6 16] (\<lambda>k h. None) = Some (rs, content (=) m)"
  by (rule hashmap_refines_map) (simp_all add: identity_equivp)

section \<open>Iteration\<close>

lemma next_live_skip: "next_live m i = find (\<lambda>j. live (slots m ! j)) [i..<length (slots m)]"
proof (induction m i rule: next_live.induct)
  case (1 m i)
  then show ?case by (cases "i < length (slots m)") (simp_all add: next_live.simps [of m i] upt_conv_Cons)
qed

lemma visit_from: "visit m i = filter (\<lambda>j. live (slots m ! j)) [i..<length (slots m)]"
proof (induction m i rule: visit.induct)
  case (1 m i)
  show ?case
  proof (cases "next_live m i")
    case None
    then have "filter (\<lambda>j. live (slots m ! j)) [i..<length (slots m)] = []"
      by (simp add: next_live_skip find_None_iff filter_empty_conv)
    then show ?thesis using None by (simp add: visit.simps [of m i])
  next
    case (Some j)
    then have j: "i \<le> j" "j < length (slots m)" using next_live_bound by blast+
    have l: "live (slots m ! j)" "\<forall>k \<in> {i..<j}. \<not> live (slots m ! k)"
      using Some by (auto simp: next_live_skip find_Some_iff) (metis add_diff_cancel_left' diff_less_mono le_add_diff_inverse nth_upt less_imp_le_nat order_less_le_trans)
    have "[i..<length (slots m)] = [i..<j] @ j # [j + 1..<length (slots m)]"
      using j by (metis Suc_eq_plus1 le_add_diff_inverse upt_add_eq_append upt_conv_Cons less_imp_le_nat)
    moreover have "filter (\<lambda>j. live (slots m ! j)) [i..<j] = []" using l(2) by (simp add: filter_empty_conv)
    ultimately show ?thesis using 1 [OF Some] Some l(1) by (simp add: visit.simps [of m i])
  qed
qed

text \<open>A loop from \<open>Start\<close> with \<open>Next\<close> ends and visits every entry once, in the order of the slots.\<close>

lemma visits_every_entry: "map ((!) (slots m)) (visit m 0) = filter live (slots m)"
proof -
  have "filter live (slots m) = filter live (map ((!) (slots m)) [0..<length (slots m)])" by (simp add: map_nth)
  then show ?thesis by (simp add: visit_from filter_map comp_def)
qed

end
